(* ===== verification/Bao_Prelude.thy ===== *)
theory Bao_Prelude
  imports Main "HOL-Library.Word" "HOL-Library.AList" "HOL-Library.Char_ord"
    "HOL-Library.List_Lexorder" "HOL-Library.Product_Lexorder" "HOL-Library.Sublist"
begin

text \<open>
  Shared vocabulary of the development: Rust's fixed-width integers as words, its \<open>HashMap\<close> as an
  association list whose order is the (arbitrary) iteration order, the byte-string operations of
  \<open>str\<close> that the modelled code calls, and two interfaces that several components implement: a
  keyed store and a machine whose operations keep an invariant. Rust strings are UTF-8 byte
  sequences; \<open>string\<close> holds those bytes, so \<open>length\<close> is \<open>str::len\<close> and \<open>chars_count\<close> is
  \<open>chars().count()\<close>.
\<close>

named_theorems bao_store \<comment> \<open>equations of keyed stores\<close>
named_theorems bao_inv \<comment> \<open>preservation of component invariants\<close>

section \<open>Machine integers\<close>

type_synonym u8 = "8 word"
type_synonym u32 = "32 word"
type_synonym u64 = "64 word"

text \<open>An IEEE-754 double is carried as its bit pattern: the modelled code only moves it around.\<close>

type_synonym f64 = "64 word"

definition saturating_mul :: "u64 \<Rightarrow> u64 \<Rightarrow> u64" where
  "saturating_mul a b = (if unat a * unat b < 2 ^ 64 then a * b else - 1)"

definition saturating_add :: "u64 \<Rightarrow> u64 \<Rightarrow> u64" where
  "saturating_add a b = (if unat a + unat b < 2 ^ 64 then a + b else - 1)"

definition saturating_sub :: "u64 \<Rightarrow> u64 \<Rightarrow> u64" where
  "saturating_sub a b = (if a < b then 0 else a - b)"

definition saturating_pow :: "u64 \<Rightarrow> u32 \<Rightarrow> u64" where
  "saturating_pow a e = (if unat a ^ unat e < 2 ^ 64 then a ^ unat e else - 1)"

text \<open>\<open>x -= 1\<close> on \<open>usize\<close> in a release build, where 0 wraps to the largest value.\<close>

definition usize_dec :: "nat \<Rightarrow> nat" where
  "usize_dec n = (if n = 0 then 2 ^ 64 - 1 else n - 1)"

lemma usize_dec_pos [simp]: "0 < n \<Longrightarrow> usize_dec n = n - 1"
  by (simp add: usize_dec_def)

lemma unat_max_u64: "unat (- 1 :: u64) = 2 ^ 64 - 1"
proof -
  have "(- 1 :: u64) = of_nat (2 ^ 64 - 1)" by simp
  then have "unat (- 1 :: u64) = (2 ^ 64 - 1) mod 2 ^ 64" by (simp only: unat_of_nat) simp
  then show ?thesis by simp
qed

lemma unat_lt_u32: "unat (x :: u32) < 2 ^ 32" and unat_lt_u64: "unat (y :: u64) < 2 ^ 64"
  by (rule order_less_le_trans [OF unsigned_less], simp)+

lemma unat_power_no_wrap:
  fixes a :: "'a::len word"
  assumes "unat a ^ n < 2 ^ LENGTH('a)"
  shows "unat (a ^ n) = unat a ^ n"
proof -
  have "a ^ n = of_nat (unat a ^ n)" by simp
  then have "unat (a ^ n) = unat a ^ n mod 2 ^ LENGTH('a)"
    by (simp only: unat_of_nat)
  with assms show ?thesis by simp
qed

lemma unat_saturating_mul: "unat (saturating_mul a b) = min (unat a * unat b) (2 ^ 64 - 1)"
  by (auto simp: saturating_mul_def unat_word_ariths min_def unat_max_u64)

lemma unat_saturating_pow: "unat (saturating_pow a e) = min (unat a ^ unat e) (2 ^ 64 - 1)"
  using unat_power_no_wrap [of a "unat e"]
  by (auto simp: saturating_pow_def min_def unat_max_u64)

section \<open>Association lists as hash maps\<close>

type_synonym ('k, 'v) hash_map = "('k \<times> 'v) list"

abbreviation hm_get :: "('k, 'v) hash_map \<Rightarrow> 'k \<Rightarrow> 'v option" where
  "hm_get \<equiv> map_of"

abbreviation hm_insert :: "'k \<Rightarrow> 'v \<Rightarrow> ('k, 'v) hash_map \<Rightarrow> ('k, 'v) hash_map" where
  "hm_insert \<equiv> AList.update"

abbreviation hm_remove :: "'k \<Rightarrow> ('k, 'v) hash_map \<Rightarrow> ('k, 'v) hash_map" where
  "hm_remove \<equiv> AList.delete"

abbreviation hm_keys :: "('k, 'v) hash_map \<Rightarrow> 'k list" where
  "hm_keys m \<equiv> map fst m"

abbreviation hm_values :: "('k, 'v) hash_map \<Rightarrow> 'v list" where
  "hm_values m \<equiv> map snd m"

abbreviation hm_contains :: "('k, 'v) hash_map \<Rightarrow> 'k \<Rightarrow> bool" where
  "hm_contains m k \<equiv> (hm_get m k \<noteq> None)"

definition hm_wf :: "('k, 'v) hash_map \<Rightarrow> bool" where
  "hm_wf m \<longleftrightarrow> distinct (map fst m)"

lemma hm_wf_empty [simp, bao_inv]: "hm_wf []"
  by (simp add: hm_wf_def)

lemma hm_wf_insert [bao_inv]: "hm_wf m \<Longrightarrow> hm_wf (hm_insert k v m)"
  by (simp add: hm_wf_def distinct_update)

lemma hm_wf_remove [bao_inv]: "hm_wf m \<Longrightarrow> hm_wf (hm_remove k m)"
  by (simp add: hm_wf_def distinct_delete)

lemma hm_get_insert [bao_store]: "hm_get (hm_insert k v m) = (hm_get m)(k \<mapsto> v)"
  by (simp add: update_conv')

lemma hm_get_remove [bao_store]: "hm_get (hm_remove k m) = (hm_get m)(k := None)"
  by (simp add: delete_conv')

lemma hm_keys_get: "k \<in> set (hm_keys m) \<longleftrightarrow> hm_get m k \<noteq> None"
  by (simp add: map_of_eq_None_iff)

lemma hm_get_in_set: "hm_wf m \<Longrightarrow> hm_get m k = Some v \<longleftrightarrow> (k, v) \<in> set m"
  by (simp add: hm_wf_def)

text \<open>The interface of a keyed store, and what every client may conclude from it.\<close>

locale keyed_store =
  fixes lookup :: "'s \<Rightarrow> 'k \<Rightarrow> 'v option"
    and store :: "'k \<Rightarrow> 'v \<Rightarrow> 's \<Rightarrow> 's"
    and discard :: "'k \<Rightarrow> 's \<Rightarrow> 's"
    and wf :: "'s \<Rightarrow> bool"
  assumes lookup_store: "wf s \<Longrightarrow> lookup (store k v s) = (lookup s)(k \<mapsto> v)"
    and lookup_discard: "wf s \<Longrightarrow> lookup (discard k s) = (lookup s)(k := None)"
    and wf_store: "wf s \<Longrightarrow> wf (store k v s)"
    and wf_discard: "wf s \<Longrightarrow> wf (discard k s)"
begin

lemma store_roundtrip: "wf s \<Longrightarrow> lookup (store k v s) k = Some v"
  by (simp add: lookup_store)

lemma store_frame: "wf s \<Longrightarrow> j \<noteq> k \<Longrightarrow> lookup (store k v s) j = lookup s j"
  by (simp add: lookup_store)

lemma last_store_wins: "wf s \<Longrightarrow> lookup (store k w (store k v s)) = lookup (store k w s)"
  by (simp add: lookup_store wf_store)

lemma discard_gone: "wf s \<Longrightarrow> lookup (discard k s) k = None"
  by (simp add: lookup_discard)

lemma discard_frame: "wf s \<Longrightarrow> j \<noteq> k \<Longrightarrow> lookup (discard k s) j = lookup s j"
  by (simp add: lookup_discard)

lemma discard_undoes_store:
  "wf s \<Longrightarrow> lookup s k = None \<Longrightarrow> lookup (discard k (store k v s)) = lookup s"
  by (auto simp: lookup_store lookup_discard wf_store)

lemma wf_store_all: "wf s \<Longrightarrow> wf (fold (\<lambda>(k, v). store k v) kvs s)"
  by (induction kvs arbitrary: s) (auto simp: wf_store split: prod.splits)

lemma lookup_store_all:
  "wf s \<Longrightarrow> lookup (fold (\<lambda>(k, v). store k v) kvs s) = (lookup s) ++ map_of (rev kvs)"
proof (induction kvs arbitrary: s)
  case Nil
  then show ?case by simp
next
  case (Cons kv kvs)
  obtain k v where kv: "kv = (k, v)" by (cases kv)
  from Cons.prems have "wf (store k v s)" by (rule wf_store)
  from Cons.IH [OF this] Cons.prems show ?case
    by (simp add: kv lookup_store fun_eq_iff map_add_def split: option.split)
qed

end

interpretation hm: keyed_store hm_get hm_insert hm_remove hm_wf
  by unfold_locales (simp_all add: hm_get_insert hm_get_remove hm_wf_insert hm_wf_remove)

section \<open>Machines that keep an invariant\<close>

text \<open>
  A component whose operations are the values of a type \<open>'o\<close>: once each single operation keeps
  \<open>inv\<close>, every interleaving of them does.
\<close>

locale machine =
  fixes step :: "'o \<Rightarrow> 's \<Rightarrow> 's"
    and inv :: "'s \<Rightarrow> bool"
  assumes step_inv: "inv s \<Longrightarrow> inv (step c s)"
begin

lemma run_inv: "inv s \<Longrightarrow> inv (fold step cs s)"
  by (induction cs arbitrary: s) (auto simp: step_inv)

end

text \<open>The same for the operations that satisfy a guard.\<close>

locale guarded_machine =
  fixes step :: "'o \<Rightarrow> 's \<Rightarrow> 's"
    and inv :: "'s \<Rightarrow> bool"
    and guard :: "'o \<Rightarrow> bool"
  assumes guarded_step_inv: "guard c \<Longrightarrow> inv s \<Longrightarrow> inv (step c s)"
begin

lemma run_inv: "inv s \<Longrightarrow> list_all guard cs \<Longrightarrow> inv (fold step cs s)"
  by (induction cs arbitrary: s) (auto simp: guarded_step_inv)

end

text \<open>The counted loop \<open>for i in a..b\<close>: an invariant indexed by the counter.\<close>

lemma fold_upt_invariant:
  assumes "a \<le> b" "P a s" and "\<And>i s. a \<le> i \<Longrightarrow> i < b \<Longrightarrow> P i s \<Longrightarrow> P (Suc i) (f i s)"
  shows "P b (fold f [a..<b] s)"
  using assms
proof (induction b)
  case (Suc b)
  show ?case
  proof (cases "a \<le> b")
    case True
    with Suc have "P b (fold f [a..<b] s)" by simp
    with Suc.prems(3) [of b] True show ?thesis by simp
  next
    case False
    with Suc.prems have "a = Suc b" by simp
    with Suc.prems(2) show ?thesis by simp
  qed
qed simp

section \<open>Byte strings\<close>

definition byte :: "char \<Rightarrow> nat" where
  "byte c = of_char c"

definition ascii_lower :: "char \<Rightarrow> char" where
  "ascii_lower c = (if 65 \<le> byte c \<and> byte c \<le> 90 then char_of (byte c + 32) else c)"

definition to_ascii_lowercase :: "string \<Rightarrow> string" where
  "to_ascii_lowercase s = map ascii_lower s"

definition eq_ignore_ascii_case :: "string \<Rightarrow> string \<Rightarrow> bool" where
  "eq_ignore_ascii_case a b \<longleftrightarrow> to_ascii_lowercase a = to_ascii_lowercase b"

lemma eq_ignore_ascii_case_refl [simp]: "eq_ignore_ascii_case a a"
  by (simp add: eq_ignore_ascii_case_def)

abbreviation starts_with :: "string \<Rightarrow> string \<Rightarrow> bool" where
  "starts_with s p \<equiv> prefix p s"

abbreviation str_contains :: "string \<Rightarrow> string \<Rightarrow> bool" where
  "str_contains s p \<equiv> sublist p s"

definition quoted :: "string \<Rightarrow> string" where
  "quoted s = [CHR 0x27] @ s @ [CHR 0x27]"

fun join_str :: "string \<Rightarrow> string list \<Rightarrow> string" where
  "join_str sep [] = []"
| "join_str sep [x] = x"
| "join_str sep (x # y # xs) = x @ sep @ join_str sep (y # xs)"

text \<open>\<open>format!("{}", n)\<close> on an unsigned integer.\<close>

fun show_nat :: "nat \<Rightarrow> string" where
  "show_nat n = (if n < 10 then [char_of (48 + n)] else show_nat (n div 10) @ [char_of (48 + n mod 10)])"

declare show_nat.simps [simp del]

text \<open>
  \<open>str::trim\<close> removes the Unicode white space: the ASCII controls 9 to 13 and the space, and the
  multi-byte code points listed here by their UTF-8 bytes.
\<close>

definition unicode_spaces :: "string list" where
  "unicode_spaces =
     map (\<lambda>n. [char_of n]) [9 :: nat, 10, 11, 12, 13, 32] @
     map (map char_of) ([[0xC2, 0x85], [0xC2, 0xA0], [0xE1, 0x9A, 0x80]] @
       map (\<lambda>n. [0xE2, 0x80, n]) [0x80, 0x81, 0x82, 0x83, 0x84, 0x85, 0x86, 0x87, 0x88, 0x89, 0x8A, 0xA8, 0xA9, 0xAF] @
       [[0xE2, 0x81, 0x9F], [0xE3, 0x80, 0x80 :: nat]])"

function trim_start :: "string \<Rightarrow> string" where
  "trim_start s = (case List.find (\<lambda>w. w \<noteq> [] \<and> prefix w s) unicode_spaces of
     Some w \<Rightarrow> trim_start (drop (length w) s) | None \<Rightarrow> s)"
  by pat_completeness auto
termination
  by (relation "measure length") (auto simp: find_Some_iff prefix_def)

function trim_end :: "string \<Rightarrow> string" where
  "trim_end s = (case List.find (\<lambda>w. w \<noteq> [] \<and> suffix w s) unicode_spaces of
     Some w \<Rightarrow> trim_end (take (length s - length w) s) | None \<Rightarrow> s)"
  by pat_completeness auto
termination
  by (relation "measure length") (auto simp: find_Some_iff suffix_def)

declare trim_start.simps [simp del] trim_end.simps [simp del]

definition str_trim :: "string \<Rightarrow> string" where
  "str_trim s = trim_end (trim_start s)"

text \<open>A string that begins and ends with a graphic ASCII character has nothing to trim.\<close>

definition graphic :: "char \<Rightarrow> bool" where
  "graphic c \<longleftrightarrow> 33 \<le> byte c \<and> byte c \<le> 126"

lemma spaces_not_graphic: "list_all (\<lambda>w. w \<noteq> [] \<longrightarrow> \<not> graphic (hd w) \<and> \<not> graphic (last w)) unicode_spaces"
  by (simp add: unicode_spaces_def graphic_def byte_def)

lemma trim_graphic:
  assumes "s \<noteq> []" "graphic (hd s)" "graphic (last s)"
  shows "str_trim s = s"
proof -
  have "List.find (\<lambda>w. w \<noteq> [] \<and> prefix w s) unicode_spaces = None"
    "List.find (\<lambda>w. w \<noteq> [] \<and> suffix w s) unicode_spaces = None"
    using assms spaces_not_graphic by (fastforce simp: find_None_iff list_all_iff prefix_def suffix_def)+
  then show ?thesis by (simp add: str_trim_def trim_start.simps [of s] trim_end.simps [of s])
qed

text \<open>UTF-8: continuation bytes are \<open>0x80 .. 0xBF\<close>; a code point starts at every other byte.\<close>

definition is_cont :: "char \<Rightarrow> bool" where
  "is_cont c \<longleftrightarrow> 128 \<le> byte c \<and> byte c < 192"

definition chars_count :: "string \<Rightarrow> nat" where
  "chars_count s = length (filter (\<lambda>c. \<not> is_cont c) s)"

definition is_char_boundary :: "string \<Rightarrow> nat \<Rightarrow> bool" where
  "is_char_boundary s i \<longleftrightarrow> i = 0 \<or> i = length s \<or> (i < length s \<and> \<not> is_cont (s ! i))"

lemma chars_count_le: "chars_count s \<le> length s"
  by (simp add: chars_count_def)

text \<open>\<open>s.chars()\<close>: the code points of a string, each as its bytes.\<close>

fun chars :: "string \<Rightarrow> string list" where
  "chars [] = []"
| "chars (c # cs) = (case chars cs of
      (d # ds) # rest \<Rightarrow> if is_cont d then (c # d # ds) # rest else [c] # (d # ds) # rest
    | rest \<Rightarrow> [c] # rest)"

definition take_chars :: "nat \<Rightarrow> string \<Rightarrow> string" where
  "take_chars n s = concat (take n (chars s))"

lemma concat_chars [simp]: "concat (chars s) = s"
  by (induction s) (auto split: list.splits)

lemma take_chars_prefix: "prefix (take_chars n s) s"
  unfolding take_chars_def
  by (metis append_take_drop_id concat_append concat_chars prefixI)

end
