(* ===== verification/Bao_Fallback.thy ===== *)
theory Bao_Fallback
  imports Bao_Prelude
begin

text \<open>
  \<open>api/retry.rs\<close> (exponential backoff) and \<open>api/fallback.rs\<close> (the model fallback chain). The
  controller is a record of its private fields; \<open>u32\<close> counters wrap as in a release build. Reading
  \<open>chain[current_index]\<close> out of range panics, which is \<open>None\<close> here, and \<open>wf_controller\<close> is the
  invariant under which it never happens. Durations are milliseconds.
\<close>

section \<open>Backoff\<close>

record retry_config =
  rc_max_retries :: u32
  rc_initial_delay_ms :: u64
  rc_max_delay_ms :: u64

definition default_retry_config :: retry_config where
  "default_retry_config = \<lparr>rc_max_retries = 3, rc_initial_delay_ms = 1000, rc_max_delay_ms = 30000\<rparr>"

definition calculate_backoff :: "u32 \<Rightarrow> retry_config \<Rightarrow> u64" where
  "calculate_backoff attempt config =
     (let delay_ms = saturating_mul (rc_initial_delay_ms config) (saturating_pow 2 attempt)
      in min delay_ms (rc_max_delay_ms config))"

lemma unat_min: "unat (min a b) = min (unat a) (unat b)" for a b :: "'a::len word"
  by (simp add: min_def word_le_nat_alt)

lemma saturating_product_cap:
  fixes i p m t :: nat
  assumes "m \<le> t"
  shows "min (min (i * min p t) t) m = min (i * p) m"
proof (cases "i = 0 \<or> p \<le> t")
  case True
  with assms show ?thesis by auto
next
  case False
  then have i: "1 \<le> i" and p: "t < p" by auto
  from i have "1 * t \<le> i * t" by (rule mult_le_mono1)
  moreover from i have "1 * p \<le> i * p" by (rule mult_le_mono1)
  ultimately have "m \<le> i * t" "m \<le> i * p" using assms p by linarith+
  with assms p show ?thesis by (simp add: min_def not_le)
qed

lemma calculate_backoff_nat:
  "unat (calculate_backoff a cfg) =
     min (unat (rc_initial_delay_ms cfg) * 2 ^ unat a) (unat (rc_max_delay_ms cfg))"
proof -
  have "unat (rc_max_delay_ms cfg) \<le> 2 ^ 64 - 1"
    using unat_lt_u64 [of "rc_max_delay_ms cfg"] by simp
  from saturating_product_cap [OF this] show ?thesis
    by (simp add: calculate_backoff_def Let_def unat_min unat_saturating_mul unat_saturating_pow)
qed

section \<open>Configuration\<close>

record model_profile =
  mp_model :: string
  mp_api_type :: string
  mp_api_key :: "string option"
  mp_base_url :: "string option"
  mp_context_window :: u64
  mp_auto_compact_threshold_ratio :: f64
  mp_max_retries_per_model :: u32

text \<open>The fields of \<open>BaoclawConfig\<close> that \<open>FallbackController::new\<close> reads.\<close>

record baoclaw_config =
  cfg_model :: string
  cfg_fallback_models :: "string list"
  cfg_max_retries_per_model :: u32
  cfg_model_profiles :: "(string, model_profile) hash_map"
  cfg_primary_profile :: "string option"
  cfg_fallback_profiles :: "string list"

section \<open>The fallback controller\<close>

datatype fallback_action =
    Retry (act_model: string) (act_attempt: u32) (act_delay: u64)
  | Fallback (act_from: string) (act_to: string)
  | Exhausted (act_tried: "string list") (act_total: u32)

record fallback_controller =
  fc_chain :: "string list"
  fc_current_index :: nat
  fc_retry_count :: u32
  fc_max_retries_per_model :: u32
  fc_total_retries :: u32
  fc_server_error_count :: u32

definition chain_primary :: "baoclaw_config \<Rightarrow> string" where
  "chain_primary config =
     (case cfg_primary_profile config of
        Some primary_name \<Rightarrow>
          (case hm_get (cfg_model_profiles config) primary_name of
             Some primary_profile \<Rightarrow> mp_model primary_profile
           | None \<Rightarrow> cfg_model config)
      | None \<Rightarrow> cfg_model config)"

fun chain_fallbacks :: "(string, model_profile) hash_map \<Rightarrow> string list \<Rightarrow> string list" where
  "chain_fallbacks profiles [] = []"
| "chain_fallbacks profiles (fallback_name # names) =
     (case hm_get profiles fallback_name of
        Some fallback_profile \<Rightarrow> mp_model fallback_profile # chain_fallbacks profiles names
      | None \<Rightarrow> chain_fallbacks profiles names)"

definition fallback_new :: "baoclaw_config \<Rightarrow> fallback_controller" where
  "fallback_new config =
     \<lparr>fc_chain =
        (if cfg_model_profiles config \<noteq> []
         then chain_primary config # chain_fallbacks (cfg_model_profiles config) (cfg_fallback_profiles config)
         else cfg_model config # cfg_fallback_models config),
      fc_current_index = 0,
      fc_retry_count = 0,
      fc_max_retries_per_model = cfg_max_retries_per_model config,
      fc_total_retries = 0,
      fc_server_error_count = 0\<rparr>"

definition index_chain :: "fallback_controller \<Rightarrow> nat \<Rightarrow> string option" where
  "index_chain c i = (if i < length (fc_chain c) then Some (fc_chain c ! i) else None)"

text \<open>Moving on to the next model, or giving up: the tail shared by both error handlers.\<close>

definition advance_chain :: "fallback_controller \<Rightarrow> (fallback_action \<times> fallback_controller) option" where
  "advance_chain c =
     (if fc_current_index c + 1 < length (fc_chain c) then
        Option.bind (index_chain c (fc_current_index c)) (\<lambda>from.
          let c' = c\<lparr>fc_current_index := fc_current_index c + 1, fc_retry_count := 0,
                     fc_server_error_count := 0\<rparr>
          in Option.bind (index_chain c' (fc_current_index c')) (\<lambda>to. Some (Fallback from to, c')))
      else Some (Exhausted (fc_chain c) (fc_total_retries c), c))"

definition on_rate_limit :: "fallback_controller \<Rightarrow> (fallback_action \<times> fallback_controller) option" where
  "on_rate_limit c0 =
     (let c = c0\<lparr>fc_retry_count := fc_retry_count c0 + 1, fc_total_retries := fc_total_retries c0 + 1\<rparr>
      in if fc_retry_count c < fc_max_retries_per_model c then
           Option.bind (index_chain c (fc_current_index c)) (\<lambda>m.
             Some (Retry m (fc_retry_count c)
                     (calculate_backoff (fc_retry_count c - 1) default_retry_config), c))
         else advance_chain c)"

definition on_server_error :: "fallback_controller \<Rightarrow> fallback_controller" where
  "on_server_error c = c\<lparr>fc_server_error_count := fc_server_error_count c + 1\<rparr>"

definition on_server_error_exhausted ::
  "fallback_controller \<Rightarrow> (fallback_action \<times> fallback_controller) option" where
  "on_server_error_exhausted c = advance_chain c"

definition current_model :: "fallback_controller \<Rightarrow> string option" where
  "current_model c = index_chain c (fc_current_index c)"

definition fallback_reset :: "fallback_controller \<Rightarrow> fallback_controller" where
  "fallback_reset c = c\<lparr>fc_current_index := 0, fc_retry_count := 0, fc_total_retries := 0\<rparr>"

section \<open>Invariant\<close>

definition wf_controller :: "fallback_controller \<Rightarrow> bool" where
  "wf_controller c \<longleftrightarrow> fc_current_index c < length (fc_chain c)"

lemma wf_new: "wf_controller (fallback_new config)"
  by (simp add: wf_controller_def fallback_new_def)

datatype fallback_event = RateLimited | ServerError | ServerErrorsExhausted | ResetQuery

text \<open>One event handled by the controller, and whether handling it panics.\<close>

definition fallback_event_result :: "fallback_event \<Rightarrow> fallback_controller \<Rightarrow> fallback_controller option" where
  "fallback_event_result e c =
     (case e of
        RateLimited \<Rightarrow> map_option snd (on_rate_limit c)
      | ServerError \<Rightarrow> Some (on_server_error c)
      | ServerErrorsExhausted \<Rightarrow> map_option snd (on_server_error_exhausted c)
      | ResetQuery \<Rightarrow> Some (fallback_reset c))"

definition fallback_step :: "fallback_event \<Rightarrow> fallback_controller option \<Rightarrow> fallback_controller option" where
  "fallback_step e s = Option.bind s (fallback_event_result e)"

lemma advance_chain_wf:
  assumes "wf_controller c"
  shows "\<exists>a c'. advance_chain c = Some (a, c') \<and> wf_controller c' \<and> fc_chain c' = fc_chain c"
  using assms by (auto simp: advance_chain_def index_chain_def wf_controller_def Let_def)

lemma on_rate_limit_wf:
  assumes "wf_controller c"
  shows "\<exists>a c'. on_rate_limit c = Some (a, c') \<and> wf_controller c' \<and> fc_chain c' = fc_chain c"
proof -
  let ?c = "c\<lparr>fc_retry_count := fc_retry_count c + 1, fc_total_retries := fc_total_retries c + 1\<rparr>"
  have "wf_controller ?c" using assms by (simp add: wf_controller_def)
  from advance_chain_wf [OF this] this show ?thesis
    by (auto simp: on_rate_limit_def Let_def index_chain_def wf_controller_def)
qed

lemma fallback_event_wf:
  assumes "wf_controller c"
  shows "\<exists>c'. fallback_event_result e c = Some c' \<and> wf_controller c' \<and> fc_chain c' = fc_chain c"
  using on_rate_limit_wf [OF assms] advance_chain_wf [OF assms] assms
  by (cases e) (auto simp: fallback_event_result_def on_server_error_exhausted_def
      on_server_error_def fallback_reset_def wf_controller_def)

definition running_on :: "string list \<Rightarrow> fallback_controller option \<Rightarrow> bool" where
  "running_on chain s \<longleftrightarrow> (\<exists>c. s = Some c \<and> wf_controller c \<and> fc_chain c = chain)"

interpretation fallback: machine fallback_step "running_on chain" for chain
  by unfold_locales (use fallback_event_wf in \<open>fastforce simp: running_on_def fallback_step_def\<close>)

text \<open>
  C17. Whatever sequence of rate limits, server errors, exhausted server-error retries and resets the
  controller built from any configuration goes through, no handler indexes the chain out of
  range: the controller stays defined, keeps its chain, and \<open>current_model\<close> is a model of it.
\<close>

theorem fallback_never_panics:
  "\<exists>c m. fold fallback_step events (Some (fallback_new config)) = Some c \<and>
     fc_chain c = fc_chain (fallback_new config) \<and>
     current_model c = Some m \<and> m \<in> set (fc_chain (fallback_new config))"
proof -
  have "running_on (fc_chain (fallback_new config)) (Some (fallback_new config))"
    by (simp add: running_on_def wf_new)
  then have "running_on (fc_chain (fallback_new config))
      (fold fallback_step events (Some (fallback_new config)))"
    by (rule fallback.run_inv)
  then show ?thesis
    by (auto simp: running_on_def current_model_def index_chain_def wf_controller_def)
qed

section \<open>The course of a rate-limited query\<close>

text \<open>Attempts each model gets: \<open>max_retries_per_model\<close>, but never less than one.\<close>

definition attempts_per_model :: "baoclaw_config \<Rightarrow> nat" where
  "attempts_per_model config = max 1 (unat (cfg_max_retries_per_model config))"

fun after_rate_limits :: "nat \<Rightarrow> fallback_controller \<Rightarrow> fallback_controller option" where
  "after_rate_limits 0 c = Some c"
| "after_rate_limits (Suc n) c = Option.bind (after_rate_limits n c) (map_option snd \<circ> on_rate_limit)"

definition nth_rate_limit_action :: "nat \<Rightarrow> fallback_controller \<Rightarrow> fallback_action option" where
  "nth_rate_limit_action n c = Option.bind (after_rate_limits n c) (map_option fst \<circ> on_rate_limit)"

definition state_after :: "baoclaw_config \<Rightarrow> nat \<Rightarrow> fallback_controller" where
  "state_after config k =
     (fallback_new config)\<lparr>fc_current_index := k div attempts_per_model config,
        fc_retry_count := of_nat (k mod attempts_per_model config), fc_total_retries := of_nat k\<rparr>"

definition expected_action :: "baoclaw_config \<Rightarrow> nat \<Rightarrow> fallback_action" where
  "expected_action config k =
     (let M = attempts_per_model config; chain = fc_chain (fallback_new config); n = k + 1
      in if n mod M \<noteq> 0
         then Retry (chain ! (n div M)) (of_nat (n mod M))
                (calculate_backoff (of_nat (n mod M - 1)) default_retry_config)
         else if n div M < length chain then Fallback (chain ! (n div M - 1)) (chain ! (n div M))
         else Exhausted chain (of_nat n))"

lemma attempts_pos: "0 < attempts_per_model config"
  by (simp add: attempts_per_model_def)

lemma retry_guard:
  assumes "r < attempts_per_model config"
  shows "(of_nat r + 1 < cfg_max_retries_per_model config) \<longleftrightarrow> Suc r < attempts_per_model config"
proof -
  have "attempts_per_model config < 2 ^ 32"
    using unat_lt_u32 [of "cfg_max_retries_per_model config"] by (simp add: attempts_per_model_def)
  with assms have "Suc r < 2 ^ 32" by simp
  then have "unat (of_nat (Suc r) :: u32) = Suc r"
    by (simp only: unat_of_nat) simp
  then have "unat (of_nat r + 1 :: u32) = Suc r" by (simp add: add.commute)
  then show ?thesis by (auto simp: word_less_nat_alt attempts_per_model_def)
qed

lemma rate_limit_step:
  assumes k: "k < length (fc_chain (fallback_new config)) * attempts_per_model config"
  shows "map_option fst (on_rate_limit (state_after config k)) = Some (expected_action config k)"
    and "Suc k < length (fc_chain (fallback_new config)) * attempts_per_model config \<Longrightarrow>
      map_option snd (on_rate_limit (state_after config k)) = Some (state_after config (Suc k))"
proof -
  let ?M = "attempts_per_model config" and ?chain = "fc_chain (fallback_new config)"
  let ?q = "k div ?M" and ?r = "k mod ?M"
  have q: "?q < length ?chain" using k attempts_pos by (simp add: div_less_iff_less_mult)
  have r: "?r < ?M" using attempts_pos by simp
  note guard = retry_guard [OF r]
  have new: "fc_max_retries_per_model (fallback_new config) = cfg_max_retries_per_model config"
    "fc_server_error_count (fallback_new config) = 0"
    by (simp_all add: fallback_new_def)
  have unfold: "on_rate_limit (state_after config k) =
    (let c = (state_after config k)\<lparr>fc_retry_count := of_nat ?r + 1, fc_total_retries := of_nat k + 1\<rparr>
     in if Suc ?r < ?M then Some (Retry (?chain ! ?q) (of_nat ?r + 1)
          (calculate_backoff (of_nat ?r) default_retry_config), c)
        else advance_chain c)"
    using q guard by (simp add: on_rate_limit_def state_after_def Let_def index_chain_def new)
  have "map_option fst (on_rate_limit (state_after config k)) = Some (expected_action config k) \<and>
    (Suc k < length ?chain * ?M \<longrightarrow>
      map_option snd (on_rate_limit (state_after config k)) = Some (state_after config (Suc k)))"
  proof (cases "Suc ?r < ?M")
    case True
    then have "Suc k div ?M = ?q" "Suc k mod ?M = Suc ?r"
      by (auto simp: div_Suc mod_Suc)
    with True show ?thesis
      unfolding unfold by (simp add: expected_action_def state_after_def Let_def add.commute)
  next
    case False
    with r have eq: "Suc ?r = ?M" by simp
    then have div: "Suc k div ?M = Suc ?q" and mod: "Suc k mod ?M = 0"
      by (auto simp: div_Suc mod_Suc)
    have last: "Suc ?q < length ?chain" if "Suc k < length ?chain * ?M"
      using that attempts_pos div by (metis div_less_iff_less_mult)
    show ?thesis
      using False q div mod last unfolding unfold
      by (auto simp: expected_action_def state_after_def Let_def advance_chain_def
          index_chain_def new add.commute)
  qed
  then show "map_option fst (on_rate_limit (state_after config k)) = Some (expected_action config k)"
    and "Suc k < length ?chain * ?M \<Longrightarrow>
      map_option snd (on_rate_limit (state_after config k)) = Some (state_after config (Suc k))"
    by auto
qed

lemma after_rate_limits_eq:
  "k < length (fc_chain (fallback_new config)) * attempts_per_model config \<Longrightarrow>
     after_rate_limits k (fallback_new config) = Some (state_after config k)"
proof (induction k)
  case 0
  then show ?case by (simp add: state_after_def fallback_new_def)
next
  case (Suc k)
  then have "after_rate_limits k (fallback_new config) = Some (state_after config k)" by simp
  with rate_limit_step(2) [of k config] Suc.prems show ?case by simp
qed

text \<open>
  A query that only meets rate limits goes through the chain in order: with \<open>M\<close> attempts per
  model (\<open>max_retries_per_model\<close>, at least one) and \<open>L\<close> models, the \<open>n\<close>-th rate limit
  (\<open>n \<le> L * M\<close>) answers Retry on model \<open>n div M\<close> with the backoff of its attempt number, Fallback
  to the next model at each multiple of \<open>M\<close>, and Exhausted exactly at \<open>n = L * M\<close>.
\<close>

lemma rate_limit_course:
  assumes "n < length (fc_chain (fallback_new config)) * attempts_per_model config"
  shows "nth_rate_limit_action n (fallback_new config) = Some (expected_action config n)"
  using rate_limit_step(1) [OF assms] after_rate_limits_eq [OF assms]
  by (simp add: nth_rate_limit_action_def)

definition sample_config :: baoclaw_config where
  "sample_config = \<lparr>cfg_model = ''m0'', cfg_fallback_models = [''m1''], cfg_max_retries_per_model = 2,
     cfg_model_profiles = [], cfg_primary_profile = None, cfg_fallback_profiles = []\<rparr>"

lemma sample_attempts: "attempts_per_model sample_config = 2"
  by (simp add: attempts_per_model_def sample_config_def)

lemma sample_chain: "fc_chain (fallback_new sample_config) = [''m0'', ''m1'']"
  by (simp add: fallback_new_def sample_config_def)

lemma rate_limit_course_witness:
  "(3 < length (fc_chain (fallback_new sample_config)) * attempts_per_model sample_config) \<and>
   nth_rate_limit_action 3 (fallback_new sample_config) = Some (Exhausted [''m0'', ''m1''] 4)"
proof -
  have h: "3 < length (fc_chain (fallback_new sample_config)) * attempts_per_model sample_config"
    by (simp add: sample_attempts sample_chain)
  have "expected_action sample_config 3 = Exhausted [''m0'', ''m1''] 4"
    by (simp add: expected_action_def sample_attempts sample_chain)
  with h rate_limit_course [OF h] show ?thesis by simp
qed

text \<open>
  The backoff delay is exactly \<open>min (initial * 2 ^ attempt) max\<close> over the integers for every
  attempt number: the two saturating operations never make it differ, and in particular it never
  exceeds the cap.
\<close>

lemma backoff_exact:
  "unat (calculate_backoff attempt config) =
     min (unat (rc_initial_delay_ms config) * 2 ^ unat attempt) (unat (rc_max_delay_ms config))"
  by (rule calculate_backoff_nat)

end
