(* ===== verification/Bao_Text.thy ===== *)
theory Bao_Text
  imports Bao_Prelude
begin

text \<open>
  The string functions of the Rust standard library that several components parse with: splitting, numbers,
  lower case, and searching. A string is its UTF-8 bytes.
\<close>

section \<open>Splitting\<close>

text \<open>\<open>s.split(c)\<close>: the pieces between occurrences of \<open>c\<close>, at least one.\<close>

fun split_char :: "char \<Rightarrow> string \<Rightarrow> string list" where
  "split_char c [] = [[]]"
| "split_char c (x # xs) =
     (if x = c then [] # split_char c xs
      else (case split_char c xs of [] \<Rightarrow> [[x]] | p # ps \<Rightarrow> (x # p) # ps))"

lemma split_char_nonempty [simp]: "split_char c s \<noteq> []"
  by (induction s) (auto split: list.splits)

lemma split_char_join: "join_str [c] (split_char c s) = s"
proof (induction s)
  case Nil
  then show ?case by simp
next
  case (Cons x xs)
  obtain p ps where "split_char c xs = p # ps" by (cases "split_char c xs") auto
  with Cons show ?case by (cases ps) auto
qed

lemma split_char_pieces: "p \<in> set (split_char c s) \<Longrightarrow> c \<notin> set p"
  by (induction s arbitrary: p) (auto split: if_splits list.splits)

lemma split_char_no_sep: "c \<notin> set s \<Longrightarrow> split_char c s = [s]"
  by (induction s) auto

lemma split_char_append: "c \<notin> set s \<Longrightarrow> split_char c (s @ c # t) = s # split_char c t"
  by (induction s) auto

text \<open>\<open>s.lines()\<close>: a line ends with a newline, and a carriage return before it belongs to the end.\<close>

definition strip_cr :: "string \<Rightarrow> string" where
  "strip_cr l = (if l \<noteq> [] \<and> last l = CHR 0x0D then butlast l else l)"

definition str_lines :: "string \<Rightarrow> string list" where
  "str_lines s =
     (let ls = split_char (CHR 0x0A) s
      in map strip_cr (butlast ls) @ (if last ls = [] then [] else [last ls]))"

function split_ws :: "string \<Rightarrow> string \<Rightarrow> string list" where
  "split_ws acc [] = (if acc = [] then [] else [acc])"
| "split_ws acc (c # cs) =
     (case List.find (\<lambda>w. w \<noteq> [] \<and> prefix w (c # cs)) unicode_spaces of
        Some w \<Rightarrow> (if acc = [] then [] else [acc]) @ split_ws [] (drop (length w) (c # cs))
      | None \<Rightarrow> split_ws (acc @ [c]) cs)"
  by pat_completeness auto
termination split_ws
  by (relation "measure (\<lambda>(acc, s). length s)") (auto simp: find_Some_iff prefix_def)

definition split_whitespace :: "string \<Rightarrow> string list" where
  "split_whitespace s = split_ws [] s"

text \<open>The text before and after the first occurrence of a pattern (\<open>split_once\<close>, \<open>splitn(2, _)\<close>, \<open>find\<close>).\<close>

fun split_once :: "string \<Rightarrow> string \<Rightarrow> (string \<times> string) option" where
  "split_once p [] = (if p = [] then Some ([], []) else None)"
| "split_once p (c # s) =
     (if prefix p (c # s) then Some ([], drop (length p) (c # s))
      else map_option (\<lambda>(a, b). (c # a, b)) (split_once p s))"

lemma split_once_first: "p \<noteq> [] \<Longrightarrow> hd p \<notin> set a \<Longrightarrow> split_once p (a @ p @ b) = Some (a, b)"
proof (induction a)
  case Nil
  then obtain c p' where "p = c # p'" by (cases p) auto
  then show ?case by simp
next
  case (Cons x a)
  then have "\<not> prefix p (x # a @ p @ b)" by (cases p) auto
  with Cons show ?case by simp
qed

lemma split_once_None: "split_once p s = None \<longleftrightarrow> \<not> str_contains s p"
  by (induction s) (auto simp: sublist_Cons_right)

text \<open>The text before and after the last occurrence of a byte (\<open>rsplit\<close>, \<open>rsplitn(2, _)\<close>).\<close>

fun rsplit_once :: "char \<Rightarrow> string \<Rightarrow> (string \<times> string) option" where
  "rsplit_once x [] = None"
| "rsplit_once x (c # s) =
     (case rsplit_once x s of
        Some (a, b) \<Rightarrow> Some (c # a, b)
      | None \<Rightarrow> if c = x then Some ([], s) else None)"

lemma rsplit_once_None: "rsplit_once x s = None \<longleftrightarrow> x \<notin> set s"
  by (induction s) (auto split: option.splits)

definition strip_prefix :: "string \<Rightarrow> string \<Rightarrow> string option" where
  "strip_prefix p s = (if prefix p s then Some (drop (length p) s) else None)"

section \<open>Numbers\<close>

definition u64_max :: nat where
  "u64_max = 2 ^ 64 - 1"

definition u32_max :: nat where
  "u32_max = 2 ^ 32 - 1"

definition is_digit :: "char \<Rightarrow> bool" where
  "is_digit c \<longleftrightarrow> 48 \<le> byte c \<and> byte c \<le> 57"

definition digits_value :: "string \<Rightarrow> nat" where
  "digits_value s = foldl (\<lambda>n c. n * 10 + (byte c - 48)) 0 s"

text \<open>\<open>str::parse\<close> for an unsigned integer: an optional plus sign, then digits, within the range.\<close>

definition parse_uint :: "nat \<Rightarrow> string \<Rightarrow> nat option" where
  "parse_uint mx s =
     (let d = (case s of c # cs \<Rightarrow> if c = CHR ''+'' then cs else s | [] \<Rightarrow> [])
      in if d = [] \<or> \<not> list_all is_digit d then None
         else if digits_value d \<le> mx then Some (digits_value d) else None)"

text \<open>Numbers in base \<open>k\<close> agree digit by digit.\<close>

lemma digit_eq:
  fixes x y c e k :: nat
  assumes "y < k" "e < k"
  shows "x * k + y = c * k + e \<longleftrightarrow> x = c \<and> y = e"
proof
  assume eq: "x * k + y = c * k + e"
  have "(x * k + y) div k = x" "(c * k + e) div k = c" using assms by simp_all
  with eq show "x = c \<and> y = e" by simp
qed simp

lemma byte_digit: "n < 10 \<Longrightarrow> byte (char_of (48 + n)) = 48 + n"
  by (simp add: byte_def)

lemma show_nat_step: "show_nat n = (if n < 10 then [char_of (48 + n)] else show_nat (n div 10) @ [char_of (48 + n mod 10)])"
  by (rule show_nat.simps)

lemma show_nat_digits: "list_all is_digit (show_nat n) \<and> show_nat n \<noteq> [] \<and> digits_value (show_nat n) = n"
proof (induction n rule: less_induct)
  case (less n)
  show ?case
  proof (cases "n < 10")
    case True
    then show ?thesis by (subst (1 2 3) show_nat_step) (simp add: is_digit_def digits_value_def byte_digit)
  next
    case False
    have "n mod 10 < 10" by simp
    then have d: "byte (char_of (48 + n mod 10)) = 48 + n mod 10" "is_digit (char_of (48 + n mod 10))"
      by (simp_all only: byte_digit is_digit_def) simp
    have "digits_value (s @ [c]) = digits_value s * 10 + (byte c - 48)" for s c by (simp add: digits_value_def)
    with less.IH [of "n div 10"] d False show ?thesis by (subst (1 2 3) show_nat_step) simp
  qed
qed

lemma parse_uint_show: "parse_uint mx (show_nat n) = (if n \<le> mx then Some n else None)"
proof -
  obtain c cs where c: "show_nat n = c # cs" using show_nat_digits [of n] by (cases "show_nat n") auto
  with show_nat_digits [of n] have "is_digit c" by simp
  then have "c \<noteq> CHR ''+''" by (auto simp: is_digit_def byte_def)
  with c show_nat_digits [of n] show ?thesis by (simp add: parse_uint_def)
qed

lemma chars_ascii: "list_all (\<lambda>c. \<not> is_cont c) s \<Longrightarrow> chars s = map (\<lambda>c. [c]) s"
  by (induction s) (auto split: list.splits)

lemma digit_not_cont: "is_digit c \<Longrightarrow> \<not> is_cont c"
  by (simp add: is_digit_def is_cont_def)

section \<open>Lower case\<close>

text \<open>
  \<open>to_lowercase\<close> as far as ASCII results go: besides the ASCII letters, the dotted capital I lowers to an
  ASCII i followed by a combining dot, and the Kelvin sign to k. Other letters keep their bytes here; they
  only show in the texts of errors.
\<close>

function str_lower :: "string \<Rightarrow> string" where
  "str_lower [] = []"
| "str_lower (c # s) =
     (if prefix [CHR 0xC4, CHR 0xB0] (c # s) then [CHR ''i'', CHR 0xCC, CHR 0x87] @ str_lower (drop 1 s)
      else if prefix [CHR 0xE2, CHR 0x84, CHR 0xAA] (c # s) then CHR ''k'' # str_lower (drop 2 s)
      else ascii_lower c # str_lower s)"
  by pat_completeness auto
termination str_lower
  by (relation "measure length") auto

lemma str_lower_ascii: "list_all (\<lambda>c. byte c < 128) s \<Longrightarrow> str_lower s = to_ascii_lowercase s"
  by (induction s) (auto simp: to_ascii_lowercase_def byte_def)

end
