(* ===== verification/Bao_Messages.thy ===== *)
theory Bao_Messages
  imports Bao_Text
begin

unbundle bit_operations_syntax

text \<open>
  The conversation data of \<open>models/message.rs\<close> and its validation. \<open>serde_json::Value\<close> is the
  datatype \<open>json\<close> with the variants the sources match on; an object is an association list.
  Timestamps are RFC 3339 strings; whether a string parses as one is a parameter, because the
  parser is the \<open>chrono\<close> crate's.
\<close>

section \<open>JSON values\<close>

datatype json_number = PosInt u64 | NegInt u64 | Float f64

datatype json =
    JNull
  | JBool bool
  | JNumber json_number
  | JString string
  | JArray "json list"
  | JObject "(string \<times> json) list"

fun json_get :: "json \<Rightarrow> string \<Rightarrow> json option" where
  "json_get (JObject kvs) k = map_of kvs k"
| "json_get _ k = None"

fun as_str :: "json \<Rightarrow> string option" where
  "as_str (JString s) = Some s"
| "as_str _ = None"

fun as_u64 :: "json \<Rightarrow> u64 option" where
  "as_u64 (JNumber (PosInt n)) = Some n"
| "as_u64 _ = None"

text \<open>\<open>v.get(k).and_then(|v| v.as_str())\<close>, the access path used all over the engine.\<close>

definition get_str :: "json \<Rightarrow> string \<Rightarrow> string option" where
  "get_str v k = Option.bind (json_get v k) as_str"

definition get_u64 :: "json \<Rightarrow> string \<Rightarrow> u64 option" where
  "get_u64 v k = Option.bind (json_get v k) as_u64"

text \<open>Overwriting a field through \<open>get_mut\<close>: only an existing field of an object changes.\<close>

fun json_set_existing :: "json \<Rightarrow> string \<Rightarrow> json \<Rightarrow> json" where
  "json_set_existing (JObject kvs) k v =
     (if map_of kvs k \<noteq> None then JObject (AList.update k v kvs) else JObject kvs)"
| "json_set_existing j k v = j"

lemma json_get_set_existing:
  "json_get (json_set_existing j k v) k' =
     (if k' = k \<and> json_get j k \<noteq> None then Some v else json_get j k')"
  by (cases j) (auto simp: update_conv')

section \<open>Messages\<close>

record image_source =
  img_source_type :: string
  img_media_type :: string
  img_data :: string

record document_source =
  doc_source_type :: string
  doc_media_type :: string
  doc_data :: string

datatype content_block =
    Text string
  | ToolUse (tu_id: string) (tu_name: string) (tu_input: json)
  | Thinking string
  | Image image_source
  | Document document_source

record usage =
  input_tokens :: u64
  output_tokens :: u64
  cache_creation_input_tokens :: "u64 option"
  cache_read_input_tokens :: "u64 option"

record api_user_message =
  um_role :: string
  um_content :: json

record api_assistant_message =
  am_role :: string
  am_content :: "content_block list"
  am_stop_reason :: "string option"
  am_usage :: "usage option"

record tool_use_result =
  tur_tool_use_id :: string
  tur_output :: json
  tur_is_error :: bool

datatype system_subtype = CompactBoundary | LocalCommand | Attachment

datatype message_content =
    User api_user_message bool "tool_use_result option"
  | Assistant api_assistant_message f64 u64
  | System system_subtype string
  | Progress string json

record message =
  msg_uuid :: string
  msg_timestamp :: string
  msg_content :: message_content

section \<open>Validation\<close>

record validation_error =
  ve_field :: string
  ve_message :: string

definition is_hexdigit :: "char \<Rightarrow> bool" where
  "is_hexdigit c \<longleftrightarrow> (48 \<le> byte c \<and> byte c \<le> 57) \<or> (65 \<le> byte c \<and> byte c \<le> 70) \<or>
     (97 \<le> byte c \<and> byte c \<le> 102)"

definition is_valid_uuid_v4 :: "string \<Rightarrow> bool" where
  "is_valid_uuid_v4 s =
     (let parts = split_char (CHR ''-'') s
      in if length parts \<noteq> 5 then False
         else if \<not> list_all (\<lambda>(part, expected_len). length part = expected_len \<and> list_all is_hexdigit part)
                  (zip parts [8, 4, 4, 4, 12]) then False
         else if \<not> starts_with (parts ! 2) ''4'' then False
         else (case parts ! 3 of [] \<Rightarrow> False | c # _ \<Rightarrow> c \<in> set ''89abAB''))"

text \<open>\<open>x < 0.0\<close> on the bit pattern: the sign bit set, not a zero, not a NaN.\<close>

definition f64_lt_zero :: "f64 \<Rightarrow> bool" where
  "f64_lt_zero w =
     (let magnitude = w AND 0x7FFFFFFFFFFFFFFF
      in bit w 63 \<and> magnitude \<noteq> 0 \<and> magnitude \<le> 0x7FF0000000000000)"

definition validate_message :: "(string \<Rightarrow> bool) \<Rightarrow> message \<Rightarrow> validation_error + unit" where
  "validate_message is_valid_iso8601 m =
     (if \<not> is_valid_uuid_v4 (msg_uuid m) then
        Inl \<lparr>ve_field = ''uuid'', ve_message = ''invalid UUID v4 format''\<rparr>
      else if \<not> is_valid_iso8601 (msg_timestamp m) then
        Inl \<lparr>ve_field = ''timestamp'', ve_message = ''invalid ISO 8601 timestamp''\<rparr>
      else (case msg_content m of
              Assistant _ cost_usd _ \<Rightarrow>
                if f64_lt_zero cost_usd then
                  Inl \<lparr>ve_field = ''cost_usd'', ve_message = ''cost_usd must be >= 0''\<rparr>
                else Inr ()
            | _ \<Rightarrow> Inr ()))"

lemma length5_cases:
  assumes "length ps = 5"
  obtains a b c d e where "ps = [a, b, c, d, e]"
  using assms by (auto simp: numeral_eq_Suc length_Suc_conv)

text \<open>
  \<open>is_valid_uuid_v4\<close> accepts exactly the strings that are five groups of 8, 4, 4, 4 and 12 hex
  digits separated by dashes, whose third group starts with 4 and whose fourth starts with 8, 9,
  a or b in either case.
\<close>

theorem uuid_v4_format:
  "is_valid_uuid_v4 s \<longleftrightarrow>
     (\<exists>a b c d e. s = a @ ''-'' @ b @ ''-'' @ ''4'' @ c @ ''-'' @ d @ ''-'' @ e \<and>
        length a = 8 \<and> length b = 4 \<and> length c = 3 \<and> length d = 4 \<and> length e = 12 \<and>
        set (a @ b @ c @ d @ e) \<subseteq> Collect is_hexdigit \<and> hd d \<in> set ''89abAB'')"
  (is "_ \<longleftrightarrow> ?R")
proof
  assume v: "is_valid_uuid_v4 s"
  then have "length (split_char (CHR ''-'') s) = 5"
    by (auto simp: is_valid_uuid_v4_def Let_def split: if_splits)
  then obtain a b c d e where ps: "split_char (CHR ''-'') s = [a, b, c, d, e]"
    by (rule length5_cases)
  then have s: "s = a @ ''-'' @ b @ ''-'' @ c @ ''-'' @ d @ ''-'' @ e"
    using split_char_join [of "CHR ''-''" s] by simp
  from v ps have "prefix ''4'' c" by (auto simp: is_valid_uuid_v4_def Let_def split: if_splits)
  then obtain c' where c: "c = ''4'' @ c'" by (auto simp: prefix_def)
  from v ps have "hd d \<in> set ''89abAB''"
    by (auto simp: is_valid_uuid_v4_def Let_def split: if_splits list.splits)
  moreover have "list_all (\<lambda>(part, n). length part = n \<and> list_all is_hexdigit part)
      (zip [a, b, c, d, e] [8, 4, 4, 4, 12])"
    using v ps by (simp add: is_valid_uuid_v4_def Let_def split: if_splits)
  then have len: "length a = 8" "length b = 4" "length c = 4" "length d = 4" "length e = 12"
    and "list_all is_hexdigit a" "list_all is_hexdigit b" "list_all is_hexdigit c"
      "list_all is_hexdigit d" "list_all is_hexdigit e"
    by simp_all
  then have "set (a @ b @ c' @ d @ e) \<subseteq> Collect is_hexdigit"
    by (auto simp: list_all_iff c)
  moreover have "length c' = 3" using len c by simp
  moreover have "s = a @ ''-'' @ b @ ''-'' @ ''4'' @ c' @ ''-'' @ d @ ''-'' @ e"
    using s c by simp
  ultimately show ?R using len by metis
next
  assume ?R
  then obtain a b c d e where s: "s = a @ ''-'' @ b @ ''-'' @ ''4'' @ c @ ''-'' @ d @ ''-'' @ e"
    and len: "length a = 8" "length b = 4" "length c = 3" "length d = 4" "length e = 12"
    and hex: "set (a @ b @ c @ d @ e) \<subseteq> Collect is_hexdigit" and d: "hd d \<in> set ''89abAB''"
    by blast
  have dash: "\<not> is_hexdigit (CHR ''-'')" and four: "is_hexdigit (CHR ''4'')"
    by (simp_all add: is_hexdigit_def byte_def)
  have nodash: "CHR ''-'' \<notin> set p" if "set p \<subseteq> Collect is_hexdigit" for p
    using that dash by auto
  have "set (''4'' @ c) \<subseteq> Collect is_hexdigit" using hex four by simp
  then have "CHR ''-'' \<notin> set (''4'' @ c)" by (rule nodash)
  moreover have "CHR ''-'' \<notin> set a" "CHR ''-'' \<notin> set b"
    "CHR ''-'' \<notin> set d" "CHR ''-'' \<notin> set e"
    using hex by (simp_all add: nodash)
  moreover have "s = a @ CHR ''-'' # b @ CHR ''-'' # (''4'' @ c) @ CHR ''-'' # d @ CHR ''-'' # e"
    using s by simp
  ultimately have split: "split_char (CHR ''-'') s = [a, b, ''4'' @ c, d, e]"
    by (simp only: split_char_append split_char_no_sep not_False_eq_True)
  obtain x xs where "d = x # xs" using len by (cases d) auto
  with split len hex d four show "is_valid_uuid_v4 s"
    by (auto simp: is_valid_uuid_v4_def Let_def list_all_iff)
qed

end
