(* ===== verification/Bao_ToolPairing.thy ===== *)
theory Bao_ToolPairing
  imports Bao_Messages
begin

text \<open>
  \<open>engine/tool_loop.rs\<close>, \<open>engine/tool_repair.rs\<close> and the history clean-up of
  \<open>engine/abort_helpers.rs\<close>: reading tool calls and tool results out of a conversation, and
  keeping the two paired, because a provider rejects a request that carries a \<open>tool_result\<close>
  without its \<open>tool_use\<close> or the reverse. Log output is not modelled; the fresh UUID and the
  current time of a synthesised message are parameters.
\<close>

section \<open>Reading tool calls and results (tool\_loop.rs)\<close>

record tool_use_request =
  req_id :: string
  req_name :: string
  req_input :: json

fun extract_tool_uses :: "content_block list \<Rightarrow> tool_use_request list" where
  "extract_tool_uses [] = []"
| "extract_tool_uses (ToolUse i n inp # bs) = \<lparr>req_id = i, req_name = n, req_input = inp\<rparr> # extract_tool_uses bs"
| "extract_tool_uses (_ # bs) = extract_tool_uses bs"

definition is_tool_result :: "json \<Rightarrow> bool" where
  "is_tool_result block \<longleftrightarrow> get_str block ''type'' = Some ''tool_result''"

fun result_ids :: "json list \<Rightarrow> string list" where
  "result_ids [] = []"
| "result_ids (block # bs) =
     (if is_tool_result block
      then (case get_str block ''tool_use_id'' of Some i \<Rightarrow> i # result_ids bs | None \<Rightarrow> result_ids bs)
      else result_ids bs)"

definition extract_tool_result_ids :: "api_user_message \<Rightarrow> string list" where
  "extract_tool_result_ids m = (case um_content m of JArray arr \<Rightarrow> result_ids arr | _ \<Rightarrow> [])"

fun text_pieces :: "content_block list \<Rightarrow> string list" where
  "text_pieces [] = []"
| "text_pieces (Text t # bs) = t # text_pieces bs"
| "text_pieces (_ # bs) = text_pieces bs"

definition extract_text :: "content_block list \<Rightarrow> string option" where
  "extract_text bs = (let texts = text_pieces bs in if texts = [] then None else Some (concat texts))"

definition add_optional :: "u64 option \<Rightarrow> u64 option \<Rightarrow> u64 option" where
  "add_optional acc delta =
     (case delta of None \<Rightarrow> acc | Some d \<Rightarrow> Some ((case acc of None \<Rightarrow> 0 | Some t \<Rightarrow> t) + d))"

definition accumulate_usage :: "usage \<Rightarrow> json \<Rightarrow> usage" where
  "accumulate_usage acc delta =
     \<lparr>input_tokens = (case get_u64 delta ''input_tokens'' of
         Some n \<Rightarrow> input_tokens acc + n | None \<Rightarrow> input_tokens acc),
      output_tokens = (case get_u64 delta ''output_tokens'' of
         Some n \<Rightarrow> output_tokens acc + n | None \<Rightarrow> output_tokens acc),
      cache_creation_input_tokens =
         add_optional (cache_creation_input_tokens acc) (get_u64 delta ''cache_creation_input_tokens''),
      cache_read_input_tokens =
         add_optional (cache_read_input_tokens acc) (get_u64 delta ''cache_read_input_tokens'')\<rparr>"

section \<open>Pairing repair (tool\_repair.rs)\<close>

fun tool_use_ids :: "content_block list \<Rightarrow> string list" where
  "tool_use_ids [] = []"
| "tool_use_ids (ToolUse i n inp # bs) = i # tool_use_ids bs"
| "tool_use_ids (_ # bs) = tool_use_ids bs"

fun collect_step :: "message \<Rightarrow> string set \<times> string set \<Rightarrow> string set \<times> string set" where
  "collect_step m (uses, results) =
     (case msg_content m of
        Assistant am _ _ \<Rightarrow> (uses \<union> set (tool_use_ids (am_content am)), results)
      | User um _ _ \<Rightarrow> (uses, results \<union> set (extract_tool_result_ids um))
      | _ \<Rightarrow> (uses, results))"

definition collect_tool_ids :: "message list \<Rightarrow> string set \<times> string set" where
  "collect_tool_ids messages = fold collect_step messages ({}, {})"

definition is_retained_block :: "json \<Rightarrow> string set \<Rightarrow> bool" where
  "is_retained_block block orphans \<longleftrightarrow>
     \<not> is_tool_result block \<or>
     (case get_str block ''tool_use_id'' of None \<Rightarrow> True | Some i \<Rightarrow> i \<notin> orphans)"

definition set_user_blocks :: "message \<Rightarrow> json list \<Rightarrow> message" where
  "set_user_blocks m arr =
     (case msg_content m of
        User um meta tr \<Rightarrow> m\<lparr>msg_content := User (um\<lparr>um_content := JArray arr\<rparr>) meta tr\<rparr>
      | _ \<Rightarrow> m)"

fun strip_orphan_tool_result_blocks :: "string set \<Rightarrow> message list \<Rightarrow> message list \<times> nat" where
  "strip_orphan_tool_result_blocks orphans [] = ([], 0)"
| "strip_orphan_tool_result_blocks orphans (m # ms) =
     (let (rest, removed) = strip_orphan_tool_result_blocks orphans ms
      in case msg_content m of
           User um _ _ \<Rightarrow>
             (case um_content um of
                JArray arr \<Rightarrow>
                  let arr' = filter (\<lambda>b. is_retained_block b orphans) arr
                  in (if arr' = [] then rest else set_user_blocks m arr' # rest,
                      (length arr - length arr') + removed)
              | _ \<Rightarrow> (m # rest, removed))
         | _ \<Rightarrow> (m # rest, removed))"

fun fix_message :: "string set \<Rightarrow> string set \<Rightarrow> message \<Rightarrow> message option" where
  "fix_message orphaned_tool_uses orphaned_tool_results m =
     (case msg_content m of
        System _ _ \<Rightarrow> None
      | Assistant am _ _ \<Rightarrow>
          if list_ex (\<lambda>i. i \<in> orphaned_tool_uses) (tool_use_ids (am_content am)) then None else Some m
      | User um _ _ \<Rightarrow>
          if extract_tool_result_ids um = [] then Some m
          else (case um_content um of
                  JArray arr \<Rightarrow>
                    if list_ex (\<lambda>b. is_retained_block b orphaned_tool_results) arr
                    then Some (set_user_blocks m (filter (\<lambda>b. is_retained_block b orphaned_tool_results) arr))
                    else None
                | _ \<Rightarrow> Some m)
      | Progress _ _ \<Rightarrow> Some m)"

definition validate_and_fix_tool_messages :: "message list \<Rightarrow> message list" where
  "validate_and_fix_tool_messages messages =
     (let (uses, results) = collect_tool_ids messages
      in List.map_filter (fix_message (uses - results) (results - uses)) messages)"

section \<open>After an abort (abort\_helpers.rs)\<close>

definition aborted_result :: "string \<Rightarrow> json" where
  "aborted_result i = JObject
     [(''content'', JArray [JObject [(''text'', JString ''Tool execution aborted by user.''),
                                    (''type'', JString ''text'')]]),
      (''is_error'', JBool True), (''tool_use_id'', JString i), (''type'', JString ''tool_result'')]"

definition cleanup_orphan_tool_uses :: "string \<Rightarrow> string \<Rightarrow> message list \<Rightarrow> message list \<times> nat" where
  "cleanup_orphan_tool_uses fresh_uuid now messages =
     (if messages = [] then (messages, 0)
      else case msg_content (last messages) of
             Assistant am _ _ \<Rightarrow>
               (let orphan_ids = tool_use_ids (am_content am)
                in if orphan_ids = [] then (messages, 0)
                   else (messages @ [\<lparr>msg_uuid = fresh_uuid, msg_timestamp = now,
                           msg_content = User \<lparr>um_role = ''user'',
                             um_content = JArray (map aborted_result orphan_ids)\<rparr> True None\<rparr>],
                         length orphan_ids))
           | _ \<Rightarrow> (messages, 0))"

section \<open>Which ids a conversation carries\<close>

definition message_uses :: "message \<Rightarrow> string set" where
  "message_uses m = (case msg_content m of Assistant am _ _ \<Rightarrow> set (tool_use_ids (am_content am)) | _ \<Rightarrow> {})"

definition message_results :: "message \<Rightarrow> string set" where
  "message_results m = (case msg_content m of User um _ _ \<Rightarrow> set (extract_tool_result_ids um) | _ \<Rightarrow> {})"

definition used_ids :: "message list \<Rightarrow> string set" where
  "used_ids ms = (\<Union>m\<in>set ms. message_uses m)"

definition answered_ids :: "message list \<Rightarrow> string set" where
  "answered_ids ms = (\<Union>m\<in>set ms. message_results m)"

text \<open>The API-legal histories: what is called is answered and what is answered was called.\<close>

definition paired :: "message list \<Rightarrow> bool" where
  "paired ms \<longleftrightarrow> used_ids ms = answered_ids ms"

lemma collect_step_eq: "collect_step m (u, r) = (u \<union> message_uses m, r \<union> message_results m)"
  by (simp add: message_uses_def message_results_def split: message_content.splits)

lemma collect_fold: "fold collect_step ms (u, r) = (u \<union> used_ids ms, r \<union> answered_ids ms)"
  by (induction ms arbitrary: u r)
    (auto simp: collect_step_eq used_ids_def answered_ids_def simp del: collect_step.simps)

lemma collect_tool_ids_eq: "collect_tool_ids ms = (used_ids ms, answered_ids ms)"
  by (simp add: collect_tool_ids_def collect_fold)

lemma used_ids_simps [simp]:
  "used_ids [] = {}" "used_ids (m # ms) = message_uses m \<union> used_ids ms"
  "used_ids (ms @ ns) = used_ids ms \<union> used_ids ns"
  by (auto simp: used_ids_def)

lemma answered_ids_simps [simp]:
  "answered_ids [] = {}" "answered_ids (m # ms) = message_results m \<union> answered_ids ms"
  "answered_ids (ms @ ns) = answered_ids ms \<union> answered_ids ns"
  by (auto simp: answered_ids_def)

lemma map_filter_ids:
  "used_ids (List.map_filter f ms) = (\<Union>m\<in>set ms. case f m of None \<Rightarrow> {} | Some m' \<Rightarrow> message_uses m')"
  "answered_ids (List.map_filter f ms) = (\<Union>m\<in>set ms. case f m of None \<Rightarrow> {} | Some m' \<Rightarrow> message_results m')"
  by (induction ms) (auto split: option.splits)

lemma result_ids_filter:
  "set (result_ids (filter (\<lambda>b. is_retained_block b orphans) arr)) = set (result_ids arr) - orphans"
  by (induction arr) (auto simp: is_retained_block_def split: option.splits)

lemma retained_exists:
  assumes "i \<in> set (result_ids arr)" "i \<notin> orphans"
  shows "list_ex (\<lambda>b. is_retained_block b orphans) arr"
proof -
  have "filter (\<lambda>b. is_retained_block b orphans) arr \<noteq> []"
    using result_ids_filter [of orphans arr] assms by auto
  then show ?thesis by (auto simp: filter_empty_conv list_ex_iff)
qed

lemma message_results_set_blocks:
  "msg_content m = User um x y \<Longrightarrow> message_results (set_user_blocks m arr) = set (result_ids arr)"
  "msg_content m = User um x y \<Longrightarrow> message_uses (set_user_blocks m arr) = {}"
  by (simp_all add: message_results_def message_uses_def set_user_blocks_def extract_tool_result_ids_def)

lemma fix_message_results:
  "(case fix_message ou orr m of None \<Rightarrow> {} | Some m' \<Rightarrow> message_results m') = message_results m - orr"
proof (cases "msg_content m")
  case (User um meta tr)
  show ?thesis
  proof (cases "um_content um")
    case (JArray arr)
    have results: "message_results m = set (result_ids arr)"
      using User JArray by (simp add: message_results_def extract_tool_result_ids_def)
    have "set (result_ids arr) - orr = {}" if "\<not> list_ex (\<lambda>b. is_retained_block b orr) arr"
      using that retained_exists [of _ arr orr] by blast
    with User JArray results show ?thesis
      by (auto simp: message_results_set_blocks [OF User] result_ids_filter extract_tool_result_ids_def)
  qed (use User in \<open>simp_all add: message_results_def extract_tool_result_ids_def\<close>)
qed (simp_all add: message_results_def)

lemma fix_message_uses:
  "(case fix_message ou orr m of None \<Rightarrow> {} | Some m' \<Rightarrow> message_uses m') =
     (if message_uses m \<inter> ou = {} then message_uses m else {})"
proof (cases "msg_content m")
  case (User um meta tr)
  then show ?thesis
    using message_results_set_blocks(2) [OF User]
    by (simp add: message_uses_def split: json.splits)
qed (auto simp: message_uses_def list_ex_iff)

lemma fixed_ids:
  "answered_ids (validate_and_fix_tool_messages ms) = used_ids ms \<inter> answered_ids ms"
  "used_ids (validate_and_fix_tool_messages ms) =
     (\<Union>m\<in>set ms. if message_uses m \<subseteq> answered_ids ms then message_uses m else {})"
proof -
  have "message_uses m \<inter> (used_ids ms - answered_ids ms) = {} \<longleftrightarrow> message_uses m \<subseteq> answered_ids ms"
    if "m \<in> set ms" for m
    using that by (auto simp: used_ids_def)
  then show "used_ids (validate_and_fix_tool_messages ms) =
     (\<Union>m\<in>set ms. if message_uses m \<subseteq> answered_ids ms then message_uses m else {})"
    by (simp add: validate_and_fix_tool_messages_def collect_tool_ids_eq map_filter_ids fix_message_uses
        del: fix_message.simps)
  show "answered_ids (validate_and_fix_tool_messages ms) = used_ids ms \<inter> answered_ids ms"
    by (simp add: validate_and_fix_tool_messages_def collect_tool_ids_eq map_filter_ids fix_message_results
        del: fix_message.simps) (auto simp: answered_ids_def)
qed

section \<open>What the repair guarantees\<close>

text \<open>An assistant turn is settled when either all of its calls were answered or none was.\<close>

definition settled_turns :: "message list \<Rightarrow> bool" where
  "settled_turns ms \<longleftrightarrow>
     list_all (\<lambda>m. message_uses m \<subseteq> answered_ids ms \<or> message_uses m \<inter> answered_ids ms = {}) ms"

text \<open>
  If no assistant turn mixes answered and unanswered tool calls, the message list that
  \<open>validate_and_fix_tool_messages\<close> sends to the API is fully paired: its tool calls and its tool
  results carry exactly the same ids, namely those the input both called and answered.
\<close>

lemma settled_fixed:
  assumes "settled_turns ms"
  shows "paired (validate_and_fix_tool_messages ms) \<and>
    used_ids (validate_and_fix_tool_messages ms) = used_ids ms \<inter> answered_ids ms"
proof -
  have "(if message_uses m \<subseteq> answered_ids ms then message_uses m else {}) =
      message_uses m \<inter> answered_ids ms" if "m \<in> set ms" for m
    using assms that by (auto simp: settled_turns_def list_all_iff)
  then have "used_ids (validate_and_fix_tool_messages ms) = used_ids ms \<inter> answered_ids ms"
    by (simp add: fixed_ids) (auto simp: used_ids_def)
  then show ?thesis by (simp add: paired_def fixed_ids)
qed

definition sample_call :: "string list \<Rightarrow> message" where
  "sample_call ids = \<lparr>msg_uuid = ''a'', msg_timestamp = ''t'', msg_content =
     Assistant \<lparr>am_role = ''assistant'', am_content = map (\<lambda>i. ToolUse i ''Bash'' JNull) ids,
       am_stop_reason = None, am_usage = None\<rparr> 0 0\<rparr>"

definition sample_answer :: "string list \<Rightarrow> message" where
  "sample_answer ids = \<lparr>msg_uuid = ''u'', msg_timestamp = ''t'', msg_content =
     User \<lparr>um_role = ''user'', um_content = JArray (map aborted_result ids)\<rparr> False None\<rparr>"

lemma aborted_result_ids: "result_ids (map aborted_result ids) = ids"
  by (induction ids) (simp_all add: aborted_result_def is_tool_result_def get_str_def)

lemma tool_use_ids_map: "tool_use_ids (map (\<lambda>i. ToolUse i n inp) ids) = ids"
  by (induction ids) simp_all

lemma sample_ids [simp]:
  "message_uses (sample_call ids) = set ids" "message_results (sample_call ids) = {}"
  "message_uses (sample_answer ids) = {}" "message_results (sample_answer ids) = set ids"
  by (simp_all add: message_uses_def message_results_def sample_call_def sample_answer_def
      tool_use_ids_map extract_tool_result_ids_def aborted_result_ids)

text \<open>
  C20. What the repair of any history leaves unpaired, exactly: no tool call is left without a result, but a result
  that did have its call in the history is orphaned just when every turn with that call also has a call without a
  result, because the repair drops such a turn as a whole. Results that had no call are gone.
\<close>

theorem repair_orphans_exact:
  "used_ids (validate_and_fix_tool_messages ms) \<subseteq> answered_ids (validate_and_fix_tool_messages ms) \<and>
   answered_ids (validate_and_fix_tool_messages ms) - used_ids (validate_and_fix_tool_messages ms) =
     {i \<in> used_ids ms \<inter> answered_ids ms. \<nexists>m. m \<in> set ms \<and> i \<in> message_uses m \<and> message_uses m \<subseteq> answered_ids ms}"
  unfolding fixed_ids by (auto simp: used_ids_def split: if_splits)

text \<open>The smallest such history: one turn with an answered and an unanswered call.\<close>

theorem repair_orphans_exact_witness:
  "answered_ids (validate_and_fix_tool_messages [sample_call [''x'', ''y''], sample_answer [''x'']]) -
   used_ids (validate_and_fix_tool_messages [sample_call [''x'', ''y''], sample_answer [''x'']]) = {''x''}"
proof -
  let ?ms = "[sample_call [''x'', ''y''], sample_answer [''x'']]"
  have "{i \<in> used_ids ?ms \<inter> answered_ids ?ms. \<nexists>m. m \<in> set ?ms \<and> i \<in> message_uses m \<and> message_uses m \<subseteq> answered_ids ?ms} = {''x''}"
    by (auto simp: used_ids_def answered_ids_def)
  with repair_orphans_exact [of ?ms] show ?thesis by simp
qed

lemma strip_results:
  "answered_ids (fst (strip_orphan_tool_result_blocks orphans ms)) = answered_ids ms - orphans"
proof (induction ms)
  case (Cons m ms)
  show ?case
  proof (cases "msg_content m")
    case (User um meta tr)
    show ?thesis
    proof (cases "um_content um")
      case (JArray arr)
      have "set (result_ids arr) - orphans = {}" if "filter (\<lambda>b. is_retained_block b orphans) arr = []"
        using result_ids_filter [of orphans arr] that by simp
      moreover have "message_results m = set (result_ids arr)"
        using User JArray by (simp add: message_results_def extract_tool_result_ids_def)
      ultimately show ?thesis using Cons User JArray
        by (simp add: split_def Let_def message_results_set_blocks [OF User] result_ids_filter) blast
    qed (use Cons User in \<open>auto simp: split_def Let_def message_results_def extract_tool_result_ids_def\<close>)
  qed (use Cons in \<open>auto simp: split_def Let_def message_results_def\<close>)
qed simp

text \<open>The blocks of a conversation that orphan stripping must delete.\<close>

definition orphan_blocks :: "string set \<Rightarrow> message \<Rightarrow> json list" where
  "orphan_blocks orphans m =
     (case msg_content m of
        User um _ _ \<Rightarrow>
          (case um_content um of JArray arr \<Rightarrow> filter (\<lambda>b. \<not> is_retained_block b orphans) arr | _ \<Rightarrow> [])
      | _ \<Rightarrow> [])"

lemma strip_count:
  "snd (strip_orphan_tool_result_blocks orphans ms) = length (concat (map (orphan_blocks orphans) ms))"
proof (induction ms)
  case (Cons m ms)
  have "length arr - length (filter P arr) = length (filter (\<lambda>b. \<not> P b) arr)" for P and arr :: "json list"
    using sum_length_filter_compl [of P arr] by simp
  with Cons show ?case
    by (simp add: orphan_blocks_def split_def Let_def split: message_content.splits json.splits)
qed simp

text \<open>
  Stripping orphaned results removes exactly the orphaned ids from what the history answers,
  leaves every tool call in place, and returns the number of blocks it deleted.
\<close>

theorem strip_orphans_exact:
  "answered_ids (fst (strip_orphan_tool_result_blocks orphans ms)) = answered_ids ms - orphans \<and>
   used_ids (fst (strip_orphan_tool_result_blocks orphans ms)) = used_ids ms \<and>
   snd (strip_orphan_tool_result_blocks orphans ms) = length (concat (map (orphan_blocks orphans) ms))"
proof -
  have "used_ids (fst (strip_orphan_tool_result_blocks orphans ms)) = used_ids ms"
  proof (induction ms)
    case (Cons m ms)
    then show ?case
    proof (cases "msg_content m")
      case (User um meta tr)
      with Cons show ?thesis
        using message_results_set_blocks(2) [OF User]
        by (cases "um_content um") (simp_all add: split_def Let_def message_uses_def)
    qed (simp_all add: split_def Let_def message_uses_def)
  qed simp
  then show ?thesis by (simp add: strip_results strip_count)
qed

text \<open>
  After a user abort, \<open>cleanup_orphan_tool_uses\<close> makes the history API-legal again: if
  everything before the interrupted assistant turn was paired, the cleaned history is paired, it
  extends the old one by at most one message, and the count returned is the turn's number of
  calls.
\<close>

lemma abort_cleanup_paired:
  assumes "paired prior" and "msg_content m = Assistant am cost dur"
  shows "paired (fst (cleanup_orphan_tool_uses u now (prior @ [m]))) \<and>
    snd (cleanup_orphan_tool_uses u now (prior @ [m])) = length (tool_use_ids (am_content am)) \<and>
    (\<exists>extra. fst (cleanup_orphan_tool_uses u now (prior @ [m])) = prior @ [m] @ extra \<and> length extra \<le> 1)"
  using assms
  by (auto simp: cleanup_orphan_tool_uses_def Let_def paired_def message_uses_def message_results_def
      extract_tool_result_ids_def aborted_result_ids)

lemma abort_cleanup_paired_witness:
  "paired [sample_call [''x''], sample_answer [''x'']] \<and>
   snd (cleanup_orphan_tool_uses ''id'' ''now''
     ([sample_call [''x''], sample_answer [''x'']] @ [sample_call [''y'', ''z'']])) = 2"
proof -
  have p: "paired [sample_call [''x''], sample_answer [''x'']]" by (simp add: paired_def)
  have c: "msg_content (sample_call [''y'', ''z'']) = Assistant \<lparr>am_role = ''assistant'',
      am_content = [ToolUse ''y'' ''Bash'' JNull, ToolUse ''z'' ''Bash'' JNull],
      am_stop_reason = None, am_usage = None\<rparr> 0 0"
    by (simp add: sample_call_def)
  from abort_cleanup_paired [OF p c, of "''id''" "''now''"] p show ?thesis by simp
qed

end
