(* ===== verification/Bao_Compaction.thy ===== *)
theory Bao_Compaction
  imports Bao_ToolPairing
begin

text \<open>
  \<open>engine/compact/strategies.rs\<close> and \<open>estimate_tokens\<close> of \<open>engine/query_engine.rs\<close>: the ways
  the engine shrinks a conversation before it outgrows the model's context window. Parameters:
  \<open>render\<close> is \<open>serde_json\<close>'s text of a value, \<open>age\<close> the age in nanoseconds of an RFC 3339 time
  stamp (\<open>None\<close> when it does not parse).
\<close>

section \<open>Token estimate\<close>

fun block_chars :: "(json \<Rightarrow> string) \<Rightarrow> content_block \<Rightarrow> nat" where
  "block_chars render (Text t) = length t"
| "block_chars render (ToolUse i n inp) = length (render inp)"
| "block_chars render (Thinking t) = length t"
| "block_chars render (Image src) = length (img_data src)"
| "block_chars render (Document src) = length (doc_data src)"

definition message_chars :: "(json \<Rightarrow> string) \<Rightarrow> message \<Rightarrow> nat" where
  "message_chars render m =
     (case msg_content m of
        User um _ _ \<Rightarrow> length (render (um_content um))
      | Assistant am _ _ \<Rightarrow> sum_list (map (block_chars render) (am_content am))
      | System _ content \<Rightarrow> length content
      | Progress _ data \<Rightarrow> length (render data))"

definition estimate_tokens :: "(json \<Rightarrow> string) \<Rightarrow> message list \<Rightarrow> nat" where
  "estimate_tokens render messages = sum_list (map (message_chars render) messages) div 4"

section \<open>Split point\<close>

text \<open>
  The forward scan of \<open>adjust_compact_split\<close>: \<open>i\<close> is the index of the head of the remaining
  messages; it stops at the first user message that completes the set of results.
\<close>

fun scan_tool_results :: "string list \<Rightarrow> message list \<Rightarrow> string set \<Rightarrow> nat \<Rightarrow> string set \<times> nat" where
  "scan_tool_results ids [] found i = (found, i)"
| "scan_tool_results ids (m # ms) found i =
     (case msg_content m of
        User um _ _ \<Rightarrow>
          (let found' = found \<union> {r \<in> set (extract_tool_result_ids um). r \<in> set ids}
           in if card found' = length ids then (found', i)
              else scan_tool_results ids ms found' (i + 1))
      | _ \<Rightarrow> scan_tool_results ids ms found (i + 1))"

definition adjust_compact_split :: "message list \<Rightarrow> nat \<Rightarrow> nat" where
  "adjust_compact_split messages split =
     (if 0 < split \<and> split < length messages then
        (case msg_content (messages ! (split - 1)) of
           Assistant am _ _ \<Rightarrow>
             (let ids = tool_use_ids (am_content am)
              in if ids = [] then split
                 else let (found, next_idx) = scan_tool_results ids (drop split messages) {} split
                      in if card found = length ids then next_idx + 1
                         else if 1 < split then split - 1 else split)
         | _ \<Rightarrow> split)
      else split)"

section \<open>Micro-compaction\<close>

record micro_compact_config =
  mc_min_age_secs :: u64
  mc_min_chars :: nat

definition em_dash :: string where
  "em_dash = [CHR 0xE2, CHR 0x80, CHR 0x94]"

definition cleared_placeholder :: "string \<Rightarrow> nat \<Rightarrow> string" where
  "cleared_placeholder tool_label n =
     ''[Old tool result cleared '' @ em_dash @ '' '' @ tool_label @ ''originally '' @ show_nat n @ '' chars]''"

fun note_tool_names :: "content_block list \<Rightarrow> (string \<rightharpoonup> string) \<Rightarrow> (string \<rightharpoonup> string)" where
  "note_tool_names [] names = names"
| "note_tool_names (ToolUse i n inp # bs) names = note_tool_names bs (names(i \<mapsto> n))"
| "note_tool_names (_ # bs) names = note_tool_names bs names"

definition collect_tool_names :: "message list \<Rightarrow> (string \<rightharpoonup> string)" where
  "collect_tool_names messages =
     fold (\<lambda>m names. case msg_content m of Assistant am _ _ \<Rightarrow> note_tool_names (am_content am) names | _ \<Rightarrow> names)
       messages Map.empty"

definition tool_label :: "(string \<rightharpoonup> string) \<Rightarrow> json \<Rightarrow> string" where
  "tool_label names block =
     (case Option.bind (get_str block ''tool_use_id'') names of
        Some name \<Rightarrow> name @ '' output, '' | None \<Rightarrow> [])"

definition micro_block :: "(json \<Rightarrow> string) \<Rightarrow> (string \<rightharpoonup> string) \<Rightarrow> nat \<Rightarrow> json \<Rightarrow> json" where
  "micro_block render names min_chars block =
     (if is_tool_result block then
        (case json_get block ''content'' of
           Some content \<Rightarrow>
             (let output_chars = chars_count (render content)
              in if min_chars < output_chars
                 then json_set_existing block ''content''
                        (JString (cleared_placeholder (tool_label names block) output_chars))
                 else block)
         | None \<Rightarrow> block)
      else block)"

definition micro_message ::
  "(json \<Rightarrow> string) \<Rightarrow> (string \<Rightarrow> nat option) \<Rightarrow> micro_compact_config \<Rightarrow> (string \<rightharpoonup> string) \<Rightarrow> message \<Rightarrow> message" where
  "micro_message render age cfg names m =
     (case age (msg_timestamp m) of
        None \<Rightarrow> m
      | Some a \<Rightarrow>
          if a < unat (mc_min_age_secs cfg) * 10 ^ 9 then m
          else (case msg_content m of
                  User um _ _ \<Rightarrow>
                    (case um_content um of
                       JArray blocks \<Rightarrow> set_user_blocks m (map (micro_block render names (mc_min_chars cfg)) blocks)
                     | _ \<Rightarrow> m)
                | _ \<Rightarrow> m))"

definition micro_compact ::
  "(json \<Rightarrow> string) \<Rightarrow> (string \<Rightarrow> nat option) \<Rightarrow> message list \<Rightarrow> micro_compact_config \<Rightarrow> message list" where
  "micro_compact render age messages cfg =
     (let skip_recent = 4; start = length messages - skip_recent; names = collect_tool_names messages
      in map (micro_message render age cfg names) (take start messages) @ drop start messages)"

section \<open>Session-memory and reactive compaction\<close>

definition session_memory_compact ::
  "string \<Rightarrow> string \<Rightarrow> message list \<Rightarrow> string \<Rightarrow> message list \<times> bool" where
  "session_memory_compact fresh_uuid now messages summary_text =
     (if summary_text = [] then (messages, False)
      else let keep_recent = 10
           in if length messages \<le> keep_recent then (messages, False)
              else let boundary = \<lparr>msg_uuid = fresh_uuid, msg_timestamp = now,
                         msg_content = System CompactBoundary (''[Session Memory]'' @ [CHR 0x0A] @ summary_text)\<rparr>
                   in (boundary # drop (length messages - keep_recent) messages, True))"

definition is_turn_start :: "message \<Rightarrow> bool" where
  "is_turn_start m =
     (case msg_content m of
        User um _ tool_use_result \<Rightarrow>
          tool_use_result = None \<and>
          \<not> (case um_content um of JArray arr \<Rightarrow> list_all is_tool_result arr | _ \<Rightarrow> False)
      | _ \<Rightarrow> False)"

definition turn_starts :: "message list \<Rightarrow> nat list" where
  "turn_starts messages = filter (\<lambda>i. is_turn_start (messages ! i)) [0..<length messages]"

definition reactive_drop_count :: "(json \<Rightarrow> string) \<Rightarrow> message list \<Rightarrow> nat option \<Rightarrow> nat" where
  "reactive_drop_count render messages target_reduction =
     (let turns = length (turn_starts messages)
      in case target_reduction of
           Some target \<Rightarrow>
             (let total_tokens = estimate_tokens render messages;
                  tokens_per_turn = total_tokens div max turns 1
              in min (max (target div max tokens_per_turn 1) 1) (turns div 2))
         | None \<Rightarrow> max (turns div 5) 1)"

definition reactive_compact :: "(json \<Rightarrow> string) \<Rightarrow> message list \<Rightarrow> nat option \<Rightarrow> message list" where
  "reactive_compact render messages target_reduction =
     (if length messages \<le> 4 then messages
      else let starts = turn_starts messages
           in if length starts \<le> 2 then messages
              else let drop_count = reactive_drop_count render messages target_reduction
                   in if length starts \<le> drop_count then messages
                      else drop (starts ! drop_count) messages)"

section \<open>Keeping the tail of a text\<close>

function next_boundary :: "string \<Rightarrow> nat \<Rightarrow> nat" where
  "next_boundary text start = (if length text \<le> start \<or> is_char_boundary text start then start
     else next_boundary text (start + 1))"
  by pat_completeness auto
termination
  by (relation "measure (\<lambda>(t, i). length t - i)") auto

declare next_boundary.simps [simp del]

definition tail_chars :: "string \<Rightarrow> nat \<Rightarrow> string" where
  "tail_chars text max_chars =
     (if length text \<le> max_chars then text
      else ''[...earlier conversation omitted...]'' @ [CHR 0x0A] @
             drop (next_boundary text (length text - max_chars)) text)"

section \<open>The split point keeps a tool turn whole\<close>

lemma scan_Cons:
  "scan_tool_results ids (m # ms) found i =
     (let found' = found \<union> (message_results m \<inter> set ids)
      in if (\<exists>um x y. msg_content m = User um x y) \<and> card found' = length ids then (found', i)
         else scan_tool_results ids ms found' (i + 1))"
proof -
  have "{r \<in> A. r \<in> B} = A \<inter> B" for A B :: "string set" by auto
  then show ?thesis
    by (cases "msg_content m") (simp_all add: message_results_def Let_def)
qed

declare scan_tool_results.simps(2) [simp del]

lemma scan_found_bound:
  assumes "scan_tool_results ids ms found i = (f, j)"
  shows "i \<le> j \<and> j \<le> i + length ms \<and> (card f = length ids \<longrightarrow> card found \<noteq> length ids \<longrightarrow> j < i + length ms)"
  using assms
proof (induction ms arbitrary: found i)
  case (Cons m ms)
  let ?found = "found \<union> (message_results m \<inter> set ids)"
  show ?case
  proof (cases "(\<exists>um x y. msg_content m = User um x y) \<and> card ?found = length ids")
    case True
    with Cons.prems show ?thesis by (auto simp: scan_Cons Let_def)
  next
    case False
    with Cons.prems have scan: "scan_tool_results ids ms ?found (i + 1) = (f, j)"
      by (simp add: scan_Cons Let_def)
    moreover have "?found = found" if "\<nexists>um x y. msg_content m = User um x y"
      using that by (simp add: message_results_def split: message_content.splits)
    ultimately show ?thesis using Cons.IH [OF scan] False by auto
  qed
qed simp

lemma scan_found_sound:
  assumes "scan_tool_results ids ms found i = (f, j)" and "found \<subseteq> set ids"
  shows "f \<subseteq> set ids \<and> f \<subseteq> found \<union> answered_ids (take (Suc j - i) ms)"
  using assms
proof (induction ms arbitrary: found i)
  case (Cons m ms)
  let ?found = "found \<union> (message_results m \<inter> set ids)"
  show ?case
  proof (cases "(\<exists>um x y. msg_content m = User um x y) \<and> card ?found = length ids")
    case True
    with Cons.prems show ?thesis by (auto simp: scan_Cons Let_def)
  next
    case False
    with Cons.prems(1) have scan: "scan_tool_results ids ms ?found (i + 1) = (f, j)"
      by (simp add: scan_Cons Let_def)
    with scan_found_bound [OF scan] have "Suc j - i = Suc (Suc j - (i + 1))" by linarith
    with Cons.IH [OF scan] Cons.prems(2) show ?thesis by auto
  qed
qed auto

lemma scan_complete:
  assumes "scan_tool_results ids ms {} i = (f, j)" "card f = length ids" "ids \<noteq> []"
  shows "set ids \<subseteq> answered_ids (take (Suc j - i) ms) \<and> i \<le> j \<and> j < i + length ms"
proof -
  from scan_found_sound [OF assms(1)] have f: "f \<subseteq> set ids" "f \<subseteq> answered_ids (take (Suc j - i) ms)"
    by auto
  have "card (set ids) \<le> card f" using assms(2) card_length [of ids] by simp
  with f(1) have "f = set ids" by (simp add: card_seteq)
  with f(2) scan_found_bound [OF assms(1)] assms(2,3) show ?thesis by auto
qed

text \<open>
  C19. Cutting a history at \<open>adjust_compact_split\<close> never separates the tool calls of the assistant
  turn at the cut from their results, when a message lies before that turn: either the turn moved to the kept part, or
  all of its results lie, with it, in the summarised part; and the cut stays inside the history.
\<close>

theorem compact_split_keeps_turn:
  assumes "1 < split" "split < length messages"
    and "msg_content (messages ! (split - 1)) = Assistant am cost dur"
  shows "adjust_compact_split messages split \<le> length messages \<and> 0 < adjust_compact_split messages split \<and>
    (adjust_compact_split messages split = split - 1 \<or>
     split \<le> adjust_compact_split messages split \<and>
     set (tool_use_ids (am_content am)) \<subseteq>
       answered_ids (take (adjust_compact_split messages split - split) (drop split messages)))"
proof (cases "tool_use_ids (am_content am) = []")
  case True
  with assms show ?thesis by (simp add: adjust_compact_split_def)
next
  case False
  obtain f j where scan:
    "scan_tool_results (tool_use_ids (am_content am)) (drop split messages) {} split = (f, j)"
    by (cases "scan_tool_results (tool_use_ids (am_content am)) (drop split messages) {} split")
  show ?thesis
    using assms False scan scan_complete [OF scan _ False]
    by (auto simp: adjust_compact_split_def)
qed

theorem compact_split_keeps_turn_witness:
  "adjust_compact_split [sample_answer [], sample_call [''x''], sample_answer [''x'']] 2 = 3 \<and>
   set [''x''] \<subseteq> answered_ids (take (3 - 2)
     (drop 2 [sample_answer [], sample_call [''x''], sample_answer [''x'']]))"
proof -
  let ?ms = "[sample_answer [], sample_call [''x''], sample_answer [''x'']]"
  have split: "adjust_compact_split ?ms 2 = 3"
    by (simp add: adjust_compact_split_def sample_call_def sample_answer_def scan_tool_results.simps
        extract_tool_result_ids_def aborted_result_def is_tool_result_def get_str_def Let_def)
  have c: "msg_content (?ms ! (2 - 1)) = Assistant \<lparr>am_role = ''assistant'',
      am_content = [ToolUse ''x'' ''Bash'' JNull], am_stop_reason = None, am_usage = None\<rparr> 0 0"
    by (simp add: sample_call_def)
  from compact_split_keeps_turn [OF _ _ c] split show ?thesis by simp
qed

section \<open>Micro-compaction keeps the pairing and the recent messages\<close>

lemma micro_block_get:
  "k \<noteq> ''content'' \<Longrightarrow> json_get (micro_block render names n b) k = json_get b k"
  by (simp add: micro_block_def json_get_set_existing Let_def split: option.split)

lemma micro_block_ids:
  "result_ids (map (micro_block render names n) bs) = result_ids bs"
  by (induction bs) (auto simp: is_tool_result_def get_str_def micro_block_get split: option.splits)

lemma micro_message_ids:
  "message_uses (micro_message render age cfg names m) = message_uses m"
  "message_results (micro_message render age cfg names m) = message_results m"
proof -
  have "message_uses (micro_message render age cfg names m) = message_uses m \<and>
    message_results (micro_message render age cfg names m) = message_results m"
  proof (cases "msg_content m")
    case (User um meta tr)
    then have "message_results m = (case um_content um of JArray arr \<Rightarrow> set (result_ids arr) | _ \<Rightarrow> {})"
      and "message_uses m = {}"
      by (simp_all add: message_results_def message_uses_def extract_tool_result_ids_def split: json.split)
    with User message_results_set_blocks [OF User] show ?thesis
      by (simp add: micro_message_def micro_block_ids split: option.split json.split)
  qed (simp_all add: micro_message_def split: option.split)
  then show "message_uses (micro_message render age cfg names m) = message_uses m"
    "message_results (micro_message render age cfg names m) = message_results m" by auto
qed

lemma used_ids_map: "used_ids (map f ms) = (\<Union>m\<in>set ms. message_uses (f m))"
  and answered_ids_map: "answered_ids (map f ms) = (\<Union>m\<in>set ms. message_results (f m))"
  by (auto simp: used_ids_def answered_ids_def)

text \<open>
  Micro-compaction never changes which tool calls and results a history carries, nor its length,
  and leaves the last four messages untouched, so a history that was API-legal stays so.
\<close>

lemma micro_compact_preserves_pairing:
  "used_ids (micro_compact render age ms cfg) = used_ids ms \<and>
   answered_ids (micro_compact render age ms cfg) = answered_ids ms \<and>
   length (micro_compact render age ms cfg) = length ms \<and>
   drop (length ms - 4) (micro_compact render age ms cfg) = drop (length ms - 4) ms"
proof -
  let ?k = "length ms - 4"
  have "set ms = set (take ?k ms) \<union> set (drop ?k ms)"
    by (metis append_take_drop_id set_append)
  then have "used_ids ms = used_ids (take ?k ms) \<union> used_ids (drop ?k ms)"
    "answered_ids ms = answered_ids (take ?k ms) \<union> answered_ids (drop ?k ms)"
    by (auto simp: used_ids_def answered_ids_def)
  then show ?thesis
    by (simp add: micro_compact_def Let_def used_ids_map answered_ids_map micro_message_ids)
      (simp add: used_ids_def answered_ids_def)
qed

section \<open>Reactive compaction\<close>

lemma turn_starts_drop:
  "length (turn_starts (drop k ms)) = length (filter (\<lambda>i. is_turn_start (ms ! i)) [k..<length ms])"
proof -
  have "[k..<length ms] = map (\<lambda>i. i + k) [0..<length ms - k]"
    by (cases "k \<le> length ms") (simp_all add: map_add_upt)
  moreover have "filter (\<lambda>i. is_turn_start (drop k ms ! i)) [0..<length ms - k] =
      filter (\<lambda>i. is_turn_start (ms ! (i + k))) [0..<length ms - k]"
    by (rule filter_cong) (auto simp: add.commute)
  ultimately show ?thesis
    by (simp add: turn_starts_def filter_map o_def)
qed

lemma filter_upt_nth:
  assumes "n < length (filter P [0..<N])"
  shows "length (filter P [filter P [0..<N] ! n..<N]) = length (filter P [0..<N]) - n"
  using assms
proof (induction N arbitrary: n)
  case (Suc N)
  show ?case
  proof (cases "n < length (filter P [0..<N])")
    case True
    then have "filter P [0..<N] ! n \<in> set (filter P [0..<N])" by (rule nth_mem)
    then have "filter P [0..<N] ! n < N" by simp
    with Suc.IH [OF True] True show ?thesis by (simp add: nth_append Suc_diff_le)
  next
    case False
    with Suc.prems show ?thesis by (auto simp: nth_append split: if_splits)
  qed
qed simp

lemma reactive_drop_count_bounds:
  assumes "2 < length (turn_starts ms)"
  shows "1 \<le> reactive_drop_count render ms t" "reactive_drop_count render ms t \<le> length (turn_starts ms) div 2"
proof -
  have "length (turn_starts ms) div 5 \<le> length (turn_starts ms) div 2"
    by (rule div_le_mono2) simp_all
  moreover have "1 \<le> length (turn_starts ms) div 2" using assms by simp
  ultimately show "1 \<le> reactive_drop_count render ms t"
    and "reactive_drop_count render ms t \<le> length (turn_starts ms) div 2"
    by (auto simp: reactive_drop_count_def Let_def split: option.split)
qed

text \<open>
  Reactive compaction drops a prefix and nothing else: with more than four messages and more
  than two user turns it always makes the history strictly shorter, the rest opens with a user turn
  (never with an orphaned tool result), and at least half of the turns survive, whatever
  token reduction was asked for.
\<close>

lemma reactive_compact_drops_old_turns:
  assumes "4 < length ms" "2 < length (turn_starts ms)"
  shows "\<exists>k. reactive_compact render ms target = drop k ms \<and> 0 < k \<and> k < length ms \<and>
    is_turn_start (ms ! k) \<and>
    length (turn_starts ms) - length (turn_starts ms) div 2 \<le>
      length (turn_starts (reactive_compact render ms target))"
proof -
  let ?P = "\<lambda>i. is_turn_start (ms ! i)" and ?d = "reactive_drop_count render ms target"
  let ?starts = "turn_starts ms" and ?k = "turn_starts ms ! ?d"
  from reactive_drop_count_bounds [OF assms(2)]
  have d: "1 \<le> ?d" "?d \<le> length ?starts div 2" by auto
  with assms(2) have lt: "?d < length ?starts" by linarith
  then have out: "reactive_compact render ms target = drop ?k ms"
    using assms by (simp add: reactive_compact_def Let_def)
  have mem: "?k \<in> set ?starts" using lt by simp
  then have k: "?k < length ms" "?P ?k" by (auto simp: turn_starts_def)
  have "sorted_wrt (<) ?starts" by (simp add: turn_starts_def sorted_wrt_filter)
  from sorted_wrt_nth_less [OF this, of 0 ?d] d lt have "?starts ! 0 < ?k" by simp
  moreover have "length (turn_starts (drop ?k ms)) = length ?starts - ?d"
    using filter_upt_nth [of ?d ?P "length ms"] lt
    unfolding turn_starts_drop by (simp add: turn_starts_def)
  ultimately show ?thesis using out k d by (intro exI [of _ ?k]) auto
qed

definition sample_ask :: message where
  "sample_ask = \<lparr>msg_uuid = ''u'', msg_timestamp = ''t'',
     msg_content = User \<lparr>um_role = ''user'', um_content = JString ''hi''\<rparr> False None\<rparr>"

lemma reactive_compact_drops_old_turns_witness:
  "\<exists>k. reactive_compact (\<lambda>_. ''x'') (replicate 5 sample_ask) None = drop k (replicate 5 sample_ask) \<and> 0 < k"
proof -
  have "turn_starts (replicate 5 sample_ask) = [0, 1, 2, 3, 4]"
    by (simp add: turn_starts_def is_turn_start_def sample_ask_def upt_rec nth_Cons')
  then have h: "2 < length (turn_starts (replicate 5 sample_ask))" "4 < length (replicate 5 sample_ask)"
    by simp_all
  from reactive_compact_drops_old_turns [OF h(2,1), of "\<lambda>_. ''x''" None] show ?thesis by blast
qed

section \<open>The kept tail of a text\<close>

lemma next_boundary_spec:
  assumes "start \<le> length body"
  shows "start \<le> next_boundary body start \<and> next_boundary body start \<le> length body \<and>
    is_char_boundary body (next_boundary body start) \<and>
    (\<forall>i. start \<le> i \<and> i < next_boundary body start \<longrightarrow> \<not> is_char_boundary body i)"
  using assms
proof (induction body start rule: next_boundary.induct)
  case (1 body start)
  show ?case
  proof (cases "length body \<le> start \<or> is_char_boundary body start")
    case True
    with 1 show ?thesis
      by (auto simp: next_boundary.simps [of body start] is_char_boundary_def)
  next
    case False
    with 1 have "start + 1 \<le> next_boundary body (start + 1) \<and>
      next_boundary body (start + 1) \<le> length body \<and>
      is_char_boundary body (next_boundary body (start + 1)) \<and>
      (\<forall>i. start + 1 \<le> i \<and> i < next_boundary body (start + 1) \<longrightarrow> \<not> is_char_boundary body i)"
      by simp
    with False show ?thesis
      by (auto simp: next_boundary.simps [of body start]) (metis Suc_leI le_neq_implies_less)
  qed
qed

text \<open>
  \<open>tail_chars\<close> on a text longer than the budget returns the omission marker followed by the
  longest suffix of the text within the budget that starts on a UTF-8 character boundary, so slicing
  never panics.
\<close>

theorem tail_chars_longest_suffix:
  assumes "max_chars < length body"
  shows "\<exists>i. tail_chars body max_chars =
      ''[...earlier conversation omitted...]'' @ [CHR 0x0A] @ drop i body \<and>
    is_char_boundary body i \<and> length (drop i body) \<le> max_chars \<and>
    (\<forall>j. is_char_boundary body j \<and> j < i \<longrightarrow> max_chars < length (drop j body))"
proof -
  let ?i = "next_boundary body (length body - max_chars)"
  from next_boundary_spec [of "length body - max_chars" body]
  have i: "length body - max_chars \<le> ?i" "is_char_boundary body ?i" "?i \<le> length body"
    and least: "\<And>j. length body - max_chars \<le> j \<Longrightarrow> j < ?i \<Longrightarrow> \<not> is_char_boundary body j"
    by auto
  have "max_chars < length (drop j body)" if "is_char_boundary body j \<and> j < ?i" for j
  proof -
    have "j < length body - max_chars" using least [of j] that by force
    then show ?thesis using assms by simp
  qed
  with assms i show ?thesis by (intro exI [of _ ?i]) (auto simp: tail_chars_def)
qed

theorem tail_chars_longest_suffix_witness:
  "\<exists>i. tail_chars [CHR ''a'', CHR 0xC3, CHR 0xA9] 1 =
      ''[...earlier conversation omitted...]'' @ [CHR 0x0A] @ drop i [CHR ''a'', CHR 0xC3, CHR 0xA9] \<and>
    is_char_boundary [CHR ''a'', CHR 0xC3, CHR 0xA9] i"
  using tail_chars_longest_suffix [of 1 "[CHR ''a'', CHR 0xC3, CHR 0xA9]"] by auto

end
