(* ===== verification/Bao_Permissions.thy ===== *)
theory Bao_Permissions
  imports Bao_Prelude
begin

text \<open>
  \<open>permissions/manager.rs\<close>: the permission rules of the daemon, their glob matcher and the
  decision procedure, and \<open>permissions/gate.rs\<close>: the pending interactive prompts. The
  \<open>RwLock\<close>-protected context is a record passed through the operations. Rule maps are keyed by the
  source of the rule; their iteration order does not matter to any operation.
\<close>

section \<open>Data\<close>

datatype permission_mode = DefaultMode | Plan | BypassPermissions | Auto

record permission_rule =
  pr_tool_name :: string
  pr_rule_content :: "string option"

type_synonym rules_by_source = "(string, permission_rule list) hash_map"

record tool_permission_context =
  mode :: permission_mode
  additional_search_dirs :: "string list"
  additional_write_dirs :: "string list"
  always_allow_rules :: rules_by_source
  always_deny_rules :: rules_by_source
  always_ask_rules :: rules_by_source
  auto_allow_channels :: "(string, bool) hash_map"
  ask_timeout_secs :: u64
  persist_grants :: bool

datatype permission_result = Allow | Ask string | Deny string

definition default_context :: tool_permission_context where
  "default_context = \<lparr>mode = DefaultMode, additional_search_dirs = [], additional_write_dirs = [],
     always_allow_rules = [], always_deny_rules = [], always_ask_rules = [], auto_allow_channels = [],
     ask_timeout_secs = 300, persist_grants = True\<rparr>"

definition ask_timeout_duration :: "tool_permission_context \<Rightarrow> u64" where
  "ask_timeout_duration ctx = max (ask_timeout_secs ctx) 1"

section \<open>Glob matching by dynamic programming\<close>

text \<open>
  \<open>dp ! i ! j\<close> says whether the first \<open>i\<close> pattern bytes match the first \<open>j\<close> text bytes. The
  tables are updated in place in the order of the source's loops. (The \<open>prev\<close> row that the source
  fills first is never read.)
\<close>

definition set_cell :: "bool list list \<Rightarrow> nat \<Rightarrow> nat \<Rightarrow> bool \<Rightarrow> bool list list" where
  "set_cell dp i j v = dp[i := (dp ! i)[j := v]]"

definition glob_cell :: "string \<Rightarrow> string \<Rightarrow> nat \<Rightarrow> nat \<Rightarrow> bool list list \<Rightarrow> bool list list" where
  "glob_cell pat str i j dp =
     (if pat ! (i - 1) = CHR ''*'' then set_cell dp i j (dp ! (i - 1) ! j \<or> dp ! i ! (j - 1))
      else if ascii_lower (pat ! (i - 1)) = ascii_lower (str ! (j - 1))
      then set_cell dp i j (dp ! (i - 1) ! (j - 1))
      else dp)"

definition glob_matches :: "string \<Rightarrow> string \<Rightarrow> bool" where
  "glob_matches pat str =
     (let p_len = length pat; t_len = length str;
          dp0 = set_cell (replicate (p_len + 1) (replicate (t_len + 1) False)) 0 0 True;
          dp1 = fold (\<lambda>i dp. if pat ! (i - 1) = CHR ''*'' then set_cell dp i 0 (dp ! (i - 1) ! 0) else dp)
                  [1..<p_len + 1] dp0;
          dp2 = fold (\<lambda>i. fold (glob_cell pat str i) [1..<t_len + 1]) [1..<p_len + 1] dp1
      in dp2 ! p_len ! t_len)"

section \<open>Rules and decisions\<close>

definition matches_rule :: "permission_rule \<Rightarrow> string \<Rightarrow> string option \<Rightarrow> bool" where
  "matches_rule rule tool_name input_description =
     (if \<not> eq_ignore_ascii_case (pr_tool_name rule) tool_name then False
      else case pr_rule_content rule of
             None \<Rightarrow> True
           | Some pat \<Rightarrow>
               if eq_ignore_ascii_case pat tool_name then True
               else (case input_description of Some desc \<Rightarrow> glob_matches pat desc | None \<Rightarrow> False))"

definition is_read_only_tool :: "string \<Rightarrow> bool" where
  "is_read_only_tool tool_name = list_ex (str_contains tool_name) [''Grep'', ''Glob'', ''Search'']"

definition find_matching_rule_in_map :: "rules_by_source \<Rightarrow> string \<Rightarrow> string option \<Rightarrow> bool" where
  "find_matching_rule_in_map rules tool_name input_description =
     list_ex (list_ex (\<lambda>r. matches_rule r tool_name input_description)) (hm_values rules)"

definition check_permission :: "tool_permission_context \<Rightarrow> string \<Rightarrow> string option \<Rightarrow> permission_result" where
  "check_permission ctx tool_name desc =
     (if find_matching_rule_in_map (always_deny_rules ctx) tool_name desc then
        Deny (''Tool '' @ quoted tool_name @ '' is denied by permission rules'')
      else if mode ctx = BypassPermissions then Allow
      else if find_matching_rule_in_map (always_allow_rules ctx) tool_name desc then Allow
      else if find_matching_rule_in_map (always_ask_rules ctx) tool_name desc then
        Ask (''Tool '' @ quoted tool_name @ '' requires permission (matched ask rule)'')
      else if mode ctx = Plan then
        (if is_read_only_tool tool_name then Allow
         else Ask (''Tool '' @ quoted tool_name @ '' requires permission in Plan mode''))
      else Ask (''Tool '' @ quoted tool_name @ '' requires permission''))"

definition update_context ::
  "(tool_permission_context \<Rightarrow> tool_permission_context) \<Rightarrow> tool_permission_context \<Rightarrow> tool_permission_context" where
  "update_context updater ctx = updater ctx"

definition source_rules :: "string \<Rightarrow> rules_by_source \<Rightarrow> permission_rule list" where
  "source_rules source rules = (case hm_get rules source of Some rs \<Rightarrow> rs | None \<Rightarrow> [])"

definition push_rule :: "string \<Rightarrow> permission_rule \<Rightarrow> rules_by_source \<Rightarrow> rules_by_source" where
  "push_rule source rule rules = hm_insert source (source_rules source rules @ [rule]) rules"

definition add_allow_always_rule ::
  "string \<Rightarrow> string \<Rightarrow> string option \<Rightarrow> tool_permission_context \<Rightarrow> tool_permission_context" where
  "add_allow_always_rule source tool_name rule_content ctx =
     (let rules = source_rules source (always_allow_rules ctx);
          rule = \<lparr>pr_tool_name = tool_name, pr_rule_content = rule_content\<rparr>
      in if \<not> list_ex (\<lambda>r. pr_tool_name r = tool_name \<and> pr_rule_content r = rule_content) rules
         then ctx\<lparr>always_allow_rules := hm_insert source (rules @ [rule]) (always_allow_rules ctx)\<rparr>
         else ctx\<lparr>always_allow_rules := hm_insert source rules (always_allow_rules ctx)\<rparr>)"

definition add_rule ::
  "string \<Rightarrow> string \<Rightarrow> string \<Rightarrow> string option \<Rightarrow> tool_permission_context \<Rightarrow> tool_permission_context" where
  "add_rule category source tool_name rule_content ctx =
     (let rule = \<lparr>pr_tool_name = tool_name, pr_rule_content = rule_content\<rparr>;
          c = to_ascii_lowercase category
      in if c = ''allow'' \<or> c = ''always_allow''
         then ctx\<lparr>always_allow_rules := push_rule source rule (always_allow_rules ctx)\<rparr>
         else if c = ''deny'' \<or> c = ''always_deny''
         then ctx\<lparr>always_deny_rules := push_rule source rule (always_deny_rules ctx)\<rparr>
         else if c = ''ask'' \<or> c = ''always_ask''
         then ctx\<lparr>always_ask_rules := push_rule source rule (always_ask_rules ctx)\<rparr>
         else ctx\<lparr>always_allow_rules := push_rule source rule (always_allow_rules ctx)\<rparr>)"

text \<open>The rules that \<open>remove_rule\<close> deletes.\<close>

definition removal_matches :: "string \<Rightarrow> string option \<Rightarrow> permission_rule \<Rightarrow> bool" where
  "removal_matches tool_name rule_content r =
     (let tool_match = eq_ignore_ascii_case (pr_tool_name r) tool_name \<or> tool_name = ''*'';
          content_match = (case (rule_content, pr_rule_content r) of
             (Some target, Some content) \<Rightarrow> target = content \<or> target = ''*''
           | (Some _, None) \<Rightarrow> False
           | (None, _) \<Rightarrow> True)
      in tool_match \<and> content_match)"

fun filter_rules :: "(permission_rule \<Rightarrow> bool) \<Rightarrow> rules_by_source \<Rightarrow> rules_by_source \<times> nat" where
  "filter_rules drop_it [] = ([], 0)"
| "filter_rules drop_it ((source, rules) # rest) =
     (let kept = filter (\<lambda>r. \<not> drop_it r) rules; (rest', n) = filter_rules drop_it rest
      in ((source, kept) # rest', (length rules - length kept) + n))"

definition remove_rule ::
  "string option \<Rightarrow> string \<Rightarrow> string option \<Rightarrow> tool_permission_context \<Rightarrow> tool_permission_context \<times> nat" where
  "remove_rule category tool_name rule_content ctx =
     (let d = removal_matches tool_name rule_content;
          (allow', n_allow) = filter_rules d (always_allow_rules ctx);
          (deny', n_deny) = filter_rules d (always_deny_rules ctx);
          (ask', n_ask) = filter_rules d (always_ask_rules ctx);
          c = map_option to_ascii_lowercase category
      in if c = Some ''allow'' \<or> c = Some ''always_allow'' then (ctx\<lparr>always_allow_rules := allow'\<rparr>, n_allow)
         else if c = Some ''deny'' \<or> c = Some ''always_deny'' then (ctx\<lparr>always_deny_rules := deny'\<rparr>, n_deny)
         else if c = Some ''ask'' \<or> c = Some ''always_ask'' then (ctx\<lparr>always_ask_rules := ask'\<rparr>, n_ask)
         else (ctx\<lparr>always_allow_rules := allow', always_deny_rules := deny', always_ask_rules := ask'\<rparr>,
               n_allow + n_deny + n_ask))"

definition set_mode :: "permission_mode \<Rightarrow> tool_permission_context \<Rightarrow> tool_permission_context" where
  "set_mode m ctx = ctx\<lparr>mode := m\<rparr>"

section \<open>Correctness of the glob matcher\<close>

text \<open>The meaning of a pattern: \<open>*\<close> stands for any bytes, every other byte for itself up to ASCII case.\<close>

fun glob_spec :: "string \<Rightarrow> string \<Rightarrow> bool" where
  "glob_spec [] str = (str = [])"
| "glob_spec (c # pat) str =
     (if c = CHR ''*'' then \<exists>skipped rest. str = skipped @ rest \<and> glob_spec pat rest
      else \<exists>x rest. str = x # rest \<and> ascii_lower c = ascii_lower x \<and> glob_spec pat rest)"

lemma glob_spec_append:
  "glob_spec (p @ q) str \<longleftrightarrow> (\<exists>u v. str = u @ v \<and> glob_spec p u \<and> glob_spec q v)"
proof (induction p arbitrary: str)
  case (Cons c p)
  have "(\<exists>s r. str = s @ r \<and> (\<exists>u v. r = u @ v \<and> P u \<and> Q v)) \<longleftrightarrow>
    (\<exists>u v. str = u @ v \<and> (\<exists>s r. u = s @ r \<and> P r) \<and> Q v)" for P Q :: "string \<Rightarrow> bool"
    by (metis append_assoc)
  moreover have "(\<exists>x r. str = x # r \<and> E x \<and> (\<exists>u v. r = u @ v \<and> P u \<and> Q v)) \<longleftrightarrow>
    (\<exists>u v. str = u @ v \<and> (\<exists>x r. u = x # r \<and> E x \<and> P r) \<and> Q v)" for E and P Q :: "string \<Rightarrow> bool"
    by (metis append_Cons)
  ultimately show ?case by (simp add: Cons)
qed auto

lemma glob_spec_snoc_star:
  "glob_spec (q @ ''*'') str \<longleftrightarrow> glob_spec q str \<or> (str \<noteq> [] \<and> glob_spec (q @ ''*'') (butlast str))"
proof
  assume "glob_spec (q @ ''*'') str"
  then obtain u v where t: "str = u @ v" "glob_spec q u" by (auto simp: glob_spec_append)
  show "glob_spec q str \<or> (str \<noteq> [] \<and> glob_spec (q @ ''*'') (butlast str))"
  proof (cases v rule: rev_cases)
    case Nil
    with t show ?thesis by simp
  next
    case (snoc v' x)
    with t have "glob_spec (q @ ''*'') (butlast str)"
      by (auto simp: glob_spec_append butlast_append)
    with snoc t show ?thesis by simp
  qed
next
  assume "glob_spec q str \<or> (str \<noteq> [] \<and> glob_spec (q @ ''*'') (butlast str))"
  then show "glob_spec (q @ ''*'') str"
  proof
    assume "glob_spec q str"
    then show ?thesis unfolding glob_spec_append by (intro exI [of _ str] exI [of _ "[]"]) simp
  next
    assume h: "str \<noteq> [] \<and> glob_spec (q @ ''*'') (butlast str)"
    then obtain u v where "butlast str = u @ v" "glob_spec q u" by (auto simp: glob_spec_append)
    with h have "str = u @ (v @ [last str])" by (metis append_assoc append_butlast_last_id)
    with \<open>glob_spec q u\<close> show ?thesis unfolding glob_spec_append by fastforce
  qed
qed

lemma glob_spec_snoc_char:
  assumes "c \<noteq> CHR ''*''"
  shows "glob_spec (q @ [c]) str \<longleftrightarrow>
    str \<noteq> [] \<and> ascii_lower c = ascii_lower (last str) \<and> glob_spec q (butlast str)"
proof -
  have "glob_spec [c] v \<longleftrightarrow> (\<exists>x. v = [x] \<and> ascii_lower c = ascii_lower x)" for v
    using assms by auto
  then show ?thesis
    unfolding glob_spec_append by (metis append_butlast_last_id butlast_snoc last_snoc snoc_eq_iff_butlast)
qed

text \<open>A table of the right shape whose cells are given by \<open>D\<close>.\<close>

definition is_table :: "nat \<Rightarrow> nat \<Rightarrow> bool list list \<Rightarrow> (nat \<Rightarrow> nat \<Rightarrow> bool) \<Rightarrow> bool" where
  "is_table m n dp D \<longleftrightarrow> length dp = Suc m \<and> (\<forall>i\<le>m. length (dp ! i) = Suc n) \<and>
     (\<forall>i\<le>m. \<forall>j\<le>n. dp ! i ! j = D i j)"

lemma is_table_cong:
  "is_table m n dp D \<Longrightarrow> (\<And>i j. i \<le> m \<Longrightarrow> j \<le> n \<Longrightarrow> D i j = E i j) \<Longrightarrow> is_table m n dp E"
  by (simp add: is_table_def)

lemma is_table_set_cell:
  "is_table m n dp D \<Longrightarrow> i \<le> m \<Longrightarrow> j \<le> n \<Longrightarrow>
     is_table m n (set_cell dp i j v) (\<lambda>a b. if a = i \<and> b = j then v else D a b)"
  by (auto simp: is_table_def set_cell_def nth_list_update)

lemma is_table_nth: "is_table m n dp D \<Longrightarrow> i \<le> m \<Longrightarrow> j \<le> n \<Longrightarrow> dp ! i ! j = D i j"
  by (simp add: is_table_def)

abbreviation glob_T :: "string \<Rightarrow> string \<Rightarrow> nat \<Rightarrow> nat \<Rightarrow> bool" where
  "glob_T pat str i j \<equiv> glob_spec (take i pat) (take j str)"

lemma glob_T_rec:
  assumes "i < length pat"
  shows "glob_T pat str (Suc i) 0 \<longleftrightarrow> pat ! i = CHR ''*'' \<and> glob_T pat str i 0"
    and "j < length str \<Longrightarrow> glob_T pat str (Suc i) (Suc j) \<longleftrightarrow>
      (if pat ! i = CHR ''*'' then glob_T pat str i (Suc j) \<or> glob_T pat str (Suc i) j
       else ascii_lower (pat ! i) = ascii_lower (str ! j) \<and> glob_T pat str i j)"
proof -
  have p: "take (Suc i) pat = take i pat @ [pat ! i]" using assms by (simp add: take_Suc_conv_app_nth)
  show "glob_T pat str (Suc i) 0 \<longleftrightarrow> pat ! i = CHR ''*'' \<and> glob_T pat str i 0"
    using glob_spec_snoc_star [of "take i pat" "[]"] glob_spec_snoc_char [of "pat ! i" "take i pat" "[]"]
    by (cases "pat ! i = CHR ''*''") (simp_all add: p)
  assume j: "j < length str"
  have t: "take (Suc j) str \<noteq> []" "butlast (take (Suc j) str) = take j str" "last (take (Suc j) str) = str ! j"
    using j by (auto simp: take_Suc_conv_app_nth)
  show "glob_T pat str (Suc i) (Suc j) \<longleftrightarrow>
      (if pat ! i = CHR ''*'' then glob_T pat str i (Suc j) \<or> glob_T pat str (Suc i) j
       else ascii_lower (pat ! i) = ascii_lower (str ! j) \<and> glob_T pat str i j)"
    using glob_spec_snoc_star [of "take i pat" "take (Suc j) str"]
      glob_spec_snoc_char [of "pat ! i" "take i pat" "take (Suc j) str"]
    by (cases "pat ! i = CHR ''*''") (simp_all only: p t if_True if_False not_False_eq_True simp_thms)
qed

lemma glob_T_0: "j \<le> length str \<Longrightarrow> glob_T pat str 0 j \<longleftrightarrow> j = 0"
  by auto

lemma glob_first_column:
  fixes pat str
  defines "dp0 \<equiv> set_cell (replicate (length pat + 1) (replicate (length str + 1) False)) 0 0 True"
  shows "is_table (length pat) (length str)
    (fold (\<lambda>i dp. if pat ! (i - 1) = CHR ''*'' then set_cell dp i 0 (dp ! (i - 1) ! 0) else dp)
       [1..<length pat + 1] dp0)
    (\<lambda>i j. i < length pat + 1 \<and> j = 0 \<and> glob_T pat str i 0)"
proof (rule fold_upt_invariant
    [where P = "\<lambda>k dp. is_table (length pat) (length str) dp (\<lambda>i j. i < k \<and> j = 0 \<and> glob_T pat str i 0)"])
  show "is_table (length pat) (length str) dp0 (\<lambda>i j. i < 1 \<and> j = 0 \<and> glob_T pat str i 0)"
  proof -
    have "is_table (length pat) (length str) (replicate (length pat + 1) (replicate (length str + 1) False)) (\<lambda>_ _. False)"
      by (simp add: is_table_def del: replicate_Suc)
    from is_table_set_cell [OF this, of 0 0 True] show ?thesis
      unfolding dp0_def by (rule is_table_cong [OF _]) auto
  qed
next
  fix k dp
  assume k: "1 \<le> k" "k < length pat + 1"
    and dp: "is_table (length pat) (length str) dp (\<lambda>i j. i < k \<and> j = 0 \<and> glob_T pat str i 0)"
  obtain k' where k': "k = Suc k'" "k' < length pat" using k by (cases k) auto
  have prev: "dp ! k' ! 0 = glob_T pat str k' 0" using is_table_nth [OF dp, of k' 0] k' by simp
  show "is_table (length pat) (length str)
    (if pat ! (k - 1) = CHR ''*'' then set_cell dp k 0 (dp ! (k - 1) ! 0) else dp)
    (\<lambda>i j. i < Suc k \<and> j = 0 \<and> glob_T pat str i 0)"
  proof (cases "pat ! k' = CHR ''*''")
    case True
    have "is_table (length pat) (length str) (set_cell dp k 0 (dp ! k' ! 0))
      (\<lambda>i j. if i = k \<and> j = 0 then dp ! k' ! 0 else i < k \<and> j = 0 \<and> glob_T pat str i 0)"
      using dp k' by (intro is_table_set_cell) auto
    then have "is_table (length pat) (length str) (set_cell dp k 0 (dp ! k' ! 0))
      (\<lambda>i j. i < Suc k \<and> j = 0 \<and> glob_T pat str i 0)"
      by (rule is_table_cong) (use True prev k' glob_T_rec(1) in \<open>auto simp: less_Suc_eq\<close>)
    with True k' show ?thesis by simp
  next
    case False
    from dp have "is_table (length pat) (length str) dp (\<lambda>i j. i < Suc k \<and> j = 0 \<and> glob_T pat str i 0)"
      by (rule is_table_cong) (use False k' glob_T_rec(1) in \<open>auto simp: less_Suc_eq\<close>)
    with False k' show ?thesis by simp
  qed
qed simp

text \<open>The table when rows below \<open>i\<close> and the cells of row \<open>i\<close> below \<open>j\<close> are final.\<close>

abbreviation glob_stage :: "string \<Rightarrow> string \<Rightarrow> nat \<Rightarrow> nat \<Rightarrow> nat \<Rightarrow> nat \<Rightarrow> bool" where
  "glob_stage pat str i j a b \<equiv>
     (if a < i \<or> (a = i \<and> b < j) then glob_T pat str a b else b = 0 \<and> glob_T pat str a 0)"

lemma glob_cell_step:
  assumes i: "i < length pat" and j: "j < length str"
    and dp: "is_table (length pat) (length str) dp (glob_stage pat str (Suc i) (Suc j))"
  shows "is_table (length pat) (length str) (glob_cell pat str (Suc i) (Suc j) dp)
    (glob_stage pat str (Suc i) (Suc (Suc j)))"
proof -
  have cells: "dp ! i ! Suc j = glob_T pat str i (Suc j)" "dp ! Suc i ! j = glob_T pat str (Suc i) j"
    "dp ! i ! j = glob_T pat str i j"
    using i j by (simp_all add: is_table_nth [OF dp])
  note T = glob_T_rec(2) [OF i j]
  have set: "is_table (length pat) (length str) (set_cell dp (Suc i) (Suc j) v)
      (glob_stage pat str (Suc i) (Suc (Suc j)))" if "v = glob_T pat str (Suc i) (Suc j)" for v
    by (rule is_table_cong [OF is_table_set_cell [OF dp]]) (use i j that in \<open>auto simp: less_Suc_eq\<close>)
  have keep: "is_table (length pat) (length str) dp (glob_stage pat str (Suc i) (Suc (Suc j)))"
    if "\<not> glob_T pat str (Suc i) (Suc j)"
    by (rule is_table_cong [OF dp]) (use that in \<open>auto simp: less_Suc_eq\<close>)
  show ?thesis
  proof (cases "pat ! i = CHR ''*''")
    case True
    have "glob_cell pat str (Suc i) (Suc j) dp =
        set_cell dp (Suc i) (Suc j) (glob_T pat str i (Suc j) \<or> glob_T pat str (Suc i) j)"
      using True by (simp only: glob_cell_def diff_Suc_1 cells if_True simp_thms)
    then show ?thesis using set [unfolded T] True by (simp only: if_True simp_thms)
  next
    case star: False
    show ?thesis
    proof (cases "ascii_lower (pat ! i) = ascii_lower (str ! j)")
      case True
      have "glob_cell pat str (Suc i) (Suc j) dp = set_cell dp (Suc i) (Suc j) (glob_T pat str i j)"
        using star True by (simp only: glob_cell_def diff_Suc_1 cells if_True if_False simp_thms)
      then show ?thesis using set [unfolded T] star True by (simp only: if_True if_False simp_thms)
    next
      case False
      then show ?thesis using keep [unfolded T] star
        by (simp only: glob_cell_def diff_Suc_1 if_True if_False simp_thms not_False_eq_True)
    qed
  qed
qed

lemma glob_row_step:
  assumes i: "i < length pat"
    and dp: "is_table (length pat) (length str) dp (glob_stage pat str (Suc i) 0)"
  shows "is_table (length pat) (length str) (fold (glob_cell pat str (Suc i)) [1..<length str + 1] dp)
    (glob_stage pat str (Suc (Suc i)) 0)"
proof -
  have "is_table (length pat) (length str) (fold (glob_cell pat str (Suc i)) [1..<length str + 1] dp)
    (glob_stage pat str (Suc i) (length str + 1))"
  proof (rule fold_upt_invariant
      [where P = "\<lambda>j dp. is_table (length pat) (length str) dp (glob_stage pat str (Suc i) j)"])
    show "is_table (length pat) (length str) dp (glob_stage pat str (Suc i) 1)"
      by (rule is_table_cong [OF dp]) auto
  next
    fix j dp
    assume "1 \<le> j" "j < length str + 1"
      and "is_table (length pat) (length str) dp (glob_stage pat str (Suc i) j)"
    then show "is_table (length pat) (length str) (glob_cell pat str (Suc i) j dp)
        (glob_stage pat str (Suc i) (Suc j))"
      using glob_cell_step [OF i, of "j - 1"] by (cases j) auto
  qed simp
  then show ?thesis by (rule is_table_cong) (auto simp: less_Suc_eq)
qed

text \<open>
  C16. The dynamic-programming matcher accepts exactly what the pattern means: \<open>*\<close> stands for any
  byte sequence and every other byte matches itself up to ASCII case, over the whole input.
\<close>

theorem glob_matches_spec: "glob_matches pat str \<longleftrightarrow> glob_spec pat str"
proof -
  let ?m = "length pat" and ?n = "length str"
  define dp1 where "dp1 = fold (\<lambda>i dp. if pat ! (i - 1) = CHR ''*'' then set_cell dp i 0 (dp ! (i - 1) ! 0) else dp)
    [1..<?m + 1] (set_cell (replicate (?m + 1) (replicate (?n + 1) False)) 0 0 True)"
  have start: "is_table ?m ?n dp1 (glob_stage pat str 1 0)"
    unfolding dp1_def by (rule is_table_cong [OF glob_first_column]) (auto simp: glob_T_0)
  have "is_table ?m ?n (fold (\<lambda>i. fold (glob_cell pat str i) [1..<?n + 1]) [1..<?m + 1] dp1)
    (glob_stage pat str (?m + 1) 0)"
  proof (rule fold_upt_invariant [where P = "\<lambda>i dp. is_table ?m ?n dp (glob_stage pat str i 0)"])
    fix i dp
    assume "1 \<le> i" "i < ?m + 1" "is_table ?m ?n dp (glob_stage pat str i 0)"
    then show "is_table ?m ?n (fold (glob_cell pat str i) [1..<?n + 1] dp) (glob_stage pat str (Suc i) 0)"
      using glob_row_step [of "i - 1"] by (cases i) auto
  qed (use start in simp_all)
  from is_table_nth [OF this, of ?m ?n] show ?thesis
    by (simp add: glob_matches_def Let_def dp1_def)
qed

section \<open>Rule maps\<close>

definition rule_set :: "rules_by_source \<Rightarrow> permission_rule set" where
  "rule_set m = (\<Union>rules\<in>set (hm_values m). set rules)"

definition rule_count :: "rules_by_source \<Rightarrow> nat" where
  "rule_count m = sum_list (map length (hm_values m))"

lemma find_matching_iff:
  "find_matching_rule_in_map m t d \<longleftrightarrow> (\<exists>r\<in>rule_set m. matches_rule r t d)"
  by (force simp: find_matching_rule_in_map_def rule_set_def list_ex_iff)

lemma rule_set_insert: "hm_wf m \<Longrightarrow> source_rules k m = old \<Longrightarrow> set old \<subseteq> set new \<Longrightarrow>
  rule_set (hm_insert k new m) = rule_set m \<union> set new"
proof (induction m)
  case (Cons kv m)
  obtain k' v where kv: "kv = (k', v)" by (cases kv)
  show ?case
  proof (cases "k' = k")
    case True
    with Cons.prems show ?thesis by (auto simp: kv rule_set_def source_rules_def)
  next
    case False
    with Cons.prems have "rule_set (hm_insert k new m) = rule_set m \<union> set new"
      by (intro Cons.IH) (auto simp: kv hm_wf_def source_rules_def)
    with False show ?thesis by (auto simp: kv rule_set_def)
  qed
qed (auto simp: rule_set_def)

lemma source_rules_subset: "set (source_rules source m) \<subseteq> rule_set m"
proof (cases "hm_get m source")
  case (Some rs)
  then have "rs \<in> set (hm_values m)" by (force dest: map_of_SomeD)
  with Some show ?thesis by (auto simp: source_rules_def rule_set_def)
qed (simp add: source_rules_def)

lemma rule_set_push:
  "hm_wf m \<Longrightarrow> rule_set (push_rule source r m) = insert r (rule_set m)"
proof -
  assume wf: "hm_wf m"
  have "set (source_rules source m) \<subseteq> rule_set m"
    by (rule source_rules_subset)
  with rule_set_insert [OF wf refl, of source "source_rules source m @ [r]"] show ?thesis
    unfolding push_rule_def by auto
qed

lemma hm_wf_push [bao_inv]: "hm_wf m \<Longrightarrow> hm_wf (push_rule source r m)"
  by (simp add: push_rule_def hm_wf_insert)

lemma filter_rules_fst: "fst (filter_rules d m) = map (\<lambda>(s, rs). (s, filter (\<lambda>r. \<not> d r) rs)) m"
  by (induction d m rule: filter_rules.induct) (auto simp: Let_def split: prod.splits)

lemma filter_rules_keys [simp]: "map fst (fst (filter_rules d m)) = map fst m"
  by (induction m) (auto simp: filter_rules_fst)

lemma rule_set_filter: "rule_set (fst (filter_rules d m)) = {r \<in> rule_set m. \<not> d r}"
  by (force simp: filter_rules_fst rule_set_def)

lemma rule_count_filter: "rule_count m = rule_count (fst (filter_rules d m)) + snd (filter_rules d m)"
proof (induction d m rule: filter_rules.induct)
  case (2 d source rules rest)
  have "length (filter (\<lambda>r. \<not> d r) rules) \<le> length rules" by (rule length_filter_le)
  with "2.IH" [OF refl] show ?case by (simp add: rule_count_def Let_def split_beta del: length_filter_le)
qed (simp add: rule_count_def)

lemma hm_wf_filter_rules [bao_inv]: "hm_wf m \<Longrightarrow> hm_wf (fst (filter_rules d m))"
  by (simp add: hm_wf_def)

definition context_wf :: "tool_permission_context \<Rightarrow> bool" where
  "context_wf ctx \<longleftrightarrow> hm_wf (always_allow_rules ctx) \<and> hm_wf (always_deny_rules ctx) \<and> hm_wf (always_ask_rules ctx)"

section \<open>Deny rules dominate\<close>

datatype permission_op =
    SetMode permission_mode
  | AddRule string string string "string option"
  | AddAllowAlways string string "string option"
  | RemoveRule "string option" string "string option"

fun permission_step :: "permission_op \<Rightarrow> tool_permission_context \<Rightarrow> tool_permission_context" where
  "permission_step (SetMode m) ctx = set_mode m ctx"
| "permission_step (AddRule category source t c) ctx = add_rule category source t c ctx"
| "permission_step (AddAllowAlways source t c) ctx = add_allow_always_rule source t c ctx"
| "permission_step (RemoveRule category t c) ctx = fst (remove_rule category t c ctx)"

text \<open>The operations that cannot delete a deny rule.\<close>

fun keeps_denies :: "permission_op \<Rightarrow> bool" where
  "keeps_denies (RemoveRule category t c) \<longleftrightarrow>
     map_option to_ascii_lowercase category \<in>
       {Some ''allow'', Some ''always_allow'', Some ''ask'', Some ''always_ask''}"
| "keeps_denies _ \<longleftrightarrow> True"

abbreviation denies :: "string \<Rightarrow> string option \<Rightarrow> tool_permission_context \<Rightarrow> bool" where
  "denies t d ctx \<equiv> context_wf ctx \<and> find_matching_rule_in_map (always_deny_rules ctx) t d"

lemma permission_step_wf [bao_inv]: "context_wf ctx \<Longrightarrow> context_wf (permission_step oper ctx)"
  by (cases oper)
    (auto simp: context_wf_def set_mode_def add_rule_def add_allow_always_rule_def remove_rule_def
      Let_def hm_wf_push hm_wf_insert hm_wf_filter_rules split_beta)

lemma permission_step_denies:
  "keeps_denies oper \<Longrightarrow> denies t d ctx \<Longrightarrow> denies t d (permission_step oper ctx)"
  using permission_step_wf [of ctx oper]
  by (cases oper)
    (auto simp: set_mode_def add_rule_def add_allow_always_rule_def remove_rule_def Let_def split_beta
      find_matching_iff rule_set_push context_wf_def)

interpretation deny: guarded_machine permission_step "denies t d" keeps_denies for t d
  by unfold_locales (rule permission_step_denies)

interpretation contexts: machine permission_step context_wf
  by unfold_locales (rule permission_step_wf)

text \<open>
  C4. Deny rules dominate: once a deny rule matches an invocation, no sequence of mode changes
  (including BypassPermissions), added rules, allow-always grants and removals of allow or ask
  rules makes the answer anything but Deny.
\<close>

theorem deny_dominates:
  assumes "context_wf ctx" "find_matching_rule_in_map (always_deny_rules ctx) tool_name desc"
    and "list_all keeps_denies ops"
  shows "check_permission (fold permission_step ops ctx) tool_name desc =
    Deny (''Tool '' @ quoted tool_name @ '' is denied by permission rules'')"
  using deny.run_inv [of ctx tool_name desc ops] assms by (simp add: check_permission_def)

theorem deny_dominates_witness:
  "check_permission (fold permission_step
      [AddAllowAlways ''user'' ''Bash'' None, SetMode BypassPermissions, RemoveRule (Some ''ALLOW'') ''*'' None]
      (add_rule ''deny'' ''user'' ''Bash'' None default_context)) ''bash'' None =
    Deny (''Tool '' @ quoted ''bash'' @ '' is denied by permission rules'')"
  by (rule deny_dominates) (code_simp+)

text \<open>
  An interactive allow-always grant for a whole tool: the tool is then allowed on every input
  unless a deny rule matches, every other tool is answered as before, granting again changes
  nothing, and deny and ask rules are untouched.
\<close>

lemma allow_always_grant:
  fixes ctx :: tool_permission_context and source tool_name :: string
  assumes "context_wf ctx"
  defines "ctx' \<equiv> add_allow_always_rule source tool_name (Some tool_name) ctx"
  shows "(find_matching_rule_in_map (always_deny_rules ctx) tool_name desc \<or>
      check_permission ctx' tool_name desc = Allow) \<and>
    (eq_ignore_ascii_case tool_name other \<or>
      check_permission ctx' other desc = check_permission ctx other desc) \<and>
    add_allow_always_rule source tool_name (Some tool_name) ctx' = ctx'"
proof -
  let ?r = "\<lparr>pr_tool_name = tool_name, pr_rule_content = Some tool_name\<rparr>"
  let ?old = "source_rules source (always_allow_rules ctx)"
  define new where "new = (if ?r \<in> set ?old then ?old else ?old @ [?r])"
  have ex: "list_ex (\<lambda>r. pr_tool_name r = tool_name \<and> pr_rule_content r = Some tool_name) rs \<longleftrightarrow> ?r \<in> set rs"
    for rs :: "permission_rule list"
  proof -
    have "pr_tool_name r = tool_name \<and> pr_rule_content r = Some tool_name \<longleftrightarrow> r = ?r" for r :: permission_rule
      by (cases r) auto
    then show ?thesis by (auto simp: list_ex_iff)
  qed
  have ctx': "ctx' = ctx\<lparr>always_allow_rules := hm_insert source new (always_allow_rules ctx)\<rparr>"
    unfolding ctx'_def add_allow_always_rule_def by (simp add: ex new_def Let_def)
  have wf: "hm_wf (always_allow_rules ctx)" using assms(1) by (simp add: context_wf_def)
  have old: "set ?old \<subseteq> rule_set (always_allow_rules ctx)"
    by (rule source_rules_subset)
  have rules: "rule_set (always_allow_rules ctx') = insert ?r (rule_set (always_allow_rules ctx))"
  proof -
    have sub: "set ?old \<subseteq> set new" and new: "set new = insert ?r (set ?old)" by (auto simp: new_def)
    have "rule_set (always_allow_rules ctx') = rule_set (always_allow_rules ctx) \<union> set new"
      using rule_set_insert [OF wf refl sub] by (simp add: ctx')
    with new old show ?thesis by blast
  qed
  have r: "matches_rule ?r t d \<longleftrightarrow> eq_ignore_ascii_case tool_name t" for t d
    by (auto simp: matches_rule_def split: option.splits)
  have allowed: "find_matching_rule_in_map (always_deny_rules ctx) tool_name desc \<or>
      check_permission ctx' tool_name desc = Allow"
    using rules r by (auto simp: check_permission_def find_matching_iff ctx')
  have others: "check_permission ctx' other desc = check_permission ctx other desc"
    if "\<not> eq_ignore_ascii_case tool_name other"
  proof -
    have "find_matching_rule_in_map (always_allow_rules ctx') other desc =
        find_matching_rule_in_map (always_allow_rules ctx) other desc"
      using that by (simp add: find_matching_iff rules r)
    then show ?thesis by (simp add: check_permission_def ctx')
  qed
  have new': "source_rules source (always_allow_rules ctx') = new" "?r \<in> set new"
    by (simp_all add: ctx' source_rules_def update_conv' new_def)
  have "add_allow_always_rule source tool_name (Some tool_name) ctx' = ctx'"
    unfolding add_allow_always_rule_def using new'(2) wf
    by (simp add: ex Let_def new'(1)) (simp add: ctx')
  with allowed others show ?thesis by blast
qed

lemma allow_always_grant_witness:
  "let ctx = add_rule ''ask'' ''user'' ''Bash'' None default_context;
       ctx' = add_allow_always_rule ''interactive'' ''Bash'' (Some ''Bash'') ctx
   in check_permission ctx ''Bash'' (Some ''ls'') \<noteq> Allow \<and> check_permission ctx' ''Bash'' (Some ''ls'') = Allow \<and>
      check_permission ctx' ''FileRead'' (Some ''ls'') = check_permission ctx ''FileRead'' (Some ''ls'')"
proof -
  let ?ctx = "add_rule ''ask'' ''user'' ''Bash'' None default_context"
  have "context_wf ?ctx" "check_permission ?ctx ''Bash'' (Some ''ls'') \<noteq> Allow"
    "\<not> find_matching_rule_in_map (always_deny_rules ?ctx) ''Bash'' (Some ''ls'')"
    "\<not> eq_ignore_ascii_case ''Bash'' ''FileRead''" by code_simp+
  with allow_always_grant [of ?ctx "''Bash''" "Some ''ls''" "''interactive''" "''FileRead''"]
  show ?thesis by (simp add: Let_def)
qed

text \<open>The rule maps of a context that a removal of the given category filters.\<close>

definition removal_scope :: "string option \<Rightarrow> (bool \<times> bool \<times> bool)" where
  "removal_scope category =
     (let c = map_option to_ascii_lowercase category;
          a = c \<in> {Some ''allow'', Some ''always_allow''};
          d = c \<in> {Some ''deny'', Some ''always_deny''};
          k = c \<in> {Some ''ask'', Some ''always_ask''};
          every = \<not> (a \<or> d \<or> k)
      in (a \<or> every, d \<or> every, k \<or> every))"

abbreviation all_counts :: "tool_permission_context \<Rightarrow> nat" where
  "all_counts ctx \<equiv> rule_count (always_allow_rules ctx) + rule_count (always_deny_rules ctx) + rule_count (always_ask_rules ctx)"

text \<open>
  Removal of rules is exact: in every rule map of the chosen category (all three when the
  category is absent or unknown) exactly the matching rules are gone, the other maps and every
  other field are kept, and the returned number is the number of rules deleted.
\<close>

lemma remove_rule_exact:
  fixes ctx :: tool_permission_context and tool_name :: string and rule_content :: "string option"
  defines "gone \<equiv> removal_matches tool_name rule_content"
  shows "case (removal_scope category, remove_rule category tool_name rule_content ctx) of
    ((a, d, k), (ctx', n)) \<Rightarrow>
      rule_set (always_allow_rules ctx') = {r \<in> rule_set (always_allow_rules ctx). \<not> (a \<and> gone r)} \<and>
      rule_set (always_deny_rules ctx') = {r \<in> rule_set (always_deny_rules ctx). \<not> (d \<and> gone r)} \<and>
      rule_set (always_ask_rules ctx') = {r \<in> rule_set (always_ask_rules ctx). \<not> (k \<and> gone r)} \<and>
      all_counts ctx = all_counts ctx' + n \<and> mode ctx' = mode ctx"
proof -
  note counts = rule_count_filter [of "always_allow_rules ctx" gone]
    rule_count_filter [of "always_deny_rules ctx" gone] rule_count_filter [of "always_ask_rules ctx" gone]
  show ?thesis
    using counts
    by (auto simp: remove_rule_def removal_scope_def Let_def split_beta gone_def [symmetric] rule_set_filter)
qed

section \<open>Pending prompts\<close>

text \<open>
  \<open>permissions/gate.rs\<close>. A sender half of tokio's one-shot channel is a value of type \<open>'tx\<close>; the
  channel is created by the caller of \<open>gate_request\<close> and \<open>send\<close> says whether a send on it succeeds
  (the receiver still exists).
\<close>

datatype permission_decision = AllowDecision | DenyDecision | AllowAlways "string option"

record 'tx permission_gate =
  pending :: "(string, 'tx) hash_map"

definition gate_new :: "'tx permission_gate" where
  "gate_new = \<lparr>pending = []\<rparr>"

definition gate_request :: "string \<Rightarrow> 'tx \<Rightarrow> 'tx permission_gate \<Rightarrow> 'tx permission_gate" where
  "gate_request tool_use_id tx g = g\<lparr>pending := hm_insert tool_use_id tx (pending g)\<rparr>"

definition gate_respond ::
  "('tx \<Rightarrow> permission_decision \<Rightarrow> bool) \<Rightarrow> string \<Rightarrow> permission_decision \<Rightarrow> 'tx permission_gate \<Rightarrow> 'tx permission_gate \<times> bool" where
  "gate_respond send tool_use_id decision g =
     (case hm_get (pending g) tool_use_id of
        Some tx \<Rightarrow> (g\<lparr>pending := hm_remove tool_use_id (pending g)\<rparr>, send tx decision)
      | None \<Rightarrow> (g, False))"

definition pending_count :: "'tx permission_gate \<Rightarrow> nat" where
  "pending_count g = length (pending g)"

datatype 'tx gate_op = Request string 'tx | Respond string permission_decision

primrec op_id :: "'tx gate_op \<Rightarrow> string" where
  "op_id (Request i tx) = i"
| "op_id (Respond i d) = i"

text \<open>The sends a run performs: the decision reaches the sender that \<open>respond\<close> finds.\<close>

fun gate_step :: "'tx gate_op \<Rightarrow> 'tx permission_gate \<times> ('tx \<times> permission_decision) list \<Rightarrow>
    'tx permission_gate \<times> ('tx \<times> permission_decision) list" where
  "gate_step (Request i tx) (g, sent) = (gate_request i tx g, sent)"
| "gate_step (Respond i d) (g, sent) =
     (fst (gate_respond (\<lambda>_ _. True) i d g),
      if snd (gate_respond (\<lambda>_ _. True) i d g) then sent @ [(the (hm_get (pending g) i), d)] else sent)"

abbreviation gate_run :: "'tx gate_op list \<Rightarrow> 'tx permission_gate \<times> ('tx \<times> permission_decision) list" where
  "gate_run ops \<equiv> fold gate_step ops (gate_new, [])"

text \<open>A request that no later operation on the same tool use has superseded.\<close>

definition open_request :: "'tx gate_op list \<Rightarrow> string \<Rightarrow> 'tx \<Rightarrow> bool" where
  "open_request ops i tx \<longleftrightarrow> (\<exists>pre mid. ops = pre @ Request i tx # mid \<and> i \<notin> set (map op_id mid))"

lemma open_request_Nil [simp]: "\<not> open_request [] i tx"
  by (simp add: open_request_def)

lemma open_request_snoc:
  "open_request (ops @ [c]) i tx \<longleftrightarrow> (if op_id c = i then c = Request i tx else open_request ops i tx)"
proof
  assume "open_request (ops @ [c]) i tx"
  then obtain pre mid where eq: "ops @ [c] = pre @ Request i tx # mid" and mid: "i \<notin> set (map op_id mid)"
    by (auto simp: open_request_def)
  show "if op_id c = i then c = Request i tx else open_request ops i tx"
  proof (cases mid rule: rev_cases)
    case Nil
    with eq show ?thesis by simp
  next
    case (snoc mid' c')
    with eq mid show ?thesis by (auto simp: open_request_def)
  qed
next
  assume h: "if op_id c = i then c = Request i tx else open_request ops i tx"
  show "open_request (ops @ [c]) i tx"
  proof (cases "op_id c = i")
    case True
    with h show ?thesis unfolding open_request_def by (intro exI [of _ ops] exI [of _ "[]"]) simp
  next
    case False
    with h obtain pre mid where "ops = pre @ Request i tx # mid" "i \<notin> set (map op_id mid)"
      by (auto simp: open_request_def)
    with False show ?thesis unfolding open_request_def by (intro exI [of _ pre] exI [of _ "mid @ [c]"]) auto
  qed
qed

lemma gate_pending:
  "hm_get (pending (fst (gate_run ops))) i = Some tx \<longleftrightarrow> open_request ops i tx"
proof (induction ops arbitrary: i tx rule: rev_induct)
  case (snoc c ops)
  obtain g sent where g: "gate_run ops = (g, sent)" by (cases "gate_run ops")
  show ?case
    using snoc.IH unfolding g
    by (cases c) (auto simp: open_request_snoc g gate_request_def gate_respond_def hm_get_insert
        hm_get_remove split: option.splits)
qed (simp add: gate_new_def)

lemma gate_sent_snoc:
  "set (snd (gate_run (ops @ [c]))) = set (snd (gate_run ops)) \<union>
     {(tx, d) |tx d. \<exists>i. c = Respond i d \<and> open_request ops i tx}"
proof -
  obtain g sent where g: "gate_run ops = (g, sent)" by (cases "gate_run ops")
  show ?thesis
  proof (cases c)
    case (Respond i d)
    have p: "open_request ops i tx \<longleftrightarrow> hm_get (pending g) i = Some tx" for tx
      using gate_pending [of ops i tx] by (simp add: g)
    show ?thesis by (cases "hm_get (pending g) i") (auto simp: g Respond gate_respond_def p)
  qed (simp add: g)
qed

text \<open>
  A prompt is answered by exactly the responses meant for it: a decision is sent to a prompt's
  channel if and only if it is the first response to its tool use after the prompt was registered,
  with no newer prompt of the same tool use in between.
\<close>

lemma gate_delivery:
  "(tx, d) \<in> set (snd (gate_run ops)) \<longleftrightarrow>
     (\<exists>i pre mid post. ops = pre @ Request i tx # mid @ Respond i d # post \<and> i \<notin> set (map op_id mid))"
proof (induction ops rule: rev_induct)
  case (snoc c ops)
  let ?sent = "\<lambda>ops i pre mid post. ops = pre @ Request i tx # mid @ Respond i d # post \<and> i \<notin> set (map op_id mid)"
  have "(\<exists>i pre mid post. ?sent (ops @ [c]) i pre mid post) \<longleftrightarrow>
      (\<exists>i pre mid post. ?sent ops i pre mid post) \<or> (\<exists>i. c = Respond i d \<and> open_request ops i tx)"
    (is "?L \<longleftrightarrow> ?R1 \<or> ?R2")
  proof
    assume ?L
    then obtain i pre mid post where h: "?sent (ops @ [c]) i pre mid post" by blast
    show "?R1 \<or> ?R2"
    proof (cases post rule: rev_cases)
      case Nil
      with h have "ops = pre @ Request i tx # mid" "c = Respond i d"
        by (metis append_Cons append_assoc append1_eq_conv)+
      with h show ?thesis by (auto simp: open_request_def)
    next
      case (snoc post' c')
      with h have "ops = pre @ Request i tx # mid @ Respond i d # post'"
        by (metis append_Cons append_assoc append1_eq_conv)
      with h show ?thesis by blast
    qed
  next
    assume "?R1 \<or> ?R2"
    then show ?L
    proof
      assume ?R1
      then obtain i pre mid post where "?sent ops i pre mid post" by blast
      then have "?sent (ops @ [c]) i pre mid (post @ [c])" by simp
      then show ?L by blast
    next
      assume ?R2
      then obtain i pre mid where "c = Respond i d" "ops = pre @ Request i tx # mid" "i \<notin> set (map op_id mid)"
        by (auto simp: open_request_def)
      then have "?sent (ops @ [c]) i pre mid []" by simp
      then show ?L by blast
    qed
  qed
  with snoc.IH show ?case unfolding gate_sent_snoc by auto
qed (simp add: gate_new_def)

end
