(* ===== verification/Bao_RuleGate.thy ===== *)
theory Bao_RuleGate
  imports Bao_Prelude
begin

text \<open>
  \<open>engine/permission_gate\<close>: the rule-based gate with its default safety rules
  (\<open>gate.rs\<close>), its grant cache (\<open>cache.rs\<close>), their data (\<open>types.rs\<close>) and the parser of
  interactive answers (\<open>interactive.rs\<close>). The clock is an argument \<open>now\<close> in seconds, a fresh
  request id is an argument, and \<open>glob\<close> stands for \<open>glob::Pattern::new\<close>: \<open>None\<close> when the pattern
  does not parse, otherwise the match predicate.
\<close>

type_synonym glob_crate = "string \<Rightarrow> (string \<Rightarrow> bool) option"

section \<open>Rules and decisions\<close>

record gate_rule =
  rule_id :: string
  rule_description :: string
  rule_tool :: string
  rule_action :: string
  target_pattern :: "string option"
  require_confirmation :: bool
  auto_deny :: bool

definition rule_new :: "string \<Rightarrow> string \<Rightarrow> string \<Rightarrow> string \<Rightarrow> gate_rule" where
  "rule_new i d t a = \<lparr>rule_id = i, rule_description = d, rule_tool = t, rule_action = a,
     target_pattern = None, require_confirmation = False, auto_deny = False\<rparr>"

definition with_target :: "string \<Rightarrow> gate_rule \<Rightarrow> gate_rule" where
  "with_target pat r = r\<lparr>target_pattern := Some pat\<rparr>"

definition with_confirmation :: "gate_rule \<Rightarrow> gate_rule" where
  "with_confirmation r = r\<lparr>require_confirmation := True\<rparr>"

definition with_auto_deny :: "gate_rule \<Rightarrow> gate_rule" where
  "with_auto_deny r = r\<lparr>auto_deny := True\<rparr>"

definition matches_target :: "glob_crate \<Rightarrow> gate_rule \<Rightarrow> string \<Rightarrow> bool" where
  "matches_target glob r target =
     (case target_pattern r of
        None \<Rightarrow> True
      | Some pat \<Rightarrow>
          if pat = ''*'' then True
          else (case glob pat of Some matches \<Rightarrow> matches target | None \<Rightarrow> str_contains target pat))"

definition matches_tool_action :: "gate_rule \<Rightarrow> string \<Rightarrow> string \<Rightarrow> bool" where
  "matches_tool_action r tool action =
     (if rule_tool r \<noteq> ''*'' \<and> rule_tool r \<noteq> tool then False
      else if rule_action r \<noteq> ''*'' \<and> \<not> starts_with action (rule_action r) \<and> action \<noteq> rule_action r then False
      else True)"

record permission_request =
  req_id :: string
  req_tool :: string
  req_action :: string
  req_target :: string
  req_timestamp :: u64

datatype decision_type = DAllow | DDeny | AskUser | AllowOnce | AllowSession | AllowPermanent

record engine_decision =
  request_id :: string
  decision :: decision_type
  rule_applied :: "string option"
  decision_expires_at :: "u64 option"

definition is_allowed :: "decision_type \<Rightarrow> bool" where
  "is_allowed d \<longleftrightarrow> d \<in> {DAllow, AllowOnce, AllowSession, AllowPermanent}"

definition ask_user :: "string \<Rightarrow> engine_decision" where
  "ask_user rid = \<lparr>request_id = rid, decision = AskUser, rule_applied = None, decision_expires_at = None\<rparr>"

definition from_rule :: "string \<Rightarrow> gate_rule \<Rightarrow> engine_decision" where
  "from_rule rid r =
     (if auto_deny r then
        \<lparr>request_id = rid, decision = DDeny, rule_applied = Some (rule_id r), decision_expires_at = None\<rparr>
      else if require_confirmation r then
        \<lparr>request_id = rid, decision = AskUser, rule_applied = Some (rule_id r), decision_expires_at = None\<rparr>
      else \<lparr>request_id = rid, decision = DAllow, rule_applied = Some (rule_id r), decision_expires_at = None\<rparr>)"

section \<open>The grant cache\<close>

record cache_entry =
  grant :: decision_type
  ce_tool :: string
  ce_action :: string
  ce_target :: string
  ce_expires_at :: "u64 option"

text \<open>\<open>now + ttl\<close> is the release build's wrapping addition.\<close>

definition cache_entry_new ::
  "u64 \<Rightarrow> decision_type \<Rightarrow> string \<Rightarrow> string \<Rightarrow> string \<Rightarrow> u64 option \<Rightarrow> cache_entry" where
  "cache_entry_new now g tool action target ttl_secs =
     \<lparr>grant = g, ce_tool = tool, ce_action = action, ce_target = target,
      ce_expires_at = map_option (\<lambda>ttl. now + ttl) ttl_secs\<rparr>"

definition is_expired :: "u64 \<Rightarrow> cache_entry \<Rightarrow> bool" where
  "is_expired now e = (case ce_expires_at e of None \<Rightarrow> False | Some expiry \<Rightarrow> expiry \<le> now)"

definition entry_matches :: "cache_entry \<Rightarrow> string \<Rightarrow> string \<Rightarrow> string \<Rightarrow> bool" where
  "entry_matches e tool action target \<longleftrightarrow> ce_tool e = tool \<and> ce_action e = action \<and> ce_target e = target"

definition cache_check ::
  "u64 \<Rightarrow> string \<Rightarrow> string \<Rightarrow> string \<Rightarrow> cache_entry list \<Rightarrow> cache_entry list \<times> decision_type option" where
  "cache_check now tool action target entries =
     (case List.find (\<lambda>e. entry_matches e tool action target \<and> \<not> is_expired now e) entries of
        Some e \<Rightarrow> (entries, Some (grant e))
      | None \<Rightarrow> (filter (\<lambda>e. \<not> is_expired now e) entries, None))"

definition cache_store ::
  "u64 \<Rightarrow> string \<Rightarrow> string \<Rightarrow> string \<Rightarrow> decision_type \<Rightarrow> u64 option \<Rightarrow> cache_entry list \<Rightarrow> cache_entry list" where
  "cache_store now tool action target d ttl_secs entries =
     (if d \<notin> {AllowSession, AllowPermanent} then entries
      else filter (\<lambda>e. \<not> entry_matches e tool action target) entries @
           [cache_entry_new now d tool action target ttl_secs])"

definition cache_cleanup :: "u64 \<Rightarrow> cache_entry list \<Rightarrow> cache_entry list" where
  "cache_cleanup now entries = filter (\<lambda>e. \<not> is_expired now e) entries"

definition cache_clear :: "cache_entry list \<Rightarrow> cache_entry list" where
  "cache_clear entries = []"

definition cache_revoke ::
  "string \<Rightarrow> string \<Rightarrow> string \<Rightarrow> cache_entry list \<Rightarrow> cache_entry list \<times> nat" where
  "cache_revoke tool action target entries =
     (let entries' = filter (\<lambda>e. \<not> entry_matches e tool action target) entries
      in (entries', length entries - length entries'))"

section \<open>The gate\<close>

record rule_gate =
  gate_rules :: "gate_rule list"
  gate_cache :: "cache_entry list"

definition deny_rule_for :: "string \<times> string \<Rightarrow> gate_rule" where
  "deny_rule_for p = (case p of (i, cmd) \<Rightarrow>
     with_auto_deny (rule_new i (''Auto-deny dangerous command: '' @ cmd) ''Bash'' cmd))"

text \<open>\<open>cmd.trim()\<close> and \<open>replace(' ', "-")\<close> on the literals below, whose only white space is the space.\<close>

definition trim_spaces :: "string \<Rightarrow> string" where
  "trim_spaces s = rev (dropWhile ((=) CHR '' '') (rev (dropWhile ((=) CHR '' '') s)))"

definition allow_rule_for :: "string \<Rightarrow> gate_rule" where
  "allow_rule_for cmd =
     rule_new (''default-bash-allow-'' @ map (\<lambda>c. if c = CHR '' '' then CHR ''-'' else c) (trim_spaces cmd))
       (''Allow safe command: '' @ trim_spaces cmd) ''Bash'' cmd"

definition dangerous_commands :: "(string \<times> string) list" where
  "dangerous_commands =
     [(''default-bash-deny-rmrf'', ''rm -rf /''),
      (''default-bash-deny-rmrf-home'', ''rm -rf ~''),
      (''default-bash-deny-sudo'', ''sudo ''),
      (''default-bash-deny-chmod'', ''chmod 777''),
      (''default-bash-deny-dev-null'', ''> /dev/sda''),
      (''default-bash-deny-fork-bomb'', '':(){ :|:& };:''),
      (''default-bash-deny-mkfs'', ''mkfs.''),
      (''default-bash-deny-dd'', ''dd if='')]"

definition safe_commands :: "string list" where
  "safe_commands =
     [''git status'', ''git diff'', ''git log'', ''git branch'', ''ls '', ''cat '', ''echo '', ''find '',
      ''grep '', ''head '', ''tail '', ''wc '', ''pwd'']"

definition default_rules :: "gate_rule list" where
  "default_rules =
     [rule_new ''default-fileread-allow'' ''FileRead is always allowed'' ''FileRead'' ''*'',
      with_auto_deny (with_target ''*.env''
        (rule_new ''default-filewrite-deny-env'' ''Deny writing to .env files'' ''FileWrite'' ''*'')),
      with_auto_deny (with_target ''.git/*''
        (rule_new ''default-filewrite-deny-git'' ''Deny writing to .git directory'' ''FileWrite'' ''*'')),
      with_auto_deny (with_target ''*/.ssh/*''
        (rule_new ''default-filewrite-deny-ssh'' ''Deny writing to SSH keys'' ''FileWrite'' ''*'')),
      with_target ''*.md''
        (rule_new ''default-filewrite-allow-md'' ''Allow writing markdown files'' ''FileWrite'' ''*''),
      with_confirmation
        (rule_new ''default-filewrite-ask'' ''FileWrite requires confirmation by default'' ''FileWrite'' ''*'')] @
     map deny_rule_for dangerous_commands @
     map allow_rule_for safe_commands @
     [with_confirmation
        (rule_new ''default-bash-ask'' ''Bash commands require confirmation by default'' ''Bash'' ''*''),
      with_confirmation
        (rule_new ''default-filedelete-ask'' ''FileDelete requires confirmation'' ''FileDelete'' ''*''),
      with_confirmation
        (rule_new ''default-fileedit-ask'' ''FileEdit requires confirmation'' ''FileEdit'' ''*''),
      with_auto_deny (with_target ''localhost:*''
        (rule_new ''default-webfetch-deny-localhost'' ''Deny fetching localhost resources'' ''WebFetch'' ''*'')),
      with_auto_deny (with_target ''127.*''
        (rule_new ''default-webfetch-deny-internal'' ''Deny fetching internal/private IPs'' ''WebFetch'' ''*'')),
      with_auto_deny (with_target ''10.*''
        (rule_new ''default-webfetch-deny-internal2'' ''Deny fetching internal IPs (10.x)'' ''WebFetch'' ''*'')),
      with_confirmation
        (rule_new ''default-webfetch-ask'' ''WebFetch requires confirmation by default'' ''WebFetch'' ''*''),
      rule_new ''default-websearch-allow'' ''WebSearch is always allowed'' ''WebSearch'' ''*'']"

definition load_default_rules :: "rule_gate \<Rightarrow> rule_gate" where
  "load_default_rules g = g\<lparr>gate_rules := gate_rules g @ default_rules\<rparr>"

definition rule_gate_new :: rule_gate where
  "rule_gate_new = load_default_rules \<lparr>gate_rules = [], gate_cache = []\<rparr>"

text \<open>The loop over the rules: the first that matches tool, action and target.\<close>

fun first_rule :: "glob_crate \<Rightarrow> string \<Rightarrow> string \<Rightarrow> string \<Rightarrow> gate_rule list \<Rightarrow> gate_rule option" where
  "first_rule glob tool action target [] = None"
| "first_rule glob tool action target (r # rs) =
     (if \<not> matches_tool_action r tool action then first_rule glob tool action target rs
      else if \<not> matches_target glob r target then first_rule glob tool action target rs
      else Some r)"

definition gate_check ::
  "glob_crate \<Rightarrow> u64 \<Rightarrow> string \<Rightarrow> string \<Rightarrow> string \<Rightarrow> string \<Rightarrow> rule_gate \<Rightarrow> rule_gate \<times> engine_decision" where
  "gate_check glob now rid tool action target g =
     (case cache_check now tool action target (gate_cache g) of
        (entries, Some cached) \<Rightarrow>
          (g\<lparr>gate_cache := entries\<rparr>,
           \<lparr>request_id = rid, decision = cached, rule_applied = Some ''cache'', decision_expires_at = None\<rparr>)
      | (entries, None) \<Rightarrow>
          (g\<lparr>gate_cache := entries\<rparr>,
           case first_rule glob tool action target (gate_rules g) of
             Some r \<Rightarrow> from_rule rid r
           | None \<Rightarrow> ask_user rid))"

definition check_request ::
  "glob_crate \<Rightarrow> u64 \<Rightarrow> string \<Rightarrow> permission_request \<Rightarrow> rule_gate \<Rightarrow> rule_gate \<times> engine_decision" where
  "check_request glob now rid req g =
     (case gate_check glob now rid (req_tool req) (req_action req) (req_target req) g of
        (g', d) \<Rightarrow> (g', d\<lparr>request_id := req_id req\<rparr>))"

fun replace_rule :: "gate_rule \<Rightarrow> gate_rule list \<Rightarrow> gate_rule list" where
  "replace_rule rule [] = []"
| "replace_rule rule (r # rs) = (if rule_id r = rule_id rule then rule # rs else r # replace_rule rule rs)"

definition gate_add_rule :: "gate_rule \<Rightarrow> rule_gate \<Rightarrow> rule_gate" where
  "gate_add_rule rule g =
     (if list_ex (\<lambda>r. rule_id r = rule_id rule) (gate_rules g)
      then g\<lparr>gate_rules := replace_rule rule (gate_rules g)\<rparr>
      else g\<lparr>gate_rules := gate_rules g @ [rule]\<rparr>)"

definition gate_remove_rule :: "string \<Rightarrow> rule_gate \<Rightarrow> rule_gate \<times> bool" where
  "gate_remove_rule i g =
     (let rules = filter (\<lambda>r. rule_id r \<noteq> i) (gate_rules g)
      in (g\<lparr>gate_rules := rules\<rparr>, length rules < length (gate_rules g)))"

definition gate_grant ::
  "u64 \<Rightarrow> string \<Rightarrow> string \<Rightarrow> string \<Rightarrow> decision_type \<Rightarrow> u64 option \<Rightarrow> rule_gate \<Rightarrow> rule_gate" where
  "gate_grant now tool action target d duration_secs g =
     (case d of
        AllowSession \<Rightarrow>
          (let ttl = (case duration_secs of None \<Rightarrow> Some (3600 * 24) | Some s \<Rightarrow> Some s)
           in g\<lparr>gate_cache := cache_store now tool action target AllowSession ttl (gate_cache g)\<rparr>)
      | AllowPermanent \<Rightarrow> g\<lparr>gate_cache := cache_store now tool action target AllowPermanent None (gate_cache g)\<rparr>
      | _ \<Rightarrow> g)"

definition gate_revoke :: "string \<Rightarrow> string \<Rightarrow> string \<Rightarrow> rule_gate \<Rightarrow> rule_gate \<times> nat" where
  "gate_revoke tool action target g =
     (case cache_revoke tool action target (gate_cache g) of (entries, n) \<Rightarrow> (g\<lparr>gate_cache := entries\<rparr>, n))"

definition clear_cache :: "rule_gate \<Rightarrow> rule_gate" where
  "clear_cache g = g\<lparr>gate_cache := cache_clear (gate_cache g)\<rparr>"

definition cleanup_cache :: "u64 \<Rightarrow> rule_gate \<Rightarrow> rule_gate" where
  "cleanup_cache now g = g\<lparr>gate_cache := cache_cleanup now (gate_cache g)\<rparr>"

definition gate_reset :: "rule_gate \<Rightarrow> rule_gate" where
  "gate_reset g = load_default_rules (g\<lparr>gate_rules := [], gate_cache := cache_clear (gate_cache g)\<rparr>)"

section \<open>Interactive answers\<close>

text \<open>
  \<open>to_lowercase\<close> is Unicode-aware, but no code point outside ASCII lowers to a letter of the answers
  below (the only such code point, the Kelvin sign, lowers to k), so ASCII lower-casing decides the same.
\<close>

definition parse_response :: "string \<Rightarrow> decision_type option" where
  "parse_response response =
     (let trimmed = to_ascii_lowercase (str_trim response)
      in if trimmed \<in> {''y'', ''yes'', ''allow''} then Some AllowOnce
         else if trimmed \<in> {''n'', ''no'', ''deny'', ''d''} then Some DDeny
         else if trimmed \<in> {''o'', ''once''} then Some AllowOnce
         else if trimmed \<in> {''s'', ''session''} then Some AllowSession
         else if trimmed \<in> {''a'', ''always'', ''permanent'', ''p''} then Some AllowPermanent
         else None)"

definition parse_response_or_error :: "string \<Rightarrow> string + decision_type" where
  "parse_response_or_error response =
     (case parse_response response of
        Some d \<Rightarrow> Inr d
      | None \<Rightarrow> Inl (''Unrecognized response '' @ quoted response @
          ''. Valid options: y/yes, n/no, o/once, s/session, a/always''))"

text \<open>\<open>&s[..k]\<close> panics when \<open>k\<close> is not on a code point boundary: \<open>None\<close>.\<close>

definition prompt_truncate :: "string \<Rightarrow> nat \<Rightarrow> string option" where
  "prompt_truncate s max_len =
     (if length s \<le> max_len then Some s
      else if is_char_boundary s (max_len - 3) then Some (take (max_len - 3) s @ ''...'')
      else None)"

section \<open>Cache laws\<close>

abbreviation key_of :: "cache_entry \<Rightarrow> string \<times> string \<times> string" where
  "key_of e \<equiv> (ce_tool e, ce_action e, ce_target e)"

lemma entry_matches_key: "entry_matches e t a tg \<longleftrightarrow> key_of e = (t, a, tg)"
  by (simp add: entry_matches_def)

text \<open>What the cache answers, as a map from keys at a given time.\<close>

definition cache_lookup :: "u64 \<Rightarrow> cache_entry list \<Rightarrow> string \<times> string \<times> string \<Rightarrow> decision_type option" where
  "cache_lookup now entries k = (case k of (t, a, tg) \<Rightarrow> snd (cache_check now t a tg entries))"

lemma cache_lookup_find:
  "cache_lookup now entries k = map_option grant (List.find (\<lambda>e. key_of e = k \<and> \<not> is_expired now e) entries)"
  by (cases k) (auto simp: cache_lookup_def cache_check_def entry_matches_key split: option.splits)

lemma find_filter: "List.find P (filter Q xs) = List.find (\<lambda>x. Q x \<and> P x) xs"
  by (induction xs) auto

lemma find_append: "List.find P (xs @ ys) = (case List.find P xs of None \<Rightarrow> List.find P ys | Some x \<Rightarrow> Some x)"
  by (induction xs) auto

lemma find_none: "(\<And>x. x \<in> set xs \<Longrightarrow> \<not> P x) \<Longrightarrow> List.find P xs = None"
  by (simp add: find_None_iff)

lemma cache_lookup_store:
  assumes "d \<in> {AllowSession, AllowPermanent}" "\<not> is_expired now (cache_entry_new t0 d t a tg ttl)"
  shows "cache_lookup now (cache_store t0 t a tg d ttl entries) = (cache_lookup now entries)((t, a, tg) \<mapsto> d)"
proof
  fix k
  let ?e = "cache_entry_new t0 d t a tg ttl"
  have e: "key_of ?e = (t, a, tg)" "grant ?e = d" by (simp_all add: cache_entry_new_def)
  show "cache_lookup now (cache_store t0 t a tg d ttl entries) k = ((cache_lookup now entries)((t, a, tg) \<mapsto> d)) k"
  proof (cases "k = (t, a, tg)")
    case True
    have "List.find (\<lambda>x. \<not> key_of x = (t, a, tg) \<and> key_of x = k \<and> \<not> is_expired now x) entries = None"
      using True by (intro find_none) simp
    with assms e True show ?thesis
      by (simp add: cache_lookup_find cache_store_def find_append find_filter entry_matches_key)
  next
    case False
    then have "(\<lambda>x. \<not> key_of x = (t, a, tg) \<and> key_of x = k \<and> \<not> is_expired now x) = (\<lambda>x. key_of x = k \<and> \<not> is_expired now x)"
      by auto
    with assms e False show ?thesis
      by (auto simp: cache_lookup_find cache_store_def find_append find_filter entry_matches_key split: option.split)
  qed
qed

lemma cache_lookup_revoke:
  "cache_lookup now (fst (cache_revoke t a tg entries)) = (cache_lookup now entries)((t, a, tg) := None)"
proof
  fix k
  have "(\<lambda>x. \<not> key_of x = (t, a, tg) \<and> key_of x = k \<and> \<not> is_expired now x) =
      (if k = (t, a, tg) then (\<lambda>_. False) else (\<lambda>x. key_of x = k \<and> \<not> is_expired now x))" by auto
  then show "cache_lookup now (fst (cache_revoke t a tg entries)) k = ((cache_lookup now entries)((t, a, tg) := None)) k"
    by (simp add: cache_lookup_find cache_revoke_def find_filter entry_matches_key Let_def find_none)
qed

section \<open>How long a grant lasts\<close>

datatype gate_op =
    GCheck u64 string string string string
  | GAddRule gate_rule
  | GRemoveRule string
  | GGrant u64 string string string decision_type "u64 option"
  | GRevoke string string string
  | GCleanup u64
  | GClear
  | GReset

fun rule_gate_step :: "glob_crate \<Rightarrow> gate_op \<Rightarrow> rule_gate \<Rightarrow> rule_gate" where
  "rule_gate_step glob (GCheck now rid t a tg) g = fst (gate_check glob now rid t a tg g)"
| "rule_gate_step glob (GAddRule r) g = gate_add_rule r g"
| "rule_gate_step glob (GRemoveRule i) g = fst (gate_remove_rule i g)"
| "rule_gate_step glob (GGrant now t a tg d dur) g = gate_grant now t a tg d dur g"
| "rule_gate_step glob (GRevoke t a tg) g = fst (gate_revoke t a tg g)"
| "rule_gate_step glob (GCleanup now) g = cleanup_cache now g"
| "rule_gate_step glob GClear g = clear_cache g"
| "rule_gate_step glob GReset g = gate_reset g"

text \<open>Operations up to time \<open>T\<close> that do not grant or revoke the key \<open>k\<close>.\<close>

fun leaves_alone :: "string \<times> string \<times> string \<Rightarrow> u64 \<Rightarrow> gate_op \<Rightarrow> bool" where
  "leaves_alone k T (GCheck now rid t a tg) \<longleftrightarrow> now \<le> T"
| "leaves_alone k T (GGrant now t a tg d dur) \<longleftrightarrow> (t, a, tg) \<noteq> k"
| "leaves_alone k T (GRevoke t a tg) \<longleftrightarrow> (t, a, tg) \<noteq> k"
| "leaves_alone k T (GCleanup now) \<longleftrightarrow> now \<le> T"
| "leaves_alone k T GClear \<longleftrightarrow> False"
| "leaves_alone k T GReset \<longleftrightarrow> False"
| "leaves_alone k T _ \<longleftrightarrow> True"

abbreviation entries_for :: "string \<times> string \<times> string \<Rightarrow> rule_gate \<Rightarrow> cache_entry list" where
  "entries_for k g \<equiv> filter (\<lambda>e. key_of e = k) (gate_cache g)"

lemma is_expired_mono: "is_expired now e \<Longrightarrow> now \<le> T \<Longrightarrow> is_expired T e"
  by (auto simp: is_expired_def split: option.splits)

lemma entries_purge:
  "now \<le> T \<Longrightarrow> filter (\<lambda>e. \<not> is_expired T e) (filter P (filter (\<lambda>e. \<not> is_expired now e) es)) =
     filter (\<lambda>e. \<not> is_expired T e) (filter P es)"
  by (auto simp: filter_filter intro!: filter_cong dest: is_expired_mono)

text \<open>None of these operations changes what the cache holds for \<open>k\<close> and still shows at time \<open>T\<close>.\<close>

lemma cache_check_entries:
  "fst (cache_check now t a tg es) = es \<or> fst (cache_check now t a tg es) = filter (\<lambda>e. \<not> is_expired now e) es"
  by (auto simp: cache_check_def split: option.split)

lemma cache_check_filter:
  obtains P where "fst (cache_check now t a tg es) = filter P es"
  using cache_check_entries [of now t a tg es]
proof
  assume "fst (cache_check now t a tg es) = es"
  then show ?thesis by (intro that [of "\<lambda>_. True"]) simp
qed (rule that)

lemma cache_store_other:
  "(t, a, tg) \<noteq> k \<Longrightarrow> filter (\<lambda>e. key_of e = k) (cache_store now t a tg d ttl es) = filter (\<lambda>e. key_of e = k) es"
  by (auto simp: cache_store_def cache_entry_new_def entry_matches_key intro!: filter_cong)

lemma gate_check_cache: "gate_cache (fst (gate_check glob now rid t a tg g)) = fst (cache_check now t a tg (gate_cache g))"
  by (simp add: gate_check_def split: prod.split option.split)

lemma leaves_alone_entries:
  assumes "leaves_alone k T c"
  shows "filter (\<lambda>e. \<not> is_expired T e) (entries_for k (rule_gate_step glob c g)) =
    filter (\<lambda>e. \<not> is_expired T e) (entries_for k g)"
proof (cases c)
  case (GCheck now rid t a tg)
  with assms cache_check_entries [of now t a tg "gate_cache g"] show ?thesis
    using entries_purge [of now T "\<lambda>e. key_of e = k" "gate_cache g"] by (auto simp: gate_check_cache)
next
  case (GGrant now t a tg d dur)
  with assms have ne: "(t, a, tg) \<noteq> k" by simp
  show ?thesis by (cases d) (simp_all add: GGrant gate_grant_def Let_def cache_store_other [OF ne])
next
  case (GRevoke t a tg)
  with assms have "entries_for k (fst (gate_revoke t a tg g)) = entries_for k g"
    by (auto simp: gate_revoke_def cache_revoke_def Let_def entry_matches_key intro!: filter_cong)
  with GRevoke show ?thesis by simp
next
  case (GCleanup now)
  with assms entries_purge [of now T "\<lambda>e. key_of e = k" "gate_cache g"] show ?thesis
    by (simp add: cleanup_cache_def cache_cleanup_def)
qed (use assms in \<open>auto simp: gate_add_rule_def gate_remove_rule_def Let_def\<close>)

interpretation cached: guarded_machine "rule_gate_step glob"
  "\<lambda>g. filter (\<lambda>e. \<not> is_expired T e) (entries_for k g) = es" "leaves_alone k T" for glob T k es
  by unfold_locales (simp only: leaves_alone_entries)

lemma find_head_filter: "List.find P xs = (case filter P xs of [] \<Rightarrow> None | x # _ \<Rightarrow> Some x)"
  by (induction xs) auto

lemma cache_lookup_live:
  "cache_lookup T (gate_cache g) k =
     (case filter (\<lambda>e. \<not> is_expired T e) (entries_for k g) of [] \<Rightarrow> None | e # _ \<Rightarrow> Some (grant e))"
  by (auto simp: cache_lookup_find find_head_filter filter_filter conj_commute split: list.split)

lemma gate_check_decision:
  "decision (snd (gate_check glob T rid t a tg g)) =
     (case cache_lookup T (gate_cache g) (t, a, tg) of
        Some d \<Rightarrow> d
      | None \<Rightarrow> decision (case first_rule glob t a tg (gate_rules g) of Some r \<Rightarrow> from_rule rid r | None \<Rightarrow> ask_user rid))"
  by (simp add: gate_check_def cache_lookup_def split: prod.split option.split)

text \<open>
  C14. A session grant lasts exactly its time to live: whatever checks, cleanups, rule changes and
  grants or revocations of other keys happen up to time \<open>T\<close>, a check at \<open>T\<close> is answered from the
  cache while \<open>T\<close> is before the grant's expiry, and by the rules from then on.
\<close>

theorem session_grant_lifetime:
  fixes glob :: glob_crate and g0 :: rule_gate
  assumes "unat now + unat ttl < 2 ^ 64" and "list_all (leaves_alone (t, a, tg) T) ops"
  defines "g \<equiv> fold (rule_gate_step glob) ops (gate_grant now t a tg AllowSession (Some ttl) g0)"
  shows "decision (snd (gate_check glob T rid t a tg g)) =
    (if unat T < unat now + unat ttl then AllowSession
     else decision (case first_rule glob t a tg (gate_rules g) of Some r \<Rightarrow> from_rule rid r | None \<Rightarrow> ask_user rid))"
proof -
  let ?g1 = "gate_grant now t a tg AllowSession (Some ttl) g0"
  let ?e = "cache_entry_new now AllowSession t a tg (Some ttl)"
  have sum: "unat (now + ttl) = unat now + unat ttl" using assms(1) by (simp add: unat_word_ariths)
  have live: "\<not> is_expired T ?e \<longleftrightarrow> unat T < unat now + unat ttl"
    by (simp add: is_expired_def cache_entry_new_def word_le_nat_alt sum not_le)
  have "entries_for (t, a, tg) ?g1 = [?e]"
    by (simp add: gate_grant_def Let_def cache_store_def entry_matches_key cache_entry_new_def)
  then have es: "filter (\<lambda>e. \<not> is_expired T e) (entries_for (t, a, tg) g) = (if is_expired T ?e then [] else [?e])"
    using cached.run_inv [OF refl assms(2), of glob ?g1] by (simp add: g_def)
  have "cache_lookup T (gate_cache g) (t, a, tg) = (if is_expired T ?e then None else Some AllowSession)"
    unfolding cache_lookup_live es by (simp add: cache_entry_new_def)
  with live show ?thesis by (auto simp: gate_check_decision)
qed

theorem session_grant_lifetime_witness:
  "decision (snd (gate_check (\<lambda>_. None) 1500 ''r2'' ''Bash'' ''make'' ''.''
      (fold (rule_gate_step (\<lambda>_. None)) [GCheck 1200 ''r1'' ''Bash'' ''make'' ''.'', GCleanup 1400]
        (gate_grant 1000 ''Bash'' ''make'' ''.'' AllowSession (Some 600) rule_gate_new)))) = AllowSession"
  by (subst session_grant_lifetime) simp_all

section \<open>The default policy\<close>

lemma first_rule_append:
  "first_rule glob t a tg (xs @ ys) =
     (case first_rule glob t a tg xs of None \<Rightarrow> first_rule glob t a tg ys | Some r \<Rightarrow> Some r)"
  by (induction xs) auto

lemma first_rule_other_tool:
  "(\<And>r. r \<in> set rs \<Longrightarrow> rule_tool r \<noteq> ''*'' \<and> rule_tool r \<noteq> t) \<Longrightarrow> first_rule glob t a tg rs = None"
  by (induction rs) (auto simp: matches_tool_action_def)

lemma deny_rule_for_fields [simp]:
  "rule_tool (deny_rule_for p) = ''Bash''" "rule_action (deny_rule_for p) = snd p"
  "target_pattern (deny_rule_for p) = None" "auto_deny (deny_rule_for p)"
  by (simp_all add: deny_rule_for_def with_auto_deny_def rule_new_def split_beta)

lemma allow_rule_for_fields [simp]:
  "rule_tool (allow_rule_for c) = ''Bash''" "rule_action (allow_rule_for c) = c"
  "target_pattern (allow_rule_for c) = None" "\<not> auto_deny (allow_rule_for c)" "\<not> require_confirmation (allow_rule_for c)"
  by (simp_all add: allow_rule_for_def rule_new_def)

lemma first_deny_rule:
  "(\<And>p. p \<in> set ps \<Longrightarrow> snd p \<noteq> ''*'') \<Longrightarrow>
   first_rule glob ''Bash'' a tg (map deny_rule_for ps) =
     map_option deny_rule_for (List.find (\<lambda>p. prefix (snd p) a) ps)"
  by (induction ps) (auto simp: matches_tool_action_def matches_target_def)

lemma first_allow_rule:
  "''*'' \<notin> set cs \<Longrightarrow> first_rule glob ''Bash'' a tg (map allow_rule_for cs) =
     map_option allow_rule_for (List.find (\<lambda>c. prefix c a) cs)"
  by (induction cs) (auto simp: matches_tool_action_def matches_target_def)

lemma default_rules_Bash:
  "first_rule glob ''Bash'' a tg default_rules =
     (case List.find (\<lambda>p. prefix (snd p) a) dangerous_commands of
        Some p \<Rightarrow> Some (deny_rule_for p)
      | None \<Rightarrow> (case List.find (\<lambda>c. prefix c a) safe_commands of
          Some c \<Rightarrow> Some (allow_rule_for c)
        | None \<Rightarrow> Some (with_confirmation (rule_new ''default-bash-ask''
            ''Bash commands require confirmation by default'' ''Bash'' ''*''))))"
proof -
  have d: "first_rule glob ''Bash'' a tg (map deny_rule_for dangerous_commands) =
      map_option deny_rule_for (List.find (\<lambda>p. prefix (snd p) a) dangerous_commands)"
    by (rule first_deny_rule) (auto simp: dangerous_commands_def)
  have s: "first_rule glob ''Bash'' a tg (map allow_rule_for safe_commands) =
      map_option allow_rule_for (List.find (\<lambda>c. prefix c a) safe_commands)"
    by (rule first_allow_rule) (simp add: safe_commands_def)
  show ?thesis
    unfolding default_rules_def first_rule_append d s
    by (simp add: rule_new_def with_auto_deny_def with_target_def with_confirmation_def matches_tool_action_def
        matches_target_def split: option.split)
qed

text \<open>
  The default policy for shell commands, exactly: without a live grant, a command that starts
  with a dangerous prefix is denied, else one that starts with a safe prefix is allowed, and every
  other one needs the user's confirmation; with a live grant the grant decides. No glob is consulted.
\<close>

lemma default_bash_policy:
  "decision (snd (gate_check glob now rid ''Bash'' action target
      \<lparr>gate_rules = default_rules, gate_cache = entries\<rparr>)) =
     (case cache_lookup now entries (''Bash'', action, target) of
        Some d \<Rightarrow> d
      | None \<Rightarrow> if \<exists>(i, cmd)\<in>set dangerous_commands. prefix cmd action then DDeny
                else if \<exists>cmd\<in>set safe_commands. prefix cmd action then DAllow
                else AskUser)"
proof -
  have d: "(\<exists>(i, cmd)\<in>set dangerous_commands. prefix cmd action) \<longleftrightarrow>
      List.find (\<lambda>p. prefix (snd p) action) dangerous_commands \<noteq> None"
    by (auto simp: find_None_iff)
  have s: "(\<exists>cmd\<in>set safe_commands. prefix cmd action) \<longleftrightarrow>
      List.find (\<lambda>c. prefix c action) safe_commands \<noteq> None"
    by (auto simp: find_None_iff)
  show ?thesis
    unfolding gate_check_decision d s
    by (cases "List.find (\<lambda>p. prefix (snd p) action) dangerous_commands";
        cases "List.find (\<lambda>c. prefix c action) safe_commands")
      (simp_all add: default_rules_Bash from_rule_def with_confirmation_def rule_new_def cong: option.case_cong)
qed

text \<open>
  Prefix matching does not look behind the first command: with no grant in the cache, a shell
  line that begins with a safe command and then runs \<open>sudo rm -rf /\<close> is allowed without asking,
  although the gate's documentation says that \<open>sudo\<close> is auto-denied.
\<close>

lemma chained_sudo_allowed:
  "gate_check glob now rid ''Bash'' ''echo ok; sudo rm -rf /'' target rule_gate_new =
     (rule_gate_new, \<lparr>request_id = rid, decision = DAllow, rule_applied = Some ''default-bash-allow-echo'',
        decision_expires_at = None\<rparr>)"
proof -
  have d: "List.find (\<lambda>p. prefix (snd p) ''echo ok; sudo rm -rf /'') dangerous_commands = None"
    and s: "List.find (\<lambda>c. prefix c ''echo ok; sudo rm -rf /'') safe_commands = Some ''echo ''"
    and i: "rule_id (allow_rule_for ''echo '') = ''default-bash-allow-echo''"
    by code_simp+
  have "first_rule glob ''Bash'' ''echo ok; sudo rm -rf /'' target default_rules = Some (allow_rule_for ''echo '')"
    unfolding default_rules_Bash d s by simp
  with i show ?thesis
    by (simp add: gate_check_def cache_check_def rule_gate_new_def load_default_rules_def from_rule_def)
qed

section \<open>Invariant of the gate\<close>

definition gate_ok :: "rule_gate \<Rightarrow> bool" where
  "gate_ok g \<longleftrightarrow> distinct (map rule_id (gate_rules g)) \<and> distinct (map key_of (gate_cache g)) \<and>
     (\<forall>e\<in>set (gate_cache g). grant e \<in> {AllowSession, AllowPermanent})"

lemma distinct_map_filter': "distinct (map f xs) \<Longrightarrow> distinct (map f (filter P xs))"
  by (induction xs) auto

lemma replace_rule_ids: "map rule_id (replace_rule r rs) = map rule_id rs"
  by (induction rs) auto

lemma default_rules_distinct: "distinct (map rule_id default_rules)"
  by code_simp

lemma cache_store_ok:
  "distinct (map key_of es) \<Longrightarrow> distinct (map key_of (cache_store now t a tg d ttl es))"
  by (auto simp: cache_store_def cache_entry_new_def entry_matches_key distinct_map_filter')

lemma cache_store_grants:
  "\<forall>e\<in>set es. grant e \<in> {AllowSession, AllowPermanent} \<Longrightarrow>
   \<forall>e\<in>set (cache_store now t a tg d ttl es). grant e \<in> {AllowSession, AllowPermanent}"
  by (simp add: cache_store_def cache_entry_new_def)

lemma cache_lookup_grants:
  assumes "\<forall>e\<in>set es. grant e \<in> {AllowSession, AllowPermanent}"
  shows "cache_lookup now es k \<in> {None, Some AllowSession, Some AllowPermanent}"
proof (cases "List.find (\<lambda>e. key_of e = k \<and> \<not> is_expired now e) es")
  case (Some e)
  then have "e \<in> set es" by (auto simp: find_Some_iff)
  with Some assms show ?thesis unfolding cache_lookup_find by auto
qed (simp add: cache_lookup_find)

lemma gate_step_ok [bao_inv]: "gate_ok g \<Longrightarrow> gate_ok (rule_gate_step glob c g)"
proof (cases c)
  case (GCheck now rid t a tg)
  assume g: "gate_ok g"
  have "gate_rules (fst (gate_check glob now rid t a tg g)) = gate_rules g"
    by (simp add: gate_check_def split: prod.split option.split)
  moreover obtain P where "gate_cache (fst (gate_check glob now rid t a tg g)) = filter P (gate_cache g)"
    unfolding gate_check_cache by (rule cache_check_filter)
  ultimately show ?thesis using g GCheck by (auto simp: gate_ok_def distinct_map_filter')
next
  case (GGrant now t a tg d dur)
  assume "gate_ok g"
  then have "gate_ok (g\<lparr>gate_cache := cache_store now t a tg d' ttl (gate_cache g)\<rparr>)" for d' ttl
    using cache_store_ok [of "gate_cache g"] cache_store_grants [of "gate_cache g"] unfolding gate_ok_def by simp
  with \<open>gate_ok g\<close> show ?thesis unfolding GGrant by (cases d) (simp_all add: gate_grant_def Let_def)
next
  case GReset
  then show ?thesis by (simp add: gate_reset_def load_default_rules_def cache_clear_def gate_ok_def default_rules_distinct)
qed (auto simp: gate_ok_def gate_add_rule_def gate_remove_rule_def gate_revoke_def cache_revoke_def clear_cache_def
      cache_clear_def cleanup_cache_def cache_cleanup_def Let_def replace_rule_ids distinct_map_filter' list_ex_iff)

interpretation rule_gates: machine "rule_gate_step glob" gate_ok for glob
  by unfold_locales (rule gate_step_ok)

text \<open>
  After every history of the gate, starting from the default gate: rule ids are unique, the
  cache holds at most one grant per key, and an answer that comes from the cache is always a session
  or permanent grant.
\<close>

lemma gate_history_ok:
  "gate_ok (fold (rule_gate_step glob) ops rule_gate_new) \<and>
   cache_lookup now (gate_cache (fold (rule_gate_step glob) ops rule_gate_new)) k
     \<in> {None, Some AllowSession, Some AllowPermanent}"
proof
  have "gate_ok rule_gate_new"
    using default_rules_distinct by (simp add: gate_ok_def rule_gate_new_def load_default_rules_def)
  then show ok: "gate_ok (fold (rule_gate_step glob) ops rule_gate_new)" by (rule rule_gates.run_inv)
  show "cache_lookup now (gate_cache (fold (rule_gate_step glob) ops rule_gate_new)) k
     \<in> {None, Some AllowSession, Some AllowPermanent}"
    using ok unfolding gate_ok_def by (intro cache_lookup_grants) simp
qed

text \<open>Thirteen two-byte letters: byte 21 is inside a letter, so rendering the prompt panics.\<close>

lemma prompt_truncate_panics:
  "prompt_truncate (concat (replicate 13 [CHR 0xC3, CHR 0xA9])) 24 = None"
  by code_simp

end
