(* ===== verification/Bao_Team.thy ===== *)
theory Bao_Team
  imports Bao_Messages
begin

text \<open>
  \<open>engine/team/types.rs\<close>: teams of sub-agents, their status machine, totals and budget. Time stamps
  are arguments. Floating-point costs are bit patterns; \<open>fadd\<close> is the IEEE addition the totals use.
\<close>

section \<open>Modes and status\<close>

datatype team_mode = Parallel | Sequence | Dag

definition show_team_mode :: "team_mode \<Rightarrow> string" where
  "show_team_mode m = (case m of Parallel \<Rightarrow> ''parallel'' | Sequence \<Rightarrow> ''sequence'' | Dag \<Rightarrow> ''dag'')"

text \<open>\<open>to_lowercase\<close> reaches these ASCII words from ASCII letters only (no word contains a k).\<close>

definition team_mode_from_str :: "string \<Rightarrow> string + team_mode" where
  "team_mode_from_str s =
     (let l = to_ascii_lowercase s
      in if l = ''parallel'' then Inr Parallel
         else if l = ''sequence'' \<or> l = ''sequential'' then Inr Sequence
         else if l = ''dag'' then Inr Dag
         else Inl (''Unknown team mode: '' @ s))"

datatype team_status = TeamPending | TeamRunning | TeamCompleted | TeamFailed | TeamAborted

datatype sub_agent_status = AgentPending | AgentRunning | AgentCompleted | AgentFailed | AgentSkipped

section \<open>Agents\<close>

record sub_agent =
  sa_id :: string
  sa_name :: string
  sa_prompt :: string
  sa_status :: sub_agent_status
  sa_dependencies :: "string list"
  sa_result :: "string option"
  sa_error :: "string option"
  sa_tokens_used :: u64
  sa_cost_usd :: f64
  sa_metadata :: "(string, string) hash_map"

definition sub_agent_new :: "string \<Rightarrow> string \<Rightarrow> sub_agent" where
  "sub_agent_new i p = \<lparr>sa_id = i, sa_name = i, sa_prompt = p, sa_status = AgentPending, sa_dependencies = [],
     sa_result = None, sa_error = None, sa_tokens_used = 0, sa_cost_usd = 0, sa_metadata = []\<rparr>"

definition agent_with_dependency :: "string \<Rightarrow> sub_agent \<Rightarrow> sub_agent" where
  "agent_with_dependency d a = a\<lparr>sa_dependencies := sa_dependencies a @ [d]\<rparr>"

definition agent_start :: "sub_agent \<Rightarrow> sub_agent" where
  "agent_start a = a\<lparr>sa_status := AgentRunning\<rparr>"

definition agent_complete :: "string \<Rightarrow> u64 \<Rightarrow> f64 \<Rightarrow> sub_agent \<Rightarrow> sub_agent" where
  "agent_complete res tokens cost a = a\<lparr>sa_status := AgentCompleted, sa_result := Some res,
     sa_tokens_used := tokens, sa_cost_usd := cost\<rparr>"

definition agent_fail :: "string \<Rightarrow> sub_agent \<Rightarrow> sub_agent" where
  "agent_fail e a = a\<lparr>sa_status := AgentFailed, sa_error := Some e\<rparr>"

definition agent_skip :: "string \<Rightarrow> sub_agent \<Rightarrow> sub_agent" where
  "agent_skip reason a = a\<lparr>sa_status := AgentSkipped, sa_metadata := hm_insert ''skip_reason'' reason (sa_metadata a)\<rparr>"

definition agent_is_ready :: "sub_agent \<Rightarrow> string set \<Rightarrow> bool" where
  "agent_is_ready a completed \<longleftrightarrow> sa_status a = AgentPending \<and> list_all (\<lambda>d. d \<in> completed) (sa_dependencies a)"

section \<open>Teams\<close>

record team_budget =
  max_cost_usd :: "f64 option"
  budget_max_tokens :: "u64 option"
  max_time_secs :: "u64 option"

definition default_budget :: team_budget where
  "default_budget = \<lparr>max_cost_usd = None, budget_max_tokens = None, max_time_secs = Some 600\<rparr>"

record progress_report =
  pr_agent_id :: string
  pr_message :: string
  pr_progress :: f64
  pr_timestamp :: string

record shared_state =
  ss_data :: "(string, json) hash_map"
  ss_progress :: "progress_report list"

definition shared_set :: "string \<Rightarrow> json \<Rightarrow> shared_state \<Rightarrow> shared_state" where
  "shared_set k v s = s\<lparr>ss_data := hm_insert k v (ss_data s)\<rparr>"

definition shared_get :: "shared_state \<Rightarrow> string \<Rightarrow> json option" where
  "shared_get s k = hm_get (ss_data s) k"

definition shared_report_progress :: "string \<Rightarrow> string \<Rightarrow> string \<Rightarrow> f64 \<Rightarrow> shared_state \<Rightarrow> shared_state" where
  "shared_report_progress now agent_id msg p s = s\<lparr>ss_progress := ss_progress s @
     [\<lparr>pr_agent_id = agent_id, pr_message = msg, pr_progress = p, pr_timestamp = now\<rparr>]\<rparr>"

record agent_team =
  team_id :: string
  team_name :: "string option"
  team_task :: string
  team_mode :: team_mode
  team_status :: team_status
  agents :: "sub_agent list"
  budget :: "team_budget option"
  team_shared :: shared_state
  created_at :: string
  started_at :: "string option"
  completed_at :: "string option"
  total_tokens :: u64
  total_cost_usd :: f64
  team_cwd :: "string option"

definition team_new :: "string \<Rightarrow> string \<Rightarrow> string \<Rightarrow> agent_team" where
  "team_new now i t = \<lparr>team_id = i, team_name = None, team_task = t, team_mode = Parallel, team_status = TeamPending,
     agents = [], budget = None, team_shared = \<lparr>ss_data = [], ss_progress = []\<rparr>, created_at = now, started_at = None,
     completed_at = None, total_tokens = 0, total_cost_usd = 0, team_cwd = None\<rparr>"

definition add_agent :: "sub_agent \<Rightarrow> agent_team \<Rightarrow> agent_team" where
  "add_agent a t = t\<lparr>agents := agents t @ [a]\<rparr>"

definition create_parallel_agents :: "nat \<Rightarrow> string \<Rightarrow> agent_team \<Rightarrow> agent_team" where
  "create_parallel_agents count prompt_prefix t = fold (\<lambda>i. add_agent
     (sub_agent_new (''agent-'' @ show_nat i) (prompt_prefix @ '' (part '' @ show_nat (i + 1) @ '')''))) [0..<count] t"

definition get_agent :: "agent_team \<Rightarrow> string \<Rightarrow> sub_agent option" where
  "get_agent t i = List.find (\<lambda>a. sa_id a = i) (agents t)"

fun update_first :: "('a \<Rightarrow> bool) \<Rightarrow> ('a \<Rightarrow> 'a) \<Rightarrow> 'a list \<Rightarrow> 'a list" where
  "update_first p f [] = []"
| "update_first p f (x # xs) = (if p x then f x # xs else x # update_first p f xs)"

text \<open>The update a caller makes through \<open>get_agent_mut\<close>: the first agent with the id.\<close>

definition get_agent_mut :: "string \<Rightarrow> (sub_agent \<Rightarrow> sub_agent) \<Rightarrow> agent_team \<Rightarrow> agent_team" where
  "get_agent_mut i f t = t\<lparr>agents := update_first (\<lambda>a. sa_id a = i) f (agents t)\<rparr>"

definition calculate_totals :: "(f64 \<Rightarrow> f64 \<Rightarrow> f64) \<Rightarrow> agent_team \<Rightarrow> agent_team" where
  "calculate_totals fadd t = t\<lparr>total_tokens := foldl (+) 0 (map sa_tokens_used (agents t)),
     total_cost_usd := foldl fadd 0 (map sa_cost_usd (agents t))\<rparr>"

definition team_start :: "string \<Rightarrow> agent_team \<Rightarrow> agent_team" where
  "team_start now t = t\<lparr>team_status := TeamRunning, started_at := Some now\<rparr>"

definition team_complete :: "(f64 \<Rightarrow> f64 \<Rightarrow> f64) \<Rightarrow> string \<Rightarrow> agent_team \<Rightarrow> agent_team" where
  "team_complete fadd now t = calculate_totals fadd (t\<lparr>team_status := TeamCompleted, completed_at := Some now\<rparr>)"

definition team_fail :: "string \<Rightarrow> string \<Rightarrow> agent_team \<Rightarrow> agent_team" where
  "team_fail now e t = t\<lparr>team_status := TeamFailed, completed_at := Some now,
     team_shared := shared_set ''error'' (JString e) (team_shared t)\<rparr>"

definition team_abort :: "string \<Rightarrow> string \<Rightarrow> agent_team \<Rightarrow> agent_team" where
  "team_abort now reason t = t\<lparr>team_status := TeamAborted, completed_at := Some now,
     team_shared := shared_set ''abort_reason'' (JString reason) (team_shared t)\<rparr>"

text \<open>\<open>>=\<close> on doubles, read off their bit patterns: false on NaN, and the zeros are equal.\<close>

definition f64_is_nan :: "f64 \<Rightarrow> bool" where
  "f64_is_nan x \<longleftrightarrow> unat x mod 2 ^ 63 > 0x7FF0000000000000"

definition f64_rank :: "f64 \<Rightarrow> int" where
  "f64_rank x = (if unat x < 2 ^ 63 then int (unat x) else - int (unat x - 2 ^ 63))"

definition f64_ge :: "f64 \<Rightarrow> f64 \<Rightarrow> bool" where
  "f64_ge x y \<longleftrightarrow> \<not> f64_is_nan x \<and> \<not> f64_is_nan y \<and> f64_rank y \<le> f64_rank x"

definition is_budget_exceeded :: "agent_team \<Rightarrow> bool" where
  "is_budget_exceeded t =
     (case budget t of
        None \<Rightarrow> False
      | Some b \<Rightarrow>
          (case max_cost_usd b of Some m \<Rightarrow> f64_ge (total_cost_usd t) m | None \<Rightarrow> False) \<or>
          (case budget_max_tokens b of Some m \<Rightarrow> m \<le> total_tokens t | None \<Rightarrow> False))"

definition completed_agent_ids :: "agent_team \<Rightarrow> string set" where
  "completed_agent_ids t = set (map sa_id (filter (\<lambda>a. sa_status a = AgentCompleted) (agents t)))"

definition ready_agents :: "agent_team \<Rightarrow> sub_agent list" where
  "ready_agents t = filter (\<lambda>a. agent_is_ready a (completed_agent_ids t)) (agents t)"

definition collect_results :: "agent_team \<Rightarrow> (string, string) hash_map" where
  "collect_results t = fold (\<lambda>(k, v). hm_insert k v)
     (List.map_filter (\<lambda>a. map_option (\<lambda>r. (sa_id a, r)) (sa_result a))
       (filter (\<lambda>a. sa_status a = AgentCompleted) (agents t))) []"

record team_summary =
  total_agents :: nat
  sum_pending :: nat
  sum_running :: nat
  sum_completed :: nat
  sum_failed :: nat
  sum_skipped :: nat
  sum_tokens :: u64
  sum_cost :: f64

definition count_agent :: "sub_agent \<Rightarrow> team_summary \<Rightarrow> team_summary" where
  "count_agent a s = (case sa_status a of
     AgentPending \<Rightarrow> s\<lparr>sum_pending := sum_pending s + 1\<rparr>
   | AgentRunning \<Rightarrow> s\<lparr>sum_running := sum_running s + 1\<rparr>
   | AgentCompleted \<Rightarrow> s\<lparr>sum_completed := sum_completed s + 1\<rparr>
   | AgentFailed \<Rightarrow> s\<lparr>sum_failed := sum_failed s + 1\<rparr>
   | AgentSkipped \<Rightarrow> s\<lparr>sum_skipped := sum_skipped s + 1\<rparr>)"

definition team_summary :: "agent_team \<Rightarrow> team_summary" where
  "team_summary t =
     (let s = fold count_agent (agents t) \<lparr>total_agents = length (agents t), sum_pending = 0, sum_running = 0,
        sum_completed = 0, sum_failed = 0, sum_skipped = 0, sum_tokens = 0, sum_cost = 0\<rparr>
      in s\<lparr>sum_tokens := total_tokens t, sum_cost := total_cost_usd t\<rparr>)"

section \<open>Laws\<close>

lemma team_mode_roundtrip: "team_mode_from_str (show_team_mode m) = Inr m"
proof -
  have "team_mode_from_str (show_team_mode Parallel) = Inr Parallel"
    "team_mode_from_str (show_team_mode Sequence) = Inr Sequence"
    "team_mode_from_str (show_team_mode Dag) = Inr Dag" by code_simp+
  then show ?thesis by (cases m) simp_all
qed

interpretation shared: keyed_store shared_get shared_set
  "\<lambda>k s. s\<lparr>ss_data := hm_remove k (ss_data s)\<rparr>" "\<lambda>s. hm_wf (ss_data s)"
  by unfold_locales
    (simp_all add: shared_get_def shared_set_def fun_eq_iff hm_get_insert hm_get_remove hm_wf_insert hm_wf_remove)

abbreviation counted :: "team_summary \<Rightarrow> nat" where
  "counted s \<equiv> sum_pending s + sum_running s + sum_completed s + sum_failed s + sum_skipped s"

lemma count_agent_counted: "counted (count_agent a s) = Suc (counted s)" "total_agents (count_agent a s) = total_agents s"
  by (cases "sa_status a"; simp add: count_agent_def)+

lemma fold_count_agent:
  "counted (fold count_agent as s) = counted s + length as" "total_agents (fold count_agent as s) = total_agents s"
  by (induction as arbitrary: s) (simp_all add: count_agent_counted)

lemma team_summary_partition: "counted (team_summary t) = total_agents (team_summary t)"
  using fold_count_agent [of "agents t"] by (simp add: team_summary_def Let_def)

lemma foldl_word_sum:
  fixes xs :: "u64 list"
  shows "unat (foldl (+) a xs) = (unat a + (\<Sum>x\<leftarrow>xs. unat x)) mod 2 ^ 64"
proof (induction xs arbitrary: a)
  case Nil
  then show ?case using unat_lt_u64 [of a] by simp
next
  case (Cons x xs)
  show ?case by (simp add: Cons.IH unat_word_ariths mod_add_left_eq add.assoc)
qed

text \<open>
  Totals of a finished team: completing a team records the exact sum of its agents' tokens
  (modulo the width of u64), and the team is then over its token budget exactly when that sum
  reaches the limit, provided no cost limit is set and the sum fits.
\<close>

lemma complete_totals_budget:
  assumes "budget t = Some \<lparr>max_cost_usd = None, budget_max_tokens = Some limit, max_time_secs = secs\<rparr>"
    and "(\<Sum>a\<leftarrow>agents t. unat (sa_tokens_used a)) < 2 ^ 64"
  shows "unat (total_tokens (team_complete fadd now t)) = (\<Sum>a\<leftarrow>agents t. unat (sa_tokens_used a)) \<and>
    (is_budget_exceeded (team_complete fadd now t) \<longleftrightarrow> unat limit \<le> (\<Sum>a\<leftarrow>agents t. unat (sa_tokens_used a)))"
proof -
  have "unat (total_tokens (team_complete fadd now t)) = (\<Sum>a\<leftarrow>agents t. unat (sa_tokens_used a))"
    using foldl_word_sum [of 0 "map sa_tokens_used (agents t)"] assms(2)
    by (simp add: team_complete_def calculate_totals_def comp_def)
  moreover have "is_budget_exceeded (team_complete fadd now t) \<longleftrightarrow> limit \<le> total_tokens (team_complete fadd now t)"
    using assms(1) by (simp add: is_budget_exceeded_def team_complete_def calculate_totals_def)
  ultimately show ?thesis by (simp add: word_le_nat_alt)
qed

lemma complete_totals_budget_witness:
  "is_budget_exceeded (team_complete (\<lambda>x y. x) ''now''
     ((add_agent (agent_complete ''ok'' 70 0 (sub_agent_new ''a'' ''p'')) (add_agent
        (agent_complete ''ok'' 50 0 (sub_agent_new ''b'' ''q'')) (team_new ''now'' ''t'' ''task'')))
      \<lparr>budget := Some \<lparr>max_cost_usd = None, budget_max_tokens = Some 100, max_time_secs = None\<rparr>\<rparr>))"
  (is "is_budget_exceeded (team_complete _ _ ?t)")
proof -
  have "(\<Sum>a\<leftarrow>agents ?t. unat (sa_tokens_used a)) = 120" "unat (100 :: u64) = 100" by code_simp+
  with complete_totals_budget [of ?t 100 None] show ?thesis by simp
qed

end
