(* ===== verification/Bao_Scheduler.thy ===== *)
theory Bao_Scheduler
  imports Bao_Team
begin

text \<open>
  \<open>engine/team/scheduler.rs\<close>: the dependency scheduler of DAG-mode teams. The node, dependents and
  in-degree tables are hash maps (association lists in their iteration order); \<open>build\<close> fills the
  last two and rejects missing dependencies and cycles, \<open>topological_sort\<close> and \<open>execution_waves\<close> are
  Kahn's algorithm with a priority order, and the status operations drive an execution. Priorities
  are \<open>i32\<close> values and are only compared, so they are integers here; \<open>usize\<close> counters are naturals
  with the wrap-around of \<open>-= 1\<close> written out (\<open>usize_dec\<close>).
\<close>

section \<open>Data\<close>

record scheduler_error =
  err_code :: string
  err_message :: string
  err_node_id :: "string option"

datatype node_status = Pending | Ready | Running | Completed | Failed | Skipped

definition show_node_status :: "node_status \<Rightarrow> string" where
  "show_node_status s = (case s of Pending \<Rightarrow> ''pending'' | Ready \<Rightarrow> ''ready'' | Running \<Rightarrow> ''running''
     | Completed \<Rightarrow> ''completed'' | Failed \<Rightarrow> ''failed'' | Skipped \<Rightarrow> ''skipped'')"

definition node_status_of_agent :: "sub_agent_status \<Rightarrow> node_status" where
  "node_status_of_agent s = (case s of AgentPending \<Rightarrow> Pending | AgentRunning \<Rightarrow> Running
     | AgentCompleted \<Rightarrow> Completed | AgentFailed \<Rightarrow> Failed | AgentSkipped \<Rightarrow> Skipped)"

definition agent_status_of_node :: "node_status \<Rightarrow> sub_agent_status" where
  "agent_status_of_node s = (case s of Pending \<Rightarrow> AgentPending | Ready \<Rightarrow> AgentPending | Running \<Rightarrow> AgentRunning
     | Completed \<Rightarrow> AgentCompleted | Failed \<Rightarrow> AgentFailed | Skipped \<Rightarrow> AgentSkipped)"

record dag_node =
  node_id :: string
  node_name :: "string option"
  node_prompt :: "string option"
  dependencies :: "string list"
  status :: node_status
  priority :: int
  max_parallel :: "nat option"
  metadata :: "(string, string) hash_map"

definition dag_node_new :: "string \<Rightarrow> string \<Rightarrow> dag_node" where
  "dag_node_new i p = \<lparr>node_id = i, node_name = Some i, node_prompt = Some p, dependencies = [],
     status = Pending, priority = 0, max_parallel = None, metadata = []\<rparr>"

definition with_dependencies :: "string list \<Rightarrow> dag_node \<Rightarrow> dag_node" where
  "with_dependencies ds n = n\<lparr>dependencies := dependencies n @ ds\<rparr>"

definition with_priority :: "int \<Rightarrow> dag_node \<Rightarrow> dag_node" where
  "with_priority p n = n\<lparr>priority := p\<rparr>"

definition is_ready :: "dag_node \<Rightarrow> string set \<Rightarrow> bool" where
  "is_ready n completed \<longleftrightarrow> status n = Pending \<and> list_all (\<lambda>d. d \<in> completed) (dependencies n)"

definition can_schedule :: "dag_node \<Rightarrow> bool" where
  "can_schedule n \<longleftrightarrow> status n \<in> {Pending, Ready}"

text \<open>\<open>str::parse::<i32>\<close>: an optional sign, at least one digit, and a value in range.\<close>

definition digit_val :: "char \<Rightarrow> nat option" where
  "digit_val c = (if 48 \<le> byte c \<and> byte c \<le> 57 then Some (byte c - 48) else None)"

definition parse_digits :: "string \<Rightarrow> nat option" where
  "parse_digits s = (if s = [] \<or> list_ex (\<lambda>c. digit_val c = None) s then None
     else Some (foldl (\<lambda>n c. 10 * n + the (digit_val c)) 0 s))"

definition parse_i32 :: "string \<Rightarrow> int option" where
  "parse_i32 s =
     (let (neg, ds) = (case s of [] \<Rightarrow> (False, []) | c # cs \<Rightarrow>
            if c = CHR ''-'' then (True, cs) else if c = CHR ''+'' then (False, cs) else (False, s))
      in case parse_digits ds of
           None \<Rightarrow> None
         | Some n \<Rightarrow> (let v = (if neg then - int n else int n)
                     in if - (2 ^ 31) \<le> v \<and> v < 2 ^ 31 then Some v else None))"

definition node_of_agent :: "sub_agent \<Rightarrow> dag_node" where
  "node_of_agent a = \<lparr>node_id = sa_id a, node_name = Some (sa_name a), node_prompt = Some (sa_prompt a),
     dependencies = sa_dependencies a, status = node_status_of_agent (sa_status a),
     priority = (case Option.bind (hm_get (sa_metadata a) ''priority'') parse_i32 of Some p \<Rightarrow> p | None \<Rightarrow> 0),
     max_parallel = None, metadata = sa_metadata a\<rparr>"

record execution_wave =
  wave :: nat
  wave_nodes :: "string list"
  parallel :: bool

record dag_scheduler =
  nodes :: "(string, dag_node) hash_map"
  dependents :: "(string, string list) hash_map"
  in_degree :: "(string, nat) hash_map"
  max_parallelism :: nat

section \<open>Construction\<close>

text \<open>\<open>new\<close> is the derived \<open>Default\<close>: every field is empty or zero.\<close>

definition scheduler_new :: dag_scheduler where
  "scheduler_new = \<lparr>nodes = [], dependents = [], in_degree = [], max_parallelism = 0\<rparr>"

definition with_max_parallelism :: "nat \<Rightarrow> dag_scheduler" where
  "with_max_parallelism m = scheduler_new\<lparr>max_parallelism := m\<rparr>"

definition set_max_parallelism :: "nat \<Rightarrow> dag_scheduler \<Rightarrow> dag_scheduler" where
  "set_max_parallelism m s = s\<lparr>max_parallelism := m\<rparr>"

definition add_node :: "dag_node \<Rightarrow> dag_scheduler \<Rightarrow> scheduler_error + dag_scheduler" where
  "add_node n s =
     (if hm_contains (nodes s) (node_id n)
      then Inl \<lparr>err_code = ''duplicate_node'', err_message = ''Node '' @ quoted (node_id n) @ '' already exists'',
                err_node_id = Some (node_id n)\<rparr>
      else Inr (s\<lparr>nodes := hm_insert (node_id n) n (nodes s)\<rparr>))"

text \<open>\<open>get_mut\<close> followed by an update in place.\<close>

definition hm_modify :: "'k \<Rightarrow> ('v \<Rightarrow> 'v) \<Rightarrow> ('k, 'v) hash_map \<Rightarrow> ('k, 'v) hash_map" where
  "hm_modify k f m = (case hm_get m k of None \<Rightarrow> m | Some v \<Rightarrow> hm_insert k (f v) m)"

definition remove_node :: "string \<Rightarrow> dag_scheduler \<Rightarrow> dag_scheduler \<times> dag_node option" where
  "remove_node i s =
     (case hm_get (nodes s) i of
        None \<Rightarrow> (s, None)
      | Some n \<Rightarrow>
          (let ds = fold (\<lambda>d. hm_modify d (filter (\<lambda>x. x \<noteq> i))) (dependencies n) (dependents s)
           in (s\<lparr>nodes := hm_remove i (nodes s), dependents := hm_remove i ds\<rparr>, Some n)))"

text \<open>One node of \<open>build\<close>'s loop: validation, in-degree, reverse edges.\<close>

definition push_dependent :: "string \<Rightarrow> string \<Rightarrow> (string, string list) hash_map \<Rightarrow> (string, string list) hash_map" where
  "push_dependent i d ds = hm_insert d ((case hm_get ds d of Some l \<Rightarrow> l | None \<Rightarrow> []) @ [i]) ds"

fun build_loop ::
  "(string, dag_node) hash_map \<Rightarrow> (string \<times> dag_node) list \<Rightarrow> (string, string list) hash_map \<Rightarrow> (string, nat) hash_map \<Rightarrow>
   (string, string list) hash_map \<times> (string, nat) hash_map \<times> scheduler_error option" where
  "build_loop all [] ds deg = (ds, deg, None)"
| "build_loop all ((i, n) # rest) ds deg =
     (case List.find (\<lambda>d. \<not> hm_contains all d) (dependencies n) of
        Some d \<Rightarrow> (ds, deg, Some \<lparr>err_code = ''missing_dependency'',
          err_message = ''Dependency '' @ quoted d @ '' does not exist'', err_node_id = Some i\<rparr>)
      | None \<Rightarrow> build_loop all rest (fold (push_dependent i) (dependencies n) ds)
                  (hm_insert i (length (dependencies n)) deg))"

text \<open>
  The depth-first search, over the list of nodes a call still has to try: \<open>visited\<close> and
  \<open>rec_stack\<close> are threaded through, and the stack entry is removed on the way back.
\<close>

definition succs :: "(string, string list) hash_map \<Rightarrow> string \<Rightarrow> string list" where
  "succs ds i = (case hm_get ds i of Some l \<Rightarrow> l | None \<Rightarrow> [])"

function has_cycle_any ::
  "(string, string list) hash_map \<Rightarrow> string list \<Rightarrow> string set \<Rightarrow> string set \<Rightarrow> bool \<times> string set \<times> string set" where
  "has_cycle_any ds [] visited rec_stack = (False, visited, rec_stack)"
| "has_cycle_any ds (i # rest) visited rec_stack =
     (if i \<in> rec_stack then (True, visited, rec_stack)
      else if i \<in> visited then has_cycle_any ds rest visited rec_stack
      else case has_cycle_any ds (succs ds i) (insert i visited) (insert i rec_stack) of
             (True, v, r) \<Rightarrow> (True, v, r)
           | (False, v, r) \<Rightarrow> has_cycle_any ds rest v (r - {i}))"
  by pat_completeness auto

lemma has_cycle_any_visited:
  "has_cycle_any_dom (ds, is, v, r) \<Longrightarrow> has_cycle_any ds is v r = (b, v', r') \<Longrightarrow> v \<subseteq> v'"
proof (induction arbitrary: b v' r' rule: has_cycle_any.pinduct)
  case (1 ds v r)
  then show ?case by (simp add: has_cycle_any.psimps)
next
  case (2 ds i rest v r)
  show ?case
  proof (cases "i \<in> r \<or> i \<in> v")
    case True
    with 2 show ?thesis by (auto simp: has_cycle_any.psimps split: if_splits)
  next
    case False
    obtain b1 v1 r1 where c: "has_cycle_any ds (succs ds i) (insert i v) (insert i r) = (b1, v1, r1)"
      by (metis prod_cases3)
    with 2 False have v1: "insert i v \<subseteq> v1" by blast
    show ?thesis
    proof (cases b1)
      case True
      with 2 False c v1 show ?thesis by (auto simp: has_cycle_any.psimps)
    next
      case b1: False
      with "2.prems" "2.hyps" False c have "has_cycle_any ds rest v1 (r1 - {i}) = (b, v', r')"
        by (simp add: has_cycle_any.psimps)
      with "2.IH"(3) [of False "(v1, r1)" v1 r1] b1 False c have "v1 \<subseteq> v'" by simp
      with v1 show ?thesis by blast
    qed
  qed
qed

lemma dfs_measure:
  assumes "i \<notin> v" "insert i v \<subseteq> w"
  shows "card (set (hm_keys ds) - w) < card (set (hm_keys ds) - v) \<or>
    card (set (hm_keys ds) - w) \<le> card (set (hm_keys ds) - v) \<and> succs ds i = []"
proof (cases "i \<in> set (hm_keys ds)")
  case True
  with assms have "card (set (hm_keys ds) - w) < card (set (hm_keys ds) - v)"
    by (intro psubset_card_mono) auto
  then show ?thesis ..
next
  case False
  then have "succs ds i = []" unfolding hm_keys_get by (simp add: succs_def)
  moreover have "card (set (hm_keys ds) - w) \<le> card (set (hm_keys ds) - v)"
    using assms by (intro card_mono) auto
  ultimately show ?thesis by blast
qed

termination has_cycle_any
proof (relation "inv_image (less_than <*lex*> less_than)
    (\<lambda>(ds, is, v, r). (card (set (hm_keys ds) - v), length is))", goal_cases)
  case (3 ds i rest v r)
  with dfs_measure [of i v "insert i v" ds] show ?case by auto
next
  case (4 ds i rest v r b y v1 r1)
  then have "insert i v \<subseteq> v1" using has_cycle_any_visited [OF 4(6)] by metis
  with dfs_measure [of i v v1 ds] 4 show ?case by auto
qed auto

definition has_cycle ::
  "(string, string list) hash_map \<Rightarrow> string \<Rightarrow> string set \<Rightarrow> string set \<Rightarrow> bool \<times> string set \<times> string set" where
  "has_cycle ds i visited rec_stack = has_cycle_any ds [i] visited rec_stack"

fun detect_loop ::
  "(string, string list) hash_map \<Rightarrow> string list \<Rightarrow> string set \<Rightarrow> string set \<Rightarrow> scheduler_error option" where
  "detect_loop ds [] visited rec_stack = None"
| "detect_loop ds (i # rest) visited rec_stack =
     (case has_cycle ds i visited rec_stack of
        (True, v, r) \<Rightarrow> Some \<lparr>err_code = ''cycle_detected'',
          err_message = ''DAG contains a cycle involving node '' @ quoted i, err_node_id = Some i\<rparr>
      | (False, v, r) \<Rightarrow> detect_loop ds rest v r)"

definition detect_cycles :: "dag_scheduler \<Rightarrow> scheduler_error option" where
  "detect_cycles s = detect_loop (dependents s) (hm_keys (nodes s)) {} {}"

text \<open>\<open>build\<close> changes the tables also when it reports an error.\<close>

definition build :: "dag_scheduler \<Rightarrow> dag_scheduler \<times> scheduler_error option" where
  "build s =
     (case build_loop (nodes s) (nodes s) [] [] of
        (ds, deg, err) \<Rightarrow>
          (let s' = s\<lparr>dependents := ds, in_degree := deg\<rparr>
           in case err of Some e \<Rightarrow> (s', Some e) | None \<Rightarrow> (s', detect_cycles s')))"

fun add_agents :: "sub_agent list \<Rightarrow> dag_scheduler \<Rightarrow> scheduler_error + dag_scheduler" where
  "add_agents [] s = Inr s"
| "add_agents (a # as) s = (case add_node (node_of_agent a) s of Inl e \<Rightarrow> Inl e | Inr s' \<Rightarrow> add_agents as s')"

definition from_team :: "agent_team \<Rightarrow> scheduler_error + dag_scheduler" where
  "from_team t =
     (case add_agents (agents t) scheduler_new of
        Inl e \<Rightarrow> Inl e
      | Inr s \<Rightarrow> (case build s of (s', Some e) \<Rightarrow> Inl e | (s', None) \<Rightarrow> Inr s'))"

section \<open>Kahn's algorithm\<close>

definition priority_of :: "(string, dag_node) hash_map \<Rightarrow> string \<Rightarrow> int" where
  "priority_of ns i = (case hm_get ns i of Some n \<Rightarrow> priority n | None \<Rightarrow> 0)"

definition order_key :: "(string, dag_node) hash_map \<Rightarrow> string \<Rightarrow> int \<times> string" where
  "order_key ns i = (- priority_of ns i, i)"

definition priority_sort :: "(string, dag_node) hash_map \<Rightarrow> string list \<Rightarrow> string list" where
  "priority_sort ns is = sort_key (order_key ns) is"

fun relax :: "string list \<Rightarrow> (string, nat) hash_map \<Rightarrow> string list \<Rightarrow> (string, nat) hash_map \<times> string list" where
  "relax [] deg queue = (deg, queue)"
| "relax (d # rest) deg queue =
     (case hm_get deg d of
        None \<Rightarrow> relax rest deg queue
      | Some k \<Rightarrow> relax rest (hm_insert d (usize_dec k) deg) (if usize_dec k = 0 then queue @ [d] else queue))"

partial_function (option) topo_loop ::
  "dag_scheduler \<Rightarrow> (string, nat) hash_map \<Rightarrow> string list \<Rightarrow> string list \<Rightarrow> string list option" where
  "topo_loop s deg queue result =
     (if queue = [] then Some result
      else (case relax (succs (dependents s) (hd queue)) deg (tl queue) of
              (deg', queue') \<Rightarrow> topo_loop s deg' (priority_sort (nodes s) queue') (result @ [hd queue])))"

definition cycle_error :: "string \<Rightarrow> scheduler_error" where
  "cycle_error what = \<lparr>err_code = ''cycle_detected'', err_message = ''DAG contains a cycle, cannot '' @ what,
     err_node_id = None\<rparr>"

text \<open>\<open>None\<close> stands for a loop that does not end.\<close>

definition topological_sort :: "dag_scheduler \<Rightarrow> (scheduler_error + string list) option" where
  "topological_sort s =
     (if nodes s = [] then Some (Inr [])
      else (let queue = filter (\<lambda>i. hm_get (in_degree s) i = Some 0) (hm_keys (nodes s))
            in case topo_loop s (in_degree s) (priority_sort (nodes s) queue) [] of
                 None \<Rightarrow> None
               | Some result \<Rightarrow> Some (if length result \<noteq> length (nodes s)
                                   then Inl (cycle_error ''perform topological sort'') else Inr result)))"

fun relax_wave :: "(string, string list) hash_map \<Rightarrow> string list \<Rightarrow> (string, nat) hash_map \<Rightarrow> (string, nat) hash_map" where
  "relax_wave ds [] deg = deg"
| "relax_wave ds (i # rest) deg = relax_wave ds rest (fst (relax (succs ds i) deg []))"

partial_function (option) wave_loop ::
  "dag_scheduler \<Rightarrow> (string, nat) hash_map \<Rightarrow> string set \<Rightarrow> execution_wave list \<Rightarrow> execution_wave list option" where
  "wave_loop s deg completed waves =
     (let ready = filter (\<lambda>i. i \<notin> completed \<and> hm_get deg i = Some 0) (hm_keys (nodes s))
      in if ready = [] then Some waves
         else (let ready' = priority_sort (nodes s) ready
               in wave_loop s (relax_wave (dependents s) ready' deg) (completed \<union> set ready')
                    (waves @ [\<lparr>wave = length waves, wave_nodes = ready', parallel = 1 < length ready'\<rparr>])))"

definition execution_waves :: "dag_scheduler \<Rightarrow> (scheduler_error + execution_wave list) option" where
  "execution_waves s =
     (if nodes s = [] then Some (Inr [])
      else (case wave_loop s (in_degree s) {} [] of
              None \<Rightarrow> None
            | Some waves \<Rightarrow> Some (if (\<Sum>w\<leftarrow>waves. length (wave_nodes w)) \<noteq> length (nodes s)
                               then Inl (cycle_error ''compute execution waves'') else Inr waves)))"

section \<open>Driving an execution\<close>

definition ready_nodes :: "dag_scheduler \<Rightarrow> string set \<Rightarrow> dag_node list" where
  "ready_nodes s completed = filter (\<lambda>n. is_ready n completed) (hm_values (nodes s))"

definition get_ready_nodes :: "dag_scheduler \<Rightarrow> string set \<Rightarrow> nat \<Rightarrow> string list" where
  "get_ready_nodes s completed currently_running =
     (if max_parallelism s \<le> currently_running then []
      else take (max_parallelism s - currently_running)
             (priority_sort (nodes s) (map node_id (ready_nodes s completed))))"

definition get_dependents :: "dag_scheduler \<Rightarrow> string \<Rightarrow> string list" where
  "get_dependents s i = succs (dependents s) i"

definition get_dependencies :: "dag_scheduler \<Rightarrow> string \<Rightarrow> string list" where
  "get_dependencies s i = (case hm_get (nodes s) i of Some n \<Rightarrow> dependencies n | None \<Rightarrow> [])"

definition not_found :: "string \<Rightarrow> scheduler_error" where
  "not_found i = \<lparr>err_code = ''node_not_found'', err_message = ''Node '' @ quoted i @ '' not found'', err_node_id = Some i\<rparr>"

definition update_node :: "string \<Rightarrow> (dag_node \<Rightarrow> dag_node) \<Rightarrow> dag_scheduler \<Rightarrow> scheduler_error + dag_scheduler" where
  "update_node i f s =
     (case hm_get (nodes s) i of
        None \<Rightarrow> Inl (not_found i)
      | Some n \<Rightarrow> Inr (s\<lparr>nodes := hm_insert i (f n) (nodes s)\<rparr>))"

definition start_node :: "string \<Rightarrow> dag_scheduler \<Rightarrow> scheduler_error + dag_scheduler" where
  "start_node i = update_node i (\<lambda>n. n\<lparr>status := Running\<rparr>)"

definition complete_node :: "string \<Rightarrow> dag_scheduler \<Rightarrow> scheduler_error + dag_scheduler" where
  "complete_node i = update_node i (\<lambda>n. n\<lparr>status := Completed\<rparr>)"

definition fail_node :: "string \<Rightarrow> string option \<Rightarrow> dag_scheduler \<Rightarrow> scheduler_error + dag_scheduler" where
  "fail_node i err = update_node i (\<lambda>n. (case err of
      None \<Rightarrow> n\<lparr>status := Failed\<rparr>
    | Some e \<Rightarrow> n\<lparr>status := Failed, metadata := hm_insert ''error'' e (metadata n)\<rparr>))"

definition skip_node :: "string \<Rightarrow> dag_node \<Rightarrow> dag_node" where
  "skip_node reason n = n\<lparr>status := Skipped, metadata := hm_insert ''skip_reason'' reason (metadata n)\<rparr>"

lemma open_nodes_decrease:
  "hm_get ns i = Some n \<Longrightarrow> can_schedule n \<Longrightarrow>
   length (filter (can_schedule \<circ> snd) (hm_insert i (skip_node r n) ns)) < length (filter (can_schedule \<circ> snd) ns)"
  by (induction ns) (auto simp: skip_node_def can_schedule_def split: if_splits)

function skip_loop ::
  "(string, string list) hash_map \<Rightarrow> string \<Rightarrow> string list \<Rightarrow> (string, dag_node) hash_map \<Rightarrow> string list \<Rightarrow>
   (string, dag_node) hash_map \<times> string list" where
  "skip_loop ds reason [] ns skipped = (ns, skipped)"
| "skip_loop ds reason (i # to_skip) ns skipped =
     (case hm_get ns i of
        None \<Rightarrow> skip_loop ds reason to_skip ns skipped
      | Some n \<Rightarrow>
          if can_schedule n
          then skip_loop ds reason (to_skip @ filter (\<lambda>d. d \<notin> set (skipped @ [i])) (succs ds i))
                 (hm_insert i (skip_node reason n) ns) (skipped @ [i])
          else skip_loop ds reason to_skip ns skipped)"
  by pat_completeness auto
termination
  by (relation "inv_image (less_than <*lex*> less_than)
      (\<lambda>(ds, r, q, ns, sk). (length (filter (can_schedule \<circ> snd) ns), length q))")
    (auto simp: open_nodes_decrease)

definition skip_dependents :: "string \<Rightarrow> string \<Rightarrow> dag_scheduler \<Rightarrow> dag_scheduler \<times> string list" where
  "skip_dependents failed_id reason s =
     (case skip_loop (dependents s) reason (succs (dependents s) failed_id) (nodes s) [] of
        (ns, skipped) \<Rightarrow> (s\<lparr>nodes := ns\<rparr>, skipped))"

definition is_complete :: "dag_scheduler \<Rightarrow> bool" where
  "is_complete s \<longleftrightarrow> list_all (\<lambda>n. status n \<in> {Completed, Failed, Skipped}) (hm_values (nodes s))"

definition has_failures :: "dag_scheduler \<Rightarrow> bool" where
  "has_failures s \<longleftrightarrow> list_ex (\<lambda>n. status n = Failed) (hm_values (nodes s))"

definition is_successful :: "dag_scheduler \<Rightarrow> bool" where
  "is_successful s \<longleftrightarrow> list_all (\<lambda>n. status n = Completed) (hm_values (nodes s))"

fun missing_errors :: "(string, dag_node) hash_map \<Rightarrow> dag_node list \<Rightarrow> scheduler_error list" where
  "missing_errors all [] = []"
| "missing_errors all (n # rest) =
     map (\<lambda>d. \<lparr>err_code = ''missing_dependency'', err_message = ''Dependency '' @ quoted d @ '' does not exist'',
                err_node_id = Some (node_id n)\<rparr>) (filter (\<lambda>d. \<not> hm_contains all d) (dependencies n)) @
     missing_errors all rest"

definition validate :: "dag_scheduler \<Rightarrow> scheduler_error list" where
  "validate s = missing_errors (nodes s) (hm_values (nodes s)) @
     (case build s of (_, Some e) \<Rightarrow> [e] | (_, None) \<Rightarrow> [])"

section \<open>The tables that build computes\<close>

definition deps_of :: "(string, dag_node) hash_map \<Rightarrow> string \<Rightarrow> string list" where
  "deps_of ns i = (case hm_get ns i of Some n \<Rightarrow> dependencies n | None \<Rightarrow> [])"

text \<open>\<open>(d, i)\<close> is an edge when node \<open>i\<close> depends on \<open>d\<close>.\<close>

definition edges :: "dag_scheduler \<Rightarrow> (string \<times> string) set" where
  "edges s = {(d, i). d \<in> set (deps_of (nodes s) i)}"

definition deps_exist :: "dag_scheduler \<Rightarrow> bool" where
  "deps_exist s \<longleftrightarrow> (\<forall>i d. d \<in> set (deps_of (nodes s) i) \<longrightarrow> d \<in> set (hm_keys (nodes s)))"

definition tables_ok :: "dag_scheduler \<Rightarrow> bool" where
  "tables_ok s \<longleftrightarrow>
     (\<forall>i. hm_get (in_degree s) i = map_option (length \<circ> dependencies) (hm_get (nodes s) i)) \<and>
     (\<forall>d i. count_list (succs (dependents s) d) i = count_list (deps_of (nodes s) i) d)"

lemma succs_push:
  "succs (push_dependent j d' ds) d = (if d = d' then succs ds d @ [j] else succs ds d)"
  by (simp add: push_dependent_def succs_def hm_get_insert)

lemma count_push_all:
  "count_list (succs (fold (push_dependent j) l ds) d) i =
   count_list (succs ds d) i + (if i = j then count_list l d else 0)"
  by (induction l arbitrary: ds) (simp_all add: succs_push)

lemma build_loop_tables:
  assumes "build_loop all xs ds deg = (ds', deg', None)" "hm_wf xs"
  shows "hm_get deg' i = (case hm_get xs i of Some n \<Rightarrow> Some (length (dependencies n)) | None \<Rightarrow> hm_get deg i) \<and>
    count_list (succs ds' d) i = count_list (succs ds d) i + count_list (deps_of xs i) d"
  using assms
proof (induction all xs ds deg rule: build_loop.induct)
  case (2 all j n rest ds deg)
  then have f: "List.find (\<lambda>d. \<not> hm_contains all d) (dependencies n) = None"
    by (auto split: option.splits)
  have rest: "hm_wf rest" "hm_get rest j = None"
    using "2.prems"(2) by (auto simp: hm_wf_def map_of_eq_None_iff)
  from "2.IH" [OF f] "2.prems" f rest show ?case
    by (auto simp: count_push_all hm_get_insert deps_of_def split: option.split)
qed (simp add: deps_of_def)

lemma build_loop_error:
  "snd (snd (build_loop all xs ds deg)) = None \<longleftrightarrow>
     (\<forall>(i, n)\<in>set xs. \<forall>d\<in>set (dependencies n). d \<in> set (hm_keys all))"
proof (induction all xs ds deg rule: build_loop.induct)
  case (2 all j n rest ds deg)
  show ?case
  proof (cases "List.find (\<lambda>d. \<not> hm_contains all d) (dependencies n)")
    case None
    then have "\<forall>d\<in>set (dependencies n). d \<in> set (hm_keys all)"
      unfolding hm_keys_get by (simp add: find_None_iff)
    with 2 [OF None] None show ?thesis by simp
  next
    case (Some d)
    then have "d \<in> set (dependencies n)" "d \<notin> set (hm_keys all)"
      unfolding hm_keys_get by (auto simp: find_Some_iff)
    with Some show ?thesis by auto
  qed
qed simp

lemma deps_exist_iff:
  assumes "hm_wf (nodes s)"
  shows "deps_exist s \<longleftrightarrow> (\<forall>(i, n)\<in>set (nodes s). \<forall>d\<in>set (dependencies n). d \<in> set (hm_keys (nodes s)))"
    (is "_ \<longleftrightarrow> ?all")
proof
  assume e: "deps_exist s"
  have "d \<in> set (hm_keys (nodes s))" if "(i, n) \<in> set (nodes s)" "d \<in> set (dependencies n)" for i n d
  proof -
    have "d \<in> set (deps_of (nodes s) i)" using that hm_get_in_set [OF assms, of i n] by (simp add: deps_of_def)
    with e show ?thesis unfolding deps_exist_def by blast
  qed
  then show ?all by blast
next
  assume a: ?all
  have "d \<in> set (hm_keys (nodes s))" if "d \<in> set (deps_of (nodes s) i)" for i d
    using that a by (cases "hm_get (nodes s) i") (force simp: deps_of_def dest: map_of_SomeD)+
  then show "deps_exist s" by (simp add: deps_exist_def)
qed

lemma build_fields: "nodes (fst (build s)) = nodes s" "max_parallelism (fst (build s)) = max_parallelism s"
  by (simp_all add: build_def Let_def split: prod.split option.split)

lemma build_tables:
  assumes "hm_wf (nodes s)" "snd (build s) = None"
  shows "tables_ok (fst (build s)) \<and> deps_exist (fst (build s)) \<and> detect_cycles (fst (build s)) = None"
proof -
  obtain ds deg err where b: "build_loop (nodes s) (nodes s) [] [] = (ds, deg, err)" by (metis prod_cases3)
  with assms(2) have err: "err = None" by (auto simp: build_def Let_def split: option.splits)
  with b have s': "fst (build s) = s\<lparr>dependents := ds, in_degree := deg\<rparr>"
    and cyc: "detect_cycles (fst (build s)) = None"
    using assms(2) by (simp_all add: build_def Let_def)
  have "tables_ok (fst (build s))"
    using build_loop_tables [OF b [unfolded err] assms(1)]
    by (auto simp: tables_ok_def s' succs_def deps_of_def split: option.splits)
  moreover have "deps_exist (fst (build s))"
  proof -
    have "deps_exist s"
      using build_loop_error [of "nodes s" "nodes s" "[]" "[]"] b err unfolding deps_exist_iff [OF assms(1)] by simp
    then show ?thesis by (simp add: deps_exist_def s')
  qed
  ultimately show ?thesis using cyc by simp
qed

lemma build_error:
  assumes "hm_wf (nodes s)"
  shows "snd (build s) = None \<longleftrightarrow> deps_exist s \<and> detect_cycles (fst (build s)) = None"
proof -
  obtain ds deg err where b: "build_loop (nodes s) (nodes s) [] [] = (ds, deg, err)" by (metis prod_cases3)
  have "err = None \<longleftrightarrow> deps_exist s"
    using build_loop_error [of "nodes s" "nodes s" "[]" "[]"] b unfolding deps_exist_iff [OF assms] by simp
  with b show ?thesis by (cases err) (auto simp: build_def Let_def)
qed

section \<open>Cycle detection\<close>

abbreviation succ_rel :: "(string, string list) hash_map \<Rightarrow> (string \<times> string) set" where
  "succ_rel ds \<equiv> {(d, i). i \<in> set (succs ds d)}"

text \<open>Soundness: a hit is a real cycle, since every node of the stack reaches the nodes being tried.\<close>

lemma has_cycle_any_sound:
  assumes "has_cycle_any ds is v r = (b, v', r')" "\<forall>x\<in>r. \<forall>i\<in>set is. (x, i) \<in> (succ_rel ds)\<^sup>+"
  shows "if b then \<not> acyclic (succ_rel ds) else r' = r \<and> set is \<inter> r = {}"
  using assms
proof (induction ds "is" v r arbitrary: b v' r' rule: has_cycle_any.induct)
  case (2 ds i rest v r)
  show ?case
  proof (cases "i \<in> r")
    case True
    then show ?thesis using "2.prems" by (auto simp: acyclic_def)
  next
    case ir: False
    show ?thesis
    proof (cases "i \<in> v")
      case True
      with "2.IH"(1) [OF ir True] "2.prems" ir show ?thesis by simp
    next
      case iv: False
      obtain b1 v1 r1 where c: "has_cycle_any ds (succs ds i) (insert i v) (insert i r) = (b1, v1, r1)"
        by (metis prod_cases3)
      have "\<forall>x\<in>insert i r. \<forall>j\<in>set (succs ds i). (x, j) \<in> (succ_rel ds)\<^sup>+"
        using "2.prems"(2) by (auto intro: trancl_into_trancl)
      note inner = "2.IH"(2) [OF ir iv c this]
      show ?thesis
      proof (cases b1)
        case True
        with "2.prems" inner ir iv c show ?thesis by auto
      next
        case False
        with inner ir have r1: "r1 - {i} = r" by auto
        from "2.prems" ir iv c False r1 have "has_cycle_any ds rest v1 r = (b, v', r')" by auto
        moreover have "\<forall>x\<in>r. \<forall>i\<in>set rest. (x, i) \<in> (succ_rel ds)\<^sup>+" using "2.prems"(2) by simp
        ultimately have "if b then \<not> acyclic (succ_rel ds) else r' = r \<and> set rest \<inter> r = {}"
          using "2.IH"(3) [OF ir iv, of False "(v1, r1)" v1 r1 b v' r'] c False unfolding r1 by simp
        with ir show ?thesis by (cases b) simp_all
      qed
    qed
  qed
qed simp

text \<open>Completeness: finished nodes are closed under successors and lie on no cycle.\<close>

definition finished :: "(string, string list) hash_map \<Rightarrow> string set \<Rightarrow> bool" where
  "finished ds D \<longleftrightarrow> (\<forall>x\<in>D. set (succs ds x) \<subseteq> D \<and> (x, x) \<notin> (succ_rel ds)\<^sup>+)"

lemma finished_reach: "finished ds D \<Longrightarrow> x \<in> D \<Longrightarrow> (x, y) \<in> (succ_rel ds)\<^sup>* \<Longrightarrow> y \<in> D"
  by (erule rtrancl_induct) (auto simp: finished_def)

lemma finished_insert:
  assumes "finished ds D" "set (succs ds i) \<subseteq> D" "i \<notin> D"
  shows "finished ds (insert i D)"
proof -
  have "(i, i) \<notin> (succ_rel ds)\<^sup>+"
  proof
    assume "(i, i) \<in> (succ_rel ds)\<^sup>+"
    then obtain j where "j \<in> set (succs ds i)" "(j, i) \<in> (succ_rel ds)\<^sup>*" by (auto dest: tranclD)
    with finished_reach [OF assms(1)] assms(2,3) show False by blast
  qed
  with assms show ?thesis by (auto simp: finished_def)
qed

lemma has_cycle_any_complete:
  assumes "has_cycle_any ds is v r = (False, v', r')" "finished ds (v - r)" "r \<subseteq> v"
  shows "finished ds (v' - r) \<and> r' = r \<and> v \<subseteq> v' \<and> set is \<subseteq> v' - r"
  using assms
proof (induction ds "is" v r arbitrary: v' r' rule: has_cycle_any.induct)
  case (2 ds i rest v r)
  have ir: "i \<notin> r" using "2.prems"(1) by (cases "i \<in> r") simp_all
  show ?case
  proof (cases "i \<in> v")
    case True
    with "2.prems"(1) ir have "has_cycle_any ds rest v r = (False, v', r')" by simp
    from "2.IH"(1) [OF ir True this "2.prems"(2,3)] True ir show ?thesis by auto
  next
    case iv: False
    obtain b1 v1 r1 where c: "has_cycle_any ds (succs ds i) (insert i v) (insert i r) = (b1, v1, r1)"
      by (metis prod_cases3)
    from "2.prems" ir iv c have b1: "\<not> b1" by (cases b1) auto
    have "insert i v - insert i r = v - r" using iv by auto
    then have inner: "finished ds (v1 - insert i r) \<and> r1 = insert i r \<and> insert i v \<subseteq> v1 \<and>
        set (succs ds i) \<subseteq> v1 - insert i r"
      using "2.prems"(2,3) b1 c by (intro "2.IH"(2) [OF ir iv]) auto
    then have "finished ds (insert i (v1 - insert i r))" by (intro finished_insert) auto
    moreover have "insert i (v1 - insert i r) = v1 - r" using inner ir by auto
    ultimately have fin: "finished ds (v1 - r)" by simp
    have r1: "r1 - {i} = r" using inner ir by auto
    from "2.prems" ir iv c b1 r1 have "has_cycle_any ds rest v1 r = (False, v', r')" by auto
    moreover have "r \<subseteq> v1" using inner "2.prems"(3) by blast
    ultimately have "finished ds (v' - r) \<and> r' = r \<and> v1 \<subseteq> v' \<and> set rest \<subseteq> v' - r"
      using "2.IH"(3) [OF ir iv, of False "(v1, r1)" v1 r1 v' r'] c b1 fin unfolding r1 by simp
    with inner ir show ?thesis by auto
  qed
qed simp

lemma detect_loop_sound: "detect_loop ds is v {} = Some e \<Longrightarrow> \<not> acyclic (succ_rel ds)"
proof (induction "is" arbitrary: v)
  case (Cons i rest)
  obtain b v1 r1 where c: "has_cycle_any ds [i] v {} = (b, v1, r1)" by (metis prod_cases3)
  from has_cycle_any_sound [OF c] have h: "if b then \<not> acyclic (succ_rel ds) else r1 = {}" by auto
  with Cons c show ?case by (cases b) (simp_all add: has_cycle_def)
qed simp

lemma detect_loop_complete:
  "detect_loop ds is v {} = None \<Longrightarrow> finished ds v \<Longrightarrow> \<exists>w. finished ds w \<and> set is \<subseteq> w \<and> v \<subseteq> w"
proof (induction "is" arbitrary: v)
  case (Cons i rest)
  obtain b v1 r1 where c: "has_cycle_any ds [i] v {} = (b, v1, r1)" by (metis prod_cases3)
  with Cons.prems(1) have b: "\<not> b" by (cases b) (simp_all add: has_cycle_def)
  with has_cycle_any_complete [of ds "[i]" v "{}" v1 r1] c Cons.prems(2)
  have h: "finished ds v1" "r1 = {}" "v \<subseteq> v1" "i \<in> v1" by simp_all
  with Cons.prems(1) c b have "detect_loop ds rest v1 {} = None" by (simp add: has_cycle_def)
  from Cons.IH [OF this h(1)] h show ?case by auto
qed auto

lemma count_list_pos: "x \<in> set xs \<longleftrightarrow> 0 < count_list xs x"
  by (induction xs) auto

lemma tables_edges: "tables_ok s \<Longrightarrow> succ_rel (dependents s) = edges s"
  by (auto simp: tables_ok_def edges_def count_list_pos)

lemma edges_target: "(d, i) \<in> edges s \<Longrightarrow> i \<in> set (hm_keys (nodes s))"
  unfolding hm_keys_get by (cases "hm_get (nodes s) i") (auto simp: edges_def deps_of_def)

lemma detect_cycles_iff:
  assumes "tables_ok s"
  shows "detect_cycles s = None \<longleftrightarrow> acyclic (edges s)"
proof
  assume "detect_cycles s = None"
  moreover have "finished (dependents s) {}" by (simp add: finished_def)
  ultimately obtain w where w: "finished (dependents s) w" "set (hm_keys (nodes s)) \<subseteq> w"
    unfolding detect_cycles_def using detect_loop_complete by blast
  show "acyclic (edges s)"
    unfolding acyclic_def
  proof clarify
    fix i assume "(i, i) \<in> (edges s)\<^sup>+"
    moreover from this have "i \<in> set (hm_keys (nodes s))" by (cases rule: trancl.cases) (auto dest: edges_target)
    ultimately show False using w tables_edges [OF assms] by (auto simp: finished_def)
  qed
next
  assume "acyclic (edges s)"
  then show "detect_cycles s = None"
    using detect_loop_sound [of "dependents s" "hm_keys (nodes s)" "{}"] tables_edges [OF assms]
    unfolding detect_cycles_def by (cases "detect_loop (dependents s) (hm_keys (nodes s)) {} {}") auto
qed

text \<open>The tables are right whenever the dependencies exist, cyclic or not.\<close>

lemma build_tables_deps:
  assumes "hm_wf (nodes s)" "deps_exist s"
  shows "tables_ok (fst (build s))"
proof -
  obtain ds deg err where b: "build_loop (nodes s) (nodes s) [] [] = (ds, deg, err)" by (metis prod_cases3)
  from build_loop_error [of "nodes s" "nodes s" "[]" "[]"] b assms have "err = None"
    unfolding deps_exist_iff [OF assms(1)] by simp
  with b build_loop_tables [of "nodes s" "nodes s" "[]" "[]" ds deg] assms(1) show ?thesis
    by (auto simp: build_def Let_def tables_ok_def succs_def deps_of_def split: option.splits)
qed

lemma edges_build [simp]: "edges (fst (build s)) = edges s" "deps_exist (fst (build s)) = deps_exist s"
  by (simp_all add: edges_def deps_exist_def build_fields)

text \<open>
  C8. \<open>build\<close> accepts exactly the well-formed task graphs: it succeeds if and only if every declared
  dependency is a node and the dependency relation has no cycle; the error code tells which of the two failed.
\<close>

theorem build_accepts_dags:
  assumes "hm_wf (nodes s)"
  shows "(snd (build s) = None \<longleftrightarrow> deps_exist s \<and> acyclic (edges s)) \<and>
    map_option err_code (snd (build s)) =
      (if \<not> deps_exist s then Some ''missing_dependency''
       else if \<not> acyclic (edges s) then Some ''cycle_detected'' else None)"
proof -
  have iff: "snd (build s) = None \<longleftrightarrow> deps_exist s \<and> acyclic (edges s)"
    using build_error [OF assms] detect_cycles_iff [OF build_tables_deps [OF assms]] by auto
  have missing: "snd (snd (build_loop all xs ds deg)) = Some e \<Longrightarrow> err_code e = ''missing_dependency''"
    for all xs ds deg e by (induction all xs ds deg rule: build_loop.induct) (auto split: option.splits)
  have cycle: "detect_loop ds is v r = Some e \<Longrightarrow> err_code e = ''cycle_detected''" for ds "is" v r e
    by (induction "is" arbitrary: v r) (auto split: prod.splits bool.splits)
  obtain ds deg err where b: "build_loop (nodes s) (nodes s) [] [] = (ds, deg, err)" by (metis prod_cases3)
  have err: "err = None \<longleftrightarrow> deps_exist s"
    using build_loop_error [of "nodes s" "nodes s" "[]" "[]"] b unfolding deps_exist_iff [OF assms] by simp
  have "map_option err_code (snd (build s)) =
      (if \<not> deps_exist s then Some ''missing_dependency''
       else if \<not> acyclic (edges s) then Some ''cycle_detected'' else None)"
  proof (cases "snd (build s)")
    case None
    with iff show ?thesis by simp
  next
    case (Some e)
    with iff b err missing [of "nodes s" "nodes s" "[]" "[]"] show ?thesis
      by (cases err) (auto simp: build_def Let_def detect_cycles_def dest: cycle)
  qed
  with iff show ?thesis by blast
qed

theorem build_accepts_dags_witness:
  "let s = scheduler_new\<lparr>nodes := [(''a'', dag_node_new ''a'' ''A''),
      (''b'', with_dependencies [''a'', ''b''] (dag_node_new ''b'' ''B''))]\<rparr>
   in map_option err_code (snd (build s)) = Some ''cycle_detected'' \<and> \<not> acyclic (edges s)"
proof -
  let ?s = "scheduler_new\<lparr>nodes := [(''a'', dag_node_new ''a'' ''A''),
      (''b'', with_dependencies [''a'', ''b''] (dag_node_new ''b'' ''B''))]\<rparr>"
  have "hm_wf (nodes ?s)" "map_option err_code (snd (build ?s)) = Some ''cycle_detected''" by code_simp+
  with build_accepts_dags [of ?s] show ?thesis by (auto simp: Let_def split: if_splits)
qed

section \<open>Topological order\<close>

definition open_deps :: "dag_scheduler \<Rightarrow> string set \<Rightarrow> string \<Rightarrow> nat" where
  "open_deps s finished_ids i = length (filter (\<lambda>d. d \<notin> finished_ids) (deps_of (nodes s) i))"

lemma open_deps_0: "open_deps s D i = 0 \<longleftrightarrow> set (deps_of (nodes s) i) \<subseteq> D"
  by (auto simp: open_deps_def filter_empty_conv)

lemma length_filter_split: "x \<notin> D \<Longrightarrow>
  length (filter (\<lambda>d. d \<notin> D) l) = length (filter (\<lambda>d. d \<notin> insert x D) l) + count_list l x"
  by (induction l) auto

lemma open_deps_insert:
  "x \<notin> D \<Longrightarrow> open_deps s D i = open_deps s (insert x D) i + count_list (deps_of (nodes s) i) x"
  unfolding open_deps_def by (rule length_filter_split)

text \<open>
  The inner loop: when no counter is below the number of its decrements, none wraps, every counter
  ends at the difference, and exactly the counters that reach zero are queued, once each.
\<close>

lemma relax_exact:
  assumes "relax xs deg q = (deg', q')" "\<And>i k. hm_get deg i = Some k \<Longrightarrow> count_list xs i \<le> k"
  shows "(\<forall>i. hm_get deg' i = map_option (\<lambda>k. k - count_list xs i) (hm_get deg i)) \<and>
    (\<exists>new. q' = q @ new \<and> distinct new \<and>
      set new = {i. \<exists>k. hm_get deg i = Some k \<and> 0 < k \<and> k = count_list xs i})"
  using assms
proof (induction xs deg q rule: relax.induct)
  case (1 deg q)
  then show ?case by (auto simp: option.map_id0 [unfolded id_def])
next
  case (2 d rest deg q)
  show ?case
  proof (cases "hm_get deg d")
    case None
    have le: "count_list rest i \<le> k" if "hm_get deg i = Some k" for i k
      using "2.prems"(2) [OF that] by (simp split: if_splits)
    from None "2.prems"(1) have r: "relax rest deg q = (deg', q')" by simp
    have eq: "hm_get deg i = Some k \<Longrightarrow> count_list (d # rest) i = count_list rest i" for i k using None by auto
    have "{i. \<exists>k. hm_get deg i = Some k \<and> 0 < k \<and> k = count_list (d # rest) i} =
        {i. \<exists>k. hm_get deg i = Some k \<and> 0 < k \<and> k = count_list rest i}" using None by auto
    moreover have "map_option (\<lambda>k. k - count_list (d # rest) i) (hm_get deg i) =
        map_option (\<lambda>k. k - count_list rest i) (hm_get deg i)" for i
      using eq by (cases "hm_get deg i") auto
    ultimately show ?thesis using "2.IH"(1) [OF None r le] by simp
  next
    case (Some k)
    from "2.prems"(2) [OF Some] have k: "0 < k" "count_list rest d \<le> k - 1" by simp_all
    let ?deg = "hm_insert d (k - 1) deg" and ?q = "if k - 1 = 0 then q @ [d] else q"
    from Some k "2.prems"(1) have r: "relax rest ?deg ?q = (deg', q')" by (simp cong: if_cong)
    have le: "count_list rest i \<le> j" if "hm_get ?deg i = Some j" for i j
      using that k "2.prems"(2) [of i j] by (auto simp: hm_get_insert split: if_splits)
    have r': "relax rest (hm_insert d (usize_dec k) deg) (if usize_dec k = 0 then q @ [d] else q) = (deg', q')"
      using r k by simp
    have le': "count_list rest i \<le> j" if "hm_get (hm_insert d (usize_dec k) deg) i = Some j" for i j
      using le [of i j] that k by simp
    obtain new where deg': "\<forall>i. hm_get deg' i = map_option (\<lambda>k. k - count_list rest i) (hm_get ?deg i)"
      and new: "q' = ?q @ new" "distinct new"
        "set new = {i. \<exists>k. hm_get ?deg i = Some k \<and> 0 < k \<and> k = count_list rest i}"
      using "2.IH"(2) [OF Some r' le'] k by auto
    have d: "hm_get deg' i = map_option (\<lambda>k. k - count_list (d # rest) i) (hm_get deg i)" for i
      using deg' Some by (auto simp: hm_get_insert)
    define new' where "new' = (if k - 1 = 0 then d # new else new)"
    have "distinct new'"
      using new(2,3) k by (auto simp: new'_def hm_get_insert)
    moreover have "q' = q @ new'" using new(1) by (simp add: new'_def)
    moreover have "set new' = {i. \<exists>k. hm_get deg i = Some k \<and> 0 < k \<and> k = count_list (d # rest) i}"
    proof -
      have "i \<in> set new' \<longleftrightarrow> (\<exists>j. hm_get deg i = Some j \<and> 0 < j \<and> j = count_list (d # rest) i)" for i
        using new(3) k Some by (cases "i = d") (auto simp: new'_def hm_get_insert)
      then show ?thesis by blast
    qed
    ultimately show ?thesis using d by blast
  qed
qed

abbreviation ready_at :: "dag_scheduler \<Rightarrow> string set \<Rightarrow> string set" where
  "ready_at s D \<equiv> {i \<in> set (hm_keys (nodes s)) - D. set (deps_of (nodes s) i) \<subseteq> D}"

text \<open>
  What makes a list of nodes a prefix of the scheduler's order: no node occurs twice, each comes after
  its dependencies, and each is the first in priority order among the nodes ready at that point.
\<close>

definition schedule_order :: "dag_scheduler \<Rightarrow> string list \<Rightarrow> bool" where
  "schedule_order s order \<longleftrightarrow> distinct order \<and> set order \<subseteq> set (hm_keys (nodes s)) \<and>
     (\<forall>k<length order. set (deps_of (nodes s) (order ! k)) \<subseteq> set (take k order) \<and>
        (\<forall>i\<in>ready_at s (set (take k order)). order_key (nodes s) (order ! k) \<le> order_key (nodes s) i))"

lemma schedule_order_deps:
  assumes "schedule_order s order" "i \<in> set order"
  shows "set (deps_of (nodes s) i) \<subseteq> set order"
proof -
  from assms(2) obtain k where "k < length order" "i = order ! k" by (auto simp: in_set_conv_nth)
  with assms(1) have "set (deps_of (nodes s) i) \<subseteq> set (take k order)" by (simp add: schedule_order_def)
  then show ?thesis using set_take_subset by fast
qed

lemma schedule_order_snoc:
  assumes "schedule_order s order" "x \<in> ready_at s (set order)"
    and "\<forall>i\<in>ready_at s (set order). order_key (nodes s) x \<le> order_key (nodes s) i"
  shows "schedule_order s (order @ [x])"
  using assms by (auto simp: schedule_order_def nth_append less_Suc_eq)

definition kahn_inv :: "dag_scheduler \<Rightarrow> (string, nat) hash_map \<Rightarrow> string list \<Rightarrow> string list \<Rightarrow> bool" where
  "kahn_inv s deg queue order \<longleftrightarrow>
     schedule_order s order \<and> distinct queue \<and> set queue = ready_at s (set order) \<and>
     sorted (map (order_key (nodes s)) queue) \<and>
     (\<forall>i. hm_get deg i = (if i \<in> set (hm_keys (nodes s)) then Some (open_deps s (set order) i) else None))"

lemma priority_sort_simps [simp]:
  "set (priority_sort ns q) = set q" "distinct (priority_sort ns q) = distinct q" "length (priority_sort ns q) = length q"
  "priority_sort ns q = [] \<longleftrightarrow> q = []"
  by (simp_all add: priority_sort_def flip: length_0_conv)

lemma priority_sort_sorted: "sorted (map (order_key ns) (priority_sort ns q))"
  by (simp add: priority_sort_def)

lemma kahn_step:
  assumes tab: "tables_ok s" and inv: "kahn_inv s deg (x # q) order"
    and r: "relax (succs (dependents s) x) deg q = (deg', q')"
  shows "kahn_inv s deg' (priority_sort (nodes s) q') (order @ [x])"
proof -
  let ?D = "set order" and ?K = "set (hm_keys (nodes s))"
  have x: "x \<in> ready_at s ?D" and q: "distinct q" "x \<notin> set q" "insert x (set q) = ready_at s ?D"
    and so: "schedule_order s order"
    and deg: "\<And>i. hm_get deg i = (if i \<in> ?K then Some (open_deps s ?D i) else None)"
    using inv by (auto simp: kahn_inv_def)
  have cnt: "count_list (succs (dependents s) x) i = count_list (deps_of (nodes s) i) x" for i
    using tab by (simp add: tables_ok_def)
  have split: "open_deps s ?D i = open_deps s (insert x ?D) i + count_list (deps_of (nodes s) i) x" for i
    using x by (intro open_deps_insert) simp
  have "count_list (succs (dependents s) x) i \<le> k" if "hm_get deg i = Some k" for i k
    using that split [of i] by (simp add: deg cnt split: if_splits)
  from relax_exact [OF r this] obtain new where
    deg': "\<And>i. hm_get deg' i = map_option (\<lambda>k. k - count_list (deps_of (nodes s) i) x) (hm_get deg i)"
    and q': "q' = q @ new" "distinct new"
      "set new = {i. \<exists>k. hm_get deg i = Some k \<and> 0 < k \<and> k = count_list (deps_of (nodes s) i) x}"
    unfolding cnt by blast
  have new: "i \<in> set new \<longleftrightarrow> i \<in> ?K \<and> \<not> set (deps_of (nodes s) i) \<subseteq> ?D \<and> set (deps_of (nodes s) i) \<subseteq> insert x ?D" for i
    using split [of i] open_deps_0 [of s ?D i] open_deps_0 [of s "insert x ?D" i]
    by (auto simp: q'(3) deg)
  have "set q' = ready_at s (insert x ?D)"
  proof -
    have qi: "i \<in> set q \<longleftrightarrow> i \<in> ready_at s ?D \<and> i \<noteq> x" for i using q by auto
    have ni: "i \<in> set new \<Longrightarrow> i \<noteq> x \<and> i \<notin> ?D" for i
      using new [of i] x schedule_order_deps [OF so, of i] by auto
    have "i \<in> set q' \<longleftrightarrow> i \<in> ready_at s (insert x ?D)" for i
      unfolding q'(1) set_append Un_iff using qi [of i] ni [of i] new [of i] x by auto
    then show ?thesis by blast
  qed
  moreover have "distinct q'" using q q'(1,2) new by auto
  moreover have "\<forall>i\<in>ready_at s ?D. order_key (nodes s) x \<le> order_key (nodes s) i"
    using inv q by (auto simp: kahn_inv_def)
  ultimately show ?thesis
    using schedule_order_snoc [OF so x] priority_sort_sorted deg' split
    by (auto simp: kahn_inv_def deg)
qed

lemma topo_loop_total:
  assumes "tables_ok s" "kahn_inv s deg queue order"
  shows "\<exists>deg' order'. topo_loop s deg queue order = Some order' \<and> kahn_inv s deg' [] order'"
  using assms(2)
proof (induction "card (set (hm_keys (nodes s)) - set order)" arbitrary: deg queue order rule: less_induct)
  case less
  show ?case
  proof (cases queue)
    case Nil
    with less.prems show ?thesis by (subst topo_loop.simps) auto
  next
    case (Cons x q)
    obtain deg' q' where r: "relax (succs (dependents s) x) deg q = (deg', q')" by (cases "relax (succs (dependents s) x) deg q")
    from less.prems Cons have x: "x \<in> set (hm_keys (nodes s)) - set order" by (auto simp: kahn_inv_def)
    have "card (set (hm_keys (nodes s)) - set (order @ [x])) < card (set (hm_keys (nodes s)) - set order)"
      by (rule psubset_card_mono) (use x in auto)
    from less.hyps [OF this kahn_step [OF assms(1) less.prems [unfolded Cons] r]] show ?thesis
      by (subst topo_loop.simps) (simp add: Cons r)
  qed
qed

lemma finite_edges: "finite (edges s)"
proof (rule finite_subset)
  show "edges s \<subseteq> (\<Union>i\<in>set (hm_keys (nodes s)). set (deps_of (nodes s) i)) \<times> set (hm_keys (nodes s))"
    using edges_target by (fastforce simp: edges_def)
qed simp

lemma all_scheduled:
  assumes "acyclic (edges s)" "deps_exist s" "D \<subseteq> set (hm_keys (nodes s))" "ready_at s D = {}"
  shows "D = set (hm_keys (nodes s))"
proof (rule ccontr)
  assume "D \<noteq> set (hm_keys (nodes s))"
  then obtain y where y: "y \<in> set (hm_keys (nodes s)) - D" using assms(3) by blast
  have "wf (edges s)" using finite_acyclic_wf [OF finite_edges assms(1)] .
  from wfE_min [OF this y] obtain z where z: "z \<in> set (hm_keys (nodes s)) - D"
    "\<And>y. (y, z) \<in> edges s \<Longrightarrow> y \<notin> set (hm_keys (nodes s)) - D" by blast
  then have "set (deps_of (nodes s) z) \<subseteq> D" using assms(2) by (auto simp: edges_def deps_exist_def)
  with z(1) assms(4) show False by blast
qed

definition built :: "dag_scheduler \<Rightarrow> bool" where
  "built s \<longleftrightarrow> hm_wf (nodes s) \<and> tables_ok s \<and> deps_exist s \<and> acyclic (edges s)"

lemma build_built: "hm_wf (nodes s) \<Longrightarrow> snd (build s) = None \<Longrightarrow> built (fst (build s))"
  using build_tables [of s] detect_cycles_iff [of "fst (build s)"] by (simp add: built_def build_fields)

lemma hm_keys_len: "hm_wf m \<Longrightarrow> length m = card (set (hm_keys m))"
  unfolding hm_wf_def using distinct_card [of "hm_keys m"] by simp

lemma tables_in_degree:
  "tables_ok s \<Longrightarrow> hm_get (in_degree s) i = (if i \<in> set (hm_keys (nodes s)) then Some (open_deps s {} i) else None)"
  unfolding hm_keys_get by (auto simp: tables_ok_def open_deps_def deps_of_def)

text \<open>
  C9. On every scheduler that \<open>build\<close> accepted, \<open>topological_sort\<close> terminates without error and
  returns every node exactly once, each after all its dependencies, taking at every point the ready
  node of highest priority (ties by id): the order does not depend on the hash map's iteration order.
\<close>

theorem topological_sort_correct:
  assumes "hm_wf (nodes s)" "snd (build s) = None"
  shows "\<exists>order. topological_sort (fst (build s)) = Some (Inr order) \<and> schedule_order (fst (build s)) order \<and>
    set order = set (hm_keys (nodes s))"
proof -
  define s' where "s' = fst (build s)"
  have b: "built s'" using build_built [OF assms] by (simp add: s'_def)
  let ?q = "filter (\<lambda>i. hm_get (in_degree s') i = Some 0) (hm_keys (nodes s'))"
  have so: "schedule_order s' []" by (simp add: schedule_order_def)
  have wf: "distinct (hm_keys (nodes s'))" using b by (simp add: built_def hm_wf_def)
  have "kahn_inv s' (in_degree s') (priority_sort (nodes s') ?q) []"
    using so b tables_in_degree [of s'] open_deps_0 [of s' "{}"] wf
    by (auto simp: kahn_inv_def built_def priority_sort_sorted)
  then obtain deg' order where t: "topo_loop s' (in_degree s') (priority_sort (nodes s') ?q) [] = Some order"
    and inv: "kahn_inv s' deg' [] order" using topo_loop_total b by (metis built_def)
  have "set order = set (hm_keys (nodes s'))"
    using inv b by (intro all_scheduled) (auto simp: kahn_inv_def built_def schedule_order_def)
  moreover have "length order = length (nodes s')"
    using calculation inv b hm_keys_len [of "nodes s'"] distinct_card [of order]
    by (simp add: kahn_inv_def schedule_order_def built_def)
  ultimately have "topological_sort s' = Some (Inr order) \<and> schedule_order s' order \<and> set order = set (hm_keys (nodes s'))"
    using t inv by (cases "nodes s' = []") (simp_all add: topological_sort_def kahn_inv_def)
  then show ?thesis by (auto simp: s'_def build_fields)
qed

theorem topological_sort_correct_witness:
  "let s = scheduler_new\<lparr>nodes := [(''c'', with_dependencies [''a'', ''b''] (dag_node_new ''c'' ''C'')),
      (''a'', dag_node_new ''a'' ''A''), (''b'', with_priority 5 (dag_node_new ''b'' ''B''))]\<rparr>
   in \<exists>order. topological_sort (fst (build s)) = Some (Inr order) \<and> set order = {''a'', ''b'', ''c''}"
proof -
  let ?s = "scheduler_new\<lparr>nodes := [(''c'', with_dependencies [''a'', ''b''] (dag_node_new ''c'' ''C'')),
      (''a'', dag_node_new ''a'' ''A''), (''b'', with_priority 5 (dag_node_new ''b'' ''B''))]\<rparr>"
  have "hm_wf (nodes ?s)" "snd (build ?s) = None" by code_simp+
  from topological_sort_correct [OF this] show ?thesis by (auto simp: Let_def insert_commute)
qed

section \<open>Execution waves\<close>

definition tracks :: "dag_scheduler \<Rightarrow> (string, nat) hash_map \<Rightarrow> string set \<Rightarrow> bool" where
  "tracks s deg D \<longleftrightarrow>
     (\<forall>i. hm_get deg i = (if i \<in> set (hm_keys (nodes s)) then Some (open_deps s D i) else None))"

lemma relax_tracks:
  assumes "tables_ok s" "tracks s deg D" "x \<notin> D"
  shows "tracks s (fst (relax (succs (dependents s) x) deg q)) (insert x D)"
proof -
  obtain deg' q' where r: "relax (succs (dependents s) x) deg q = (deg', q')"
    by (cases "relax (succs (dependents s) x) deg q")
  have cnt: "count_list (succs (dependents s) x) i = count_list (deps_of (nodes s) i) x" for i
    using assms(1) by (simp add: tables_ok_def)
  note split = open_deps_insert [OF assms(3), of s]
  have "count_list (succs (dependents s) x) i \<le> k" if "hm_get deg i = Some k" for i k
    using that split [of i] assms(2) by (simp add: tracks_def cnt split: if_splits)
  from relax_exact [OF r this] have
    "\<forall>i. hm_get deg' i = map_option (\<lambda>k. k - count_list (deps_of (nodes s) i) x) (hm_get deg i)"
    unfolding cnt by blast
  with assms(2) show ?thesis by (simp add: tracks_def r split)
qed

lemma relax_wave_tracks:
  "tables_ok s \<Longrightarrow> tracks s deg D \<Longrightarrow> distinct xs \<Longrightarrow> set xs \<inter> D = {} \<Longrightarrow>
   tracks s (relax_wave (dependents s) xs deg) (D \<union> set xs)"
proof (induction xs arbitrary: deg D)
  case (Cons x xs)
  then have "tracks s (fst (relax (succs (dependents s) x) deg [])) (insert x D)"
    by (intro relax_tracks) auto
  from Cons.IH [OF Cons.prems(1) this] Cons.prems(3,4) show ?case by simp
qed simp

abbreviation waves_done :: "execution_wave list \<Rightarrow> string list" where
  "waves_done ws \<equiv> concat (map wave_nodes ws)"

text \<open>Every wave holds exactly the nodes that became ready with the waves before it, in priority order.\<close>

definition waves_ok :: "dag_scheduler \<Rightarrow> execution_wave list \<Rightarrow> bool" where
  "waves_ok s ws \<longleftrightarrow> distinct (waves_done ws) \<and>
     (\<forall>k<length ws. wave (ws ! k) = k \<and> wave_nodes (ws ! k) \<noteq> [] \<and>
        set (wave_nodes (ws ! k)) = ready_at s (set (waves_done (take k ws))) \<and>
        sorted (map (order_key (nodes s)) (wave_nodes (ws ! k))) \<and>
        parallel (ws ! k) = (1 < length (wave_nodes (ws ! k))))"

lemma waves_ok_snoc:
  assumes "waves_ok s ws" "xs \<noteq> []" "distinct xs" "set xs = ready_at s (set (waves_done ws))"
    and "sorted (map (order_key (nodes s)) xs)"
  shows "waves_ok s (ws @ [\<lparr>wave = length ws, wave_nodes = xs, parallel = 1 < length xs\<rparr>])"
  using assms by (auto simp: waves_ok_def nth_append less_Suc_eq)

lemma wave_loop_total:
  assumes tab: "tables_ok s" "hm_wf (nodes s)"
    and "waves_ok s ws" "tracks s deg (set (waves_done ws))"
  shows "\<exists>ws'. wave_loop s deg (set (waves_done ws)) ws = Some ws' \<and> waves_ok s ws' \<and>
    ready_at s (set (waves_done ws')) = {}"
  using assms(3,4)
proof (induction "card (set (hm_keys (nodes s)) - set (waves_done ws))" arbitrary: deg ws rule: less_induct)
  case less
  let ?D = "set (waves_done ws)" and ?K = "set (hm_keys (nodes s))"
  let ?ready = "filter (\<lambda>i. i \<notin> ?D \<and> hm_get deg i = Some 0) (hm_keys (nodes s))"
  let ?sorted = "priority_sort (nodes s) ?ready"
  let ?ws = "ws @ [\<lparr>wave = length ws, wave_nodes = ?sorted, parallel = 1 < length ?sorted\<rparr>]"
  have ready: "set ?ready = ready_at s ?D"
    using less.prems(2) open_deps_0 [of s ?D] by (auto simp: tracks_def)
  have dist: "distinct ?sorted" using tab(2) by (simp add: hm_wf_def)
  show ?case
  proof (cases "?ready = []")
    case True
    have "ready_at s ?D = {}" using ready [unfolded True] by simp
    moreover have "wave_loop s deg ?D ws = Some ws" using True by (subst wave_loop.simps) (simp add: Let_def)
    ultimately show ?thesis using less.prems(1) by blast
  next
    case False
    have disj: "set ?sorted \<inter> ?D = {}" using ready by auto
    have ok: "waves_ok s ?ws"
      by (rule waves_ok_snoc [OF less.prems(1) _ dist _ priority_sort_sorted])
        (use False ready in \<open>simp_all only: priority_sort_simps not_False_eq_True\<close>)
    have tr: "tracks s (relax_wave (dependents s) ?sorted deg) (set (waves_done ?ws))"
      using relax_wave_tracks [OF tab(1) less.prems(2) dist disj] by simp
    obtain x where "x \<in> set ?ready" using hd_in_set [OF False] by blast
    moreover from this have "x \<in> ?K" "x \<notin> ?D" unfolding ready by blast+
    moreover have "set (waves_done ?ws) = ?D \<union> set ?ready" by simp
    ultimately have "?K - set (waves_done ?ws) \<subset> ?K - ?D" by blast
    then have "card (?K - set (waves_done ?ws)) < card (?K - ?D)"
      by (intro psubset_card_mono) auto
    from less.hyps [OF this ok tr] False show ?thesis
      by (subst wave_loop.simps) (simp add: Let_def)
  qed
qed

text \<open>
  On every scheduler that \<open>build\<close> accepted, \<open>execution_waves\<close> terminates without error; its waves
  contain every node exactly once, and each wave is exactly the set of nodes whose dependencies all
  lie in earlier waves, so every node runs as early as possible and never beside a dependency.
\<close>

lemma execution_waves_correct:
  assumes "hm_wf (nodes s)" "snd (build s) = None"
  shows "\<exists>ws. execution_waves (fst (build s)) = Some (Inr ws) \<and> waves_ok (fst (build s)) ws \<and>
    set (waves_done ws) = set (hm_keys (nodes s))"
proof -
  define s' where "s' = fst (build s)"
  have b: "built s'" using build_built [OF assms] by (simp add: s'_def)
  have start: "waves_ok s' []" by (simp add: waves_ok_def)
  have tr: "tracks s' (in_degree s') (set (waves_done []))"
    using tables_in_degree [of s'] b by (simp add: tracks_def built_def)
  obtain ws where ws: "wave_loop s' (in_degree s') {} [] = Some ws" "waves_ok s' ws"
    "ready_at s' (set (waves_done ws)) = {}"
    using wave_loop_total [OF _ _ start tr] b by (auto simp: built_def)
  have sub: "set (waves_done ws) \<subseteq> set (hm_keys (nodes s'))"
  proof
    fix i assume "i \<in> set (waves_done ws)"
    then obtain w where "w \<in> set ws" "i \<in> set (wave_nodes w)" by auto
    then obtain k where "k < length ws" "i \<in> set (wave_nodes (ws ! k))" by (metis in_set_conv_nth)
    with ws(2) have "i \<in> ready_at s' (set (waves_done (take k ws)))" unfolding waves_ok_def by blast
    then show "i \<in> set (hm_keys (nodes s'))" by blast
  qed
  have all: "set (waves_done ws) = set (hm_keys (nodes s'))"
    using b ws(3) by (intro all_scheduled [OF _ _ sub]) (simp_all add: built_def)
  have "length (waves_done ws) = length (nodes s')"
    using all ws(2) b hm_keys_len [of "nodes s'"] distinct_card [of "waves_done ws"]
    by (simp add: waves_ok_def built_def)
  then have "(\<Sum>w\<leftarrow>ws. length (wave_nodes w)) = length (nodes s')" by (simp add: length_concat comp_def)
  with all ws have "execution_waves s' = Some (Inr ws) \<and> waves_ok s' ws \<and> set (waves_done ws) = set (hm_keys (nodes s'))"
    by (cases "nodes s' = []") (auto simp: execution_waves_def waves_ok_def)
  then show ?thesis by (auto simp: s'_def build_fields)
qed

lemma execution_waves_correct_witness:
  "let s = scheduler_new\<lparr>nodes := [(''c'', with_dependencies [''a'', ''b''] (dag_node_new ''c'' ''C'')),
      (''a'', dag_node_new ''a'' ''A''), (''b'', dag_node_new ''b'' ''B'')]\<rparr>
   in \<exists>ws. execution_waves (fst (build s)) = Some (Inr ws) \<and> set (waves_done ws) = {''a'', ''b'', ''c''}"
proof -
  let ?s = "scheduler_new\<lparr>nodes := [(''c'', with_dependencies [''a'', ''b''] (dag_node_new ''c'' ''C'')),
      (''a'', dag_node_new ''a'' ''A''), (''b'', dag_node_new ''b'' ''B'')]\<rparr>"
  have "hm_wf (nodes ?s)" "snd (build ?s) = None" by code_simp+
  from execution_waves_correct [OF this] show ?thesis by (auto simp: Let_def insert_commute)
qed

section \<open>Skipping the dependents of a failed node\<close>

text \<open>A step from a node to a dependent that has not started yet.\<close>

definition open_steps :: "dag_scheduler \<Rightarrow> (string \<times> string) set" where
  "open_steps s = {(x, y). y \<in> set (succs (dependents s) x) \<and> (\<exists>n. hm_get (nodes s) y = Some n \<and> can_schedule n)}"

definition skip_inv ::
  "dag_scheduler \<Rightarrow> string \<Rightarrow> string \<Rightarrow> string list \<Rightarrow> (string, dag_node) hash_map \<Rightarrow> string list \<Rightarrow> bool" where
  "skip_inv s failed_id reason q ns skipped \<longleftrightarrow>
     (\<forall>i. hm_get ns i = (if i \<in> set skipped then map_option (skip_node reason) (hm_get (nodes s) i)
                         else hm_get (nodes s) i)) \<and>
     (\<forall>i\<in>set skipped. (failed_id, i) \<in> (open_steps s)\<^sup>+) \<and> distinct skipped \<and>
     (\<forall>i\<in>set q. \<exists>x. (failed_id, x) \<in> (open_steps s)\<^sup>* \<and> i \<in> set (succs (dependents s) x)) \<and>
     (\<forall>x\<in>insert failed_id (set skipped). \<forall>y. (x, y) \<in> open_steps s \<longrightarrow> y \<in> set skipped \<union> set q)"

lemma can_schedule_skip [simp]: "\<not> can_schedule (skip_node reason n)"
  by (simp add: can_schedule_def skip_node_def)

lemma skip_inv_done:
  assumes "skip_inv s failed_id reason [] ns skipped"
  shows "set skipped = {i. (failed_id, i) \<in> (open_steps s)\<^sup>+}"
proof
  show "{i. (failed_id, i) \<in> (open_steps s)\<^sup>+} \<subseteq> set skipped"
  proof clarify
    fix i assume "(failed_id, i) \<in> (open_steps s)\<^sup>+"
    then show "i \<in> set skipped" by induction (use assms in \<open>auto simp: skip_inv_def\<close>)
  qed
qed (use assms in \<open>auto simp: skip_inv_def\<close>)

lemma skip_inv_cover:
  "skip_inv s f reason q ns skipped \<Longrightarrow> x \<in> insert f (set skipped) \<Longrightarrow> (x, y) \<in> open_steps s \<Longrightarrow>
   y \<in> set skipped \<union> set q"
  unfolding skip_inv_def by blast

lemma skip_inv_drop:
  assumes "skip_inv s f reason (i # q) ns skipped" "\<nexists>n. hm_get ns i = Some n \<and> can_schedule n"
  shows "skip_inv s f reason q ns skipped"
proof -
  have i: "y \<noteq> i \<or> y \<in> set skipped" if "(x, y) \<in> open_steps s" for x y
    using that assms by (auto simp: skip_inv_def open_steps_def split: if_splits)
  have "y \<in> set skipped \<union> set q" if "x \<in> insert f (set skipped)" "(x, y) \<in> open_steps s" for x y
    using skip_inv_cover [OF assms(1) that] i [OF that(2)] by auto
  with assms(1) show ?thesis unfolding skip_inv_def by simp
qed

lemma skip_inv_take:
  assumes inv: "skip_inv s f reason (i # q) ns skipped" and n: "hm_get ns i = Some n" "can_schedule n"
  shows "skip_inv s f reason (q @ filter (\<lambda>d. d \<notin> set (skipped @ [i])) (succs (dependents s) i))
    (hm_insert i (skip_node reason n) ns) (skipped @ [i])"
proof -
  have ns: "\<And>j. hm_get ns j = (if j \<in> set skipped then map_option (skip_node reason) (hm_get (nodes s) j)
      else hm_get (nodes s) j)" using inv by (auto simp: skip_inv_def)
  have fresh: "i \<notin> set skipped"
  proof
    assume "i \<in> set skipped"
    with ns [of i] n(1) obtain m where "n = skip_node reason m" by (auto simp: map_option_case split: option.splits)
    with n(2) show False by simp
  qed
  with ns n have i0: "hm_get (nodes s) i = Some n" by simp
  obtain x where x: "(f, x) \<in> (open_steps s)\<^sup>*" "i \<in> set (succs (dependents s) x)" using inv by (auto simp: skip_inv_def)
  with i0 n(2) have fi: "(f, i) \<in> (open_steps s)\<^sup>+" by (auto simp: open_steps_def intro: rtrancl_into_trancl1)
  have "hm_get (hm_insert i (skip_node reason n) ns) j =
      (if j \<in> set (skipped @ [i]) then map_option (skip_node reason) (hm_get (nodes s) j) else hm_get (nodes s) j)" for j
    using ns [of j] i0 fresh by (simp add: hm_get_insert)
  moreover have "\<exists>x. (f, x) \<in> (open_steps s)\<^sup>* \<and> j \<in> set (succs (dependents s) x)"
    if "j \<in> set (q @ filter (\<lambda>d. d \<notin> set (skipped @ [i])) (succs (dependents s) i))" for j
    using that inv fi by (auto simp: skip_inv_def dest: trancl_into_rtrancl)
  moreover have "y \<in> set (skipped @ [i]) \<union> set (q @ filter (\<lambda>d. d \<notin> set (skipped @ [i])) (succs (dependents s) i))"
    if "x \<in> insert f (set (skipped @ [i]))" "(x, y) \<in> open_steps s" for x y
  proof (cases "x \<in> insert f (set skipped)")
    case True
    with skip_inv_cover [OF inv True that(2)] show ?thesis by auto
  next
    case False
    with that have "y \<in> set (succs (dependents s) i)" by (auto simp: open_steps_def)
    then show ?thesis by auto
  qed
  ultimately show ?thesis using inv fi fresh unfolding skip_inv_def by auto
qed

lemma skip_loop_inv:
  "skip_inv s f reason q ns skipped \<Longrightarrow> skip_loop (dependents s) reason q ns skipped = (ns', skipped') \<Longrightarrow>
   skip_inv s f reason [] ns' skipped'"
proof (induction "dependents s" reason q ns skipped rule: skip_loop.induct)
  case (2 reason i q ns skipped)
  show ?case
  proof (cases "hm_get ns i")
    case None
    with "2.hyps"(1) [OF None skip_inv_drop [OF "2.prems"(1)]] "2.prems"(2) show ?thesis by simp
  next
    case (Some n)
    show ?thesis
    proof (cases "can_schedule n")
      case True
      with "2.hyps"(2) [OF Some True skip_inv_take [OF "2.prems"(1) Some True]] "2.prems"(2) Some show ?thesis by simp
    next
      case False
      with "2.hyps"(3) [OF Some False skip_inv_drop [OF "2.prems"(1)]] "2.prems"(2) Some show ?thesis by simp
    qed
  qed
qed simp

text \<open>
  C18. When a node fails, \<open>skip_dependents\<close> terminates and skips exactly the not yet started nodes
  that are reachable from it through not yet started nodes, each once; those get the status Skipped
  and the reason, and every other node is left as it was.
\<close>

theorem skip_dependents_exact:
  "case skip_dependents failed_id reason s of (s', skipped) \<Rightarrow>
     set skipped = {i. (failed_id, i) \<in> (open_steps s)\<^sup>+} \<and> distinct skipped \<and>
     hm_get (nodes s') i = (if i \<in> set skipped then map_option (skip_node reason) (hm_get (nodes s) i)
                            else hm_get (nodes s) i)"
proof -
  obtain ns skipped where l: "skip_loop (dependents s) reason (succs (dependents s) failed_id) (nodes s) [] = (ns, skipped)"
    by (cases "skip_loop (dependents s) reason (succs (dependents s) failed_id) (nodes s) []")
  have "skip_inv s failed_id reason (succs (dependents s) failed_id) (nodes s) []"
    by (auto simp: skip_inv_def open_steps_def)
  from skip_loop_inv [OF this l] have inv: "skip_inv s failed_id reason [] ns skipped" .
  with skip_inv_done [OF inv] show ?thesis by (simp add: skip_dependents_def l skip_inv_def)
qed

section \<open>Schedulers made from a team\<close>

lemma add_agents_parallelism:
  "add_agents as s = Inr s' \<Longrightarrow> max_parallelism s' = max_parallelism s"
proof (induction as arbitrary: s)
  case (Cons a as)
  then show ?case by (auto simp: add_node_def split: if_splits)
qed simp

lemma add_agents_wf:
  "add_agents as s = Inr s' \<Longrightarrow> hm_wf (nodes s) \<Longrightarrow> hm_wf (nodes s')"
proof (induction as arbitrary: s)
  case (Cons a as)
  then show ?case by (auto simp: add_node_def hm_wf_insert split: if_splits)
qed simp

lemma from_team_built:
  assumes "from_team t = Inr s"
  shows "built s \<and> max_parallelism s = 0"
proof -
  from assms obtain s0 where s0: "add_agents (agents t) scheduler_new = Inr s0"
    by (auto simp: from_team_def split: sum.splits)
  with assms have b: "snd (build s0) = None" "s = fst (build s0)"
    by (auto simp: from_team_def split: prod.splits option.splits)
  with s0 add_agents_wf [OF s0] add_agents_parallelism [OF s0] build_built [of s0] show ?thesis
    by (simp add: build_fields scheduler_new_def)
qed

text \<open>
  A scheduler made by \<open>from_team\<close> never offers a node: \<open>DagScheduler::new\<close> is the derived default, so
  its \<open>max_parallelism\<close> is 0 (not the 10 of the serde default), and \<open>get_ready_nodes\<close> is always empty.
\<close>

theorem from_team_offers_nothing:
  assumes "from_team t = Inr s"
  shows "get_ready_nodes s completed currently_running = []"
  using from_team_built [OF assms] by (simp add: get_ready_nodes_def)

theorem from_team_offers_nothing_witness:
  "\<exists>s. from_team (add_agent (sub_agent_new ''a'' ''do it'') (team_new ''now'' ''t'' ''task'')) = Inr s \<and>
     get_ready_nodes s {} 0 = []"
proof -
  have "\<not> isl (from_team (add_agent (sub_agent_new ''a'' ''do it'') (team_new ''now'' ''t'' ''task'')))"
    by code_simp
  then obtain s where "from_team (add_agent (sub_agent_new ''a'' ''do it'') (team_new ''now'' ''t'' ''task'')) = Inr s"
    by (cases "from_team (add_agent (sub_agent_new ''a'' ''do it'') (team_new ''now'' ''t'' ''task''))") auto
  with from_team_offers_nothing show ?thesis by blast
qed

end
