(* ===== verification/Bao_Policy.thy ===== *)
theory Bao_Policy
  imports Bao_Messages
begin

text \<open>
  \<open>engine/team/policy.rs\<close>: the execution policy of a team, the per-agent policy derived from it, and
  the aggregation of agent results. Counters keep their widths and wrap as in a release build; \<open>fadd\<close> is
  the IEEE addition of costs.
\<close>

section \<open>Policies\<close>

record team_policy =
  tool_whitelist :: "string set"
  tool_blacklist :: "string set"
  max_cost_per_agent :: "f64 option"
  max_tokens_per_agent :: "u64 option"
  max_turns_per_agent :: u32
  agent_timeout_secs :: u64

text \<open>\<open>1.0\<close> as a double has the bit pattern \<open>0x3FF0000000000000\<close>.\<close>

definition default_team_policy :: team_policy where
  "default_team_policy = \<lparr>tool_whitelist = {}, tool_blacklist = {}, max_cost_per_agent = Some 0x3FF0000000000000,
     max_tokens_per_agent = Some 50000, max_turns_per_agent = 10, agent_timeout_secs = 300\<rparr>"

definition with_tool_whitelist :: "string list \<Rightarrow> team_policy \<Rightarrow> team_policy" where
  "with_tool_whitelist tools p = p\<lparr>tool_whitelist := set tools\<rparr>"

definition with_tool_blacklist :: "string list \<Rightarrow> team_policy \<Rightarrow> team_policy" where
  "with_tool_blacklist tools p = p\<lparr>tool_blacklist := set tools\<rparr>"

record agent_policy =
  allowed_tools :: "string set"
  denied_tools :: "string set"
  ap_max_turns :: u32
  ap_max_cost_usd :: "f64 option"
  ap_max_tokens :: "u64 option"
  ap_timeout_secs :: u64

definition from_team_policy :: "team_policy \<Rightarrow> agent_policy" where
  "from_team_policy p = \<lparr>allowed_tools = tool_whitelist p, denied_tools = tool_blacklist p,
     ap_max_turns = max_turns_per_agent p, ap_max_cost_usd = max_cost_per_agent p,
     ap_max_tokens = max_tokens_per_agent p, ap_timeout_secs = agent_timeout_secs p\<rparr>"

definition is_tool_allowed :: "agent_policy \<Rightarrow> string \<Rightarrow> bool" where
  "is_tool_allowed p t =
     (if t \<in> denied_tools p then False
      else if allowed_tools p \<noteq> {} then t \<in> allowed_tools p
      else True)"

text \<open>The tools an agent gets (\<open>execute_single_agent\<close>): those whose name the policy allows.\<close>

definition filtered_tools :: "agent_policy option \<Rightarrow> string list \<Rightarrow> string list" where
  "filtered_tools policy tools =
     (case policy of
        None \<Rightarrow> tools
      | Some p \<Rightarrow> (let allowed = set (filter (is_tool_allowed p) tools) in filter (\<lambda>t. t \<in> allowed) tools))"

section \<open>Results\<close>

record agent_usage =
  au_input :: u64
  au_output :: u64
  au_cache_creation :: "u64 option"
  au_cache_read :: "u64 option"

definition usage_new :: "u64 \<Rightarrow> u64 \<Rightarrow> agent_usage" where
  "usage_new i out = \<lparr>au_input = i, au_output = out, au_cache_creation = None, au_cache_read = None\<rparr>"

definition usage_total :: "agent_usage \<Rightarrow> u64" where
  "usage_total u = au_input u + au_output u"

record agent_result =
  ar_agent_id :: string
  ar_text :: "string option"
  ar_success :: bool
  ar_error :: "string option"
  ar_usage :: "agent_usage option"
  ar_cost_usd :: f64
  ar_duration_ms :: u64
  ar_turns :: u32
  tools_used :: "string list"
  files_read :: "string list"
  files_written :: "string list"
  commands_executed :: "string list"
  ar_metadata :: "(string, json) hash_map"

definition result_success :: "string \<Rightarrow> string \<Rightarrow> agent_result" where
  "result_success i t = \<lparr>ar_agent_id = i, ar_text = Some t, ar_success = True, ar_error = None, ar_usage = None,
     ar_cost_usd = 0, ar_duration_ms = 0, ar_turns = 0, tools_used = [], files_read = [], files_written = [],
     commands_executed = [], ar_metadata = []\<rparr>"

definition result_failure :: "string \<Rightarrow> string \<Rightarrow> agent_result" where
  "result_failure i e = \<lparr>ar_agent_id = i, ar_text = None, ar_success = False, ar_error = Some e, ar_usage = None,
     ar_cost_usd = 0, ar_duration_ms = 0, ar_turns = 0, tools_used = [], files_read = [], files_written = [],
     commands_executed = [], ar_metadata = []\<rparr>"

definition push_new :: "'a \<Rightarrow> 'a list \<Rightarrow> 'a list" where
  "push_new x xs = (if x \<in> set xs then xs else xs @ [x])"

definition add_tool_used :: "string \<Rightarrow> agent_result \<Rightarrow> agent_result" where
  "add_tool_used t r = r\<lparr>tools_used := push_new t (tools_used r)\<rparr>"

definition add_file_read :: "string \<Rightarrow> agent_result \<Rightarrow> agent_result" where
  "add_file_read f r = r\<lparr>files_read := push_new f (files_read r)\<rparr>"

definition add_file_written :: "string \<Rightarrow> agent_result \<Rightarrow> agent_result" where
  "add_file_written f r = r\<lparr>files_written := push_new f (files_written r)\<rparr>"

definition add_command :: "string \<Rightarrow> agent_result \<Rightarrow> agent_result" where
  "add_command c r = r\<lparr>commands_executed := push_new c (commands_executed r)\<rparr>"

record team_results =
  tr_team_id :: "string option"
  agent_results :: "agent_result list"
  combined_text :: "string option"
  tr_total_usage :: agent_usage
  tr_total_cost_usd :: f64
  total_duration_ms :: u64
  total_turns :: u32
  success_count :: u32
  failure_count :: u32
  all_files_read :: "string list"
  all_files_written :: "string list"
  all_commands :: "string list"
  all_tools_used :: "string list"
  tr_metadata :: "(string, json) hash_map"

definition results_with_team_id :: "string \<Rightarrow> team_results" where
  "results_with_team_id i = \<lparr>tr_team_id = Some i, agent_results = [], combined_text = None,
     tr_total_usage = usage_new 0 0, tr_total_cost_usd = 0, total_duration_ms = 0, total_turns = 0,
     success_count = 0, failure_count = 0, all_files_read = [], all_files_written = [], all_commands = [],
     all_tools_used = [], tr_metadata = []\<rparr>"

definition add_cache :: "u64 option \<Rightarrow> u64 option \<Rightarrow> u64 option" where
  "add_cache tot c = (case c of None \<Rightarrow> tot
     | Some n \<Rightarrow> Some ((case tot of None \<Rightarrow> 0 | Some m \<Rightarrow> m) + n))"

definition add_usage :: "agent_usage \<Rightarrow> agent_usage \<Rightarrow> agent_usage" where
  "add_usage tot u = \<lparr>au_input = au_input tot + au_input u, au_output = au_output tot + au_output u,
     au_cache_creation = add_cache (au_cache_creation tot) (au_cache_creation u),
     au_cache_read = add_cache (au_cache_read tot) (au_cache_read u)\<rparr>"

definition add_result :: "(f64 \<Rightarrow> f64 \<Rightarrow> f64) \<Rightarrow> agent_result \<Rightarrow> team_results \<Rightarrow> team_results" where
  "add_result fadd r t =
     (let t1 = (if ar_success r then t\<lparr>success_count := success_count t + 1\<rparr>
                else t\<lparr>failure_count := failure_count t + 1\<rparr>);
          t2 = (case ar_usage r of None \<Rightarrow> t1 | Some u \<Rightarrow> t1\<lparr>tr_total_usage := add_usage (tr_total_usage t1) u\<rparr>)
      in t2\<lparr>tr_total_cost_usd := fadd (tr_total_cost_usd t2) (ar_cost_usd r),
            total_duration_ms := total_duration_ms t2 + ar_duration_ms r,
            total_turns := total_turns t2 + ar_turns r,
            all_files_read := fold push_new (files_read r) (all_files_read t2),
            all_files_written := fold push_new (files_written r) (all_files_written t2),
            all_commands := fold push_new (commands_executed r) (all_commands t2),
            all_tools_used := fold push_new (tools_used r) (all_tools_used t2),
            agent_results := agent_results t2 @ [r]\<rparr>)"

definition newline :: string where
  "newline = [char_of (10 :: nat)]"

definition build_combined_text :: "team_results \<Rightarrow> team_results" where
  "build_combined_text t =
     (let texts = List.map_filter ar_text (agent_results t)
      in if texts \<noteq> []
         then t\<lparr>combined_text := Some (join_str (newline @ newline @ ''---'' @ newline @ newline) texts)\<rparr>
         else t)"

definition all_succeeded :: "team_results \<Rightarrow> bool" where
  "all_succeeded t \<longleftrightarrow> failure_count t = 0 \<and> 0 < success_count t"

definition all_failed :: "team_results \<Rightarrow> bool" where
  "all_failed t \<longleftrightarrow> success_count t = 0 \<and> 0 < failure_count t"

definition results_total_agents :: "team_results \<Rightarrow> u32" where
  "results_total_agents t = success_count t + failure_count t"

section \<open>Laws\<close>

lemma filtered_tools_policy: "filtered_tools (Some p) tools = filter (is_tool_allowed p) tools"
  by (auto simp: filtered_tools_def Let_def intro: filter_cong)

text \<open>
  An agent that runs under a team policy only gets tools the policy permits: no tool of the
  blacklist, and with a non-empty whitelist only tools of the whitelist; an unrestricted policy
  keeps the whole list, and the order of the tools is kept.
\<close>

lemma policy_restricts_tools:
  "filtered_tools (Some (from_team_policy p)) tools =
     filter (\<lambda>t. t \<notin> tool_blacklist p \<and> (tool_whitelist p = {} \<or> t \<in> tool_whitelist p)) tools"
  unfolding filtered_tools_policy by (rule filter_cong) (auto simp: is_tool_allowed_def from_team_policy_def)

lemma set_fold_push_new: "set (fold push_new xs ys) = set xs \<union> set ys"
  by (induction xs arbitrary: ys) (auto simp: push_new_def)

lemma distinct_fold_push_new: "distinct ys \<Longrightarrow> distinct (fold push_new xs ys)"
  by (induction xs arbitrary: ys) (auto simp: push_new_def)

lemma add_result_fields:
  "agent_results (add_result fadd r t) = agent_results t @ [r]"
  "success_count (add_result fadd r t) = success_count t + (if ar_success r then 1 else 0)"
  "failure_count (add_result fadd r t) = failure_count t + (if ar_success r then 0 else 1)"
  "all_files_written (add_result fadd r t) = fold push_new (files_written r) (all_files_written t)"
  "all_commands (add_result fadd r t) = fold push_new (commands_executed r) (all_commands t)"
  by (simp_all add: add_result_def Let_def split: option.split)

definition results_ok :: "team_results \<Rightarrow> bool" where
  "results_ok t \<longleftrightarrow>
     success_count t = of_nat (length (filter ar_success (agent_results t))) \<and>
     failure_count t = of_nat (length (filter (\<lambda>r. \<not> ar_success r) (agent_results t))) \<and>
     set (all_files_written t) = (\<Union>r\<in>set (agent_results t). set (files_written r)) \<and> distinct (all_files_written t) \<and>
     set (all_commands t) = (\<Union>r\<in>set (agent_results t). set (commands_executed r)) \<and> distinct (all_commands t)"

lemma add_result_ok [bao_inv]: "results_ok t \<Longrightarrow> results_ok (add_result fadd r t)"
  by (auto simp: results_ok_def add_result_fields set_fold_push_new distinct_fold_push_new)

interpretation results: machine "add_result fadd" results_ok for fadd
  by unfold_locales (rule add_result_ok)

lemma fold_add_result: "agent_results (fold (add_result fadd) rs t) = agent_results t @ rs"
  by (induction rs arbitrary: t) (simp_all add: add_result_fields)

text \<open>
  Aggregation is faithful: after adding any list of fewer than \<open>2 ^ 32\<close> results to an empty
  collection, \<open>all_succeeded\<close> holds exactly when there is a result and every one succeeded, and the
  lists of written files and of commands hold exactly what some agent reported, without repetition.
\<close>

lemma results_aggregate:
  fixes rs :: "agent_result list" and fadd :: "f64 \<Rightarrow> f64 \<Rightarrow> f64" and i :: string
  assumes "length rs < 2 ^ 32"
  defines "t \<equiv> fold (add_result fadd) rs (results_with_team_id i)"
  shows "(all_succeeded t \<longleftrightarrow> rs \<noteq> [] \<and> list_all ar_success rs) \<and>
    set (all_files_written t) = (\<Union>r\<in>set rs. set (files_written r)) \<and> distinct (all_files_written t) \<and>
    set (all_commands t) = (\<Union>r\<in>set rs. set (commands_executed r)) \<and> distinct (all_commands t)"
proof -
  have "results_ok (results_with_team_id i)" by (simp add: results_ok_def results_with_team_id_def)
  then have ok: "results_ok t" unfolding t_def by (rule results.run_inv)
  have rs: "agent_results t = rs" by (simp add: t_def fold_add_result results_with_team_id_def)
  have small: "unat (of_nat (length (filter P rs)) :: u32) = length (filter P rs)" for P
    using order_le_less_trans [OF length_filter_le assms(1)] by (simp add: unat_of_nat)
  have f: "failure_count t = 0 \<longleftrightarrow> list_all ar_success rs"
  proof -
    have "failure_count t = 0 \<longleftrightarrow> unat (failure_count t) = 0" by (simp add: unat_eq_0)
    also have "unat (failure_count t) = length (filter (\<lambda>r. \<not> ar_success r) rs)"
      using ok small by (simp add: results_ok_def rs)
    finally show ?thesis by (simp add: filter_empty_conv list_all_iff)
  qed
  have s: "0 < success_count t \<longleftrightarrow> filter ar_success rs \<noteq> []"
  proof -
    have "0 < success_count t \<longleftrightarrow> 0 < unat (success_count t)" by (simp add: word_less_nat_alt)
    also have "unat (success_count t) = length (filter ar_success rs)" using ok small by (simp add: results_ok_def rs)
    finally show ?thesis by simp
  qed
  have "all_succeeded t \<longleftrightarrow> rs \<noteq> [] \<and> list_all ar_success rs"
    unfolding all_succeeded_def f s by (cases rs) (auto simp: list_all_iff filter_empty_conv)
  with ok rs show ?thesis by (simp add: results_ok_def)
qed

theorem results_aggregate_witness:
  "all_succeeded (fold (add_result (\<lambda>x y. x)) [result_success ''a'' ''done''] (results_with_team_id ''t''))"
  using results_aggregate [of "[result_success ''a'' ''done'']" "\<lambda>x y. x" "''t''"]
  by (simp add: result_success_def)

end
