(* ===== verification/Bao_Executor.thy ===== *)
theory Bao_Executor
  imports Bao_Scheduler Bao_Policy
begin

text \<open>
  \<open>engine/team/executor.rs\<close>: running a team in parallel, sequence and DAG mode. What a sub-agent's
  query engine does is outside this model: its outcome is an input. The tasks of a \<open>JoinSet\<close> end in
  any order, so the order of their ends is an input too: a list of completions for parallel mode, and for
  the DAG loop one event per iteration (the abort flag seen, and which running task ends how). Costs are
  bit patterns added by \<open>fadd\<close>, time stamps are arguments.
\<close>

section \<open>Outcomes\<close>

text \<open>\<open>Ok(AgentResult)\<close>, \<open>Err(TeamError)\<close> with its message, or a task that panicked.\<close>

datatype agent_outcome = AgentReturned agent_result | AgentErred string | AgentPanicked

record team_result =
  res_team :: agent_team
  res_success :: bool
  res_error :: "string option"

definition default_text :: "string option \<Rightarrow> string" where
  "default_text s = (case s of Some x \<Rightarrow> x | None \<Rightarrow> [])"

definition result_tokens :: "agent_result \<Rightarrow> u64" where
  "result_tokens r = (case ar_usage r of Some u \<Rightarrow> usage_total u | None \<Rightarrow> 0)"

definition finish_agent :: "agent_result \<Rightarrow> sub_agent \<Rightarrow> sub_agent" where
  "finish_agent r a = agent_complete (default_text (ar_text r)) (result_tokens r) (ar_cost_usd r) a"

text \<open>The end of every mode: shared state, totals, status and the returned result.\<close>

definition finalize_team ::
  "(f64 \<Rightarrow> f64 \<Rightarrow> f64) \<Rightarrow> string \<Rightarrow> string \<Rightarrow> bool \<Rightarrow> shared_state \<Rightarrow> agent_team \<Rightarrow> team_result" where
  "finalize_team fadd now msg any_failed shared t =
     (let t1 = calculate_totals fadd (t\<lparr>team_shared := shared\<rparr>);
          t2 = (if any_failed then team_fail now msg t1 else team_complete fadd now t1)
      in \<lparr>res_team = t2, res_success = \<not> any_failed, res_error = (if any_failed then Some msg else None)\<rparr>)"

section \<open>Parallel mode\<close>

text \<open>The loop over \<open>join_next\<close>: the completions in the order they happen.\<close>

fun parallel_loop ::
  "(string \<times> agent_outcome) list \<Rightarrow> agent_team \<Rightarrow> shared_state \<Rightarrow> bool \<Rightarrow> agent_team \<times> shared_state \<times> bool" where
  "parallel_loop [] t sh failed = (t, sh, failed)"
| "parallel_loop ((i, AgentPanicked) # rest) t sh failed = parallel_loop rest t sh True"
| "parallel_loop ((i, AgentErred e) # rest) t sh failed =
     parallel_loop rest (get_agent_mut i (agent_fail e) t) (shared_set (''agent_'' @ i @ ''_complete'') (JBool True) sh)
       (failed \<or> get_agent t i \<noteq> None)"
| "parallel_loop ((i, AgentReturned r) # rest) t sh failed =
     (let sh' = shared_set (''agent_'' @ i @ ''_complete'') (JBool True) sh
      in if ar_success r
         then parallel_loop rest (get_agent_mut i (finish_agent r) t) sh' failed
         else parallel_loop rest (get_agent_mut i (agent_fail (default_text (ar_error r))) t) sh'
                (failed \<or> get_agent t i \<noteq> None))"

definition execute_parallel ::
  "(f64 \<Rightarrow> f64 \<Rightarrow> f64) \<Rightarrow> string \<Rightarrow> (string \<times> agent_outcome) list \<Rightarrow> agent_team \<Rightarrow> team_result" where
  "execute_parallel fadd now ends t =
     (case parallel_loop ends t (team_shared t) False of
        (t', sh, failed) \<Rightarrow> finalize_team fadd now ''One or more agents failed'' failed sh t')"

section \<open>Sequence mode\<close>

definition sequence_prompt :: "string option \<Rightarrow> string \<Rightarrow> string" where
  "sequence_prompt prev p =
     (case prev of
        Some r \<Rightarrow> p @ newline @ newline @ ''Previous agent result:'' @ newline @ r @ newline @ newline @
          ''Continue from where the previous agent left off.''
      | None \<Rightarrow> p)"

text \<open>
  One pass over the agents. \<open>aborted k\<close> is the flag seen before agent \<open>k\<close>; \<open>run k i p\<close> is what agent
  \<open>i\<close> answers to prompt \<open>p\<close> there (a panic would unwind the caller, so there is none).
\<close>

definition sequence_agent ::
  "bool \<Rightarrow> (string \<Rightarrow> string \<Rightarrow> string + agent_result) \<Rightarrow> sub_agent \<Rightarrow> string option \<Rightarrow> shared_state \<Rightarrow> bool \<Rightarrow>
   sub_agent \<times> string option \<times> shared_state \<times> bool" where
  "sequence_agent aborted run a prev sh failed =
     (if aborted then (agent_skip ''Team aborted'' a, prev, sh, True)
      else case run (sa_id a) (sequence_prompt prev (sa_prompt a)) of
             Inr r \<Rightarrow>
               if ar_success r
               then (finish_agent r a, Some (default_text (ar_text r)),
                     shared_set (''agent_'' @ sa_id a @ ''_result'') (JString (default_text (ar_text r))) sh, failed)
               else (agent_fail (default_text (ar_error r)) a, None, sh, True)
           | Inl e \<Rightarrow> (agent_fail e a, None, sh, True))"

fun sequence_loop ::
  "(nat \<Rightarrow> bool) \<Rightarrow> (nat \<Rightarrow> string \<Rightarrow> string \<Rightarrow> string + agent_result) \<Rightarrow> nat \<Rightarrow> sub_agent list \<Rightarrow> string option \<Rightarrow>
   shared_state \<Rightarrow> bool \<Rightarrow> sub_agent list \<times> shared_state \<times> bool" where
  "sequence_loop aborted run k [] prev sh failed = ([], sh, failed)"
| "sequence_loop aborted run k (a # as) prev sh failed =
     (case sequence_agent (aborted k) (run k) a prev sh failed of
        (a', prev', sh', failed') \<Rightarrow>
          (case sequence_loop aborted run (Suc k) as prev' sh' failed' of
             (rest, sh'', failed'') \<Rightarrow> (a' # rest, sh'', failed'')))"

definition execute_sequence ::
  "(f64 \<Rightarrow> f64 \<Rightarrow> f64) \<Rightarrow> string \<Rightarrow> (nat \<Rightarrow> bool) \<Rightarrow> (nat \<Rightarrow> string \<Rightarrow> string \<Rightarrow> string + agent_result) \<Rightarrow> agent_team \<Rightarrow> team_result" where
  "execute_sequence fadd now aborted run t =
     (case sequence_loop aborted run 0 (agents t) None (team_shared t) False of
        (as, sh, failed) \<Rightarrow>
          finalize_team fadd now ''One or more agents failed in sequence'' failed sh (t\<lparr>agents := as\<rparr>))"

section \<open>DAG mode\<close>

record dag_run =
  sched :: dag_scheduler
  run_team :: agent_team
  join_set :: "string list"
  run_shared :: shared_state
  any_failed :: bool

definition ok_or :: "'s \<Rightarrow> 'e + 's \<Rightarrow> 's" where
  "ok_or s r = (case r of Inl _ \<Rightarrow> s | Inr s' \<Rightarrow> s')"

text \<open>The abort branch: every pending agent is skipped and its node failed.\<close>

definition abort_agent :: "sub_agent \<Rightarrow> sub_agent list \<times> dag_scheduler \<Rightarrow> sub_agent list \<times> dag_scheduler" where
  "abort_agent a st =
     (case st of (as, s) \<Rightarrow>
        if sa_status a = AgentPending
        then (as @ [agent_skip ''Team aborted'' a], ok_or s (fail_node (sa_id a) (Some ''Team aborted'') s))
        else (as @ [a], s))"

definition abort_branch :: "dag_run \<Rightarrow> dag_run" where
  "abort_branch st =
     (case fold abort_agent (agents (run_team st)) ([], sched st) of
        (as, s) \<Rightarrow> st\<lparr>run_team := (run_team st)\<lparr>agents := as\<rparr>, sched := s, any_failed := True\<rparr>)"

definition running_count :: "agent_team \<Rightarrow> nat" where
  "running_count t = length (filter (\<lambda>a. sa_status a = AgentRunning) (agents t))"

definition start_agent :: "string \<Rightarrow> dag_run \<Rightarrow> dag_run" where
  "start_agent i st =
     (case start_node i (sched st) of
        Inl _ \<Rightarrow> st
      | Inr s \<Rightarrow> st\<lparr>sched := s, run_team := get_agent_mut i agent_start (run_team st), join_set := join_set st @ [i]\<rparr>)"

definition start_ready :: "dag_run \<Rightarrow> dag_run" where
  "start_ready st =
     fold start_agent (get_ready_nodes (sched st) (completed_agent_ids (run_team st)) (running_count (run_team st))) st"

definition mark_skipped :: "dag_scheduler \<Rightarrow> sub_agent \<Rightarrow> sub_agent" where
  "mark_skipped s a =
     (case hm_get (nodes s) (sa_id a) of
        Some n \<Rightarrow> if status n = Skipped then agent_skip ''Dependency failed'' a else a
      | None \<Rightarrow> a)"

definition agent_failed :: "string \<Rightarrow> string option \<Rightarrow> string \<Rightarrow> dag_run \<Rightarrow> dag_run" where
  "agent_failed i node_err agent_err st =
     (let s1 = ok_or (sched st) (fail_node i node_err (sched st));
          s2 = fst (skip_dependents i ''Dependency failed'' s1);
          t1 = get_agent_mut i (agent_fail agent_err) (run_team st)
      in st\<lparr>sched := s2, run_team := t1\<lparr>agents := map (mark_skipped s2) (agents t1)\<rparr>, any_failed := True\<rparr>)"

definition join_one :: "string \<Rightarrow> agent_outcome \<Rightarrow> dag_run \<Rightarrow> dag_run" where
  "join_one i out st =
     (case out of
        AgentReturned r \<Rightarrow>
          if ar_success r
          then st\<lparr>sched := ok_or (sched st) (complete_node i (sched st)),
                  run_team := get_agent_mut i (finish_agent r) (run_team st),
                  run_shared := (case ar_text r of
                     Some x \<Rightarrow> shared_set (''agent_'' @ i @ ''_result'') (JString x) (run_shared st)
                   | None \<Rightarrow> run_shared st)\<rparr>
          else agent_failed i (ar_error r) (default_text (ar_error r)) st
      | AgentErred e \<Rightarrow> agent_failed i (Some e) e st
      | AgentPanicked \<Rightarrow> st\<lparr>any_failed := True\<rparr>)"

text \<open>An event: the abort flag at the head of the iteration, and which task of the join set ends how.\<close>

type_synonym dag_event = "bool \<times> nat \<times> agent_outcome"

datatype dag_progress = Exited dag_run | Continue dag_run

definition dag_iteration :: "dag_event \<Rightarrow> dag_run \<Rightarrow> dag_progress" where
  "dag_iteration ev st =
     (case ev of (aborted, k, out) \<Rightarrow>
        if is_complete (sched st) then Exited st
        else if aborted then Exited (abort_branch st)
        else (let st1 = start_ready st
              in if join_set st1 = [] \<and> \<not> is_complete (sched st1) then Exited (st1\<lparr>any_failed := True\<rparr>)
                 else if join_set st1 = [] then Continue st1
                 else (let j = k mod length (join_set st1); i = join_set st1 ! j
                       in Continue (join_one i out (st1\<lparr>join_set := take j (join_set st1) @ drop (Suc j) (join_set st1)\<rparr>)))))"

text \<open>\<open>None\<close>: the given events do not yet bring the loop to its end.\<close>

fun dag_loop :: "dag_event list \<Rightarrow> dag_run \<Rightarrow> dag_run option" where
  "dag_loop [] st = None"
| "dag_loop (ev # evs) st = (case dag_iteration ev st of Exited st' \<Rightarrow> Some st' | Continue st' \<Rightarrow> dag_loop evs st')"

definition execute_dag ::
  "(f64 \<Rightarrow> f64 \<Rightarrow> f64) \<Rightarrow> string \<Rightarrow> dag_event list \<Rightarrow> agent_team \<Rightarrow> team_result option" where
  "execute_dag fadd now evs t =
     (case from_team t of
        Inl e \<Rightarrow> Some \<lparr>res_team = t, res_success = False,
                       res_error = Some (''Failed to create DAG scheduler: '' @ err_message e)\<rparr>
      | Inr s \<Rightarrow>
          (case build s of
             (_, Some e) \<Rightarrow> Some \<lparr>res_team = t, res_success = False,
                                 res_error = Some (''Invalid DAG structure: '' @ err_message e)\<rparr>
           | (s', None) \<Rightarrow>
               map_option (\<lambda>st. finalize_team fadd now ''One or more agents failed in DAG execution''
                   (any_failed st) (run_shared st) (run_team st))
                 (dag_loop evs \<lparr>sched = s', run_team = t, join_set = [], run_shared = team_shared t, any_failed = False\<rparr>)))"

section \<open>The executor\<close>

definition show_team_status :: "team_status \<Rightarrow> string" where
  "show_team_status s = (case s of TeamPending \<Rightarrow> ''pending'' | TeamRunning \<Rightarrow> ''running'' | TeamCompleted \<Rightarrow> ''completed''
     | TeamFailed \<Rightarrow> ''failed'' | TeamAborted \<Rightarrow> ''aborted'')"

record team_executor =
  teams :: "(string, agent_team) hash_map"
  abort_handles :: "(string, bool) hash_map"

definition executor_add_agent :: "sub_agent \<Rightarrow> agent_team \<Rightarrow> team_executor \<Rightarrow> string + (agent_team \<times> team_executor)" where
  "executor_add_agent a t ex =
     (if team_status t \<noteq> TeamPending
      then Inl (''Team is already '' @ show_team_status (team_status t) @ '' and cannot accept new agents'')
      else (let t' = add_agent a t in Inr (t', ex\<lparr>teams := hm_insert (team_id t') t' (teams ex)\<rparr>)))"

definition add_parallel_agents :: "nat \<Rightarrow> string \<Rightarrow> agent_team \<Rightarrow> team_executor \<Rightarrow> string + (agent_team \<times> team_executor)" where
  "add_parallel_agents count p t ex =
     (if team_status t \<noteq> TeamPending
      then Inl (''Team is already '' @ show_team_status (team_status t) @ '' and cannot accept new agents'')
      else (let t' = create_parallel_agents count p t in Inr (t', ex\<lparr>teams := hm_insert (team_id t') t' (teams ex)\<rparr>)))"

text \<open>
  The guards of \<open>execute\<close> and the start of the run; \<open>None\<close> in the second component means that the
  mode's loop runs next on the started team, with an abort handle registered.
\<close>

definition execute_begin :: "string \<Rightarrow> agent_team \<Rightarrow> team_executor \<Rightarrow> team_executor \<times> agent_team \<times> team_result option" where
  "execute_begin now t ex =
     (if agents t = []
      then (ex, t, Some \<lparr>res_team = t, res_success = False, res_error = Some ''Team has no agents to execute''\<rparr>)
      else if team_status t \<noteq> TeamPending
      then (ex, t, Some \<lparr>res_team = t, res_success = False,
                         res_error = Some (''Team is already '' @ show_team_status (team_status t))\<rparr>)
      else (let t' = team_start now t
            in (ex\<lparr>abort_handles := hm_insert (team_id t) False (abort_handles ex),
                   teams := hm_insert (team_id t') t' (teams ex)\<rparr>, t', None)))"

definition execute_end :: "team_result \<Rightarrow> team_executor \<Rightarrow> team_executor" where
  "execute_end r ex = ex\<lparr>abort_handles := hm_remove (team_id (res_team r)) (abort_handles ex)\<rparr>"

definition abort_team :: "string \<Rightarrow> string \<Rightarrow> team_executor \<Rightarrow> team_executor \<times> bool" where
  "abort_team now i ex =
     (let ex1 = (if hm_contains (abort_handles ex) i
                 then ex\<lparr>abort_handles := hm_insert i True (abort_handles ex)\<rparr> else ex)
      in case hm_get (teams ex1) i of
           Some t \<Rightarrow> if team_status t = TeamRunning
                     then (ex1\<lparr>teams := hm_insert i (team_abort now ''User requested abort'' t) (teams ex1)\<rparr>, True)
                     else (ex1, False)
         | None \<Rightarrow> (ex1, False))"

definition remove_team :: "string \<Rightarrow> team_executor \<Rightarrow> team_executor \<times> agent_team option" where
  "remove_team i ex = (ex\<lparr>teams := hm_remove i (teams ex)\<rparr>, hm_get (teams ex) i)"

text \<open>The result \<open>collect_team_results\<close> makes of one agent; pending and running ones are left out.\<close>

definition agent_report :: "sub_agent \<Rightarrow> agent_result option" where
  "agent_report a =
     (case sa_status a of
        AgentCompleted \<Rightarrow> Some ((result_success (sa_id a) (default_text (sa_result a)))\<lparr>ar_cost_usd := sa_cost_usd a\<rparr>)
      | AgentFailed \<Rightarrow> Some (result_failure (sa_id a) (default_text (sa_error a)))
      | AgentSkipped \<Rightarrow> Some ((result_failure (sa_id a) ''Agent was skipped'')\<lparr>ar_metadata :=
          [(''skip_reason'', JString (case hm_get (sa_metadata a) ''skip_reason'' of Some x \<Rightarrow> x | None \<Rightarrow> ''Unknown''))]\<rparr>)
      | _ \<Rightarrow> None)"

definition collect_team_results ::
  "(f64 \<Rightarrow> f64 \<Rightarrow> f64) \<Rightarrow> string \<Rightarrow> team_executor \<Rightarrow> team_results option" where
  "collect_team_results fadd i ex =
     map_option (\<lambda>t. build_combined_text
         (fold (add_result fadd) (List.map_filter agent_report (agents t)) (results_with_team_id i)))
       (hm_get (teams ex) i)"

section \<open>Properties of the three modes\<close>

lemma finalize_team_fields:
  "agents (res_team (finalize_team fadd now msg failed sh t)) = agents t"
  "res_success (finalize_team fadd now msg failed sh t) = (\<not> failed)"
  "team_status (res_team (finalize_team fadd now msg failed sh t)) = (if failed then TeamFailed else TeamCompleted)"
  by (simp_all add: finalize_team_def Let_def calculate_totals_def team_fail_def team_complete_def)

lemma agent_ops_id [simp]:
  "sa_id (agent_fail e a) = sa_id a" "sa_id (finish_agent r a) = sa_id a" "sa_id (agent_skip w a) = sa_id a"
  "sa_status (agent_fail e a) = AgentFailed" "sa_status (finish_agent r a) = AgentCompleted"
  "sa_status (agent_skip w a) = AgentSkipped"
  by (simp_all add: agent_fail_def finish_agent_def agent_complete_def agent_skip_def)

lemma sequence_agent_settles:
  assumes "sequence_agent aborted run a prev sh failed = (b, prev', sh', failed')"
  shows "sa_id b = sa_id a \<and> sa_status b \<in> {AgentCompleted, AgentFailed, AgentSkipped} \<and>
    (failed' \<longleftrightarrow> failed \<or> sa_status b \<noteq> AgentCompleted)"
  using assms by (auto simp: sequence_agent_def split: if_splits sum.splits)

lemma sequence_loop_settles:
  "sequence_loop aborted run k as prev sh failed = (as', sh', failed') \<Longrightarrow>
   map sa_id as' = map sa_id as \<and> list_all (\<lambda>a. sa_status a \<in> {AgentCompleted, AgentFailed, AgentSkipped}) as' \<and>
   (failed' \<longleftrightarrow> failed \<or> \<not> list_all (\<lambda>a. sa_status a = AgentCompleted) as')"
proof (induction as arbitrary: k prev sh failed as' sh' failed')
  case (Cons a as)
  obtain b prev1 sh1 failed1 where step: "sequence_agent (aborted k) (run k) a prev sh failed = (b, prev1, sh1, failed1)"
    by (cases "sequence_agent (aborted k) (run k) a prev sh failed")
  obtain rest sh2 failed2 where r: "sequence_loop aborted run (Suc k) as prev1 sh1 failed1 = (rest, sh2, failed2)"
    by (cases "sequence_loop aborted run (Suc k) as prev1 sh1 failed1")
  from Cons.prems step r have out: "as' = b # rest" "failed' = failed2" by simp_all
  from Cons.IH [OF r] sequence_agent_settles [OF step] out show ?case by auto
qed simp

text \<open>
  Sequence mode settles every agent: after the run no agent is pending or running, the team's
  agents are the same and in the same order, and the run succeeds (with status Completed, otherwise
  Failed) exactly when every agent completed; an abort seen at any point makes it fail.
\<close>

lemma sequence_settles:
  "let r = execute_sequence fadd now aborted run t
   in map sa_id (agents (res_team r)) = map sa_id (agents t) \<and>
      list_all (\<lambda>a. sa_status a \<in> {AgentCompleted, AgentFailed, AgentSkipped}) (agents (res_team r)) \<and>
      res_success r = list_all (\<lambda>a. sa_status a = AgentCompleted) (agents (res_team r)) \<and>
      team_status (res_team r) = (if res_success r then TeamCompleted else TeamFailed)"
proof -
  obtain as sh failed where l: "sequence_loop aborted run 0 (agents t) None (team_shared t) False = (as, sh, failed)"
    by (metis prod_cases3)
  from sequence_loop_settles [OF l] show ?thesis
    by (simp add: execute_sequence_def l finalize_team_fields Let_def)
qed

fun apply_outcome :: "agent_outcome \<Rightarrow> sub_agent \<Rightarrow> sub_agent" where
  "apply_outcome AgentPanicked a = a"
| "apply_outcome (AgentErred e) a = agent_fail e a"
| "apply_outcome (AgentReturned r) a =
     (if ar_success r then finish_agent r a else agent_fail (default_text (ar_error r)) a)"

fun succeeded :: "agent_outcome \<Rightarrow> bool" where
  "succeeded (AgentReturned r) = ar_success r"
| "succeeded _ = False"

lemma apply_outcome_id [simp]: "sa_id (apply_outcome out a) = sa_id a"
  by (cases out) auto

lemma get_agent_mut_map:
  "distinct (map sa_id (agents t)) \<Longrightarrow>
   agents (get_agent_mut i f t) = map (\<lambda>a. if sa_id a = i then f a else a) (agents t)"
proof -
  have "distinct (map sa_id as) \<Longrightarrow>
      update_first (\<lambda>a. sa_id a = i) f as = map (\<lambda>a. if sa_id a = i then f a else a) as" for as
  proof (induction as)
    case (Cons a as)
    have "map (\<lambda>x. if sa_id x = sa_id a then f x else x) as = as"
      using Cons.prems by (intro map_idI) (auto simp: image_iff)
    with Cons show ?case by auto
  qed simp
  then show "distinct (map sa_id (agents t)) \<Longrightarrow> ?thesis" by (simp add: get_agent_mut_def)
qed

lemma get_agent_exists: "i \<in> sa_id ` set (agents t) \<Longrightarrow> get_agent t i \<noteq> None"
  by (auto simp: get_agent_def find_None_iff)

lemma parallel_step:
  "get_agent t i \<noteq> None \<Longrightarrow> \<exists>sh'. parallel_loop ((i, out) # rest) t sh failed =
     parallel_loop rest (get_agent_mut i (apply_outcome out) t) sh' (failed \<or> \<not> succeeded out)"
proof (cases out)
  case AgentPanicked
  have "update_first P (\<lambda>a. a) xs = xs" for P and xs :: "sub_agent list" by (induction xs) auto
  moreover have "apply_outcome AgentPanicked = (\<lambda>a. a)" by (simp add: fun_eq_iff)
  ultimately have "get_agent_mut i (apply_outcome AgentPanicked) t = t" by (simp add: get_agent_mut_def)
  with AgentPanicked show ?thesis by auto
next
  case (AgentReturned r)
  assume "get_agent t i \<noteq> None"
  have "apply_outcome out = (if ar_success r then finish_agent r else agent_fail (default_text (ar_error r)))"
    using AgentReturned by (auto simp: fun_eq_iff)
  with AgentReturned \<open>get_agent t i \<noteq> None\<close> show ?thesis by (auto simp: Let_def)
next
  case (AgentErred e)
  assume "get_agent t i \<noteq> None"
  have "apply_outcome out = agent_fail e" using AgentErred by (auto simp: fun_eq_iff)
  with AgentErred \<open>get_agent t i \<noteq> None\<close> show ?thesis by auto
qed

lemma parallel_loop_result:
  assumes "distinct (map sa_id (agents t))" "distinct (map fst ends)" "fst ` set ends \<subseteq> sa_id ` set (agents t)"
    and "parallel_loop ends t sh failed = (t', sh', failed')"
  shows "agents t' = map (\<lambda>a. case map_of ends (sa_id a) of Some out \<Rightarrow> apply_outcome out a | None \<Rightarrow> a) (agents t) \<and>
    (failed' \<longleftrightarrow> failed \<or> \<not> list_all (\<lambda>(i, out). succeeded out) ends)"
  using assms
proof (induction ends arbitrary: t sh failed)
  case (Cons e rest)
  obtain i out where e: "e = (i, out)" by (cases e)
  let ?t = "get_agent_mut i (apply_outcome out) t"
  have ags: "agents ?t = map (\<lambda>a. if sa_id a = i then apply_outcome out a else a) (agents t)"
    by (rule get_agent_mut_map [OF Cons.prems(1)])
  have ids: "map sa_id (agents ?t) = map sa_id (agents t)" by (simp add: ags comp_def if_distrib cong: if_cong)
  have "get_agent t i \<noteq> None" using Cons.prems(3) e by (intro get_agent_exists) auto
  from parallel_step [OF this, of out rest sh failed] Cons.prems(4) e obtain sh1 where
    l: "parallel_loop rest ?t sh1 (failed \<or> \<not> succeeded out) = (t', sh', failed')" by auto
  have sub: "fst ` set rest \<subseteq> sa_id ` set (agents ?t)"
    using Cons.prems(3) ids by (metis image_set list.set_map set_subset_Cons image_mono subset_trans)
  have i: "map_of rest i = None" using Cons.prems(2) e by (simp add: map_of_eq_None_iff)
  have "distinct (map sa_id (agents ?t))" "distinct (map fst rest)" using ids Cons.prems(1,2) by simp_all
  from Cons.IH [OF this sub l] i show ?case by (auto simp: ags e)
qed simp

text \<open>
  Parallel mode is independent of the order in which the agents finish: when the completions are
  those of the team's agents, each agent ends exactly as its own outcome says (completed with its
  text, tokens and cost, or failed with its error), and the run succeeds exactly when every agent did.
\<close>

lemma parallel_order_independent:
  assumes "distinct (map sa_id (agents t))" "distinct (map fst ends)" "set (map fst ends) = set (map sa_id (agents t))"
  shows "agents (res_team (execute_parallel fadd now ends t)) =
      map (\<lambda>a. apply_outcome (the (map_of ends (sa_id a))) a) (agents t) \<and>
    res_success (execute_parallel fadd now ends t) = list_all (\<lambda>(i, out). succeeded out) ends"
proof -
  obtain t' sh failed where l: "parallel_loop ends t (team_shared t) False = (t', sh, failed)" by (metis prod_cases3)
  have res: "agents t' = map (\<lambda>a. case map_of ends (sa_id a) of Some out \<Rightarrow> apply_outcome out a | None \<Rightarrow> a) (agents t) \<and>
      (failed \<longleftrightarrow> \<not> list_all (\<lambda>(i, out). succeeded out) ends)"
    using parallel_loop_result [OF assms(1,2) _ l] assms(3) by simp
  have "map_of ends (sa_id a) \<noteq> None" if "a \<in> set (agents t)" for a
    using that assms(3) by (auto simp: map_of_eq_None_iff)
  then have "agents t' = map (\<lambda>a. apply_outcome (the (map_of ends (sa_id a))) a) (agents t)"
    unfolding res [THEN conjunct1] by (intro map_cong) (force split: option.split)+
  with res show ?thesis by (simp add: execute_parallel_def l finalize_team_fields)
qed

lemma parallel_order_independent_witness:
  "let t = add_agent (sub_agent_new ''b'' ''q'') (add_agent (sub_agent_new ''a'' ''p'') (team_new ''now'' ''t'' ''task''));
       r = execute_parallel (\<lambda>x y. x) ''later''
             [(''b'', AgentErred ''boom''), (''a'', AgentReturned (result_success ''a'' ''fine''))] t
   in map sa_status (agents (res_team r)) = [AgentCompleted, AgentFailed] \<and> \<not> res_success r"
proof -
  let ?t = "add_agent (sub_agent_new ''b'' ''q'') (add_agent (sub_agent_new ''a'' ''p'') (team_new ''now'' ''t'' ''task''))"
  let ?ends = "[(''b'', AgentErred ''boom''), (''a'', AgentReturned (result_success ''a'' ''fine''))]"
  have "distinct (map sa_id (agents ?t))" "distinct (map fst ?ends)" "set (map fst ?ends) = set (map sa_id (agents ?t))"
    by code_simp+
  from parallel_order_independent [OF this, of "\<lambda>x y. x" "''later''"] show ?thesis
    by (simp add: Let_def add_agent_def sub_agent_new_def team_new_def result_success_def)
qed

lemma add_agents_keeps:
  "add_agents as s = Inr s' \<Longrightarrow> hm_get (nodes s) i = Some n \<Longrightarrow> hm_get (nodes s') i = Some n"
proof (induction as arbitrary: s)
  case (Cons a as)
  from Cons.prems(1) obtain s1 where s1: "add_node (node_of_agent a) s = Inr s1" "add_agents as s1 = Inr s'"
    by (auto split: sum.splits)
  have "hm_get (nodes s1) i = Some n"
    using s1(1) Cons.prems(2) by (auto simp: add_node_def hm_get_insert split: if_splits)
  with Cons.IH [OF s1(2)] show ?case .
qed simp

lemma add_agents_nodes:
  "add_agents as s = Inr s' \<Longrightarrow> a \<in> set as \<Longrightarrow> hm_get (nodes s') (sa_id a) = Some (node_of_agent a)"
proof (induction as arbitrary: s)
  case (Cons b as)
  from Cons.prems(1) obtain s1 where s1: "add_node (node_of_agent b) s = Inr s1" "add_agents as s1 = Inr s'"
    by (auto split: sum.splits)
  show ?case
  proof (cases "a \<in> set as")
    case True
    with Cons.IH [OF s1(2)] show ?thesis by simp
  next
    case False
    with Cons.prems(2) s1(1) have "hm_get (nodes s1) (sa_id a) = Some (node_of_agent a)"
      by (auto simp: add_node_def node_of_agent_def hm_get_insert split: if_splits)
    with add_agents_keeps [OF s1(2)] show ?thesis by blast
  qed
qed simp

lemma build_twice: "snd (build s) = None \<Longrightarrow> build (fst (build s)) = (fst (build s), None)"
  by (auto simp: build_def Let_def detect_cycles_def split: prod.splits option.splits)

lemma from_team_shape:
  assumes "from_team t = Inr s"
  shows "build s = (s, None)" "a \<in> set (agents t) \<Longrightarrow> hm_get (nodes s) (sa_id a) = Some (node_of_agent a)"
proof -
  from assms obtain s0 where s0: "add_agents (agents t) scheduler_new = Inr s0"
    by (auto simp: from_team_def split: sum.splits)
  with assms have b: "snd (build s0) = None" "s = fst (build s0)"
    by (auto simp: from_team_def split: prod.splits option.splits)
  then show "build s = (s, None)" using build_twice by simp
  show "hm_get (nodes s) (sa_id a) = Some (node_of_agent a)" if "a \<in> set (agents t)"
    using add_agents_nodes [OF s0 that] b by (simp add: build_fields)
qed

text \<open>
  C10. DAG mode never runs an agent: for every team with a pending agent whose graph is accepted, and that is not
  aborted before it begins, the loop's first iteration finds nothing ready (the scheduler's \<open>max_parallelism\<close> is
  0), nothing running and the work incomplete, and ends as failed with every agent untouched.
\<close>

theorem dag_mode_runs_nothing:
  assumes "from_team t = Inr s" "a \<in> set (agents t)" "sa_status a = AgentPending"
  shows "execute_dag fadd now ((False, k, out) # evs) t =
    Some \<lparr>res_team = team_fail now ''One or more agents failed in DAG execution'' (calculate_totals fadd t),
      res_success = False, res_error = Some ''One or more agents failed in DAG execution''\<rparr>"
proof -
  have "node_of_agent a \<in> set (hm_values (nodes s))"
    using map_of_SomeD [OF from_team_shape(2) [OF assms(1,2)]] by force
  moreover have "status (node_of_agent a) = Pending"
    using assms(3) by (simp add: node_of_agent_def node_status_of_agent_def)
  ultimately have open_work: "\<not> is_complete s" by (force simp: is_complete_def list_all_iff)
  let ?st = "\<lparr>sched = s, run_team = t, join_set = [], run_shared = team_shared t, any_failed = False\<rparr>"
  have "get_ready_nodes s completed n = []" for completed n
    using from_team_built [OF assms(1)] by (simp add: get_ready_nodes_def)
  then have "start_ready ?st = ?st" by (simp add: start_ready_def)
  with open_work have "dag_iteration (False, k, out) ?st = Exited (?st\<lparr>any_failed := True\<rparr>)"
    by (simp add: dag_iteration_def Let_def)
  with from_team_shape(1) [OF assms(1)] assms(1) show ?thesis
    by (simp add: execute_dag_def finalize_team_def Let_def)
qed

theorem dag_mode_runs_nothing_witness:
  "let t = add_agent (sub_agent_new ''a'' ''do it'') (team_new ''now'' ''t'' ''task'')
   in execute_dag (\<lambda>x y. x) ''later'' [(False, 0, AgentReturned (result_success ''a'' ''fine''))] t =
     Some \<lparr>res_team = team_fail ''later'' ''One or more agents failed in DAG execution'' (calculate_totals (\<lambda>x y. x) t),
       res_success = False, res_error = Some ''One or more agents failed in DAG execution''\<rparr>"
proof -
  let ?t = "add_agent (sub_agent_new ''a'' ''do it'') (team_new ''now'' ''t'' ''task'')"
  have "\<not> isl (from_team ?t)" by code_simp
  then obtain s where "from_team ?t = Inr s" by (cases "from_team ?t") auto
  then show ?thesis unfolding Let_def
    by (rule dag_mode_runs_nothing [where a = "sub_agent_new ''a'' ''do it''"])
      (simp_all add: add_agent_def team_new_def sub_agent_new_def)
qed

end
