(* ===== verification/Bao_Paths.thy ===== *)
theory Bao_Paths
  imports Bao_Prelude
begin

text \<open>
  \<open>tools/builtins/path_utils.rs\<close>: lexical normalisation of paths and the check that a path stays inside
  the working directories. A \<open>Path\<close> is its byte string; what the source uses of \<open>std::path\<close> on Unix
  (\<open>components\<close>, \<open>join\<close>, \<open>starts_with\<close>, \<open>parent\<close>, collecting components) is written out. The file system
  is a record of the two queries the code makes, \<open>exists\<close> and \<open>canonicalize\<close>.
\<close>

section \<open>Unix paths\<close>

type_synonym path = string

datatype component = RootDir | CurDir | ParentDir | Normal string

fun segs :: "string \<Rightarrow> string list" where
  "segs [] = [[]]"
| "segs (c # cs) =
     (if c = CHR ''/'' then [] # segs cs
      else case segs cs of s # ss \<Rightarrow> (c # s) # ss | [] \<Rightarrow> [[c]])"

definition seg_component :: "string \<Rightarrow> component" where
  "seg_component s = (if s = ''..'' then ParentDir else Normal s)"

definition is_absolute :: "path \<Rightarrow> bool" where
  "is_absolute p \<longleftrightarrow> starts_with p ''/''"

text \<open>Empty segments and \<open>.\<close> are skipped, except a \<open>.\<close> at the start of a relative path.\<close>

definition components :: "path \<Rightarrow> component list" where
  "components p =
     (if is_absolute p then [RootDir] else if hd (segs p) = ''.'' then [CurDir] else []) @
     map seg_component (filter (\<lambda>s. s \<noteq> [] \<and> s \<noteq> ''.'') (segs p))"

primrec comp_str :: "component \<Rightarrow> string" where
  "comp_str RootDir = ''/''"
| "comp_str CurDir = ''.''"
| "comp_str ParentDir = ''..''"
| "comp_str (Normal s) = s"

text \<open>\<open>PathBuf::push\<close> and \<open>Path::join\<close>: an absolute argument replaces the path.\<close>

definition path_push :: "path \<Rightarrow> path \<Rightarrow> path" where
  "path_push buf p =
     (if is_absolute p then p
      else if buf \<noteq> [] \<and> last buf \<noteq> CHR ''/'' then buf @ ''/'' @ p
      else buf @ p)"

definition path_collect :: "component list \<Rightarrow> path" where
  "path_collect cs = foldl (\<lambda>buf c. path_push buf (comp_str c)) [] cs"

definition path_starts_with :: "path \<Rightarrow> path \<Rightarrow> bool" where
  "path_starts_with p base \<longleftrightarrow> prefix (components base) (components p)"

text \<open>
  \<open>Path::parent\<close> and \<open>Path::file_name\<close>. The parent is given in collected form, which is what the
  standard library returns on the collected paths the source applies it to.
\<close>

definition path_parent :: "path \<Rightarrow> path option" where
  "path_parent p =
     (case rev (components p) of
        [] \<Rightarrow> None | RootDir # _ \<Rightarrow> None | _ # rest \<Rightarrow> Some (path_collect (rev rest)))"

definition file_name :: "path \<Rightarrow> string option" where
  "file_name p = (case rev (components p) of Normal s # _ \<Rightarrow> Some s | _ \<Rightarrow> None)"

record file_system =
  fs_exists :: "path \<Rightarrow> bool"
  canonicalize :: "path \<Rightarrow> path option"

section \<open>Normalisation and validation\<close>

fun normalize_step :: "component list \<Rightarrow> component \<Rightarrow> component list" where
  "normalize_step acc ParentDir = (if acc \<noteq> [] then butlast acc else acc)"
| "normalize_step acc CurDir = acc"
| "normalize_step acc c = acc @ [c]"

definition normalize_path :: "path \<Rightarrow> path" where
  "normalize_path p = path_collect (foldl normalize_step [] (components p))"

definition is_within_boundaries :: "path \<Rightarrow> path \<Rightarrow> path list \<Rightarrow> bool" where
  "is_within_boundaries p cwd additional_dirs =
     (if path_starts_with p (normalize_path cwd) then True
      else list_ex (\<lambda>dir. path_starts_with p (normalize_path dir)) additional_dirs)"

definition is_within_canonical_boundaries :: "file_system \<Rightarrow> path \<Rightarrow> path \<Rightarrow> path list \<Rightarrow> bool" where
  "is_within_canonical_boundaries fs p cwd additional_dirs =
     list_ex (path_starts_with p) (List.map_filter (canonicalize fs) (cwd # additional_dirs))"

definition contains_symlink_escape :: "file_system \<Rightarrow> path \<Rightarrow> path \<Rightarrow> path list \<Rightarrow> bool" where
  "contains_symlink_escape fs p cwd additional_dirs =
     (let candidate =
        (if fs_exists fs p then Some p
         else map_option (\<lambda>parent. path_push parent (case file_name p of Some n \<Rightarrow> n | None \<Rightarrow> []))
                (Option.bind (path_parent p) (canonicalize fs)))
      in case Option.bind candidate (canonicalize fs) of
           None \<Rightarrow> False
         | Some resolved \<Rightarrow> \<not> is_within_canonical_boundaries fs resolved cwd additional_dirs)"

definition resolve_and_validate_path :: "file_system \<Rightarrow> string \<Rightarrow> path \<Rightarrow> path list \<Rightarrow> string + path" where
  "resolve_and_validate_path fs p cwd additional_dirs =
     (if p = [] then Inl ''Path cannot be empty''
      else let normalized = (if is_absolute p then normalize_path p else normalize_path (path_push cwd p))
           in if \<not> is_within_boundaries normalized cwd additional_dirs
              then Inl (''Path '' @ quoted p @ '' is outside the allowed working directories'')
              else if contains_symlink_escape fs normalized cwd additional_dirs
              then Inl (''Path '' @ quoted p @ '' resolves through a symlink outside the allowed working directories'')
              else Inr normalized)"

section \<open>Components and collected paths\<close>

lemma segs_not_Nil [simp]: "segs p \<noteq> []"
  by (induction p) (auto split: list.splits)

lemma segs_append: "segs (a @ CHR ''/'' # b) = segs a @ segs b"
  by (induction a) (auto simp: neq_Nil_conv split: list.splits)

lemma segs_no_slash: "CHR ''/'' \<notin> set s \<Longrightarrow> segs s = [s]"
  by (induction s) auto

lemma segs_parts: "s \<in> set (segs p) \<Longrightarrow> CHR ''/'' \<notin> set s"
  by (induction p arbitrary: s) (auto split: if_splits list.splits)

lemma is_absolute_simps [simp]: "\<not> is_absolute []" "is_absolute (c # p) \<longleftrightarrow> c = CHR ''/''"
  by (auto simp: is_absolute_def)

lemma is_absolute_append: "a \<noteq> [] \<Longrightarrow> is_absolute (a @ b) \<longleftrightarrow> is_absolute a"
  by (cases a) auto

definition valid_name :: "string \<Rightarrow> bool" where
  "valid_name s \<longleftrightarrow> s \<noteq> [] \<and> s \<noteq> ''.'' \<and> CHR ''/'' \<notin> set s"

lemma valid_name_absolute: "valid_name s \<Longrightarrow> \<not> is_absolute s"
  by (cases s) (auto simp: valid_name_def)

text \<open>Pushing one valid name appends one component, whatever the path before.\<close>

lemma components_push:
  assumes "valid_name s"
  shows "components (path_push buf s) = components buf @ [seg_component s]"
proof -
  have s: "segs s = [s]" "s \<noteq> []" "s \<noteq> ''.''"
    using assms by (auto simp: valid_name_def segs_no_slash)
  have abs: "\<not> is_absolute s" using assms by (rule valid_name_absolute)
  consider "buf = []" | "buf \<noteq> []" "last buf \<noteq> CHR ''/''" | b where "buf = b @ [CHR ''/'']"
    by (metis append_butlast_last_id)
  then show ?thesis
  proof cases
    case 1
    with abs s show ?thesis by (simp add: path_push_def components_def)
  next
    case 2
    then have "path_push buf s = buf @ CHR ''/'' # s" using abs by (simp add: path_push_def)
    with 2 s show ?thesis
      by (simp add: components_def is_absolute_append segs_append hd_append)
  next
    case 3
    then have "path_push buf s = b @ CHR ''/'' # s" "is_absolute (b @ CHR ''/'' # s) = is_absolute buf"
      using abs is_absolute_append [of "b @ ''/''" s] by (simp_all add: path_push_def)
    moreover have "segs buf = segs b @ [[]]" using 3 segs_append [of b "[]"] by simp
    ultimately show ?thesis using s
      by (simp add: components_def segs_append hd_append)
  qed
qed

primrec wf_tail :: "component \<Rightarrow> bool" where
  "wf_tail RootDir = False"
| "wf_tail CurDir = False"
| "wf_tail ParentDir = True"
| "wf_tail (Normal s) = (valid_name s \<and> s \<noteq> ''..'')"

definition wf_components :: "component list \<Rightarrow> bool" where
  "wf_components cs \<longleftrightarrow> (case cs of [] \<Rightarrow> True | c # rest \<Rightarrow> (c = RootDir \<or> c = CurDir \<or> wf_tail c) \<and> list_all wf_tail rest)"

lemma wf_tail_push: "wf_tail c \<Longrightarrow> components (path_push buf (comp_str c)) = components buf @ [c]"
  by (cases c) (auto simp: components_push [of "''..''"] components_push valid_name_def seg_component_def)

lemma components_collect_tail:
  "list_all wf_tail cs \<Longrightarrow> components (foldl (\<lambda>buf c. path_push buf (comp_str c)) buf cs) = components buf @ cs"
  by (induction cs arbitrary: buf) (auto simp: wf_tail_push)

lemma components_Nil [simp]: "components [] = []"
  by (simp add: components_def)

lemma components_collect: "wf_components cs \<Longrightarrow> components (path_collect cs) = cs"
proof (cases cs)
  case (Cons c rest)
  assume "wf_components cs"
  then have "components (path_push [] (comp_str c)) = [c]" "list_all wf_tail rest"
    using wf_tail_push [of c "[]"] Cons by (auto simp: wf_components_def path_push_def components_def)
  with Cons show ?thesis by (simp add: path_collect_def components_collect_tail)
qed (simp add: path_collect_def)

lemma wf_components_components: "wf_components (components p)"
proof -
  have "list_all wf_tail (map seg_component (filter (\<lambda>s. s \<noteq> [] \<and> s \<noteq> ''.'') (segs p)))"
    by (auto simp: list_all_iff seg_component_def valid_name_def segs_parts)
  then show ?thesis
    by (auto simp: components_def wf_components_def split: list.split)
qed

section \<open>Normal forms\<close>

lemma wf_components_butlast: "wf_components cs \<Longrightarrow> wf_components (butlast cs)"
  by (cases cs) (auto simp: wf_components_def list_all_iff dest: in_set_butlastD split: list.splits)

definition plain :: "component list \<Rightarrow> bool" where
  "plain cs \<longleftrightarrow> ParentDir \<notin> set cs \<and> CurDir \<notin> set cs"

lemma plain_simps [simp]:
  "plain []" "plain (c # cs) \<longleftrightarrow> c \<noteq> ParentDir \<and> c \<noteq> CurDir \<and> plain cs" "plain (cs @ ds) \<longleftrightarrow> plain cs \<and> plain ds"
  by (auto simp: plain_def)

lemma plain_butlast: "plain cs \<Longrightarrow> plain (butlast cs)"
  by (auto simp: plain_def dest: in_set_butlastD)

lemma normalize_step_tail:
  assumes "wf_tail c" "wf_components acc" "plain acc"
  shows "wf_components (normalize_step acc c) \<and> plain (normalize_step acc c)"
proof (cases "c = ParentDir")
  case True
  with assms show ?thesis by (auto simp: plain_butlast wf_components_butlast)
next
  case False
  with assms show ?thesis
    by (cases c; cases acc) (auto simp: wf_components_def)
qed

lemma normalize_tail:
  "list_all wf_tail cs \<Longrightarrow> wf_components acc \<Longrightarrow> plain acc \<Longrightarrow>
     wf_components (foldl normalize_step acc cs) \<and> plain (foldl normalize_step acc cs)"
  by (induction cs arbitrary: acc) (auto simp: normalize_step_tail)

lemma normalize_wf:
  assumes "wf_components cs"
  shows "wf_components (foldl normalize_step [] cs) \<and> plain (foldl normalize_step [] cs)"
proof (cases cs)
  case (Cons c rest)
  with assms have "list_all wf_tail rest" "wf_components (normalize_step [] c) \<and> plain (normalize_step [] c)"
    by (cases c; auto simp: wf_components_def)+
  with Cons show ?thesis by (simp add: normalize_tail)
qed (simp add: wf_components_def)

lemma components_normalize: "components (normalize_path p) = foldl normalize_step [] (components p)"
  unfolding normalize_path_def
  by (rule components_collect) (simp add: normalize_wf wf_components_components)

lemma normalize_plain: "plain (components (normalize_path p))"
  by (simp add: components_normalize normalize_wf wf_components_components)

lemma normalize_step_plain: "plain cs \<Longrightarrow> foldl normalize_step acc cs = acc @ cs"
proof (induction cs arbitrary: acc)
  case (Cons c cs)
  then show ?case by (cases c) auto
qed simp

lemma normalize_idem: "normalize_path (normalize_path p) = normalize_path p"
proof -
  have "normalize_path (normalize_path p) = path_collect (components (normalize_path p))"
    by (simp add: normalize_path_def [of "normalize_path p"] normalize_step_plain normalize_plain)
  also have "\<dots> = normalize_path p"
    by (simp only: components_normalize) (simp only: normalize_path_def)
  finally show ?thesis .
qed

lemma components_parent:
  assumes "path_parent p = Some q"
  shows "components q = butlast (components p)"
proof -
  have q: "q = path_collect (butlast (components p))"
    using assms by (cases "components p" rule: rev_cases) (auto simp: path_parent_def split: component.splits)
  show ?thesis unfolding q
    by (intro components_collect wf_components_butlast wf_components_components)
qed

lemma starts_with_refl [simp]: "path_starts_with p p"
  by (simp add: path_starts_with_def)

lemma starts_with_parent: "path_parent p = Some q \<Longrightarrow> path_starts_with p q"
  by (auto simp: path_starts_with_def components_parent)
    (metis append_butlast_last_id butlast.simps(1) prefix_order.refl prefixI)

section \<open>What validation guarantees\<close>

text \<open>
  The directory that a walk along the segments of an absolute path reaches when no symbolic link is
  on the way, as the names below the root, and whether the walk tries to leave the root.
\<close>

fun walk :: "string list \<Rightarrow> string list \<Rightarrow> string list" where
  "walk at [] = at"
| "walk at (s # ss) =
     (if s = ''..'' then walk (butlast at) ss else if s = [] \<or> s = ''.'' then walk at ss else walk (at @ [s]) ss)"

fun above_root :: "nat \<Rightarrow> string list \<Rightarrow> bool" where
  "above_root d [] = False"
| "above_root d (s # ss) =
     (if s = ''..'' then d = 0 \<or> above_root (d - 1) ss
      else if s = [] \<or> s = ''.'' then above_root d ss else above_root (Suc d) ss)"

lemma normalize_walk_aux:
  "\<not> above_root (length at) ss \<Longrightarrow>
   foldl normalize_step (RootDir # map Normal at)
     (map seg_component (filter (\<lambda>s. s \<noteq> [] \<and> s \<noteq> ''.'') ss)) = RootDir # map Normal (walk at ss)"
proof (induction ss arbitrary: at)
  case (Cons s ss)
  consider "s = ''..''" | "s \<noteq> ''..''" "s = [] \<or> s = ''.''" | "s \<noteq> ''..''" "s \<noteq> []" "s \<noteq> ''.''" by blast
  then show ?case
  proof cases
    case 1
    with Cons show ?thesis using Cons.IH [of "butlast at"]
      by (auto simp: seg_component_def map_butlast)
  next
    case 2
    with Cons show ?thesis by auto
  next
    case 3
    with Cons.prems have "\<not> above_root (length (at @ [s])) ss" by simp
    from Cons.IH [OF this] 3 show ?thesis by (simp add: seg_component_def)
  qed
qed simp

text \<open>
  Normalisation of an absolute path that never climbs above the root gives the directory that
  walking the path reaches, and normalising again changes nothing.
\<close>

lemma normalize_walks:
  assumes "is_absolute p" "\<not> above_root 0 (segs p)"
  shows "components (normalize_path p) = RootDir # map Normal (walk [] (segs p)) \<and>
    normalize_path (normalize_path p) = normalize_path p"
proof -
  have "components p = RootDir # map seg_component (filter (\<lambda>s. s \<noteq> [] \<and> s \<noteq> ''.'') (segs p))"
    using assms(1) by (simp add: components_def)
  with normalize_walk_aux [of "[]" "segs p"] assms(2) show ?thesis
    by (simp add: components_normalize normalize_idem)
qed

lemma normalize_walks_witness:
  "components (normalize_path ''/a/b/../c/./d'') = [RootDir, Normal ''a'', Normal ''c'', Normal ''d'']"
  using normalize_walks [of "''/a/b/../c/./d''"] by simp

text \<open>
  A path that climbs above the root loses its root: \<open>/../etc\<close> becomes the relative \<open>etc\<close>, although
  the comment in \<open>normalize_path\<close> promises to pop normal components only.
\<close>

lemma normalize_drops_root: "normalize_path ''/../etc'' = ''etc''"
  by code_simp

lemma map_filter_roots:
  "r \<in> set (List.map_filter f xs) \<longleftrightarrow> (\<exists>x\<in>set xs. f x = Some r)"
  by (force simp: List.map_filter_def)

lemma resolve_okD:
  assumes "resolve_and_validate_path fs p cwd dirs = Inr q"
  shows "q = normalize_path (if is_absolute p then p else path_push cwd p)"
    and "is_within_boundaries q cwd dirs" and "\<not> contains_symlink_escape fs q cwd dirs"
  using assms by (auto simp: resolve_and_validate_path_def Let_def split: if_splits)

text \<open>
  C7. A path that validation accepts has no \<open>.\<close> or \<open>..\<close> left, lies lexically below the normalised
  working directory or an additional directory, and, when the file exists, the location that the
  file system resolves it to lies below the resolved location of one of these directories.
\<close>

theorem resolve_contained:
  assumes "resolve_and_validate_path fs p cwd dirs = Inr q"
  shows "ParentDir \<notin> set (components q) \<and> CurDir \<notin> set (components q) \<and>
    (\<exists>root\<in>set (cwd # dirs). path_starts_with q (normalize_path root)) \<and>
    (fs_exists fs q \<longrightarrow> canonicalize fs q = Some r \<longrightarrow>
       (\<exists>root\<in>set (cwd # dirs). \<exists>c. canonicalize fs root = Some c \<and> path_starts_with r c))"
proof (intro conjI impI)
  show "ParentDir \<notin> set (components q)" "CurDir \<notin> set (components q)"
    using resolve_okD(1) [OF assms] normalize_plain by (auto simp: plain_def)
  show "\<exists>root\<in>set (cwd # dirs). path_starts_with q (normalize_path root)"
    using resolve_okD(2) [OF assms] by (auto simp: is_within_boundaries_def list_ex_iff split: if_splits)
  assume "fs_exists fs q" "canonicalize fs q = Some r"
  with resolve_okD(3) [OF assms] have "is_within_canonical_boundaries fs r cwd dirs"
    by (simp add: contains_symlink_escape_def)
  then show "\<exists>root\<in>set (cwd # dirs). \<exists>c. canonicalize fs root = Some c \<and> path_starts_with r c"
    unfolding is_within_canonical_boundaries_def list_ex_iff by (meson map_filter_roots)
qed

text \<open>A file system of three directories and a link \<open>/w/l\<close> to \<open>/etc\<close>, for the witnesses.\<close>

definition linked_fs :: file_system where
  "linked_fs = \<lparr>fs_exists = (\<lambda>p. p \<in> {''/'', ''/w'', ''/w/a'', ''/w/l'', ''/etc''}),
     canonicalize = (\<lambda>p. if p \<in> {''/'', ''/w'', ''/w/a'', ''/etc''} then Some p
                         else if p = ''/w/l'' then Some ''/etc'' else None)\<rparr>"

theorem resolve_contained_witness:
  "resolve_and_validate_path linked_fs ''x/../a'' ''/w'' [] = Inr ''/w/a'' \<and>
   canonicalize linked_fs ''/w/a'' = Some ''/w/a'' \<and> path_starts_with ''/w/a'' ''/w''"
proof -
  have ok: "resolve_and_validate_path linked_fs ''x/../a'' ''/w'' [] = Inr ''/w/a''" by code_simp
  have "fs_exists linked_fs ''/w/a''" "canonicalize linked_fs ''/w/a'' = Some ''/w/a''"
    "canonicalize linked_fs ''/w'' = Some ''/w''" by (simp_all add: linked_fs_def)
  with resolve_contained [OF ok, of "''/w/a''"] ok show ?thesis by simp
qed

text \<open>
  The link check does nothing for a file that does not exist yet: whatever its parent directory
  resolves to, the check resolves the file itself once more, which fails, and an unresolvable file is
  accepted. The hypotheses are what the file system promises: only existing files resolve, and a
  file exists below a directory exactly when it exists below the resolved directory.
\<close>

lemma new_file_never_escapes:
  assumes resolves: "\<And>x. canonicalize fs x \<noteq> None \<Longrightarrow> fs_exists fs x"
    and same: "\<And>d c. path_parent q = Some d \<Longrightarrow> canonicalize fs d = Some c \<Longrightarrow>
      fs_exists fs (path_push c (case file_name q of Some n \<Rightarrow> n | None \<Rightarrow> [])) = fs_exists fs q"
    and new: "\<not> fs_exists fs q"
  shows "\<not> contains_symlink_escape fs q cwd dirs"
proof (cases "Option.bind (path_parent q) (canonicalize fs)")
  case None
  with new show ?thesis by (simp add: contains_symlink_escape_def)
next
  case (Some c)
  then obtain d where d: "path_parent q = Some d" "canonicalize fs d = Some c"
    by (cases "path_parent q") auto
  with new same resolves have
    "canonicalize fs (path_push c (case file_name q of Some n \<Rightarrow> n | None \<Rightarrow> [])) = None"
    by blast
  with new d show ?thesis by (simp add: contains_symlink_escape_def)
qed

lemma new_file_never_escapes_witness:
  "resolve_and_validate_path linked_fs ''l/cron'' ''/w'' [] = Inr ''/w/l/cron'' \<and>
   canonicalize linked_fs ''/w/l'' = Some ''/etc'' \<and>
   \<not> contains_symlink_escape linked_fs ''/w/l/cron'' ''/w'' []"
proof -
  have "path_parent ''/w/l/cron'' = Some ''/w/l''" "file_name ''/w/l/cron'' = Some ''cron''" by code_simp+
  then have "\<not> contains_symlink_escape linked_fs ''/w/l/cron'' ''/w'' []"
    by (intro new_file_never_escapes) (auto simp: linked_fs_def path_push_def split: if_splits)
  moreover have "resolve_and_validate_path linked_fs ''l/cron'' ''/w'' [] = Inr ''/w/l/cron''" by code_simp
  ultimately show ?thesis by (simp add: linked_fs_def)
qed

end
