(* ===== verification/Bao_Tools.thy ===== *)
theory Bao_Tools
  imports Bao_Paths Bao_Messages
begin

text \<open>
  The data of \<open>tools/trait_def.rs\<close> and of the results that the executor hands back. A tool is a record of the
  methods of the trait, which are arguments of the model.
\<close>

record tool_result =
  tr_data :: json
  tr_is_error :: bool

datatype validation_result = ValidationOk | Invalid string "string option"

datatype tool_permission_check_result = ToolAllow json | ToolAsk string json | ToolDeny string

datatype tool_error = ExecutionFailed string | Timeout u64 | Aborted | IoError string | Serialization string

fun tool_error_str :: "tool_error \<Rightarrow> string" where
  "tool_error_str (ExecutionFailed m) = ''Tool execution failed: '' @ m"
| "tool_error_str (Timeout ms) = ''Tool timed out after '' @ show_nat (unat ms) @ ''ms''"
| "tool_error_str Aborted = ''Tool was aborted''"
| "tool_error_str (IoError m) = ''IO error: '' @ m"
| "tool_error_str (Serialization m) = ''Serialization error: '' @ m"

record tool_execution_result =
  te_tool_use_id :: string
  te_tool_name :: string
  te_output :: json
  te_is_error :: bool

record tool_result_store =
  base_dir :: path
  persist_threshold :: nat

record persisted_output =
  preview :: string
  po_file_path :: path
  total_chars :: nat

text \<open>The parts of the context that the executor reads; the abort signal is part of the environment.\<close>

record tool_context =
  cwd :: path
  result_store :: "tool_result_store option"

text \<open>What a tool gets to see of the shared state when it is called.\<close>

record tool_call =
  call_id :: string
  call_name :: string
  call_input :: json
  call_dirs :: "path list"
  call_write_dirs :: "path list"

record tool =
  t_name :: string
  t_aliases :: "string list"
  t_prompt :: string
  t_short_description :: string
  t_input_schema :: json
  t_is_deferred :: bool
  t_is_read_only :: "json \<Rightarrow> bool"
  t_is_concurrency_safe :: "json \<Rightarrow> bool"
  t_max_result_size_chars :: nat
  t_aborts_internally :: bool
  t_validate_input :: "json \<Rightarrow> tool_context \<Rightarrow> validation_result"
  t_check_permissions :: "json \<Rightarrow> tool_context \<Rightarrow> tool_permission_check_result"
  t_call :: "tool_call list \<Rightarrow> tool_call \<Rightarrow> tool_error + tool_result"

text \<open>\<open>EngineEvent::PermissionRequest\<close>.\<close>

record permission_event =
  ev_tool_name :: string
  ev_input :: json
  ev_tool_use_id :: string
  ev_ask_timeout_secs :: u64
  ev_target_path :: "string option"

text \<open>A tool that echoes its input, for the witnesses.\<close>

definition sample_tool :: "string \<Rightarrow> bool \<Rightarrow> tool" where
  "sample_tool name ro = \<lparr>t_name = name, t_aliases = [''alias'' @ name], t_prompt = name, t_short_description = name,
     t_input_schema = JNull, t_is_deferred = False, t_is_read_only = (\<lambda>_. ro),
     t_is_concurrency_safe = (\<lambda>_. ro), t_max_result_size_chars = 100, t_aborts_internally = False,
     t_validate_input = (\<lambda>_ _. ValidationOk), t_check_permissions = (\<lambda>i _. ToolAsk ''sure?'' i),
     t_call = (\<lambda>_ c. Inr \<lparr>tr_data = call_input c, tr_is_error = False\<rparr>)\<rparr>"

end
