(* ===== verification/Bao_ToolHealth.thy ===== *)
theory Bao_ToolHealth
  imports Bao_Prelude
begin

text \<open>
  \<open>engine/tool_health.rs\<close>: the record of successes and failures per tool and the status derived from
  it. The tracker's mutex is elided; each operation returns the tracker it leaves. Time stamps are the
  RFC 3339 strings the code stores: \<open>now\<close> is the current one, and \<open>elapsed now t\<close> are the minutes since
  \<open>t\<close>, \<open>None\<close> when \<open>t\<close> does not parse. The rounded failure rate of a warning is an argument.
\<close>

section \<open>Data\<close>

datatype tool_status = Healthy | Degraded | Disabled

record tool_health_record =
  h_tool_name :: string
  total_calls :: u64
  success_count :: u64
  failure_count :: u64
  timeout_count :: u64
  recent_failures :: "string list"
  h_status :: tool_status
  consecutive_failures :: u32
  last_status_change :: string

record tool_health_tracker =
  health_records :: "(string, tool_health_record) hash_map"
  degrade_threshold :: u32
  disable_threshold :: u32
  recovery_minutes :: u32

record tool_health_snapshot =
  snap_tools :: "tool_health_record list"
  snap_degrade_threshold :: u32
  snap_disable_threshold :: u32
  snap_recovery_minutes :: u32

definition health_new :: tool_health_tracker where
  "health_new = \<lparr>health_records = [], degrade_threshold = 3, disable_threshold = 6, recovery_minutes = 30\<rparr>"

definition health_record_new :: "string \<Rightarrow> string \<Rightarrow> tool_health_record" where
  "health_record_new now name = \<lparr>h_tool_name = name, total_calls = 0, success_count = 0, failure_count = 0,
     timeout_count = 0, recent_failures = [], h_status = Healthy, consecutive_failures = 0,
     last_status_change = now\<rparr>"

section \<open>Operations\<close>

text \<open>\<open>records.entry(name).or_insert_with(...)\<close> followed by an update of the record in place.\<close>

definition with_entry ::
  "string \<Rightarrow> string \<Rightarrow> (tool_health_record \<Rightarrow> tool_health_record) \<Rightarrow> tool_health_tracker \<Rightarrow> tool_health_tracker" where
  "with_entry now name f th =
     (let r = (case hm_get (health_records th) name of Some r \<Rightarrow> r | None \<Rightarrow> health_record_new now name)
      in th\<lparr>health_records := hm_insert name (f r) (health_records th)\<rparr>)"

definition success_update :: "string \<Rightarrow> tool_health_record \<Rightarrow> tool_health_record" where
  "success_update now r =
     (let r1 = r\<lparr>total_calls := total_calls r + 1, success_count := success_count r + 1, consecutive_failures := 0\<rparr>
      in if h_status r1 = Degraded \<and> unat (success_count r1) mod 5 = 0
         then r1\<lparr>h_status := Healthy, last_status_change := now\<rparr> else r1)"

definition record_success :: "string \<Rightarrow> string \<Rightarrow> tool_health_tracker \<Rightarrow> tool_health_tracker" where
  "record_success now tool_name th = with_entry now tool_name (success_update now) th"

definition failure_update :: "tool_health_tracker \<Rightarrow> string \<Rightarrow> string \<Rightarrow> tool_health_record \<Rightarrow> tool_health_record" where
  "failure_update th now reason r =
     (let pushed = recent_failures r @ [reason];
          r1 = r\<lparr>total_calls := total_calls r + 1, failure_count := failure_count r + 1,
                 consecutive_failures := consecutive_failures r + 1,
                 recent_failures := (if length pushed > 10 then drop 1 pushed else pushed)\<rparr>
      in if disable_threshold th \<le> consecutive_failures r1
         then r1\<lparr>h_status := Disabled, last_status_change := now\<rparr>
         else if degrade_threshold th \<le> consecutive_failures r1
         then r1\<lparr>h_status := Degraded, last_status_change := now\<rparr>
         else r1)"

definition record_failure :: "string \<Rightarrow> string \<Rightarrow> string \<Rightarrow> tool_health_tracker \<Rightarrow> tool_health_tracker" where
  "record_failure now tool_name reason th = with_entry now tool_name (failure_update th now reason) th"

definition reset_tool :: "string \<Rightarrow> tool_health_tracker \<Rightarrow> tool_health_tracker" where
  "reset_tool tool_name th = th\<lparr>health_records := hm_remove tool_name (health_records th)\<rparr>"

definition maybe_recover ::
  "(string \<Rightarrow> string \<Rightarrow> int option) \<Rightarrow> string \<Rightarrow> tool_health_tracker \<Rightarrow> tool_health_record \<Rightarrow> tool_health_record" where
  "maybe_recover elapsed now th r =
     (if h_status r = Healthy then r
      else case elapsed now (last_status_change r) of
             None \<Rightarrow> r
           | Some m \<Rightarrow>
               if m \<ge> uint (recovery_minutes th)
               then r\<lparr>h_status := Healthy, consecutive_failures := 0, last_status_change := now\<rparr>
               else r)"

definition is_available ::
  "(string \<Rightarrow> string \<Rightarrow> int option) \<Rightarrow> string \<Rightarrow> string \<Rightarrow> tool_health_tracker \<Rightarrow> tool_health_tracker \<times> bool" where
  "is_available elapsed now tool_name th =
     (case hm_get (health_records th) tool_name of
        Some r \<Rightarrow>
          let r' = maybe_recover elapsed now th r
          in (th\<lparr>health_records := hm_insert tool_name r' (health_records th)\<rparr>, h_status r' \<noteq> Disabled)
      | None \<Rightarrow> (th, True))"

text \<open>The lazy recovery of every record, shared by the warnings and the snapshot.\<close>

definition recover_all ::
  "(string \<Rightarrow> string \<Rightarrow> int option) \<Rightarrow> string \<Rightarrow> tool_health_tracker \<Rightarrow> tool_health_tracker" where
  "recover_all elapsed now th =
     th\<lparr>health_records := map (\<lambda>(k, r). (k, maybe_recover elapsed now th r)) (health_records th)\<rparr>"

definition warning_sign :: string where
  "warning_sign = [CHR 0xE2, CHR 0x9A, CHR 0xA0, CHR 0xEF, CHR 0xB8, CHR 0x8F]"

definition no_entry_sign :: string where
  "no_entry_sign = [CHR 0xF0, CHR 0x9F, CHR 0x9A, CHR 0xAB]"

definition health_warning :: "(u64 \<Rightarrow> u64 \<Rightarrow> string) \<Rightarrow> tool_health_record \<Rightarrow> string option" where
  "health_warning rate r =
     (case h_status r of
        Degraded \<Rightarrow> Some (warning_sign @ '' Tool '' @ quoted (h_tool_name r) @ '' is degraded (failure rate: '' @
          rate (failure_count r) (total_calls r) @ ''%, '' @ show_nat (unat (consecutive_failures r)) @
          '' consecutive failures). Consider using an alternative.'')
      | Disabled \<Rightarrow> Some (no_entry_sign @ '' Tool '' @ quoted (h_tool_name r) @
          '' is temporarily disabled due to repeated failures. Last failures: '' @
          (if recent_failures r = [] then ''unknown'' else last (recent_failures r)))
      | Healthy \<Rightarrow> None)"

definition get_warnings ::
  "(u64 \<Rightarrow> u64 \<Rightarrow> string) \<Rightarrow> (string \<Rightarrow> string \<Rightarrow> int option) \<Rightarrow> string \<Rightarrow> tool_health_tracker \<Rightarrow>
     tool_health_tracker \<times> string list" where
  "get_warnings rate elapsed now th =
     (let th' = recover_all elapsed now th
      in (th', List.map_filter (health_warning rate) (hm_values (health_records th'))))"

definition disabled_tools :: "tool_health_tracker \<Rightarrow> string list" where
  "disabled_tools th = map fst (filter (\<lambda>(_, r). h_status r = Disabled) (health_records th))"

definition degraded_tools :: "tool_health_tracker \<Rightarrow> string list" where
  "degraded_tools th = map fst (filter (\<lambda>(_, r). h_status r = Degraded) (health_records th))"

primrec status_rank :: "tool_status \<Rightarrow> nat" where
  "status_rank Disabled = 0"
| "status_rank Degraded = 1"
| "status_rank Healthy = 2"

text \<open>The stable sort by status, call count (descending) and name.\<close>

definition snapshot_key :: "tool_health_record \<Rightarrow> nat \<times> int \<times> string" where
  "snapshot_key r = (status_rank (h_status r), - uint (total_calls r), h_tool_name r)"

definition health_snapshot ::
  "(string \<Rightarrow> string \<Rightarrow> int option) \<Rightarrow> string \<Rightarrow> tool_health_tracker \<Rightarrow> tool_health_tracker \<times> tool_health_snapshot" where
  "health_snapshot elapsed now th =
     (let th' = recover_all elapsed now th
      in (th', \<lparr>snap_tools = sort_key snapshot_key (hm_values (health_records th')),
                snap_degrade_threshold = degrade_threshold th, snap_disable_threshold = disable_threshold th,
                snap_recovery_minutes = recovery_minutes th\<rparr>))"

section \<open>The invariant of every history\<close>

datatype health_op =
    RecordSuccess string string
  | RecordFailure string string string
  | ResetTool string
  | CheckAvailable string string
  | Warnings string
  | Snapshot string

fun health_step ::
  "(string \<Rightarrow> string \<Rightarrow> int option) \<Rightarrow> health_op \<Rightarrow> tool_health_tracker \<Rightarrow> tool_health_tracker" where
  "health_step elapsed (RecordSuccess now t) th = record_success now t th"
| "health_step elapsed (RecordFailure now t reason) th = record_failure now t reason th"
| "health_step elapsed (ResetTool t) th = reset_tool t th"
| "health_step elapsed (CheckAvailable now t) th = fst (is_available elapsed now t th)"
| "health_step elapsed (Warnings now) th = fst (get_warnings (\<lambda>_ _. []) elapsed now th)"
| "health_step elapsed (Snapshot now) th = fst (health_snapshot elapsed now th)"

text \<open>
  What holds of every record: the counters add up, at most ten reasons are kept, and the status is not
  better than the run of consecutive failures allows.
\<close>

definition record_ok :: "u32 \<Rightarrow> u32 \<Rightarrow> string \<times> tool_health_record \<Rightarrow> bool" where
  "record_ok degrade disable kr \<longleftrightarrow>
     (case kr of (k, r) \<Rightarrow>
        h_tool_name r = k \<and> total_calls r = success_count r + failure_count r \<and> timeout_count r = 0 \<and>
        length (recent_failures r) \<le> 10 \<and>
        (h_status r = Healthy \<longrightarrow> consecutive_failures r < degrade) \<and>
        (h_status r \<noteq> Disabled \<longrightarrow> consecutive_failures r < disable))"

definition health_ok :: "tool_health_tracker \<Rightarrow> bool" where
  "health_ok th \<longleftrightarrow> hm_wf (health_records th) \<and> 0 < degrade_threshold th \<and> 0 < disable_threshold th \<and>
     list_all (record_ok (degrade_threshold th) (disable_threshold th)) (health_records th)"

lemma record_ok_new: "0 < a \<Longrightarrow> 0 < b \<Longrightarrow> record_ok a b (k, health_record_new now k)"
  by (simp add: record_ok_def health_record_new_def)

lemma record_ok_success:
  "0 < a \<Longrightarrow> 0 < b \<Longrightarrow> record_ok a b (k, r) \<Longrightarrow> record_ok a b (k, success_update now r)"
  by (auto simp: record_ok_def success_update_def Let_def)

lemma record_ok_failure:
  assumes "record_ok (degrade_threshold th) (disable_threshold th) (k, r)"
  shows "record_ok (degrade_threshold th) (disable_threshold th) (k, failure_update th now reason r)"
  using assms by (auto simp: record_ok_def failure_update_def Let_def not_le)

lemma record_ok_recover:
  "0 < a \<Longrightarrow> 0 < b \<Longrightarrow> record_ok a b (k, r) \<Longrightarrow> record_ok a b (k, maybe_recover elapsed now th r)"
  by (auto simp: record_ok_def maybe_recover_def split: option.splits)

lemma list_all_insert:
  "P (k, v) \<Longrightarrow> list_all P m \<Longrightarrow> list_all P (hm_insert k v m)"
  by (induction m) auto

lemma list_all_remove: "list_all P m \<Longrightarrow> list_all P (hm_remove k m)"
  by (simp add: AList.delete_eq list_all_iff)

lemma list_all_get: "list_all P m \<Longrightarrow> hm_get m k = Some v \<Longrightarrow> P (k, v)"
  by (auto simp: list_all_iff dest: map_of_SomeD)

lemma health_ok_with_entry:
  assumes "health_ok th"
    and "\<And>r. record_ok (degrade_threshold th) (disable_threshold th) (k, r) \<Longrightarrow>
           record_ok (degrade_threshold th) (disable_threshold th) (k, f r)"
  shows "health_ok (with_entry now k f th)"
  using assms list_all_get [of _ "health_records th" k]
  by (auto simp: health_ok_def with_entry_def Let_def hm_wf_insert record_ok_new
      intro!: list_all_insert split: option.splits)

lemma health_ok_recover_all: "health_ok th \<Longrightarrow> health_ok (recover_all elapsed now th)"
  by (auto simp: health_ok_def recover_all_def hm_wf_def list_all_iff record_ok_recover comp_def case_prod_unfold)

lemma health_ok_reset: "health_ok th \<Longrightarrow> health_ok (reset_tool t th)"
  by (simp add: health_ok_def reset_tool_def hm_wf_remove list_all_remove)

lemma health_ok_available: "health_ok th \<Longrightarrow> health_ok (fst (is_available elapsed now t th))"
  using list_all_get [of _ "health_records th" t]
  by (auto simp: health_ok_def is_available_def Let_def hm_wf_insert
      intro!: list_all_insert record_ok_recover split: option.splits)

lemma health_step_ok: "health_ok th \<Longrightarrow> health_ok (health_step elapsed c th)"
  by (cases c) (auto simp: record_success_def record_failure_def get_warnings_def health_snapshot_def Let_def
      health_ok_reset health_ok_available health_ok_recover_all record_ok_failure
      intro!: health_ok_with_entry record_ok_success [where k = k for k] simp: health_ok_def [of th])

interpretation health: machine "health_step elapsed" health_ok for elapsed
  by unfold_locales (rule health_step_ok)

text \<open>
  C15. After every history of recorded successes and failures, resets, availability checks, warnings and
  snapshots of a fresh tracker, each tool has one record, its counters add up, at most the last ten
  failure reasons are kept, and a tool with three (six) consecutive failures is not healthy (disabled).
\<close>

theorem health_history_ok: "health_ok (fold (health_step elapsed) ops health_new)"
  by (rule health.run_inv) (simp add: health_ok_def health_new_def)

section \<open>The course of repeated failures\<close>

definition fail_all :: "string \<Rightarrow> (string \<times> string) list \<Rightarrow> tool_health_tracker \<Rightarrow> tool_health_tracker" where
  "fail_all t events th = fold (\<lambda>(now, reason). record_failure now t reason) events th"

lemma fail_all_thresholds [simp]:
  "degrade_threshold (fail_all t events th) = degrade_threshold th"
  "disable_threshold (fail_all t events th) = disable_threshold th"
  "recovery_minutes (fail_all t events th) = recovery_minutes th"
  by (induction events arbitrary: th)
    (auto simp: fail_all_def record_failure_def with_entry_def Let_def split: prod.splits)

lemma fail_all_snoc: "fail_all t (events @ [(now, reason)]) th = record_failure now t reason (fail_all t events th)"
  by (simp add: fail_all_def)

text \<open>The record after a non-empty series of failures of a tool that had none.\<close>

definition failed_record :: "tool_health_tracker \<Rightarrow> (string \<times> string) list \<Rightarrow> tool_health_record \<Rightarrow> bool" where
  "failed_record th events r \<longleftrightarrow>
     (let n = length events; bad = unat (disable_threshold th) \<le> n \<or> unat (degrade_threshold th) \<le> n
      in unat (consecutive_failures r) = n \<and>
         h_status r = (if unat (disable_threshold th) \<le> n then Disabled
                       else if unat (degrade_threshold th) \<le> n then Degraded else Healthy) \<and>
         recent_failures r = drop (n - 10) (map snd events) \<and>
         last_status_change r = fst (if bad then last events else hd events))"

lemma failed_record_first: "failed_record th [(now, reason)] (failure_update th now reason (health_record_new now t))"
  by (auto simp: failed_record_def failure_update_def health_record_new_def Let_def word_le_nat_alt)

lemma failed_record_snoc:
  assumes "failed_record th events r" "events \<noteq> []" "Suc (length events) < 2 ^ 32"
  shows "failed_record th (events @ [(now, reason)]) (failure_update th now reason r)"
proof -
  have c: "unat (consecutive_failures r + 1) = Suc (length events)"
    using assms by (simp add: failed_record_def Let_def unat_word_ariths)
  have "Suc (length events - 10) = length events - 9" if "9 < length events" using that by simp
  with assms c show ?thesis
    by (auto simp: failed_record_def failure_update_def Let_def word_le_nat_alt hd_append Suc_diff_le)
qed

lemma fail_all_record:
  assumes "hm_get (health_records th) t = None" "events \<noteq> []" "length events < 2 ^ 32"
  shows "\<exists>r. hm_get (health_records (fail_all t events th)) t = Some r \<and> failed_record th events r"
  using assms(2,3)
proof (induction events rule: rev_induct)
  case (snoc e events)
  obtain now reason where e: "e = (now, reason)" by (cases e)
  have cong: "failure_update (fail_all t events th) = failure_update th"
    by (intro ext) (simp add: failure_update_def Let_def)
  show ?case
  proof (cases "events = []")
    case True
    with assms(1) show ?thesis
      by (simp add: e fail_all_def record_failure_def with_entry_def Let_def update_conv' failed_record_first)
  next
    case False
    with snoc obtain r where r: "hm_get (health_records (fail_all t events th)) t = Some r"
      "failed_record th events r" by auto
    with failed_record_snoc [OF r(2) False] snoc.prems show ?thesis
      by (simp add: e fail_all_snoc record_failure_def with_entry_def Let_def update_conv' cong)
  qed
qed simp

text \<open>
  A tool that fails again and again from a clean record is healthy below the degrade threshold,
  degraded from there, disabled from the disable threshold on, keeps the last ten reasons, and is
  available exactly while it is not disabled or once the recovery time since its last failure is over.
\<close>

lemma health_course:
  assumes "hm_get (health_records th) t = None" "events \<noteq> []" "length events < 2 ^ 32"
  shows "(\<exists>r. hm_get (health_records (fail_all t events th)) t = Some r \<and>
        h_status r = (if unat (disable_threshold th) \<le> length events then Disabled
                      else if unat (degrade_threshold th) \<le> length events then Degraded else Healthy) \<and>
        recent_failures r = drop (length events - 10) (map snd events)) \<and>
    (snd (is_available elapsed now t (fail_all t events th)) \<longleftrightarrow>
        length events < unat (disable_threshold th) \<or>
        (case elapsed now (fst (last events)) of Some m \<Rightarrow> m \<ge> uint (recovery_minutes th) | None \<Rightarrow> False))"
proof -
  obtain r where r: "hm_get (health_records (fail_all t events th)) t = Some r" "failed_record th events r"
    using fail_all_record [OF assms] by blast
  then show ?thesis
    by (auto simp: failed_record_def Let_def is_available_def maybe_recover_def split: option.splits if_splits)
qed

lemma health_course_witness:
  "let th = fail_all ''Bash'' (replicate 6 (''t'', ''e'')) health_new
   in snd (is_available (\<lambda>_ _. Some 5) ''u'' ''Bash'' th) = False \<and>
      snd (is_available (\<lambda>_ _. Some 30) ''u'' ''Bash'' th) = True"
  using health_course [of health_new "''Bash''" "replicate 6 (''t'', ''e'')"]
  by (simp add: health_new_def Let_def)

text \<open>
  Recovery clears the run of failures, so one more failure does not degrade the tool again, although the
  comment on \<open>is_available\<close> says it does.
\<close>

lemma recovered_needs_full_run:
  assumes "elapsed now (last_status_change r) = Some m" "m \<ge> uint (recovery_minutes th)"
    "1 < degrade_threshold th" "1 < disable_threshold th" "h_status r \<noteq> Healthy"
  shows "h_status (failure_update th now' reason (maybe_recover elapsed now th r)) = Healthy"
  using assms by (simp add: maybe_recover_def failure_update_def Let_def not_le)

end
