(* ===== verification/Bao_ToolExecutor.thy ===== *)
theory Bao_ToolExecutor
  imports Bao_Tools Bao_Permissions Bao_ToolHealth Bao_ToolPairing "HOL-Library.Multiset"
begin

text \<open>
  \<open>tools/executor.rs\<close>: the path of a tool call from the model's request through validation, permission
  check and interactive prompt to the call and its wrapped result, together with the overflow store of
  \<open>infra/tool_result_store.rs\<close>.

  A tool is a record of the trait's methods, which are arguments of the model: \<open>t_call\<close> answers from
  the calls made before and the present one, so that its effects on the outside world are whatever
  that history makes them. An asynchronous execution is cut at its suspension points: \<open>begin_request\<close>
  runs to the call or to the prompt, \<open>decide\<close> continues after the prompt, \<open>finish_call\<close> after the call.
  \<open>execute_tool_with_permission\<close> composes them; the system at the end interleaves many executions.
\<close>

section \<open>Data\<close>

text \<open>
  The bridge to the permission system, with the events sent to the clients, the context last written to
  the configuration file, and the calls made so far.
\<close>

record 'tx shared =
  manager :: tool_permission_context
  gate :: "'tx permission_gate"
  granted_dirs :: "path list"
  granted_write_dirs :: "path list"
  events :: "permission_event list"
  saved :: "tool_permission_context option"
  calls :: "tool_call list"

text \<open>What the surroundings of the executor contribute: file system, JSON rendering, disk, output limit.\<close>

record platform =
  p_fs :: file_system
  p_render :: "json \<Rightarrow> string option"
  p_write :: "path \<Rightarrow> string \<Rightarrow> bool"
  p_is_alphanumeric :: "string \<Rightarrow> bool"
  p_threshold :: nat

section \<open>Oversized results\<close>

definition should_persist :: "tool_result_store \<Rightarrow> string \<Rightarrow> bool" where
  "should_persist store content \<longleftrightarrow> length content > persist_threshold store"

definition safe_id :: "(string \<Rightarrow> bool) \<Rightarrow> string \<Rightarrow> string" where
  "safe_id is_alnum i =
     concat (map (\<lambda>c. if is_alnum c \<or> c = ''-'' \<or> c = ''_'' then c else ''_'') (chars i))"

definition persist :: "platform \<Rightarrow> tool_result_store \<Rightarrow> string \<Rightarrow> string \<Rightarrow> persisted_output option" where
  "persist pf store content tool_use_id =
     (if base_dir store = [] then None
      else let file = path_push (base_dir store) (safe_id (p_is_alphanumeric pf) tool_use_id @ ''.txt'')
           in if p_write pf file content
              then Some \<lparr>preview = take_chars 2000 content, po_file_path = file, total_chars = length content\<rparr>
              else None)"

definition format_persisted_output :: "persisted_output \<Rightarrow> string" where
  "format_persisted_output p =
     ''<persisted-output>\<newline>Output too large ('' @ show_nat (total_chars p div 1024) @
     '' KB). Full output saved to: '' @ po_file_path p @ ''\<newline>\<newline>Preview (first 2KB):\<newline>'' @
     preview p @ ''\<newline></persisted-output>''"

definition persist_and_format :: "platform \<Rightarrow> tool_result_store \<Rightarrow> string \<Rightarrow> string \<Rightarrow> string option" where
  "persist_and_format pf store content tool_use_id =
     (if \<not> should_persist store content then None
      else map_option format_persisted_output (persist pf store content tool_use_id))"

definition truncation_note :: "nat \<Rightarrow> string" where
  "truncation_note max_size_chars =
     ''\<newline>\<newline>[Result truncated: output exceeded '' @ show_nat max_size_chars @ '' characters]''"

definition maybe_persist_or_truncate :: "platform \<Rightarrow> json \<Rightarrow> nat \<Rightarrow> tool_context \<Rightarrow> string \<Rightarrow> json" where
  "maybe_persist_or_truncate pf data max_size_chars ctx tool_use_id =
     (case p_render pf data of
        None \<Rightarrow> data
      | Some serialized \<Rightarrow>
          if length serialized \<le> max_size_chars then data
          else let content_str = (case data of JString s \<Rightarrow> s
                     | other \<Rightarrow> (case p_render pf other of Some s \<Rightarrow> s | None \<Rightarrow> []));
                   formatted = Option.bind (result_store ctx) (\<lambda>store. persist_and_format pf store content_str tool_use_id)
               in case formatted of
                    Some f \<Rightarrow> JString f
                  | None \<Rightarrow> JString (take_chars max_size_chars serialized @ truncation_note max_size_chars))"

section \<open>Targets outside the working directory\<close>

text \<open>\<open>input.get(key)?.as_str()?.trim()\<close> resolved against the working directory, when validation refuses it.\<close>

definition out_of_cwd_target :: "file_system \<Rightarrow> string \<Rightarrow> json \<Rightarrow> path \<Rightarrow> path option" where
  "out_of_cwd_target fs key input c =
     (case get_str input key of
        None \<Rightarrow> None
      | Some raw \<Rightarrow>
          let p = str_trim raw
          in if p = [] then None
             else case resolve_and_validate_path fs p c [] of
                    Inr _ \<Rightarrow> None
                  | Inl _ \<Rightarrow> Some (normalize_path (path_push c p)))"

definition out_of_cwd_search_target :: "file_system \<Rightarrow> string \<Rightarrow> json \<Rightarrow> path \<Rightarrow> path option" where
  "out_of_cwd_search_target fs tool_name input c =
     (if tool_name \<noteq> ''GlobTool'' \<and> tool_name \<noteq> ''GrepTool'' \<and> tool_name \<noteq> ''FileRead'' then None
      else out_of_cwd_target fs (if tool_name = ''FileRead'' then ''file_path'' else ''path'') input c)"

definition out_of_cwd_write_target :: "file_system \<Rightarrow> string \<Rightarrow> json \<Rightarrow> path \<Rightarrow> path option" where
  "out_of_cwd_write_target fs tool_name input c =
     (if tool_name \<noteq> ''FileWrite'' \<and> tool_name \<noteq> ''FileEdit'' \<and> tool_name \<noteq> ''NotebookEditTool'' then None
      else out_of_cwd_target fs (if tool_name = ''NotebookEditTool'' then ''notebook_path'' else ''file_path'') input c)"

definition dir_granted :: "path list \<Rightarrow> path \<Rightarrow> bool" where
  "dir_granted dirs target = list_ex (path_starts_with target) dirs"

definition push_granted_dir :: "path \<Rightarrow> path list \<Rightarrow> path list" where
  "push_granted_dir dir dirs = dirs @ [dir]"

text \<open>Dropping a one-shot grant: the first entry that equals the directory as a path is removed.\<close>

fun remove_granted_dir :: "path \<Rightarrow> path list \<Rightarrow> path list" where
  "remove_granted_dir dir [] = []"
| "remove_granted_dir dir (d # ds) = (if components d = components dir then ds else d # remove_granted_dir dir ds)"

section \<open>One execution\<close>

datatype grant_guard = NoGuard | SearchGuard path | WriteGuard path

fun push_guard :: "grant_guard \<Rightarrow> 'tx shared \<Rightarrow> 'tx shared" where
  "push_guard NoGuard s = s"
| "push_guard (SearchGuard d) s = s\<lparr>granted_dirs := push_granted_dir d (granted_dirs s)\<rparr>"
| "push_guard (WriteGuard d) s = s\<lparr>granted_write_dirs := push_granted_dir d (granted_write_dirs s)\<rparr>"

fun drop_guard :: "grant_guard \<Rightarrow> 'tx shared \<Rightarrow> 'tx shared" where
  "drop_guard NoGuard s = s"
| "drop_guard (SearchGuard d) s = s\<lparr>granted_dirs := remove_granted_dir d (granted_dirs s)\<rparr>"
| "drop_guard (WriteGuard d) s = s\<lparr>granted_write_dirs := remove_granted_dir d (granted_write_dirs s)\<rparr>"

record parked =
  search_grant :: "path option"
  write_grant :: "path option"
  parked_persist :: bool

datatype task = Ready | Parked parked | Running grant_guard | Finished tool_execution_result | Cancelled

definition error_result :: "string \<Rightarrow> string \<Rightarrow> json \<Rightarrow> tool_execution_result" where
  "error_result i name out = \<lparr>te_tool_use_id = i, te_tool_name = name, te_output = out, te_is_error = True\<rparr>"

definition the_call :: "tool \<Rightarrow> tool_use_request \<Rightarrow> 'tx shared \<Rightarrow> tool_call" where
  "the_call tool req s = \<lparr>call_id = req_id req, call_name = t_name tool, call_input = req_input req,
     call_dirs = granted_dirs s, call_write_dirs = granted_write_dirs s\<rparr>"

text \<open>\<open>call_tool_and_wrap\<close> up to the call: nothing is called once the abort signal is set.\<close>

definition start_call :: "bool \<Rightarrow> tool \<Rightarrow> tool_use_request \<Rightarrow> grant_guard \<Rightarrow> 'tx shared \<Rightarrow> task \<times> 'tx shared" where
  "start_call aborted tool req guard s =
     (if aborted
      then (Finished (error_result (req_id req) (t_name tool)
              (JObject [(''error'', JString ''Tool execution aborted by user.'')])), drop_guard guard s)
      else (Running guard, s\<lparr>calls := calls s @ [the_call tool req s]\<rparr>))"

text \<open>The race of the call against the abort signal; \<open>abort_wins\<close> is the outcome of the \<open>select!\<close>.\<close>

definition call_tool_with_abort ::
  "tool \<Rightarrow> bool \<Rightarrow> tool_error + tool_result \<Rightarrow> tool_error + tool_result" where
  "call_tool_with_abort tool abort_wins res =
     (if t_aborts_internally tool then res else if abort_wins then Inl Aborted else res)"

definition wrap_outcome ::
  "platform \<Rightarrow> tool_context \<Rightarrow> tool \<Rightarrow> tool_use_request \<Rightarrow> tool_error + tool_result \<Rightarrow> tool_execution_result" where
  "wrap_outcome pf ctx tool req outcome =
     (case outcome of
        Inr result \<Rightarrow>
          \<lparr>te_tool_use_id = req_id req, te_tool_name = t_name tool,
           te_output = maybe_persist_or_truncate pf (tr_data result)
             (min (t_max_result_size_chars tool) (p_threshold pf)) ctx (req_id req),
           te_is_error = tr_is_error result\<rparr>
      | Inl err \<Rightarrow>
          error_result (req_id req) (t_name tool) (JString (''Tool execution error: '' @ tool_error_str err)))"

definition finish_call ::
  "platform \<Rightarrow> tool_context \<Rightarrow> tool \<Rightarrow> tool_use_request \<Rightarrow> tool_error + tool_result \<Rightarrow> grant_guard \<Rightarrow>
     'tx shared \<Rightarrow> task \<times> 'tx shared" where
  "finish_call pf ctx tool req outcome guard s =
     (Finished (wrap_outcome pf ctx tool req outcome), drop_guard guard s)"

text \<open>The prompt: the event is sent and the execution waits at the gate.\<close>

definition park :: "tool \<Rightarrow> tool_use_request \<Rightarrow> 'tx \<Rightarrow> path option \<Rightarrow> path option \<Rightarrow> 'tx shared \<Rightarrow> task \<times> 'tx shared" where
  "park tool req tx sg wg s =
     (let ev = \<lparr>ev_tool_name = t_name tool, ev_input = req_input req, ev_tool_use_id = req_id req,
                ev_ask_timeout_secs = max (ask_timeout_duration (manager s)) 1,
                ev_target_path = (case sg of Some p \<Rightarrow> Some p | None \<Rightarrow> wg)\<rparr>
      in (Parked \<lparr>search_grant = sg, write_grant = wg, parked_persist = persist_grants (manager s)\<rparr>,
          s\<lparr>events := events s @ [ev], gate := gate_request (req_id req) tx (gate s)\<rparr>))"

definition begin_request ::
  "platform \<Rightarrow> tool_context \<Rightarrow> tool \<Rightarrow> tool_use_request \<Rightarrow> 'tx \<Rightarrow> bool \<Rightarrow> 'tx shared \<Rightarrow> task \<times> 'tx shared" where
  "begin_request pf ctx tool req tx aborted s =
     (case t_validate_input tool (req_input req) ctx of
        Invalid message _ \<Rightarrow>
          (Finished (error_result (req_id req) (t_name tool) (JString (''Validation error: '' @ message))), s)
      | ValidationOk \<Rightarrow>
          (case check_permission (manager s) (t_name tool) (p_render pf (req_input req)) of
             Allow \<Rightarrow> start_call aborted tool req NoGuard s
           | Deny message \<Rightarrow>
               (Finished (error_result (req_id req) (t_name tool) (JString (''Permission denied: '' @ message))), s)
           | Ask _ \<Rightarrow>
               if t_is_read_only tool (req_input req) then
                 (case out_of_cwd_search_target (p_fs pf) (t_name tool) (req_input req) (cwd ctx) of
                    None \<Rightarrow> start_call aborted tool req NoGuard s
                  | Some target \<Rightarrow>
                      if dir_granted (granted_dirs s) target then start_call aborted tool req NoGuard s
                      else park tool req tx (Some target) None s)
               else
                 (case out_of_cwd_write_target (p_fs pf) (t_name tool) (req_input req) (cwd ctx) of
                    Some target \<Rightarrow>
                      if dir_granted (granted_write_dirs s) target then start_call aborted tool req NoGuard s
                      else park tool req tx None (Some target) s
                  | None \<Rightarrow> park tool req tx None None s)))"

definition grant_parent :: "path \<Rightarrow> path" where
  "grant_parent dir = (case path_parent dir of Some p \<Rightarrow> p | None \<Rightarrow> dir)"

definition search_grant_dir :: "string \<Rightarrow> path \<Rightarrow> path" where
  "search_grant_dir tool_name dir = (if tool_name = ''FileRead'' then grant_parent dir else dir)"

definition push_new_dir :: "string \<Rightarrow> string list \<Rightarrow> string list" where
  "push_new_dir x xs = (if x \<in> set xs then xs else xs @ [x])"

definition save_context :: "bool \<Rightarrow> 'tx shared \<Rightarrow> 'tx shared" where
  "save_context persist_it s = (if persist_it then s\<lparr>saved := Some (manager s)\<rparr> else s)"

text \<open>What an \<open>AllowAlways\<close> answer records before the call.\<close>

definition record_always :: "tool \<Rightarrow> string option \<Rightarrow> parked \<Rightarrow> 'tx shared \<Rightarrow> 'tx shared" where
  "record_always tool rule p s =
     save_context (parked_persist p)
       (case search_grant p of
          Some dir \<Rightarrow>
            let d = search_grant_dir (t_name tool) dir
            in s\<lparr>granted_dirs := push_granted_dir d (granted_dirs s),
                 manager := update_context (\<lambda>c. c\<lparr>additional_search_dirs := push_new_dir d (additional_search_dirs c)\<rparr>) (manager s)\<rparr>
        | None \<Rightarrow>
            (case write_grant p of
               Some dir \<Rightarrow>
                 let d = grant_parent dir
                 in s\<lparr>granted_write_dirs := push_granted_dir d (granted_write_dirs s),
                      manager := update_context (\<lambda>c. c\<lparr>additional_write_dirs := push_new_dir d (additional_write_dirs c)\<rparr>) (manager s)\<rparr>
             | None \<Rightarrow> s\<lparr>manager := add_allow_always_rule ''user'' (t_name tool) rule (manager s)\<rparr>))"

definition one_shot_guard :: "parked \<Rightarrow> grant_guard" where
  "one_shot_guard p =
     (case (search_grant p, write_grant p) of
        (Some dir, _) \<Rightarrow> SearchGuard dir | (None, Some dir) \<Rightarrow> WriteGuard dir | (None, None) \<Rightarrow> NoGuard)"

definition decide ::
  "tool \<Rightarrow> tool_use_request \<Rightarrow> bool \<Rightarrow> permission_decision \<Rightarrow> parked \<Rightarrow> 'tx shared \<Rightarrow> task \<times> 'tx shared" where
  "decide tool req aborted decision p s =
     (case decision of
        AllowDecision \<Rightarrow> start_call aborted tool req (one_shot_guard p) (push_guard (one_shot_guard p) s)
      | AllowAlways rule \<Rightarrow> start_call aborted tool req NoGuard (record_always tool rule p s)
      | DenyDecision \<Rightarrow>
          (Finished (error_result (req_id req) (t_name tool) (JString ''Permission denied by user'')), s))"

text \<open>The end of the wait for an answer: a closed channel and the timeout deny.\<close>

datatype wait_outcome = Answered permission_decision | ChannelClosed | TimedOut

primrec wait_decision :: "wait_outcome \<Rightarrow> permission_decision" where
  "wait_decision (Answered d) = d"
| "wait_decision ChannelClosed = DenyDecision"
| "wait_decision TimedOut = DenyDecision"

text \<open>
  What happens around one execution: the sender of its prompt, the end of the wait and what other
  executions do meanwhile, the abort signal before the call and its race against the call.
\<close>

record 'tx surroundings =
  sr_tx :: 'tx
  sr_wait :: wait_outcome
  sr_meanwhile :: "'tx shared \<Rightarrow> 'tx shared"
  sr_aborted :: bool
  sr_abort_wins :: bool

definition run_call ::
  "platform \<Rightarrow> tool_context \<Rightarrow> tool \<Rightarrow> tool_use_request \<Rightarrow> bool \<Rightarrow> task \<times> 'tx shared \<Rightarrow> task \<times> 'tx shared" where
  "run_call pf ctx tool req abort_wins ts =
     (case ts of
        (Running guard, s) \<Rightarrow>
          finish_call pf ctx tool req
            (call_tool_with_abort tool abort_wins (t_call tool (butlast (calls s)) (last (calls s)))) guard s
      | _ \<Rightarrow> ts)"

definition execute_tool_with_permission ::
  "platform \<Rightarrow> tool_context \<Rightarrow> tool \<Rightarrow> tool_use_request \<Rightarrow> 'tx surroundings \<Rightarrow> 'tx shared \<Rightarrow> task \<times> 'tx shared" where
  "execute_tool_with_permission pf ctx tool req sr s =
     run_call pf ctx tool req (sr_abort_wins sr)
       (case begin_request pf ctx tool req (sr_tx sr) (sr_aborted sr) s of
          (Parked p, s') \<Rightarrow> decide tool req (sr_aborted sr) (wait_decision (sr_wait sr)) p (sr_meanwhile sr s')
        | other \<Rightarrow> other)"

text \<open>The direct path without a prompt, which refuses what would have to be asked.\<close>

definition execute_tool ::
  "platform \<Rightarrow> tool_context \<Rightarrow> tool \<Rightarrow> tool_use_request \<Rightarrow> bool \<Rightarrow> 'tx shared \<Rightarrow> task \<times> 'tx shared" where
  "execute_tool pf ctx tool req abort_wins s =
     (let refuse = (\<lambda>m. (Finished (error_result (req_id req) (t_name tool) (JString m)), s));
          go = run_call pf ctx tool req abort_wins (start_call False tool req NoGuard s)
      in case t_validate_input tool (req_input req) ctx of
           Invalid message _ \<Rightarrow> refuse (''Validation error: '' @ message)
         | ValidationOk \<Rightarrow>
             (case t_check_permissions tool (req_input req) ctx of
                ToolAllow _ \<Rightarrow> go
              | ToolDeny message \<Rightarrow> refuse (''Permission denied: '' @ message)
              | ToolAsk message _ \<Rightarrow>
                  if t_is_read_only tool (req_input req) then go
                  else refuse (''Permission denied: confirmation required for non-read-only tool '' @
                    quoted (t_name tool) @ '' ('' @ message @
                    ''); interactive permission channel not available in direct execution mode'')))"

section \<open>A batch of executions\<close>

definition find_tool :: "tool list \<Rightarrow> string \<Rightarrow> tool option" where
  "find_tool tools name =
     (let name_lower = to_ascii_lowercase name
      in List.find (\<lambda>t. to_ascii_lowercase (t_name t) = name_lower \<or>
           list_ex (\<lambda>alias. to_ascii_lowercase alias = name_lower) (t_aliases t)) tools)"

fun task_result :: "task \<Rightarrow> tool_execution_result option" where
  "task_result (Finished r) = Some r"
| "task_result _ = None"

text \<open>The clock of the health tracker: the present time and the minutes since a time stamp.\<close>

record clock =
  ck_now :: string
  ck_elapsed :: "string \<Rightarrow> string \<Rightarrow> int option"

type_synonym 'tx executor = "'tx shared \<times> tool_health_tracker option"

definition disabled_result :: "tool \<Rightarrow> tool_use_request \<Rightarrow> tool_execution_result" where
  "disabled_result tool req = error_result (req_id req) (t_name tool)
     (JString (no_entry_sign @ '' Tool '' @ quoted (t_name tool) @
       '' is temporarily disabled after repeated failures. Use an alternative tool or try again later.''))"

definition check_health :: "clock \<Rightarrow> tool \<Rightarrow> tool_health_tracker option \<Rightarrow> tool_health_tracker option \<times> bool" where
  "check_health ck tool health =
     (case health of
        None \<Rightarrow> (None, True)
      | Some th \<Rightarrow>
          let (th', available) = is_available (ck_elapsed ck) (ck_now ck) (t_name tool) th in (Some th', available))"

definition dispatch_tool ::
  "platform \<Rightarrow> tool_context \<Rightarrow> clock \<Rightarrow> bool \<Rightarrow> tool \<Rightarrow> tool_use_request \<Rightarrow> 'tx surroundings \<Rightarrow>
     'tx executor \<Rightarrow> task \<times> 'tx executor" where
  "dispatch_tool pf ctx ck gated tool req sr st =
     (let (health', available) = check_health ck tool (snd st)
      in if \<not> available then (Finished (disabled_result tool req), (fst st, health'))
         else let (t, s') = (if gated then execute_tool_with_permission pf ctx tool req sr (fst st)
                             else execute_tool pf ctx tool req (sr_abort_wins sr) (fst st))
              in (t, (s', health')))"

type_synonym job = "nat \<times> tool_use_request \<times> tool"

definition batch_jobs :: "tool list \<Rightarrow> tool_use_request list \<Rightarrow> (nat \<times> tool_use_request \<times> tool option) list" where
  "batch_jobs tools reqs = map (\<lambda>(idx, req). (idx, req, find_tool tools (req_name req))) (List.enumerate 0 reqs)"

definition concurrent_jobs :: "tool list \<Rightarrow> tool_use_request list \<Rightarrow> job list" where
  "concurrent_jobs tools reqs = List.map_filter (\<lambda>(idx, req, t). case t of
     Some tool \<Rightarrow> if t_is_concurrency_safe tool (req_input req) then Some (idx, req, tool) else None
   | None \<Rightarrow> None) (batch_jobs tools reqs)"

definition sequential_jobs :: "tool list \<Rightarrow> tool_use_request list \<Rightarrow> job list" where
  "sequential_jobs tools reqs = List.map_filter (\<lambda>(idx, req, t). case t of
     Some tool \<Rightarrow> if t_is_concurrency_safe tool (req_input req) then None else Some (idx, req, tool)
   | None \<Rightarrow> None) (batch_jobs tools reqs)"

definition not_found_jobs :: "tool list \<Rightarrow> tool_use_request list \<Rightarrow> (nat \<times> tool_use_request) list" where
  "not_found_jobs tools reqs = List.map_filter (\<lambda>(idx, req, t). case t of
     Some _ \<Rightarrow> None | None \<Rightarrow> Some (idx, req)) (batch_jobs tools reqs)"

definition run_job ::
  "platform \<Rightarrow> tool_context \<Rightarrow> clock \<Rightarrow> bool \<Rightarrow> (nat \<Rightarrow> 'tx surroundings) \<Rightarrow> job \<Rightarrow>
     tool_execution_result option list \<times> 'tx executor \<Rightarrow> tool_execution_result option list \<times> 'tx executor" where
  "run_job pf ctx ck gated srs j rs =
     (case j of (idx, req, tool) \<Rightarrow>
        let (t, st') = dispatch_tool pf ctx ck gated tool req (srs idx) (snd rs)
        in ((fst rs)[idx := task_result t], st'))"

definition not_found_result :: "tool_use_request \<Rightarrow> tool_execution_result" where
  "not_found_result req = error_result (req_id req) (req_name req)
     (JString (''Tool '' @ quoted (req_name req) @ '' not found''))"

definition unfilled_result :: "tool_use_request \<Rightarrow> tool_execution_result" where
  "unfilled_result req = error_result (req_id req) (req_name req)
     (JString ''Internal error: tool execution slot not filled'')"

text \<open>
  The concurrent jobs run in the order \<open>order\<close> in which they are scheduled; what happens while one of
  them waits for an answer is part of its surroundings.
\<close>

definition execute_tools ::
  "platform \<Rightarrow> tool_context \<Rightarrow> clock \<Rightarrow> bool \<Rightarrow> (nat \<Rightarrow> 'tx surroundings) \<Rightarrow> (job list \<Rightarrow> job list) \<Rightarrow>
     tool list \<Rightarrow> tool_use_request list \<Rightarrow> 'tx executor \<Rightarrow> tool_execution_result list \<times> 'tx executor" where
  "execute_tools pf ctx ck gated srs order tools reqs st =
     (if reqs = [] then ([], st)
      else let (r1, st1) = fold (run_job pf ctx ck gated srs)
                 (order (concurrent_jobs tools reqs) @ sequential_jobs tools reqs) (replicate (length reqs) None, st);
               r2 = fold (\<lambda>(idx, req) r. r[idx := Some (not_found_result req)]) (not_found_jobs tools reqs) r1
           in (map (\<lambda>(idx, res). case res of Some r \<Rightarrow> r | None \<Rightarrow> unfilled_result (reqs ! idx)) (List.enumerate 0 r2), st1))"

section \<open>Every execution ends with a result for its request\<close>

definition settled :: "tool \<Rightarrow> tool_use_request \<Rightarrow> task \<Rightarrow> bool" where
  "settled tool req t \<longleftrightarrow> (case task_result t of
     Some r \<Rightarrow> te_tool_use_id r = req_id req \<and> te_tool_name r = t_name tool | None \<Rightarrow> False)"

lemma settled_error [simp]: "settled tool req (Finished (error_result (req_id req) (t_name tool) out))"
  by (simp add: settled_def error_result_def)

lemma settled_finish [simp]: "settled tool req (fst (finish_call pf ctx tool req outcome guard s))"
  by (simp add: settled_def finish_call_def wrap_outcome_def error_result_def split: sum.split)

lemma settled_run_start [simp]: "settled tool req (fst (run_call pf ctx tool req w (start_call a tool req g s)))"
  by (simp add: run_call_def start_call_def)

lemma run_call_Finished [simp]: "run_call pf ctx tool req w (Finished r, s) = (Finished r, s)"
  by (simp add: run_call_def)

lemma settled_decide [simp]: "settled tool req (fst (run_call pf ctx tool req w (decide tool req a d p s)))"
  by (cases d) (simp_all add: decide_def)

text \<open>
  A request runs without a prompt when the rules allow it, or when they ask for a read-only tool that
  stays inside the working directory or a granted search directory, or for a write outside the working
  directory to a granted write directory.
\<close>

definition start_approved :: "platform \<Rightarrow> tool_context \<Rightarrow> tool \<Rightarrow> tool_use_request \<Rightarrow> 'tx shared \<Rightarrow> bool" where
  "start_approved pf ctx tool req s \<longleftrightarrow>
     t_validate_input tool (req_input req) ctx = ValidationOk \<and>
     (case check_permission (manager s) (t_name tool) (p_render pf (req_input req)) of
        Allow \<Rightarrow> True
      | Deny _ \<Rightarrow> False
      | Ask _ \<Rightarrow>
          if t_is_read_only tool (req_input req)
          then (case out_of_cwd_search_target (p_fs pf) (t_name tool) (req_input req) (cwd ctx) of
                  None \<Rightarrow> True | Some target \<Rightarrow> dir_granted (granted_dirs s) target)
          else (case out_of_cwd_write_target (p_fs pf) (t_name tool) (req_input req) (cwd ctx) of
                  None \<Rightarrow> False | Some target \<Rightarrow> dir_granted (granted_write_dirs s) target))"

lemma begin_request_disj:
  "(\<exists>out. begin_request pf ctx tool req tx a s = (Finished (error_result (req_id req) (t_name tool) out), s)) \<or>
   (start_approved pf ctx tool req s \<and> begin_request pf ctx tool req tx a s = start_call a tool req NoGuard s) \<or>
   (\<exists>sg wg. begin_request pf ctx tool req tx a s = park tool req tx sg wg s)"
  unfolding begin_request_def start_approved_def
  by (cases "t_validate_input tool (req_input req) ctx";
      cases "check_permission (manager s) (t_name tool) (p_render pf (req_input req))")
    (auto split: option.splits)

lemma begin_request_cases [consumes 0, case_names refused started parked]:
  obtains out where "begin_request pf ctx tool req tx a s = (Finished (error_result (req_id req) (t_name tool) out), s)"
  | "start_approved pf ctx tool req s" "begin_request pf ctx tool req tx a s = start_call a tool req NoGuard s"
  | sg wg where "begin_request pf ctx tool req tx a s = park tool req tx sg wg s"
  using begin_request_disj [of pf ctx tool req tx a s] by blast

lemma execute_with_permission_settled:
  "settled tool req (fst (execute_tool_with_permission pf ctx tool req sr s))"
proof (cases rule: begin_request_cases [where pf = pf and ctx = ctx and tool = tool and req = req and
      tx = "sr_tx sr" and a = "sr_aborted sr" and s = s])
  case started
  then show ?thesis
    by (simp add: execute_tool_with_permission_def start_call_def run_call_def)
qed (simp_all add: execute_tool_with_permission_def park_def Let_def)

lemma execute_tool_settled: "settled tool req (fst (execute_tool pf ctx tool req w s))"
  by (simp add: execute_tool_def Let_def split: validation_result.split tool_permission_check_result.split)

lemma dispatch_settled: "settled tool req (fst (dispatch_tool pf ctx ck gated tool req sr st))"
  using execute_with_permission_settled [of tool req pf ctx sr "fst st"]
    execute_tool_settled [of tool req pf ctx "sr_abort_wins sr" "fst st"]
  by (auto simp: dispatch_tool_def disabled_result_def Let_def split: prod.split)

section \<open>One result per request\<close>

definition answering_name :: "tool list \<Rightarrow> tool_use_request \<Rightarrow> string" where
  "answering_name tools req = (case find_tool tools (req_name req) of Some t \<Rightarrow> t_name t | None \<Rightarrow> req_name req)"

definition answers :: "tool list \<Rightarrow> tool_use_request \<Rightarrow> tool_execution_result \<Rightarrow> bool" where
  "answers tools req r \<longleftrightarrow> te_tool_use_id r = req_id req \<and> te_tool_name r = answering_name tools req"

definition slots_ok :: "tool list \<Rightarrow> tool_use_request list \<Rightarrow> nat set \<Rightarrow> tool_execution_result option list \<Rightarrow> bool" where
  "slots_ok tools reqs filled r \<longleftrightarrow> length r = length reqs \<and>
     (\<forall>i<length reqs. (i \<in> filled \<longrightarrow> r ! i \<noteq> None) \<and> (\<forall>x. r ! i = Some x \<longrightarrow> answers tools (reqs ! i) x))"

lemma slots_ok_update:
  "slots_ok tools reqs A r \<Longrightarrow> answers tools (reqs ! i) x \<Longrightarrow> slots_ok tools reqs (insert i A) (r[i := Some x])"
  by (cases "i < length reqs") (auto simp: slots_ok_def nth_list_update)

lemma in_batch: "(i, req, t) \<in> set (batch_jobs tools reqs) \<longleftrightarrow>
    i < length reqs \<and> req = reqs ! i \<and> t = find_tool tools (req_name req)"
  by (force simp: batch_jobs_def in_set_enumerate_eq)

lemma in_concurrent: "(i, req, t) \<in> set (concurrent_jobs tools reqs) \<longleftrightarrow>
    i < length reqs \<and> req = reqs ! i \<and> find_tool tools (req_name req) = Some t \<and> t_is_concurrency_safe t (req_input req)"
  unfolding concurrent_jobs_def map_filter_roots Bex_def split_paired_Ex in_batch
  by (auto split: option.splits if_splits)

lemma in_sequential: "(i, req, t) \<in> set (sequential_jobs tools reqs) \<longleftrightarrow>
    i < length reqs \<and> req = reqs ! i \<and> find_tool tools (req_name req) = Some t \<and> \<not> t_is_concurrency_safe t (req_input req)"
  unfolding sequential_jobs_def map_filter_roots Bex_def split_paired_Ex in_batch
  by (auto split: option.splits if_splits)

lemma in_not_found: "(i, req) \<in> set (not_found_jobs tools reqs) \<longleftrightarrow>
    i < length reqs \<and> req = reqs ! i \<and> find_tool tools (req_name req) = None"
  unfolding not_found_jobs_def map_filter_roots Bex_def split_paired_Ex in_batch
  by (auto split: option.splits)

lemma run_job_slots:
  assumes "slots_ok tools reqs A (fst rs)" "find_tool tools (req_name (reqs ! i)) = Some tool"
  shows "slots_ok tools reqs (insert i A) (fst (run_job pf ctx ck gated srs (i, reqs ! i, tool) rs))"
proof -
  let ?d = "dispatch_tool pf ctx ck gated tool (reqs ! i) (srs i) (snd rs)"
  obtain x where "task_result (fst ?d) = Some x" "answers tools (reqs ! i) x"
    using dispatch_settled [of tool "reqs ! i" pf ctx ck gated "srs i" "snd rs"] assms(2)
    by (auto simp: settled_def answers_def answering_name_def split: option.splits)
  with slots_ok_update [OF assms(1), of i x] show ?thesis
    by (simp add: run_job_def Let_def case_prod_unfold)
qed

definition valid_job :: "tool list \<Rightarrow> tool_use_request list \<Rightarrow> job \<Rightarrow> bool" where
  "valid_job tools reqs j \<longleftrightarrow> fst (snd j) = reqs ! fst j \<and> find_tool tools (req_name (reqs ! fst j)) = Some (snd (snd j))"

lemma run_jobs_slots:
  "list_all (valid_job tools reqs) js \<Longrightarrow> slots_ok tools reqs A (fst rs) \<Longrightarrow>
   slots_ok tools reqs (A \<union> fst ` set js) (fst (fold (run_job pf ctx ck gated srs) js rs))"
proof (induction js arbitrary: A rs)
  case (Cons j js)
  then have "j = (fst j, reqs ! fst j, snd (snd j))" "find_tool tools (req_name (reqs ! fst j)) = Some (snd (snd j))"
    by (cases j; simp add: valid_job_def)+
  from run_job_slots [OF Cons.prems(2) this(2), of pf ctx ck gated srs]
  have "slots_ok tools reqs (insert (fst j) A) (fst (run_job pf ctx ck gated srs j rs))"
    by (subst \<open>j = _\<close>)
  from Cons.IH [OF _ this] Cons.prems(1) show ?case by simp
qed simp

definition unknown_job :: "tool list \<Rightarrow> tool_use_request list \<Rightarrow> nat \<times> tool_use_request \<Rightarrow> bool" where
  "unknown_job tools reqs j \<longleftrightarrow> snd j = reqs ! fst j \<and> find_tool tools (req_name (reqs ! fst j)) = None"

lemma not_found_slots:
  "list_all (unknown_job tools reqs) js \<Longrightarrow> slots_ok tools reqs A r \<Longrightarrow>
   slots_ok tools reqs (A \<union> fst ` set js) (fold (\<lambda>(idx, req) r. r[idx := Some (not_found_result req)]) js r)"
proof (induction js arbitrary: A r)
  case (Cons j js)
  then have "answers tools (reqs ! fst j) (not_found_result (snd j))"
    by (simp add: unknown_job_def answers_def answering_name_def not_found_result_def error_result_def)
  from Cons.IH [OF _ slots_ok_update [OF Cons.prems(2) this]] Cons.prems(1) show ?case
    by (simp add: case_prod_unfold)
qed simp

lemma jobs_valid:
  "list_all (valid_job tools reqs) (concurrent_jobs tools reqs)"
  "list_all (valid_job tools reqs) (sequential_jobs tools reqs)"
  "list_all (unknown_job tools reqs) (not_found_jobs tools reqs)"
  by (auto simp: list_all_iff valid_job_def unknown_job_def in_concurrent in_sequential in_not_found)

lemma every_request_has_a_job:
  assumes "i < length reqs"
  shows "i \<in> fst ` set (concurrent_jobs tools reqs) \<union> fst ` set (sequential_jobs tools reqs) \<union>
    fst ` set (not_found_jobs tools reqs)"
proof (cases "find_tool tools (req_name (reqs ! i))")
  case None
  then have "(i, reqs ! i) \<in> set (not_found_jobs tools reqs)" by (simp add: in_not_found assms)
  then show ?thesis by force
next
  case (Some t)
  then have "(i, reqs ! i, t) \<in> set (concurrent_jobs tools reqs) \<union> set (sequential_jobs tools reqs)"
    by (simp add: in_concurrent in_sequential assms)
  then show ?thesis by force
qed

lemma filled_slots_map:
  assumes "slots_ok tools reqs A r" "{..<length reqs} \<subseteq> A"
  shows "map (\<lambda>r. (te_tool_use_id r, te_tool_name r))
      (map (\<lambda>(idx, res). case res of Some r \<Rightarrow> r | None \<Rightarrow> unfilled_result (reqs ! idx)) (List.enumerate 0 r)) =
    map (\<lambda>req. (req_id req, answering_name tools req)) reqs" (is "?l = ?r")
proof (rule nth_equalityI)
  show "length ?l = length ?r" using assms(1) by (simp add: slots_ok_def)
  fix i assume "i < length ?l"
  then have i: "i < length reqs" "length r = length reqs" using assms(1) by (auto simp: slots_ok_def)
  with assms obtain x where "r ! i = Some x" "answers tools (reqs ! i) x"
    unfolding slots_ok_def by blast
  with i show "?l ! i = ?r ! i" by (simp add: nth_enumerate_eq answers_def)
qed

lemma one_result_per_request:
  assumes "set (order (concurrent_jobs tools reqs)) = set (concurrent_jobs tools reqs)"
  shows "map (\<lambda>r. (te_tool_use_id r, te_tool_name r)) (fst (execute_tools pf ctx ck gated srs order tools reqs st)) =
    map (\<lambda>req. (req_id req, answering_name tools req)) reqs"
proof (cases "reqs = []")
  case False
  let ?js = "order (concurrent_jobs tools reqs) @ sequential_jobs tools reqs"
  obtain r1 st1 where run: "fold (run_job pf ctx ck gated srs) ?js (replicate (length reqs) None, st) = (r1, st1)"
    by (cases "fold (run_job pf ctx ck gated srs) ?js (replicate (length reqs) None, st)")
  define r2 where "r2 = fold (\<lambda>(idx, req) r. r[idx := Some (not_found_result req)]) (not_found_jobs tools reqs) r1"
  have "list_all (valid_job tools reqs) ?js" using jobs_valid(1,2) [of tools reqs] assms by (auto simp: list_all_iff)
  then have "slots_ok tools reqs ({} \<union> fst ` set ?js) r1"
    using run_jobs_slots [of tools reqs ?js "{}" "(replicate (length reqs) None, st)" pf ctx ck gated srs]
    by (simp add: run slots_ok_def del: fold_append)
  then have "slots_ok tools reqs (({} \<union> fst ` set ?js) \<union> fst ` set (not_found_jobs tools reqs)) r2"
    unfolding r2_def by (rule not_found_slots [OF jobs_valid(3)])
  moreover have "{..<length reqs} \<subseteq> ({} \<union> fst ` set ?js) \<union> fst ` set (not_found_jobs tools reqs)"
    using every_request_has_a_job assms by (auto simp: image_Un)
  ultimately show ?thesis using False
    by (simp only: execute_tools_def Let_def if_False fst_conv run prod.case r2_def [symmetric] filled_slots_map)
qed (simp add: execute_tools_def)

text \<open>
  A batch returns exactly one result per request, in the order of the requests, each with the id of
  its request and the name of the tool that answered, whatever the tools do, however the concurrent ones
  are scheduled, answered or aborted.
\<close>

lemma execute_tools_one_to_one:
  assumes "set (order (concurrent_jobs tools reqs)) = set (concurrent_jobs tools reqs)"
  shows "map (\<lambda>r. (te_tool_use_id r, te_tool_name r)) (fst (execute_tools pf ctx ck gated srs order tools reqs st)) =
    map (\<lambda>req. (req_id req, answering_name tools req)) reqs"
  using assms by (rule one_result_per_request)

text \<open>An idle platform and an empty bridge, for the witnesses.\<close>

definition idle_platform :: platform where
  "idle_platform = \<lparr>p_fs = linked_fs, p_render = (\<lambda>_. Some ''{}''), p_write = (\<lambda>_ _. False),
     p_is_alphanumeric = (\<lambda>_. True), p_threshold = 1000\<rparr>"

definition sample_context :: tool_context where
  "sample_context = \<lparr>cwd = ''/w'', result_store = None\<rparr>"

definition fresh_shared :: "'tx shared" where
  "fresh_shared = \<lparr>manager = default_context, gate = gate_new, granted_dirs = [], granted_write_dirs = [],
     events = [], saved = None, calls = []\<rparr>"

definition quiet :: "wait_outcome \<Rightarrow> nat \<Rightarrow> nat surroundings" where
  "quiet w i = \<lparr>sr_tx = i, sr_wait = w, sr_meanwhile = id, sr_aborted = False, sr_abort_wins = False\<rparr>"

lemma execute_tools_one_to_one_witness:
  "map (\<lambda>r. (te_tool_use_id r, te_tool_name r))
     (fst (execute_tools idle_platform sample_context \<lparr>ck_now = [], ck_elapsed = (\<lambda>_ _. None)\<rparr> True (quiet TimedOut) rev
        [sample_tool ''Read'' True, sample_tool ''Edit'' False]
        [\<lparr>req_id = ''1'', req_name = ''edit'', req_input = JNull\<rparr>, \<lparr>req_id = ''2'', req_name = ''none'', req_input = JNull\<rparr>,
         \<lparr>req_id = ''3'', req_name = ''aliasRead'', req_input = JNull\<rparr>] (fresh_shared, None))) =
   [(''1'', ''Edit''), (''2'', ''none''), (''3'', ''Read'')]"
proof -
  have "answering_name [sample_tool ''Read'' True, sample_tool ''Edit'' False] \<lparr>req_id = ''1'', req_name = ''edit'', req_input = JNull\<rparr> = ''Edit''"
    "answering_name [sample_tool ''Read'' True, sample_tool ''Edit'' False] \<lparr>req_id = ''2'', req_name = ''none'', req_input = JNull\<rparr> = ''none''"
    "answering_name [sample_tool ''Read'' True, sample_tool ''Edit'' False] \<lparr>req_id = ''3'', req_name = ''aliasRead'', req_input = JNull\<rparr> = ''Read''"
    by code_simp+
  then show ?thesis by (subst execute_tools_one_to_one) (simp_all del: One_nat_def)
qed

section \<open>Interleaved executions\<close>

text \<open>
  Many executions over one bridge. A label names what happens next: an execution starts, its wait ends,
  its call ends with some outcome, its future is dropped, or a permission handler of the server changes the rules or the
  pending prompts. A label that does not fit the state of its execution does nothing.
\<close>

datatype 'tx label =
    Start nat 'tx bool
  | EndWait nat wait_outcome bool
  | EndCall nat bool "tool_error + tool_result"
  | Drop nat
  | Handler "tool_permission_context \<times> 'tx permission_gate \<Rightarrow> tool_permission_context \<times> 'tx permission_gate"

record 'tx system =
  sys_shared :: "'tx shared"
  sys_tasks :: "task list"

type_synonym jobs = "(tool \<times> tool_use_request) list"

definition set_task :: "nat \<Rightarrow> 'tx system \<Rightarrow> task \<times> 'tx shared \<Rightarrow> 'tx system" where
  "set_task i sys ts = \<lparr>sys_shared = snd ts, sys_tasks = (sys_tasks sys)[i := fst ts]\<rparr>"

definition task_at :: "'tx system \<Rightarrow> nat \<Rightarrow> task" where
  "task_at sys i = (if i < length (sys_tasks sys) then sys_tasks sys ! i else Cancelled)"

fun sys_step :: "platform \<Rightarrow> tool_context \<Rightarrow> jobs \<Rightarrow> 'tx label \<Rightarrow> 'tx system \<Rightarrow> 'tx system" where
  "sys_step pf ctx jobs (Start i tx aborted) sys =
     (case task_at sys i of
        Ready \<Rightarrow> set_task i sys (begin_request pf ctx (fst (jobs ! i)) (snd (jobs ! i)) tx aborted (sys_shared sys))
      | _ \<Rightarrow> sys)"
| "sys_step pf ctx jobs (EndWait i w aborted) sys =
     (case task_at sys i of
        Parked p \<Rightarrow> set_task i sys (decide (fst (jobs ! i)) (snd (jobs ! i)) aborted (wait_decision w) p (sys_shared sys))
      | _ \<Rightarrow> sys)"
| "sys_step pf ctx jobs (EndCall i abort_wins res) sys =
     (case task_at sys i of
        Running guard \<Rightarrow> set_task i sys (finish_call pf ctx (fst (jobs ! i)) (snd (jobs ! i))
          (call_tool_with_abort (fst (jobs ! i)) abort_wins res) guard (sys_shared sys))
      | _ \<Rightarrow> sys)"
| "sys_step pf ctx jobs (Drop i) sys =
     (case task_at sys i of
        Running guard \<Rightarrow> set_task i sys (Cancelled, drop_guard guard (sys_shared sys))
      | Finished r \<Rightarrow> sys
      | _ \<Rightarrow> set_task i sys (Cancelled, sys_shared sys))"
| "sys_step pf ctx jobs (Handler h) sys =
     (let (m, g) = h (manager (sys_shared sys), gate (sys_shared sys))
      in sys\<lparr>sys_shared := (sys_shared sys)\<lparr>manager := m, gate := g\<rparr>\<rparr>)"

definition sys_init :: "jobs \<Rightarrow> 'tx shared \<Rightarrow> 'tx system" where
  "sys_init jobs s = \<lparr>sys_shared = s, sys_tasks = replicate (length jobs) Ready\<rparr>"

abbreviation sys_run :: "platform \<Rightarrow> tool_context \<Rightarrow> jobs \<Rightarrow> 'tx label list \<Rightarrow> 'tx system \<Rightarrow> 'tx system" where
  "sys_run pf ctx jobs ls sys \<equiv> fold (sys_step pf ctx jobs) ls sys"

subsection \<open>No call without authority\<close>

text \<open>Who authorised the call \<open>c\<close> in a run of labels.\<close>

definition authorised ::
  "platform \<Rightarrow> tool_context \<Rightarrow> jobs \<Rightarrow> 'tx label list \<Rightarrow> 'tx system \<Rightarrow> tool_call \<Rightarrow> bool" where
  "authorised pf ctx jobs ls sys c \<longleftrightarrow>
     (\<exists>i tool req. i < length jobs \<and> jobs ! i = (tool, req) \<and>
        call_id c = req_id req \<and> call_name c = t_name tool \<and> call_input c = req_input req \<and>
        ((\<exists>ls1 tx ab ls2. ls = ls1 @ Start i tx ab # ls2 \<and>
            start_approved pf ctx tool req (sys_shared (sys_run pf ctx jobs ls1 sys))) \<or>
         (\<exists>d ab. EndWait i (Answered d) ab \<in> set ls \<and> d \<noteq> DenyDecision)))"

lemma authorised_snoc: "authorised pf ctx jobs ls sys c \<Longrightarrow> authorised pf ctx jobs (ls @ [l]) sys c"
  unfolding authorised_def by (auto; metis append_Cons append_assoc)

lemma drop_guard_calls [simp]: "calls (drop_guard g s) = calls s" "calls (push_guard g s) = calls s"
  by (cases g; simp)+

lemma record_always_calls [simp]: "calls (record_always tool rule p s) = calls s"
  by (simp add: record_always_def save_context_def Let_def split: option.split)

lemma start_call_calls:
  "c \<in> set (calls (snd (start_call a tool req g s))) \<Longrightarrow>
     c \<in> set (calls s) \<or> (call_id c = req_id req \<and> call_name c = t_name tool \<and> call_input c = req_input req)"
  by (auto simp: start_call_def the_call_def split: if_splits)

lemma length_tasks [simp]: "length (sys_tasks (sys_step pf ctx jobs l sys)) = length (sys_tasks sys)"
  by (cases l) (auto simp: set_task_def Let_def split: task.splits prod.splits)

lemma length_tasks_run [simp]: "length (sys_tasks (sys_run pf ctx jobs ls sys)) = length (sys_tasks sys)"
  by (induction ls arbitrary: sys) auto

lemma set_task_shared [simp]: "sys_shared (set_task i sys ts) = snd ts"
  by (simp add: set_task_def)

lemma begin_request_calls:
  assumes "c \<in> set (calls (snd (begin_request pf ctx tool req tx a s)))" "c \<notin> set (calls s)"
  shows "start_approved pf ctx tool req s \<and>
    call_id c = req_id req \<and> call_name c = t_name tool \<and> call_input c = req_input req"
  using assms start_call_calls [of c a tool req NoGuard s]
  by (cases rule: begin_request_cases [where pf = pf and ctx = ctx and tool = tool and req = req and
      tx = tx and a = a and s = s]) (auto simp: park_def Let_def)

lemma decide_calls:
  assumes "c \<in> set (calls (snd (decide tool req a d p s)))" "c \<notin> set (calls s)"
  shows "d \<noteq> DenyDecision \<and> call_id c = req_id req \<and> call_name c = t_name tool \<and> call_input c = req_input req"
proof (cases d)
  case AllowDecision
  with assms start_call_calls [of c a tool req "one_shot_guard p" "push_guard (one_shot_guard p) s"]
  show ?thesis by (simp add: decide_def)
next
  case DenyDecision
  with assms show ?thesis by (simp add: decide_def)
next
  case (AllowAlways rule)
  with assms start_call_calls [of c a tool req NoGuard "record_always tool rule p s"]
  show ?thesis by (simp add: decide_def)
qed

lemma wait_decision_allows: "wait_decision w \<noteq> DenyDecision \<Longrightarrow> w = Answered (wait_decision w)"
  by (cases w) auto

lemma step_authorised:
  assumes new: "c \<in> set (calls (sys_shared (sys_step pf ctx jobs l sys)))" "c \<notin> set (calls (sys_shared sys))"
    and len: "length (sys_tasks sys) = length jobs"
  shows "\<exists>i<length jobs. call_id c = req_id (snd (jobs ! i)) \<and> call_name c = t_name (fst (jobs ! i)) \<and>
    call_input c = req_input (snd (jobs ! i)) \<and>
    ((\<exists>tx ab. l = Start i tx ab \<and> start_approved pf ctx (fst (jobs ! i)) (snd (jobs ! i)) (sys_shared sys)) \<or>
     (\<exists>d ab. l = EndWait i (Answered d) ab \<and> d \<noteq> DenyDecision))"
proof (cases l)
  case (Start i tx ab)
  with new have t: "task_at sys i = Ready" by (cases "task_at sys i") auto
  with Start new have "c \<in> set (calls (snd (begin_request pf ctx (fst (jobs ! i)) (snd (jobs ! i)) tx ab (sys_shared sys))))"
    by simp
  from begin_request_calls [OF this new(2)] t len Start show ?thesis
    by (auto simp: task_at_def split: if_splits)
next
  case (EndWait i w ab)
  with new obtain p where t: "task_at sys i = Parked p" by (cases "task_at sys i") auto
  with EndWait new have "c \<in> set (calls (snd (decide (fst (jobs ! i)) (snd (jobs ! i)) ab (wait_decision w) p (sys_shared sys))))"
    by simp
  from decide_calls [OF this new(2)] wait_decision_allows [of w] t len EndWait show ?thesis
    by (auto simp: task_at_def split: if_splits)
next
  case (EndCall i w res)
  with new show ?thesis by (cases "task_at sys i") (auto simp: finish_call_def)
next
  case (Drop i)
  with new show ?thesis by (cases "task_at sys i") auto
next
  case (Handler h)
  with new show ?thesis by (simp add: case_prod_unfold Let_def)
qed

text \<open>
  C5. However many executions are interleaved over one permission bridge, with answers, timeouts, aborts,
  dropped executions and rule changes at any point: every call that a tool receives belongs to a request
  that was approved when it started (an allow rule, a read-only tool inside its boundary, a granted
  directory) or that the user answered with something else than a denial.
\<close>

theorem every_call_authorised:
  "set (calls (sys_shared (sys_run pf ctx jobs ls (sys_init jobs s)))) \<subseteq>
     set (calls s) \<union> {c. authorised pf ctx jobs ls (sys_init jobs s) c}"
proof (induction ls rule: rev_induct)
  case Nil
  then show ?case by (simp add: sys_init_def)
next
  case (snoc l ls)
  let ?sys = "sys_run pf ctx jobs ls (sys_init jobs s)"
  have len: "length (sys_tasks ?sys) = length jobs" by (simp add: sys_init_def)
  show ?case
  proof
    fix c
    assume c: "c \<in> set (calls (sys_shared (sys_run pf ctx jobs (ls @ [l]) (sys_init jobs s))))"
    show "c \<in> set (calls s) \<union> {c. authorised pf ctx jobs (ls @ [l]) (sys_init jobs s) c}"
    proof (cases "c \<in> set (calls (sys_shared ?sys))")
      case True
      with snoc show ?thesis by (auto dest: authorised_snoc)
    next
      case False
      have "c \<in> set (calls (sys_shared (sys_step pf ctx jobs l ?sys)))" using c by simp
      from step_authorised [OF this False len] obtain i where i: "i < length jobs"
        "call_id c = req_id (snd (jobs ! i))" "call_name c = t_name (fst (jobs ! i))"
        "call_input c = req_input (snd (jobs ! i))"
        "(\<exists>tx ab. l = Start i tx ab \<and> start_approved pf ctx (fst (jobs ! i)) (snd (jobs ! i)) (sys_shared ?sys)) \<or>
         (\<exists>d ab. l = EndWait i (Answered d) ab \<and> d \<noteq> DenyDecision)" by blast
      have "(\<exists>ls1 tx ab ls2. ls @ [l] = ls1 @ Start i tx ab # ls2 \<and>
            start_approved pf ctx (fst (jobs ! i)) (snd (jobs ! i)) (sys_shared (sys_run pf ctx jobs ls1 (sys_init jobs s)))) \<or>
          (\<exists>d ab. EndWait i (Answered d) ab \<in> set (ls @ [l]) \<and> d \<noteq> DenyDecision)"
        using i(5) by (elim disjE exE conjE) (blast, auto)
      with i(1-4) have "authorised pf ctx jobs (ls @ [l]) (sys_init jobs s) c"
        unfolding authorised_def
        by (intro exI [of _ i] exI [of _ "fst (jobs ! i)"] exI [of _ "snd (jobs ! i)"] conjI) (assumption | simp)+
      then show ?thesis by simp
    qed
  qed
qed

subsection \<open>Grants under interleaving\<close>

text \<open>The one-shot grants that running executions hold, and the directories that permanent grants add.\<close>

fun search_guard :: "task \<Rightarrow> path list" where
  "search_guard (Running (SearchGuard d)) = [d]"
| "search_guard _ = []"

fun write_guard :: "task \<Rightarrow> path list" where
  "write_guard (Running (WriteGuard d)) = [d]"
| "write_guard _ = []"

definition always_search :: "tool \<Rightarrow> wait_outcome \<Rightarrow> parked \<Rightarrow> path list" where
  "always_search tool w p =
     (case (wait_decision w, search_grant p) of
        (AllowAlways _, Some d) \<Rightarrow> [search_grant_dir (t_name tool) d] | _ \<Rightarrow> [])"

definition always_write :: "tool \<Rightarrow> wait_outcome \<Rightarrow> parked \<Rightarrow> path list" where
  "always_write tool w p =
     (case (wait_decision w, search_grant p, write_grant p) of
        (AllowAlways _, None, Some d) \<Rightarrow> [grant_parent d] | _ \<Rightarrow> [])"

fun label_grants :: "(tool \<Rightarrow> wait_outcome \<Rightarrow> parked \<Rightarrow> path list) \<Rightarrow> jobs \<Rightarrow> 'tx label \<Rightarrow> 'tx system \<Rightarrow> path list" where
  "label_grants f jobs (EndWait i w ab) sys = (case task_at sys i of Parked p \<Rightarrow> f (fst (jobs ! i)) w p | _ \<Rightarrow> [])"
| "label_grants f jobs _ sys = []"

fun run_grants :: "platform \<Rightarrow> tool_context \<Rightarrow> jobs \<Rightarrow> (tool \<Rightarrow> wait_outcome \<Rightarrow> parked \<Rightarrow> path list) \<Rightarrow>
    'tx label list \<Rightarrow> 'tx system \<Rightarrow> path list" where
  "run_grants pf ctx jobs f [] sys = []"
| "run_grants pf ctx jobs f (l # ls) sys =
     label_grants f jobs l sys @ run_grants pf ctx jobs f ls (sys_step pf ctx jobs l sys)"

text \<open>Directories are compared as paths, by their components.\<close>

definition dirs_mset :: "path list \<Rightarrow> component list multiset" where
  "dirs_mset ds = mset (map components ds)"

lemma dirs_mset_simps [simp]:
  "dirs_mset [] = {#}" "dirs_mset (xs @ ys) = dirs_mset xs + dirs_mset ys" "dirs_mset [d] = {#components d#}"
  by (simp_all add: dirs_mset_def)

lemma dirs_mset_push [simp]: "dirs_mset (push_granted_dir d ds) = dirs_mset ds + {#components d#}"
  by (simp add: push_granted_dir_def)

lemma dirs_mset_remove: "dirs_mset (remove_granted_dir d ds) = dirs_mset ds - {#components d#}"
proof (induction ds)
  case (Cons e ds)
  show ?case
  proof (cases "components e = components d")
    case False
    with Cons show ?thesis by (simp add: dirs_mset_def)
  qed (simp add: dirs_mset_def)
qed (simp add: dirs_mset_def)

definition held :: "(task \<Rightarrow> path list) \<Rightarrow> task list \<Rightarrow> component list multiset" where
  "held f tasks = dirs_mset (concat (map f tasks))"

lemma held_update:
  assumes "i < length tasks"
  shows "held f (tasks[i := t]) + dirs_mset (f (tasks ! i)) = held f tasks + dirs_mset (f t)"
proof -
  have "held f tasks = held f (take i tasks @ tasks ! i # drop (Suc i) tasks)"
    using assms by (simp flip: id_take_nth_drop)
  with assms show ?thesis by (simp add: held_def upd_conv_take_nth_drop)
qed

lemma run_grants_snoc:
  "run_grants pf ctx jobs f (ls @ [l]) sys = run_grants pf ctx jobs f ls sys @ label_grants f jobs l (sys_run pf ctx jobs ls sys)"
  by (induction ls arbitrary: sys) auto

lemma held_set_task:
  assumes "task_at sys i = t" "t \<noteq> Cancelled"
  shows "held f (sys_tasks (set_task i sys ts)) + dirs_mset (f t) = held f (sys_tasks sys) + dirs_mset (f (fst ts))"
  using assms held_update [of i "sys_tasks sys" f "fst ts"]
  by (auto simp: task_at_def set_task_def split: if_splits)

lemma held_ge:
  assumes "task_at sys i = t" "t \<noteq> Cancelled"
  shows "dirs_mset (f t) \<subseteq># held f (sys_tasks sys)"
proof -
  from assms have i: "i < length (sys_tasks sys)" "sys_tasks sys ! i = t" by (auto simp: task_at_def split: if_splits)
  then have "sys_tasks sys = take i (sys_tasks sys) @ t # drop (Suc i) (sys_tasks sys)"
    by (metis id_take_nth_drop)
  then have "held f (sys_tasks sys) = held f (take i (sys_tasks sys) @ t # drop (Suc i) (sys_tasks sys))" by metis
  then show ?thesis by (simp add: held_def)
qed

text \<open>
  A list of granted directories as the executor maintains it: which one-shot grant a state of an
  execution holds, what an answer adds for good, and how the parts of an execution change the list.
\<close>

locale granted_list =
  fixes granted :: "'tx shared \<Rightarrow> path list"
    and guard :: "task \<Rightarrow> path list"
    and always :: "tool \<Rightarrow> wait_outcome \<Rightarrow> parked \<Rightarrow> path list"
  assumes begin_law: "dirs_mset (granted (snd (begin_request pf ctx tool req tx a s))) =
      dirs_mset (granted s) + dirs_mset (guard (fst (begin_request pf ctx tool req tx a s)))"
    and decide_law: "dirs_mset (granted (snd (decide tool req a (wait_decision w) p s))) =
      dirs_mset (granted s) + dirs_mset (always tool w p) + dirs_mset (guard (fst (decide tool req a (wait_decision w) p s)))"
    and drop_law: "dirs_mset (granted (drop_guard g s)) = dirs_mset (granted s) - dirs_mset (guard (Running g))"
    and handler_law: "granted (s\<lparr>manager := m, gate := gt\<rparr>) = granted s"
    and guard_idle: "guard Ready = []" "guard (Parked p) = []" "guard (Finished r) = []" "guard Cancelled = []"
begin

lemma drop_step:
  assumes "task_at sys i = Running g" "guard t = []"
    and inv: "dirs_mset (granted (sys_shared sys)) = B + held guard (sys_tasks sys)"
  shows "dirs_mset (granted (drop_guard g (sys_shared sys))) =
    B + held guard (sys_tasks (set_task i sys (t, drop_guard g (sys_shared sys))))"
proof -
  let ?G = "dirs_mset (guard (Running g))"
  have "held guard (sys_tasks (set_task i sys (t, drop_guard g (sys_shared sys)))) + ?G = held guard (sys_tasks sys)"
    using held_set_task [OF assms(1), of guard "(t, drop_guard g (sys_shared sys))"] assms(2) by simp
  then show ?thesis unfolding drop_law inv by (metis add.assoc add_diff_cancel_right')
qed

lemma step_grants:
  assumes inv: "dirs_mset (granted (sys_shared sys)) = B + held guard (sys_tasks sys)"
  shows "dirs_mset (granted (sys_shared (sys_step pf ctx jobs l sys))) =
    B + dirs_mset (label_grants always jobs l sys) + held guard (sys_tasks (sys_step pf ctx jobs l sys))"
proof (cases l)
  case (Start i tx ab)
  show ?thesis
  proof (cases "task_at sys i")
    case Ready
    from held_set_task [OF Ready, of guard] show ?thesis
      by (simp add: Start Ready begin_law inv guard_idle add.assoc)
  qed (simp_all add: Start inv)
next
  case (EndWait i w ab)
  show ?thesis
  proof (cases "task_at sys i")
    case (Parked p)
    from held_set_task [OF Parked, of guard] show ?thesis
      by (simp add: EndWait Parked decide_law inv guard_idle ac_simps)
  qed (simp_all add: EndWait inv)
next
  case (EndCall i w res)
  show ?thesis
  proof (cases "task_at sys i")
    case (Running g)
    from drop_step [OF Running guard_idle(3) inv] show ?thesis
      by (simp add: EndCall Running finish_call_def)
  qed (simp_all add: EndCall inv)
next
  case (Drop i)
  show ?thesis
  proof (cases "task_at sys i")
    case (Running g)
    from drop_step [OF Running guard_idle(4) inv] show ?thesis by (simp add: Drop Running)
  next
    case Ready
    from held_set_task [OF Ready, of guard] show ?thesis by (simp add: Drop Ready inv guard_idle)
  next
    case (Parked p)
    from held_set_task [OF Parked, of guard] show ?thesis by (simp add: Drop Parked inv guard_idle)
  next
    case Cancelled
    then show ?thesis
      by (cases "i < length (sys_tasks sys)")
        (simp_all add: Drop inv set_task_def task_at_def list_update_beyond, metis list_update_id)
  qed (simp_all add: Drop inv)
next
  case (Handler h)
  then show ?thesis by (simp add: inv handler_law case_prod_unfold Let_def)
qed

lemma run_grants_exact:
  "dirs_mset (granted (sys_shared (sys_run pf ctx jobs ls (sys_init jobs s)))) =
     dirs_mset (granted s) + dirs_mset (run_grants pf ctx jobs always ls (sys_init jobs s)) +
     held guard (sys_tasks (sys_run pf ctx jobs ls (sys_init jobs s)))"
proof (induction ls rule: rev_induct)
  case Nil
  show ?case by (simp add: sys_init_def held_def guard_idle)
next
  case (snoc l ls)
  from step_grants [OF snoc] show ?case by (simp add: run_grants_snoc ac_simps)
qed

end

lemma start_granted:
  "dirs_mset (search_guard (Running g)) \<subseteq># dirs_mset (granted_dirs s) \<Longrightarrow>
   dirs_mset (granted_dirs (snd (start_call a tool req g s))) =
     dirs_mset (granted_dirs s) - dirs_mset (search_guard (Running g)) + dirs_mset (search_guard (fst (start_call a tool req g s)))"
  "dirs_mset (write_guard (Running g)) \<subseteq># dirs_mset (granted_write_dirs s) \<Longrightarrow>
   dirs_mset (granted_write_dirs (snd (start_call a tool req g s))) =
     dirs_mset (granted_write_dirs s) - dirs_mset (write_guard (Running g)) + dirs_mset (write_guard (fst (start_call a tool req g s)))"
  by (cases g; simp add: start_call_def dirs_mset_remove)+

lemma granted_push_guard:
  "dirs_mset (granted_dirs (push_guard g s)) = dirs_mset (granted_dirs s) + dirs_mset (search_guard (Running g))"
  "dirs_mset (granted_write_dirs (push_guard g s)) = dirs_mset (granted_write_dirs s) + dirs_mset (write_guard (Running g))"
  by (cases g; simp)+

lemma granted_always:
  assumes "wait_decision w = AllowAlways rule"
  shows "dirs_mset (granted_dirs (record_always tool rule p s)) = dirs_mset (granted_dirs s) + dirs_mset (always_search tool w p)"
    and "dirs_mset (granted_write_dirs (record_always tool rule p s)) = dirs_mset (granted_write_dirs s) + dirs_mset (always_write tool w p)"
  using assms by (simp_all add: record_always_def save_context_def Let_def always_search_def always_write_def split: option.split)

lemma granted_begin:
  "dirs_mset (granted_dirs (snd (begin_request pf ctx tool req tx a s))) =
     dirs_mset (granted_dirs s) + dirs_mset (search_guard (fst (begin_request pf ctx tool req tx a s)))"
  "dirs_mset (granted_write_dirs (snd (begin_request pf ctx tool req tx a s))) =
     dirs_mset (granted_write_dirs s) + dirs_mset (write_guard (fst (begin_request pf ctx tool req tx a s)))"
  by (cases rule: begin_request_cases [where pf = pf and ctx = ctx and tool = tool and req = req and
      tx = tx and a = a and s = s]; simp add: park_def Let_def start_call_def)+

lemma granted_decide:
  "dirs_mset (granted_dirs (snd (decide tool req a (wait_decision w) p s))) = dirs_mset (granted_dirs s) +
     dirs_mset (always_search tool w p) + dirs_mset (search_guard (fst (decide tool req a (wait_decision w) p s)))"
  "dirs_mset (granted_write_dirs (snd (decide tool req a (wait_decision w) p s))) = dirs_mset (granted_write_dirs s) +
     dirs_mset (always_write tool w p) + dirs_mset (write_guard (fst (decide tool req a (wait_decision w) p s)))"
  by (cases "wait_decision w"; simp add: decide_def start_granted granted_push_guard granted_always;
      simp add: always_search_def always_write_def)+

lemma granted_drop:
  "dirs_mset (granted_dirs (drop_guard g s)) = dirs_mset (granted_dirs s) - dirs_mset (search_guard (Running g))"
  "dirs_mset (granted_write_dirs (drop_guard g s)) = dirs_mset (granted_write_dirs s) - dirs_mset (write_guard (Running g))"
  by (cases g; simp add: dirs_mset_remove)+

interpretation search: granted_list granted_dirs search_guard always_search
  by unfold_locales (simp_all add: granted_begin granted_decide granted_drop)

interpretation writes: granted_list granted_write_dirs write_guard always_write
  by unfold_locales (simp_all add: granted_begin granted_decide granted_drop)

text \<open>
  C6. One-shot grants never leak and never take each other's entry: at every point of every interleaving
  both lists of granted directories hold exactly the initial entries, one entry per "always" answer for a
  directory, and one entry per running execution with a one-shot grant, counted as paths.
\<close>

theorem one_shot_grants_exact:
  fixes pf ctx jobs ls and s :: "'tx shared"
  defines "sys \<equiv> sys_run pf ctx jobs ls (sys_init jobs s)"
  shows "dirs_mset (granted_dirs (sys_shared sys)) =
      dirs_mset (granted_dirs s) + dirs_mset (run_grants pf ctx jobs always_search ls (sys_init jobs s)) +
      held search_guard (sys_tasks sys) \<and>
    dirs_mset (granted_write_dirs (sys_shared sys)) =
      dirs_mset (granted_write_dirs s) + dirs_mset (run_grants pf ctx jobs always_write ls (sys_init jobs s)) +
      held write_guard (sys_tasks sys)"
  unfolding sys_def by (intro conjI search.run_grants_exact writes.run_grants_exact)

section \<open>Permanent grants open one directory\<close>

lemma starts_with_grant_dir:
  "path_starts_with d (grant_parent d)" "path_starts_with d (search_grant_dir name d)"
  by (auto simp: grant_parent_def search_grant_dir_def starts_with_parent split: option.split)

text \<open>What the decision procedure reads of the context.\<close>

lemma check_permission_cong:
  "always_deny_rules c' = always_deny_rules c \<Longrightarrow> always_allow_rules c' = always_allow_rules c \<Longrightarrow>
   always_ask_rules c' = always_ask_rules c \<Longrightarrow> mode c' = mode c \<Longrightarrow>
   check_permission c' name desc = check_permission c name desc"
  by (simp add: check_permission_def)

lemma start_call_parked: "start_call a tool req g s \<noteq> (Parked p, s1)"
  by (simp add: start_call_def)

lemma parked_directory:
  assumes "begin_request pf ctx tool req tx a s = (Parked p, s1)"
  shows "t_validate_input tool (req_input req) ctx = ValidationOk \<and>
    (\<exists>m. check_permission (manager s) (t_name tool) (p_render pf (req_input req)) = Ask m) \<and>
    manager s1 = manager s \<and> granted_dirs s1 = granted_dirs s \<and> granted_write_dirs s1 = granted_write_dirs s \<and>
    (search_grant p, write_grant p) =
      (if t_is_read_only tool (req_input req)
       then (out_of_cwd_search_target (p_fs pf) (t_name tool) (req_input req) (cwd ctx), None)
       else (None, out_of_cwd_write_target (p_fs pf) (t_name tool) (req_input req) (cwd ctx)))"
  using assms
  by (auto simp: begin_request_def park_def Let_def start_call_parked
      split: validation_result.splits permission_result.splits if_splits option.splits)

lemma record_always_scope:
  assumes "search_grant p \<noteq> None \<or> write_grant p \<noteq> None"
  shows "always_deny_rules (manager (record_always tool rule p s)) = always_deny_rules (manager s)"
    "always_allow_rules (manager (record_always tool rule p s)) = always_allow_rules (manager s)"
    "always_ask_rules (manager (record_always tool rule p s)) = always_ask_rules (manager s)"
    "mode (manager (record_always tool rule p s)) = mode (manager s)"
  using assms by (auto simp: record_always_def save_context_def Let_def update_context_def split: option.splits)

lemma record_always_opens:
  "search_grant p = Some d \<Longrightarrow> dir_granted (granted_dirs (record_always tool rule p s)) d"
  "search_grant p = None \<Longrightarrow> write_grant p = Some d \<Longrightarrow> dir_granted (granted_write_dirs (record_always tool rule p s)) d"
  "search_grant p = Some d \<Longrightarrow> granted_write_dirs (record_always tool rule p s) = granted_write_dirs s"
  "search_grant p = None \<Longrightarrow> granted_dirs (record_always tool rule p s) = granted_dirs s"
  by (auto simp: record_always_def save_context_def Let_def dir_granted_def push_granted_dir_def starts_with_grant_dir
      split: option.split)

lemma start_call_bridge [simp]:
  "manager (snd (start_call a tool req NoGuard s)) = manager s"
  "granted_dirs (snd (start_call a tool req NoGuard s)) = granted_dirs s"
  "granted_write_dirs (snd (start_call a tool req NoGuard s)) = granted_write_dirs s"
  by (simp_all add: start_call_def)

text \<open>
  An "always" answer to a prompt about a directory adds no allow rule for the tool and no grant of the
  other kind, and the same request is started without a prompt from then on.
\<close>

lemma always_grant_scoped:
  assumes parked: "begin_request pf ctx tool req tx a s = (Parked p, s1)"
    and target: "search_grant p \<noteq> None \<or> write_grant p \<noteq> None"
    and s2: "s2 = snd (decide tool req a' (AllowAlways rule) p s1)"
  shows "always_allow_rules (manager s2) = always_allow_rules (manager s) \<and>
    (if t_is_read_only tool (req_input req) then granted_write_dirs s2 = granted_write_dirs s
     else granted_dirs s2 = granted_dirs s) \<and>
    begin_request pf ctx tool req tx2 a2 s2 = start_call a2 tool req NoGuard s2"
proof -
  note P = parked_directory [OF parked]
  have S2: "manager s2 = manager (record_always tool rule p s1)"
    "granted_dirs s2 = granted_dirs (record_always tool rule p s1)"
    "granted_write_dirs s2 = granted_write_dirs (record_always tool rule p s1)"
    by (simp_all add: s2 decide_def)
  note scope = record_always_scope [OF target, of tool rule s1]
  have rules: "check_permission (manager s2) = check_permission (manager s)"
    using P by (intro ext check_permission_cong) (simp_all add: S2 scope)
  show ?thesis
  proof (cases "t_is_read_only tool (req_input req)")
    case True
    with P target obtain d where d: "search_grant p = Some d" "write_grant p = None"
      "out_of_cwd_search_target (p_fs pf) (t_name tool) (req_input req) (cwd ctx) = Some d" by auto
    with True P rules record_always_opens(1,3) [OF d(1), of tool rule s1] show ?thesis
      by (auto simp: begin_request_def S2 scope)
  next
    case False
    with P target obtain d where d: "search_grant p = None" "write_grant p = Some d"
      "out_of_cwd_write_target (p_fs pf) (t_name tool) (req_input req) (cwd ctx) = Some d" by auto
    with False P rules record_always_opens(2) [OF d(1,2), of tool rule s1] record_always_opens(4) [OF d(1), of tool rule s1]
    show ?thesis by (auto simp: begin_request_def S2 scope)
  qed
qed

lemma always_grant_scoped_witness:
  "let req = \<lparr>req_id = ''1'', req_name = ''FileRead'', req_input = JObject [(''file_path'', JString ''/etc/passwd'')]\<rparr>;
       tool = sample_tool ''FileRead'' True;
       s2 = snd (execute_tool_with_permission idle_platform sample_context tool req
              (quiet (Answered (AllowAlways None)) 0) (fresh_shared :: nat shared))
   in granted_dirs s2 = [''/etc''] \<and>
      begin_request idle_platform sample_context tool req 1 False s2 = start_call False tool req NoGuard s2"
proof -
  define req where "req = \<lparr>req_id = ''1'', req_name = ''FileRead'', req_input = JObject [(''file_path'', JString ''/etc/passwd'')]\<rparr>"
  define s1 where "s1 = snd (begin_request idle_platform sample_context (sample_tool ''FileRead'' True) req 0 False (fresh_shared :: nat shared))"
  define p where "p = \<lparr>search_grant = Some ''/etc/passwd'', write_grant = None, parked_persist = True\<rparr>"
  define s2 where "s2 = snd (decide (sample_tool ''FileRead'' True) req False (AllowAlways None) p s1)"
  have target: "out_of_cwd_search_target linked_fs ''FileRead'' (JObject [(''file_path'', JString ''/etc/passwd'')]) ''/w'' = Some ''/etc/passwd''"
    by code_simp
  have check: "check_permission default_context ''FileRead'' (Some ''{}'') = Ask (''Tool '' @ quoted ''FileRead'' @ '' requires permission'')"
    by (simp add: check_permission_def default_context_def find_matching_rule_in_map_def)
  have parked: "begin_request idle_platform sample_context (sample_tool ''FileRead'' True) req 0 False (fresh_shared :: nat shared) = (Parked p, s1)"
    unfolding s1_def p_def
    by (simp add: begin_request_def sample_tool_def idle_platform_def sample_context_def fresh_shared_def req_def
        target check dir_granted_def park_def Let_def) (simp add: default_context_def)
  have "begin_request idle_platform sample_context (sample_tool ''FileRead'' True) req 1 False s2 =
      start_call False (sample_tool ''FileRead'' True) req NoGuard s2"
    using always_grant_scoped [OF parked _ s2_def] by (simp add: p_def)
  moreover have "snd (execute_tool_with_permission idle_platform sample_context (sample_tool ''FileRead'' True) req
      (quiet (Answered (AllowAlways None)) 0) fresh_shared) = s2"
    by (simp add: execute_tool_with_permission_def quiet_def parked s2_def decide_def start_call_def run_call_def finish_call_def)
  moreover have "search_grant_dir ''FileRead'' ''/etc/passwd'' = ''/etc''" by code_simp
  moreover have "granted_dirs s1 = []"
    using parked_directory [OF parked] by (simp add: fresh_shared_def)
  ultimately show ?thesis unfolding Let_def req_def [symmetric]
    by (simp add: s2_def decide_def record_always_def save_context_def p_def sample_tool_def push_granted_dir_def Let_def)
qed

section \<open>The direct path\<close>

text \<open>
  Without a permission bridge a tool is called exactly when its input is valid and its own check
  allows it, or asks and the tool is read-only; everything else is refused without a call.
\<close>

lemma direct_path_fails_closed:
  "calls (snd (execute_tool pf ctx tool req w s)) = calls s @
     (if t_validate_input tool (req_input req) ctx = ValidationOk \<and>
         (case t_check_permissions tool (req_input req) ctx of
            ToolAllow _ \<Rightarrow> True | ToolDeny _ \<Rightarrow> False | ToolAsk _ _ \<Rightarrow> t_is_read_only tool (req_input req))
      then [the_call tool req s] else [])"
  by (simp add: execute_tool_def Let_def run_call_def start_call_def finish_call_def
      split: validation_result.split tool_permission_check_result.split)

text \<open>An output that is neither small nor stored is cut to the limit, and the note says so.\<close>

lemma chars_shape: "list_all (\<lambda>g. g \<noteq> [] \<and> list_all is_cont (tl g)) (chars s)"
  by (induction s) (auto split: list.splits)

lemma chars_single:
  assumes "g \<in> set (chars s)"
  shows "chars_count g \<le> 1"
proof -
  from assms chars_shape [of s] have "g \<noteq> [] \<and> list_all is_cont (tl g)" by (auto simp: list_all_iff)
  then obtain c t where "g = c # t" "list_all is_cont t" by (cases g) auto
  then show ?thesis by (simp add: chars_count_def filter_empty_conv list_all_iff)
qed

lemma chars_count_concat: "chars_count (concat gs) = sum_list (map chars_count gs)"
  by (induction gs) (auto simp: chars_count_def)

lemma take_chars_bound: "chars_count (take_chars n s) \<le> n"
proof -
  have "sum_list (map chars_count (take n (chars s))) \<le> sum_list (map (\<lambda>_. 1) (take n (chars s)))"
    by (intro sum_list_mono) (auto dest!: in_set_takeD chars_single)
  then show ?thesis by (simp add: take_chars_def chars_count_concat sum_list_triv)
qed

lemma truncated_output_bounded:
  assumes "result_store ctx = None" "p_render pf data = Some serialized" "length serialized > n"
  shows "\<exists>out. maybe_persist_or_truncate pf data n ctx i = JString (out @ truncation_note n) \<and>
    prefix out serialized \<and> chars_count out \<le> n"
  using assms by (simp add: maybe_persist_or_truncate_def Let_def take_chars_bound take_chars_prefix)

end
