(* ===== verification/Bao_Protocol.thy ===== *)
theory Bao_Protocol
  imports Bao_Messages
begin

text \<open>
  \<open>ipc/protocol.rs\<close> and the framing of \<open>ipc/server.rs\<close>: JSON-RPC messages as JSON values, their
  classification on arrival, and their transport as newline-delimited JSON. The derived serialisers of
  \<open>serde\<close> are written out on JSON values (fields in declaration order, unknown fields ignored, a missing
  \<open>Option\<close> or defaulted field filled in). The JSON printer and parser are arguments; a connection is the
  string of the bytes that are still to be read.
\<close>

section \<open>Messages\<close>

datatype request_id = IdNumber "64 word" | IdString string

record json_rpc_request =
  rq_jsonrpc :: string
  rq_method :: string
  rq_params :: json
  rq_id :: request_id

record json_rpc_response =
  rs_jsonrpc :: string
  rs_result :: json
  rs_id :: request_id

record json_rpc_error =
  er_code :: "32 word"
  er_message :: string
  er_data :: "json option"

record json_rpc_error_response =
  ee_jsonrpc :: string
  ee_error :: json_rpc_error
  ee_id :: "request_id option"

record json_rpc_notification =
  nt_jsonrpc :: string
  nt_method :: string
  nt_params :: json

datatype json_rpc_message =
    RpcRequest json_rpc_request
  | RpcResponse json_rpc_response
  | RpcErrorResponse json_rpc_error_response
  | RpcNotification json_rpc_notification

definition response_success :: "request_id \<Rightarrow> json \<Rightarrow> json_rpc_response" where
  "response_success i result = \<lparr>rs_jsonrpc = ''2.0'', rs_result = result, rs_id = i\<rparr>"

definition error_response_new :: "request_id option \<Rightarrow> 32 word \<Rightarrow> string \<Rightarrow> json_rpc_error_response" where
  "error_response_new i code message =
     \<lparr>ee_jsonrpc = ''2.0'', ee_error = \<lparr>er_code = code, er_message = message, er_data = None\<rparr>, ee_id = i\<rparr>"

definition notification_new :: "string \<Rightarrow> json \<Rightarrow> json_rpc_notification" where
  "notification_new method params = \<lparr>nt_jsonrpc = ''2.0'', nt_method = method, nt_params = params\<rparr>"

section \<open>Serialisation\<close>

text \<open>Signed integers: \<open>serde_json\<close> keeps non-negative numbers as \<open>PosInt\<close>, negative ones as \<open>NegInt\<close>.\<close>

definition json_of_int :: "int \<Rightarrow> json" where
  "json_of_int k = JNumber (if k < 0 then NegInt (word_of_int k) else PosInt (word_of_int k))"

fun json_to_int :: "json \<Rightarrow> int option" where
  "json_to_int (JNumber (PosInt n)) = Some (uint n)"
| "json_to_int (JNumber (NegInt n)) = Some (sint n)"
| "json_to_int _ = None"

text \<open>An integer of a fixed width is read when the number is in its range.\<close>

definition json_to_signed :: "json \<Rightarrow> 'a::len word option" where
  "json_to_signed v =
     (case json_to_int v of
        Some k \<Rightarrow> if - (2 ^ (LENGTH('a) - 1)) \<le> k \<and> k < 2 ^ (LENGTH('a) - 1) then Some (word_of_int k) else None
      | None \<Rightarrow> None)"

fun id_to_json :: "request_id \<Rightarrow> json" where
  "id_to_json (IdNumber n) = json_of_int (sint n)"
| "id_to_json (IdString s) = JString s"

text \<open>The untagged enum: a number is tried first, then a string.\<close>

definition id_from_json :: "json \<Rightarrow> request_id option" where
  "id_from_json v =
     (case json_to_signed v of
        Some n \<Rightarrow> Some (IdNumber n)
      | None \<Rightarrow> map_option IdString (as_str v))"

fun message_to_json :: "json_rpc_message \<Rightarrow> json" where
  "message_to_json (RpcRequest r) = JObject [(''jsonrpc'', JString (rq_jsonrpc r)), (''method'', JString (rq_method r)),
     (''params'', rq_params r), (''id'', id_to_json (rq_id r))]"
| "message_to_json (RpcResponse r) = JObject [(''jsonrpc'', JString (rs_jsonrpc r)), (''result'', rs_result r),
     (''id'', id_to_json (rs_id r))]"
| "message_to_json (RpcErrorResponse r) = JObject [(''jsonrpc'', JString (ee_jsonrpc r)),
     (''error'', JObject ([(''code'', json_of_int (sint (er_code (ee_error r)))), (''message'', JString (er_message (ee_error r)))] @
        (case er_data (ee_error r) of None \<Rightarrow> [] | Some d \<Rightarrow> [(''data'', d)]))),
     (''id'', case ee_id r of None \<Rightarrow> JNull | Some i \<Rightarrow> id_to_json i)]"
| "message_to_json (RpcNotification r) = JObject [(''jsonrpc'', JString (nt_jsonrpc r)), (''method'', JString (nt_method r)),
     (''params'', nt_params r)]"

section \<open>Deserialisation\<close>

datatype rpc_parse_error = CustomError string | ShapeError

text \<open>Derived readers of the fields: \<open>Option\<close> fields read a missing field and \<open>null\<close> as \<open>None\<close>.\<close>

definition default_field :: "json \<Rightarrow> string \<Rightarrow> json" where
  "default_field v k = (case json_get v k of Some x \<Rightarrow> x | None \<Rightarrow> JNull)"

definition option_field :: "(json \<Rightarrow> 'a option) \<Rightarrow> json \<Rightarrow> string \<Rightarrow> 'a option option" where
  "option_field f v k =
     (case json_get v k of None \<Rightarrow> Some None | Some JNull \<Rightarrow> Some None | Some x \<Rightarrow> map_option Some (f x))"

definition request_from_json :: "json \<Rightarrow> json_rpc_request option" where
  "request_from_json v =
     Option.bind (get_str v ''jsonrpc'') (\<lambda>j. Option.bind (get_str v ''method'') (\<lambda>m.
     Option.bind (Option.bind (json_get v ''id'') id_from_json) (\<lambda>i.
     Some \<lparr>rq_jsonrpc = j, rq_method = m, rq_params = default_field v ''params'', rq_id = i\<rparr>)))"

definition response_from_json :: "json \<Rightarrow> json_rpc_response option" where
  "response_from_json v =
     Option.bind (get_str v ''jsonrpc'') (\<lambda>j. Option.bind (json_get v ''result'') (\<lambda>r.
     Option.bind (Option.bind (json_get v ''id'') id_from_json) (\<lambda>i.
     Some \<lparr>rs_jsonrpc = j, rs_result = r, rs_id = i\<rparr>)))"

definition error_from_json :: "json \<Rightarrow> json_rpc_error option" where
  "error_from_json v =
     Option.bind (Option.bind (json_get v ''code'') json_to_signed) (\<lambda>c. Option.bind (get_str v ''message'') (\<lambda>m.
     Option.bind (option_field Some v ''data'') (\<lambda>d.
     Some \<lparr>er_code = c, er_message = m, er_data = d\<rparr>)))"

definition error_response_from_json :: "json \<Rightarrow> json_rpc_error_response option" where
  "error_response_from_json v =
     Option.bind (get_str v ''jsonrpc'') (\<lambda>j. Option.bind (Option.bind (json_get v ''error'') error_from_json) (\<lambda>e.
     Option.bind (option_field id_from_json v ''id'') (\<lambda>i.
     Some \<lparr>ee_jsonrpc = j, ee_error = e, ee_id = i\<rparr>)))"

definition notification_from_json :: "json \<Rightarrow> json_rpc_notification option" where
  "notification_from_json v =
     Option.bind (get_str v ''jsonrpc'') (\<lambda>j. Option.bind (get_str v ''method'') (\<lambda>m.
     Some \<lparr>nt_jsonrpc = j, nt_method = m, nt_params = default_field v ''params''\<rparr>))"

definition shaped :: "('a \<Rightarrow> json_rpc_message) \<Rightarrow> 'a option \<Rightarrow> rpc_parse_error + json_rpc_message" where
  "shaped f r = (case r of Some x \<Rightarrow> Inr (f x) | None \<Rightarrow> Inl ShapeError)"

fun message_from_json :: "json \<Rightarrow> rpc_parse_error + json_rpc_message" where
  "message_from_json (JObject obj) =
     (let v = JObject obj;
          has_method = json_get v ''method'' \<noteq> None;
          has_id = json_get v ''id'' \<noteq> None \<and> json_get v ''id'' \<noteq> Some JNull;
          has_result = json_get v ''result'' \<noteq> None;
          has_error = json_get v ''error'' \<noteq> None
      in if has_error then shaped RpcErrorResponse (error_response_from_json v)
         else if has_result then shaped RpcResponse (response_from_json v)
         else if has_method \<and> has_id then shaped RpcRequest (request_from_json v)
         else if has_method then shaped RpcNotification (notification_from_json v)
         else Inl (CustomError (''Cannot determine JSON-RPC message type: missing '' @ quoted ''method'' @ '', '' @
                quoted ''result'' @ '', or '' @ quoted ''error'' @ '' field'')))"
| "message_from_json _ = Inl (CustomError ''JSON-RPC message must be an object'')"

section \<open>Newline-delimited transport\<close>

definition encode_ndjson :: "(json \<Rightarrow> string) \<Rightarrow> json_rpc_message \<Rightarrow> string" where
  "encode_ndjson render m = render (message_to_json m) @ [CHR 0x0A]"

definition decode_ndjson_line :: "(string \<Rightarrow> json option) \<Rightarrow> string \<Rightarrow> rpc_parse_error + json_rpc_message" where
  "decode_ndjson_line parse line =
     (case parse (str_trim line) of Some v \<Rightarrow> message_from_json v | None \<Rightarrow> Inl ShapeError)"

datatype ipc_error = JsonError rpc_parse_error | ConnectionClosed

text \<open>\<open>read_line\<close> takes everything up to and including the next newline.\<close>

fun read_line :: "string \<Rightarrow> string \<times> string" where
  "read_line [] = ([], [])"
| "read_line (c # cs) = (if c = CHR 0x0A then ([c], cs) else let (l, r) = read_line cs in (c # l, r))"

definition recv_message :: "(string \<Rightarrow> json option) \<Rightarrow> string \<Rightarrow> (ipc_error + json_rpc_message) \<times> string" where
  "recv_message parse input =
     (case read_line input of
        ([], rest) \<Rightarrow> (Inl ConnectionClosed, rest)
      | (line, rest) \<Rightarrow>
          (case decode_ndjson_line parse line of Inl e \<Rightarrow> Inl (JsonError e) | Inr m \<Rightarrow> Inr m, rest))"

definition send_json :: "(json \<Rightarrow> string) \<Rightarrow> json_rpc_message \<Rightarrow> string \<Rightarrow> string" where
  "send_json render m written = written @ encode_ndjson render m"

definition send_response :: "(json \<Rightarrow> string) \<Rightarrow> request_id \<Rightarrow> json \<Rightarrow> string \<Rightarrow> string" where
  "send_response render i result = send_json render (RpcResponse (response_success i result))"

definition send_error :: "(json \<Rightarrow> string) \<Rightarrow> request_id option \<Rightarrow> 32 word \<Rightarrow> string \<Rightarrow> string \<Rightarrow> string" where
  "send_error render i code message = send_json render (RpcErrorResponse (error_response_new i code message))"

definition send_notification :: "(json \<Rightarrow> string) \<Rightarrow> string \<Rightarrow> json \<Rightarrow> string \<Rightarrow> string" where
  "send_notification render method params = send_json render (RpcNotification (notification_new method params))"

section \<open>Round trips\<close>

lemma json_to_int_of_int:
  "- (2 ^ 63) \<le> k \<Longrightarrow> k < 2 ^ 63 \<Longrightarrow> json_to_int (json_of_int k) = Some k"
  by (auto simp: json_of_int_def signed_of_int unsigned_of_int signed_take_bit_int_eq_self take_bit_int_eq_self)

lemma sint_bounds: "- (2 ^ (LENGTH('a) - 1)) \<le> sint w \<and> sint w < 2 ^ (LENGTH('a) - 1)" for w :: "'a::len word"
  by (simp add: sint_greater_eq sint_less)

lemma signed_roundtrip:
  assumes "LENGTH('a) \<le> 64"
  shows "json_to_signed (json_of_int (sint w)) = Some (w :: 'a::len word)"
proof -
  have "(2 :: int) ^ (LENGTH('a) - 1) \<le> 2 ^ 63" using assms by (intro power_increasing) auto
  with sint_bounds [of w] have "json_to_int (json_of_int (sint w)) = Some (sint w)"
    by (intro json_to_int_of_int) linarith+
  with sint_bounds [of w] show ?thesis by (simp add: json_to_signed_def)
qed

lemma id_roundtrip: "id_from_json (id_to_json i) = Some i"
  by (cases i) (simp_all add: id_from_json_def signed_roundtrip, simp add: json_to_signed_def)

lemma id_not_null: "id_to_json i \<noteq> JNull"
  by (cases i) (simp_all add: json_of_int_def)

text \<open>An error payload of \<open>null\<close> cannot be told from no payload; every other message is faithful.\<close>

fun faithful :: "json_rpc_message \<Rightarrow> bool" where
  "faithful (RpcErrorResponse r) = (er_data (ee_error r) \<noteq> Some JNull)"
| "faithful _ = True"

lemma error_roundtrip:
  assumes "er_data e \<noteq> Some JNull"
  shows "error_from_json (JObject ([(''code'', json_of_int (sint (er_code e))), (''message'', JString (er_message e))] @
        (case er_data e of None \<Rightarrow> [] | Some d \<Rightarrow> [(''data'', d)]))) = Some e"
  using assms
  by (cases e) (auto simp: error_from_json_def get_str_def option_field_def signed_roundtrip split: option.splits json.splits)

lemma option_field_some: "json_get v k = Some x \<Longrightarrow> x \<noteq> JNull \<Longrightarrow> option_field f v k = map_option Some (f x)"
  by (cases x) (simp_all add: option_field_def)

lemma option_id_roundtrip:
  "option_field id_from_json (JObject [(''jsonrpc'', a), (''error'', b), (''id'', case i of None \<Rightarrow> JNull | Some i \<Rightarrow> id_to_json i)]) ''id'' = Some i"
proof (cases i)
  case (Some n)
  then show ?thesis by (subst option_field_some [where x = "id_to_json n"]) (simp_all add: id_roundtrip id_not_null)
qed (simp add: option_field_def)

lemma message_roundtrip:
  assumes "faithful m"
  shows "message_from_json (message_to_json m) = Inr m"
proof (cases m)
  case (RpcErrorResponse r)
  with assms show ?thesis
    by (simp add: error_response_from_json_def get_str_def shaped_def error_roundtrip option_id_roundtrip del: append_Cons append_Nil)
next
  case (RpcRequest r)
  then show ?thesis
    by (simp add: request_from_json_def get_str_def shaped_def id_roundtrip id_not_null default_field_def)
next
  case (RpcResponse r)
  then show ?thesis
    by (simp add: response_from_json_def get_str_def shaped_def id_roundtrip id_not_null)
next
  case (RpcNotification r)
  then show ?thesis
    by (simp add: notification_from_json_def get_str_def shaped_def default_field_def)
qed

text \<open>What a JSON printer promises of the text of an object: braces around it and no newline in it.\<close>

definition object_text :: "string \<Rightarrow> bool" where
  "object_text t \<longleftrightarrow> starts_with t ''{'' \<and> suffix ''}'' t \<and> CHR 0x0A \<notin> set t"

lemma spaces_no_brace: "list_all (\<lambda>w. w \<noteq> [] \<and> hd w \<noteq> CHR ''{'' \<and> last w \<noteq> CHR ''}'') unicode_spaces"
  by code_simp

lemma trim_start_brace: "trim_start (CHR ''{'' # t) = CHR ''{'' # t"
proof -
  have "List.find (\<lambda>w. w \<noteq> [] \<and> prefix w (CHR ''{'' # t)) unicode_spaces = None"
    using spaces_no_brace by (auto simp: find_None_iff list_all_iff prefix_Cons)
  then show ?thesis by (subst trim_start.simps) simp
qed

lemma trim_end_brace: "trim_end (t @ ''}'') = t @ ''}''"
proof -
  have "List.find (\<lambda>w. w \<noteq> [] \<and> suffix w (t @ ''}'')) unicode_spaces = None"
    using spaces_no_brace by (fastforce simp: find_None_iff list_all_iff suffix_def dest!: arg_cong [where f = last])
  then show ?thesis by (subst trim_end.simps) simp
qed

lemma newline_char: "char_of (9 :: nat) = CHR 0x09" "char_of (10 :: nat) = CHR 0x0A"
  by code_simp+

lemma trim_end_newline: "trim_end (t @ [CHR 0x0A]) = trim_end t"
proof -
  have "List.find (\<lambda>w. w \<noteq> [] \<and> suffix w (t @ [CHR 0x0A])) unicode_spaces = Some [CHR 0x0A]"
    by (simp add: unicode_spaces_def newline_char)
  then show ?thesis by (subst trim_end.simps) simp
qed

lemma trim_object_line:
  assumes "object_text t"
  shows "str_trim (t @ [CHR 0x0A]) = t"
proof -
  from assms obtain a where a: "t = CHR ''{'' # a" by (auto simp: object_text_def prefix_def)
  from assms obtain b where b: "t = b @ ''}''" by (auto simp: object_text_def suffix_def)
  from a have "trim_start (t @ [CHR 0x0A]) = t @ [CHR 0x0A]"
    using trim_start_brace [of "a @ [CHR 0x0A]"] by simp
  then show ?thesis by (simp only: str_trim_def trim_end_newline) (simp only: b trim_end_brace)
qed

lemma read_line_frame: "CHR 0x0A \<notin> set t \<Longrightarrow> read_line (t @ CHR 0x0A # rest) = (t @ [CHR 0x0A], rest)"
  by (induction t) auto

fun recv_all :: "(string \<Rightarrow> json option) \<Rightarrow> nat \<Rightarrow> string \<Rightarrow> (ipc_error + json_rpc_message) list" where
  "recv_all parse 0 input = []"
| "recv_all parse (Suc n) input = (case recv_message parse input of (r, rest) \<Rightarrow> r # recv_all parse n rest)"

lemma recv_one:
  assumes "faithful m" "object_text (render (message_to_json m))"
    and "parse (render (message_to_json m)) = Some (message_to_json m)"
  shows "recv_message parse (encode_ndjson render m @ rest) = (Inr m, rest)"
proof -
  have "read_line (encode_ndjson render m @ rest) = (render (message_to_json m) @ [CHR 0x0A], rest)"
    using assms(2) by (simp add: encode_ndjson_def object_text_def read_line_frame)
  moreover have "decode_ndjson_line parse (render (message_to_json m) @ [CHR 0x0A]) = Inr m"
    using assms by (simp add: decode_ndjson_line_def trim_object_line message_roundtrip)
  ultimately show ?thesis
    by (cases "render (message_to_json m)") (simp_all add: recv_message_def)
qed

text \<open>
  C13. Messages sent over a connection one after the other arrive as the same messages in the same order,
  each line read as exactly one message, and then the connection reads as closed; this needs of the JSON
  printer only that it prints these objects in braces and on one line, and of the parser that it reads
  them back. Left out are errors whose data is an explicit null, which is read back as no data.
\<close>

theorem ipc_stream_roundtrip:
  assumes "list_all (\<lambda>m. faithful m \<and> object_text (render (message_to_json m)) \<and>
      parse (render (message_to_json m)) = Some (message_to_json m)) ms"
  shows "recv_all parse (Suc (length ms)) (fold (send_json render) ms []) = map Inr ms @ [Inl ConnectionClosed]"
proof -
  have sent: "fold (send_json render) ms w = w @ concat (map (encode_ndjson render) ms)" for w
    by (induction ms arbitrary: w) (simp_all add: send_json_def)
  have "recv_all parse (Suc (length ms)) (concat (map (encode_ndjson render) ms)) = map Inr ms @ [Inl ConnectionClosed]"
    using assms by (induction ms) (simp_all add: recv_one, simp add: recv_message_def)
  then show ?thesis by (simp add: sent)
qed

theorem ipc_stream_roundtrip_witness:
  "let m = RpcNotification (notification_new ''event'' (JObject []));
       render = (\<lambda>_. ''{x}''); parse = (\<lambda>t. if t = ''{x}'' then Some (message_to_json m) else None)
   in recv_all parse 3 (fold (send_json render) [m, m] []) = [Inr m, Inr m, Inl ConnectionClosed]"
  using ipc_stream_roundtrip [of "\<lambda>_. ''{x}''"
      "\<lambda>t. if t = ''{x}'' then Some (message_to_json (RpcNotification (notification_new ''event'' (JObject [])))) else None"
      "replicate 2 (RpcNotification (notification_new ''event'' (JObject [])))"]
  by (simp add: object_text_def suffix_def numeral_2_eq_2 numeral_3_eq_3 Let_def del: recv_all.simps message_to_json.simps)

end
