(* ===== verification/Bao_FileCache.thy ===== *)
theory Bao_FileCache
  imports Bao_Paths "HOL-Library.Multiset"
begin

unbundle bit_operations_syntax

text \<open>
  \<open>infra/file_cache.rs\<close>: the bounded cache of the files read in a session, with change detection by
  content hash. Entries are keyed by path, compared by components as \<open>PathBuf\<close> does. \<open>now\<close> is the value of
  the monotonic clock at an operation; a \<open>file_view\<close> is what the file system answers at that moment. The
  cache is shown to implement a list of files ordered by their last use.
\<close>

section \<open>The cache\<close>

type_synonym cache_key = "component list"

record file_cache_entry =
  fc_path :: path
  content_hash :: u64
  fc_mtime :: nat
  last_accessed :: nat
  line_count :: nat

datatype cache_status = Hit | Changed | Miss

record file_cache =
  fc_entries :: "(cache_key, file_cache_entry) hash_map"
  max_entries :: nat

record file_view =
  fv_canonicalize :: "path \<Rightarrow> path option"
  fv_read :: "path \<Rightarrow> string option"
  fv_mtime :: "path \<Rightarrow> nat option"
  fv_time :: nat

definition fnv1a_hash :: "string \<Rightarrow> u64" where
  "fnv1a_hash s = foldl (\<lambda>h b. (h XOR of_nat (byte b)) * 0x100000001b3) 0xcbf29ce484222325 s"

definition lines_count :: "string \<Rightarrow> nat" where
  "lines_count s = count_list s (CHR 0x0A) + (if s \<noteq> [] \<and> last s \<noteq> CHR 0x0A then 1 else 0)"

definition cache_new :: "nat \<Rightarrow> file_cache" where
  "cache_new n = \<lparr>fc_entries = [], max_entries = n\<rparr>"

definition default_capacity :: file_cache where
  "default_capacity = cache_new 100"

text \<open>\<open>min_by_key\<close>: the first of the entries with the least access time.\<close>

fun min_entry :: "(cache_key \<times> file_cache_entry) list \<Rightarrow> (cache_key \<times> file_cache_entry) option" where
  "min_entry [] = None"
| "min_entry (x # xs) =
     (case min_entry xs of
        None \<Rightarrow> Some x
      | Some y \<Rightarrow> if last_accessed (snd x) \<le> last_accessed (snd y) then Some x else Some y)"

definition lru_key :: "file_cache \<Rightarrow> cache_key option" where
  "lru_key c = map_option fst (min_entry (fc_entries c))"

definition file_check :: "file_view \<Rightarrow> path \<Rightarrow> file_cache \<Rightarrow> cache_status" where
  "file_check fv p c =
     (case fv_canonicalize fv p of
        None \<Rightarrow> Miss
      | Some canonical \<Rightarrow>
          (case hm_get (fc_entries c) (components canonical) of
             None \<Rightarrow> Miss
           | Some e \<Rightarrow>
               (case fv_read fv canonical of
                  Some content \<Rightarrow> if fnv1a_hash content = content_hash e then Hit else Changed
                | None \<Rightarrow> Changed)))"

definition resolved :: "file_view \<Rightarrow> path \<Rightarrow> path" where
  "resolved fv p = (case fv_canonicalize fv p of Some c \<Rightarrow> c | None \<Rightarrow> p)"

definition file_record :: "file_view \<Rightarrow> nat \<Rightarrow> path \<Rightarrow> string \<Rightarrow> file_cache \<Rightarrow> file_cache" where
  "file_record fv now p content c =
     (let canonical = resolved fv p; k = components canonical;
          mtime = (case fv_mtime fv canonical of Some t \<Rightarrow> t | None \<Rightarrow> fv_time fv);
          evicted = (if length (fc_entries c) \<ge> max_entries c \<and> hm_get (fc_entries c) k = None
                     then (case lru_key c of Some l \<Rightarrow> hm_remove l (fc_entries c) | None \<Rightarrow> fc_entries c)
                     else fc_entries c)
      in c\<lparr>fc_entries := hm_insert k \<lparr>fc_path = canonical, content_hash = fnv1a_hash content, fc_mtime = mtime,
             last_accessed = now, line_count = lines_count content\<rparr> evicted\<rparr>)"

definition build_stub :: "file_view \<Rightarrow> path \<Rightarrow> file_cache \<Rightarrow> string option" where
  "build_stub fv p c = map_option (\<lambda>e. ''[File cache hit: '' @ fc_path e @ [CHR '' '', CHR 0xE2, CHR 0x80, CHR 0x94] @
     '' content unchanged ('' @ show_nat (line_count e) @ '' lines). Previously read content is still valid.]'')
     (hm_get (fc_entries c) (components (resolved fv p)))"

definition file_touch :: "file_view \<Rightarrow> nat \<Rightarrow> path \<Rightarrow> file_cache \<Rightarrow> file_cache" where
  "file_touch fv now p c =
     (let k = components (resolved fv p)
      in case hm_get (fc_entries c) k of
           Some e \<Rightarrow> c\<lparr>fc_entries := hm_insert k (e\<lparr>last_accessed := now\<rparr>) (fc_entries c)\<rparr>
         | None \<Rightarrow> c)"

definition file_clear :: "file_cache \<Rightarrow> file_cache" where
  "file_clear c = c\<lparr>fc_entries := []\<rparr>"

definition cache_len :: "file_cache \<Rightarrow> nat" where
  "cache_len c = length (fc_entries c)"

section \<open>The specification: files by last use\<close>

type_synonym recency = "(cache_key \<times> path \<times> u64 \<times> nat) list"

definition forget :: "cache_key \<Rightarrow> recency \<Rightarrow> recency" where
  "forget k xs = filter (\<lambda>x. fst x \<noteq> k) xs"

definition spec_record :: "nat \<Rightarrow> cache_key \<Rightarrow> path \<times> u64 \<times> nat \<Rightarrow> recency \<Rightarrow> recency" where
  "spec_record n k v xs =
     forget k (if length xs \<ge> n \<and> map_of xs k = None then tl xs else xs) @ [(k, v)]"

definition spec_touch :: "cache_key \<Rightarrow> recency \<Rightarrow> recency" where
  "spec_touch k xs = (case map_of xs k of Some v \<Rightarrow> forget k xs @ [(k, v)] | None \<Rightarrow> xs)"

definition spec_check :: "file_view \<Rightarrow> path \<Rightarrow> recency \<Rightarrow> cache_status" where
  "spec_check fv p xs =
     (case fv_canonicalize fv p of
        None \<Rightarrow> Miss
      | Some canonical \<Rightarrow>
          (case map_of xs (components canonical) of
             None \<Rightarrow> Miss
           | Some (_, h, _) \<Rightarrow> if map_option fnv1a_hash (fv_read fv canonical) = Some h then Hit else Changed))"

datatype cache_op = Record file_view path string | Touch file_view path | Clear

fun cache_step :: "nat \<times> cache_op \<Rightarrow> file_cache \<Rightarrow> file_cache" where
  "cache_step (now, Record fv p content) c = file_record fv now p content c"
| "cache_step (now, Touch fv p) c = file_touch fv now p c"
| "cache_step (now, Clear) c = file_clear c"

fun spec_step :: "nat \<Rightarrow> cache_op \<Rightarrow> recency \<Rightarrow> recency" where
  "spec_step n (Record fv p content) xs =
     spec_record n (components (resolved fv p)) (resolved fv p, fnv1a_hash content, lines_count content) xs"
| "spec_step n (Touch fv p) xs = spec_touch (components (resolved fv p)) xs"
| "spec_step n Clear xs = []"

section \<open>Refinement\<close>

abbreviation time_of :: "cache_key \<times> file_cache_entry \<Rightarrow> nat" where
  "time_of x \<equiv> last_accessed (snd x)"

definition view :: "cache_key \<times> file_cache_entry \<Rightarrow> cache_key \<times> path \<times> u64 \<times> nat" where
  "view x = (fst x, fc_path (snd x), content_hash (snd x), line_count (snd x))"

definition by_use :: "(cache_key, file_cache_entry) hash_map \<Rightarrow> (cache_key \<times> file_cache_entry) list" where
  "by_use m = sort_key time_of m"

definition cache_abs :: "file_cache \<Rightarrow> recency" where
  "cache_abs c = map view (by_use (fc_entries c))"

definition cache_ok :: "nat \<Rightarrow> file_cache \<Rightarrow> bool" where
  "cache_ok now c \<longleftrightarrow> hm_wf (fc_entries c) \<and> distinct (map time_of (fc_entries c)) \<and>
     list_all (\<lambda>x. time_of x < now) (fc_entries c) \<and> length (fc_entries c) \<le> max 1 (max_entries c)"

text \<open>With distinct access times the order of use is the only sorted arrangement.\<close>

lemma by_use_unique:
  assumes "mset xs = mset m" "distinct (map time_of m)" "sorted (map time_of xs)"
  shows "by_use m = xs"
proof -
  have "inj_on time_of (set m)" using assms(2) by (simp add: distinct_map)
  with assms show ?thesis unfolding by_use_def by (metis sort_key_inj_key_eq)
qed

lemma by_use_facts [simp]:
  "mset (by_use m) = mset m" "sorted (map time_of (by_use m))" "set (by_use m) = set m" "length (by_use m) = length m"
  by (simp_all add: by_use_def)

lemma by_use_filter:
  assumes "distinct (map time_of m)"
  shows "by_use (filter P m) = filter P (by_use m)"
  by (rule by_use_unique) (use assms in \<open>simp_all add: distinct_map_filter sorted_filter\<close>)

lemma remove_filter: "hm_remove k m = filter (\<lambda>x. fst x \<noteq> k) m"
  by (simp add: AList.delete_eq case_prod_unfold eq_commute)

lemma mset_update:
  assumes "hm_wf m"
  shows "mset (hm_insert k e m) = mset (filter (\<lambda>x. fst x \<noteq> k) m @ [(k, e)])"
  using assms
proof (induction m)
  case (Cons x m)
  show ?case
  proof (cases "fst x = k")
    case True
    with Cons.prems have "filter (\<lambda>y. fst y \<noteq> k) m = m"
      by (auto simp: hm_wf_def filter_id_conv image_iff) 
    with True show ?thesis by (cases x) simp
  next
    case False
    with Cons show ?thesis by (cases x) (simp add: hm_wf_def)
  qed
qed simp

lemma by_use_insert:
  assumes "hm_wf m" "distinct (map time_of m)" "list_all (\<lambda>x. time_of x < last_accessed e) m"
  shows "by_use (hm_insert k e m) = filter (\<lambda>x. fst x \<noteq> k) (by_use m) @ [(k, e)]"
    and "distinct (map time_of (hm_insert k e m))"
proof -
  let ?new = "filter (\<lambda>x. fst x \<noteq> k) (by_use m) @ [(k, e)]"
  have m: "mset ?new = mset (hm_insert k e m)" using mset_update [OF assms(1)] by simp
  have "distinct (map time_of (filter (\<lambda>x. fst x \<noteq> k) m @ [(k, e)]))"
    using assms(2,3) by (force simp: distinct_map_filter list_all_iff)
  moreover have "mset (map time_of (hm_insert k e m)) = mset (map time_of (filter (\<lambda>x. fst x \<noteq> k) m @ [(k, e)]))"
    using mset_update [OF assms(1), of k e] by (metis mset_map)
  ultimately show d: "distinct (map time_of (hm_insert k e m))"
    using mset_eq_imp_distinct_iff by blast
  have "sorted (map time_of ?new)"
    using assms(3) by (auto simp: sorted_append sorted_filter list_all_iff less_imp_le)
  with m d show "by_use (hm_insert k e m) = ?new" by (intro by_use_unique)
qed

lemma min_entry_least:
  "min_entry m = Some x \<Longrightarrow> x \<in> set m \<and> list_all (\<lambda>y. time_of x \<le> time_of y) m"
proof (induction m arbitrary: x)
  case (Cons a m)
  show ?case
  proof (cases "min_entry m")
    case None
    then have "m = []" by (cases m) (auto split: option.splits if_splits)
    with Cons.prems show ?thesis by simp
  next
    case (Some y)
    have y: "y \<in> set m" "\<And>z. z \<in> set m \<Longrightarrow> time_of y \<le> time_of z"
      using Cons.IH [OF Some] by (simp_all add: list_all_iff)
    from Cons.prems Some have "x = (if time_of a \<le> time_of y then a else y)" by (auto split: if_splits)
    with y show ?thesis by (cases "time_of a \<le> time_of y") (auto simp: list_all_iff intro: order_trans)
  qed
qed simp

lemma min_entry_None: "min_entry m = None \<longleftrightarrow> m = []"
  by (cases m) (auto split: option.splits)

lemma min_entry_by_use:
  assumes "distinct (map time_of m)" "m \<noteq> []"
  shows "min_entry m = Some (hd (by_use m))"
proof -
  obtain x where x: "min_entry m = Some x" using assms(2) min_entry_None [of m] by auto
  obtain y ys where y: "by_use m = y # ys" using assms(2) by (metis by_use_facts(4) length_0_conv neq_Nil_conv)
  from y have "y \<in> set m" by (metis by_use_facts(3) list.set_intros(1))
  moreover have "time_of y \<le> time_of x"
    using min_entry_least [OF x] by_use_facts(2,3) [of m] by (auto simp: y simp del: by_use_facts)
  ultimately have "time_of x = time_of y" using min_entry_least [OF x] by (force simp: list_all_iff)
  with \<open>y \<in> set m\<close> min_entry_least [OF x] assms(1) have "x = y" by (auto simp: distinct_map dest: inj_onD)
  with x y show ?thesis by simp
qed

lemma keys_by_use: "hm_wf m \<Longrightarrow> distinct (map fst (by_use m))"
  unfolding hm_wf_def by (metis by_use_facts(1) mset_eq_imp_distinct_iff mset_map)

lemma get_by_use: "hm_wf m \<Longrightarrow> map_of (by_use m) = hm_get m"
  using map_of_inject_set [of "by_use m" m] keys_by_use [of m] by (simp add: hm_wf_def)

lemma get_abs:
  assumes "hm_wf (fc_entries c)"
  shows "map_of (cache_abs c) k =
    map_option (\<lambda>e. (fc_path e, content_hash e, line_count e)) (hm_get (fc_entries c) k)"
proof -
  have "map_of (map view xs) k = map_option (\<lambda>e. (fc_path e, content_hash e, line_count e)) (map_of xs k)" for xs
    by (induction xs) (auto simp: view_def)
  with get_by_use [OF assms] show ?thesis by (simp add: cache_abs_def)
qed

lemma forget_view: "map view (filter (\<lambda>x. fst x \<noteq> k) xs) = forget k (map view xs)"
  by (induction xs) (auto simp: forget_def view_def)

lemma insert_refines:
  assumes "cache_ok now c" "last_accessed e = now"
  shows "cache_abs (c\<lparr>fc_entries := hm_insert k e (fc_entries c)\<rparr>) = forget k (cache_abs c) @ [view (k, e)]"
  using assms by (simp add: cache_abs_def cache_ok_def by_use_insert forget_view)

lemma evict_refines:
  assumes "cache_ok now c" "fc_entries c \<noteq> []"
  shows "lru_key c = Some (fst (hd (by_use (fc_entries c))))"
    and "by_use (hm_remove (fst (hd (by_use (fc_entries c)))) (fc_entries c)) = tl (by_use (fc_entries c))"
proof -
  let ?m = "fc_entries c"
  have m: "hm_wf ?m" "distinct (map time_of ?m)" using assms(1) by (simp_all add: cache_ok_def)
  show "lru_key c = Some (fst (hd (by_use ?m)))" using m assms(2) by (simp add: lru_key_def min_entry_by_use)
  obtain y ys where y: "by_use ?m = y # ys" using assms(2) by (metis by_use_facts(4) length_0_conv neq_Nil_conv)
  have "filter (\<lambda>x. fst x \<noteq> fst y) ys = ys"
    using keys_by_use [OF m(1)] by (auto simp: y filter_id_conv image_iff)
  then show "by_use (hm_remove (fst (hd (by_use ?m))) ?m) = tl (by_use ?m)"
    by (simp add: remove_filter by_use_filter [OF m(2)] y)
qed

lemma ok_remove:
  assumes "cache_ok now c"
  shows "cache_ok now (c\<lparr>fc_entries := hm_remove k (fc_entries c)\<rparr>)"
  using assms length_filter_le [of "\<lambda>x. fst x \<noteq> k" "fc_entries c"]
  by (auto simp: cache_ok_def hm_wf_remove remove_filter [of k "fc_entries c"] distinct_map_filter list_all_iff
      simp del: length_filter_le)
    (metis hm_wf_remove remove_filter)

lemma length_insert:
  assumes "hm_wf m"
  shows "length (hm_insert k e m) = (if hm_get m k = None then Suc (length m) else length m)"
  using assms by (induction m) (auto simp: hm_wf_def split: if_splits)

lemma list_all_times_insert:
  "list_all (\<lambda>x. time_of x < now) m \<Longrightarrow> last_accessed e < now \<Longrightarrow> list_all (\<lambda>x. time_of x < now) (hm_insert k e m)"
  by (induction m) auto

lemma ok_insert:
  assumes "cache_ok now c" "last_accessed e = now" "now < now'"
    and "hm_get (fc_entries c) k \<noteq> None \<or> length (fc_entries c) < max 1 (max_entries c)"
  shows "cache_ok now' (c\<lparr>fc_entries := hm_insert k e (fc_entries c)\<rparr>)"
proof -
  have "list_all (\<lambda>x. time_of x < now') (fc_entries c)" using assms(1,3) by (auto simp: cache_ok_def list_all_iff)
  with assms by_use_insert(2) [of "fc_entries c" e k] show ?thesis
    by (auto simp: cache_ok_def hm_wf_insert length_insert list_all_times_insert)
qed

lemma ok_later: "cache_ok now c \<Longrightarrow> now \<le> now' \<Longrightarrow> cache_ok now' c"
  by (auto simp: cache_ok_def list_all_iff)

lemma record_refines:
  assumes ok: "cache_ok now c" and later: "now < now'"
  shows "cache_abs (file_record fv now p content c) =
      spec_record (max_entries c) (components (resolved fv p)) (resolved fv p, fnv1a_hash content, lines_count content) (cache_abs c)"
    and "cache_ok now' (file_record fv now p content c)"
proof -
  let ?k = "components (resolved fv p)"
  let ?full = "length (fc_entries c) \<ge> max_entries c \<and> hm_get (fc_entries c) ?k = None"
  define e where "e = \<lparr>fc_path = resolved fv p, content_hash = fnv1a_hash content,
    fc_mtime = (case fv_mtime fv (resolved fv p) of Some t \<Rightarrow> t | None \<Rightarrow> fv_time fv), last_accessed = now,
    line_count = lines_count content\<rparr>"
  have e: "last_accessed e = now" "view (?k, e) = (?k, resolved fv p, fnv1a_hash content, lines_count content)"
    "file_record fv now p content c = c\<lparr>fc_entries := hm_insert ?k e
       (if ?full then (case lru_key c of Some l \<Rightarrow> hm_remove l (fc_entries c) | None \<Rightarrow> fc_entries c) else fc_entries c)\<rparr>"
    by (simp_all add: file_record_def Let_def view_def e_def)
  have abs: "length (cache_abs c) = length (fc_entries c)" "map_of (cache_abs c) ?k = None \<longleftrightarrow> hm_get (fc_entries c) ?k = None"
    using ok by (simp_all add: cache_abs_def [of c] cache_ok_def get_abs [unfolded cache_abs_def])
  have "cache_abs (file_record fv now p content c) = spec_record (max_entries c) ?k
      (resolved fv p, fnv1a_hash content, lines_count content) (cache_abs c) \<and>
    cache_ok now' (file_record fv now p content c)"
  proof (cases "?full \<and> fc_entries c \<noteq> []")
    case True
    define c1 where "c1 = c\<lparr>fc_entries := hm_remove (fst (hd (by_use (fc_entries c)))) (fc_entries c)\<rparr>"
    have c1: "cache_ok now c1" unfolding c1_def by (rule ok_remove [OF ok])
    have rec: "file_record fv now p content c = c1\<lparr>fc_entries := hm_insert ?k e (fc_entries c1)\<rparr>"
      using True evict_refines(1) [OF ok] by (simp add: e(3) c1_def)
    have abs1: "cache_abs c1 = tl (cache_abs c)"
      using True evict_refines(2) [OF ok] by (simp add: cache_abs_def c1_def map_tl)
    then have "length (fc_entries c1) < length (fc_entries c)"
      using True abs(1) by (auto simp: cache_abs_def [of c1] dest!: arg_cong [where f = length])
    then have "length (fc_entries c1) < max 1 (max_entries c1)"
      using ok by (simp add: cache_ok_def c1_def)
    with insert_refines [OF c1 e(1), of ?k] ok_insert [OF c1 e(1) later, of ?k] True abs show ?thesis
      by (simp add: rec abs1 spec_record_def e(2))
  next
    case False
    then have rec: "file_record fv now p content c = c\<lparr>fc_entries := hm_insert ?k e (fc_entries c)\<rparr>"
      by (auto simp: e(3) lru_key_def)
    have "hm_get (fc_entries c) ?k \<noteq> None \<or> length (fc_entries c) < max 1 (max_entries c)"
      using False by auto
    with insert_refines [OF ok e(1), of ?k] ok_insert [OF ok e(1) later, of ?k] False abs show ?thesis
      by (auto simp: rec spec_record_def e(2) cache_abs_def by_use_def)
  qed
  then show "cache_abs (file_record fv now p content c) = spec_record (max_entries c) ?k
      (resolved fv p, fnv1a_hash content, lines_count content) (cache_abs c)"
    and "cache_ok now' (file_record fv now p content c)" by simp_all
qed

lemma touch_refines:
  assumes ok: "cache_ok now c" and later: "now < now'"
  shows "cache_abs (file_touch fv now p c) = spec_touch (components (resolved fv p)) (cache_abs c)"
    and "cache_ok now' (file_touch fv now p c)"
  using insert_refines [OF ok, of "x\<lparr>last_accessed := now\<rparr>" for x] ok_insert [OF ok _ later]
    ok_later [OF ok] later ok
  by (auto simp: file_touch_def spec_touch_def get_abs cache_ok_def [of now c] Let_def view_def split: option.splits)

lemma step_max [simp]: "max_entries (cache_step x c) = max_entries c"
  by (cases x; cases "snd x") (auto simp: file_record_def file_touch_def file_clear_def Let_def split: option.split)

lemma run_max [simp]: "max_entries (fold cache_step ops c) = max_entries c"
  by (induction ops arbitrary: c) auto

lemma step_refines:
  assumes "cache_ok now c" "now < now'"
  shows "cache_abs (cache_step (now, x) c) = spec_step (max_entries c) x (cache_abs c) \<and> cache_ok now' (cache_step (now, x) c)"
  using record_refines [OF assms] touch_refines [OF assms]
  by (cases x) (auto simp: file_clear_def cache_abs_def by_use_def cache_ok_def)

lemma run_refines:
  assumes "cache_ok now c" "list_all (\<lambda>x. now \<le> fst x) ops" "sorted_wrt (<) (map fst ops)"
  shows "cache_abs (fold cache_step ops c) = fold (spec_step (max_entries c)) (map snd ops) (cache_abs c) \<and>
    (\<exists>now'. cache_ok now' (fold cache_step ops c))"
  using assms
proof (induction ops arbitrary: now c)
  case (Cons x ops)
  obtain t y where x: "x = (t, y)" by (cases x)
  have ok: "cache_ok t c" using ok_later [OF Cons.prems(1), of t] Cons.prems(2) x by simp
  note s = step_refines [OF ok lessI, of y]
  have "list_all (\<lambda>x. Suc t \<le> fst x) ops" using Cons.prems(3) x by (auto simp: list_all_iff Suc_le_eq)
  with Cons.IH [of "Suc t" "cache_step x c"] s Cons.prems(3) x show ?case by simp
qed auto

lemma check_refines: "cache_ok now c \<Longrightarrow> file_check fv p c = spec_check fv p (cache_abs c)"
  by (auto simp: file_check_def spec_check_def get_abs cache_ok_def split: option.splits)

text \<open>
  C11. Under a strictly increasing clock the cache implements the list of files by last use: after every
  history of reads, touches and clears it holds exactly the most recently used files up to its capacity
  (one, if the capacity is zero), and a check answers hit, changed or miss as that list does.
\<close>

theorem file_cache_refines:
  assumes "sorted_wrt (<) (map fst ops)"
  shows "cache_abs (fold cache_step ops (cache_new n)) = fold (spec_step n) (map snd ops) [] \<and>
    file_check fv p (fold cache_step ops (cache_new n)) = spec_check fv p (fold (spec_step n) (map snd ops) []) \<and>
    cache_len (fold cache_step ops (cache_new n)) \<le> max 1 n"
proof -
  have new: "cache_ok 0 (cache_new n)" "cache_abs (cache_new n) = []" "max_entries (cache_new n) = n"
    by (simp_all add: cache_ok_def cache_new_def cache_abs_def by_use_def)
  have "list_all (\<lambda>x. 0 \<le> fst x) ops" by (simp add: list_all_iff)
  from run_refines [OF new(1) this assms] obtain now where
    r: "cache_abs (fold cache_step ops (cache_new n)) = fold (spec_step n) (map snd ops) []"
       "cache_ok now (fold cache_step ops (cache_new n))" by (auto simp: new)
  with check_refines [OF r(2)] new(3) show ?thesis
    by (simp add: cache_len_def) (simp add: cache_ok_def)
qed

definition still_view :: file_view where
  "still_view = \<lparr>fv_canonicalize = Some, fv_read = (\<lambda>_. Some ''x''), fv_mtime = (\<lambda>_. None), fv_time = 0\<rparr>"

theorem file_cache_refines_witness:
  "let c = fold cache_step [(1, Record still_view ''/a'' ''x''), (2, Record still_view ''/b'' ''x''),
             (3, Touch still_view ''/a''), (5, Record still_view ''/c'' ''y'')] (cache_new 2)
   in map fst (cache_abs c) = [components ''/a'', components ''/c''] \<and>
      file_check still_view ''/b'' c = Miss \<and> file_check still_view ''/a'' c = Hit \<and> file_check still_view ''/c'' c = Changed"
proof -
  let ?ops = "[(1 :: nat, Record still_view ''/a'' ''x''), (2, Record still_view ''/b'' ''x''),
             (3, Touch still_view ''/a''), (5, Record still_view ''/c'' ''y'')]"
  have spec: "map fst (fold (spec_step 2) (map snd ?ops) []) = [components ''/a'', components ''/c'']"
    "spec_check still_view ''/b'' (fold (spec_step 2) (map snd ?ops) []) = Miss"
    "spec_check still_view ''/a'' (fold (spec_step 2) (map snd ?ops) []) = Hit"
    "spec_check still_view ''/c'' (fold (spec_step 2) (map snd ?ops) []) = Changed"
    by code_simp+
  have "sorted_wrt (<) (map fst ?ops)" by simp
  note T = file_cache_refines [OF this, of 2 still_view]
  show ?thesis using T [of "''/a''"] T [of "''/b''"] T [of "''/c''"] spec by (simp only: Let_def simp_thms)
qed

end
