(* ===== verification/Bao_Cron.thy ===== *)
theory Bao_Cron
  imports Bao_Text
begin

text \<open>
  \<open>engine/cron.rs\<close>: the periodic jobs of the daemon, the parser of their schedules, the table of jobs with
  its persistence, and the scheduler's tick. Results of \<open>save_jobs\<close> are arguments (\<open>None\<close> for success);
  \<open>saved_jobs\<close> is the content of the state file. An instant is a number of nanoseconds of the monotonic
  clock; running a job and broadcasting its result are not modelled beyond the jobs that fire.
\<close>

section \<open>Data\<close>

record cron_job =
  job_id :: string
  job_name :: string
  job_prompt :: string
  job_schedule :: string
  job_cwd :: "string option"
  job_enabled :: bool
  job_created_at :: string
  job_last_run :: "string option"
  job_last_result :: "string option"

datatype schedule = Interval nat | Daily nat nat | Weekly nat nat nat

record cron_manager =
  cron_jobs :: "cron_job list"
  saved_jobs :: "cron_job list"

section \<open>Parsing schedules\<close>

definition unit_seconds :: "string \<Rightarrow> nat option" where
  "unit_seconds c =
     (if c = ''s'' then Some 1 else if c = ''m'' then Some 60 else if c = ''h'' then Some 3600
      else if c = ''d'' then Some 86400 else None)"

text \<open>\<open>tot.checked_add(n.checked_mul(multiplier)?)?\<close>.\<close>

definition add_checked :: "string \<Rightarrow> nat \<Rightarrow> nat \<Rightarrow> nat \<Rightarrow> string + nat" where
  "add_checked s tot n multiplier =
     (if n * multiplier \<le> u64_max \<and> tot + n * multiplier \<le> u64_max then Inr (tot + n * multiplier)
      else Inl (''Duration is too large: '' @ s))"

definition single_digit :: "string \<Rightarrow> bool" where
  "single_digit c \<longleftrightarrow> length c = 1 \<and> list_all is_digit c"

fun duration_loop :: "string \<Rightarrow> string list \<Rightarrow> nat \<Rightarrow> string \<Rightarrow> string + nat \<times> string" where
  "duration_loop s [] tot buf = Inr (tot, buf)"
| "duration_loop s (c # cs) tot buf =
     (if single_digit c then duration_loop s cs tot (buf @ c)
      else case parse_uint u64_max buf of
             None \<Rightarrow> Inl (''Invalid number in duration: '' @ s)
           | Some n \<Rightarrow>
               (case unit_seconds c of
                  None \<Rightarrow> Inl (''Unknown duration unit: '' @ c)
                | Some k \<Rightarrow>
                    (case add_checked s tot n k of Inl e \<Rightarrow> Inl e | Inr tot' \<Rightarrow> duration_loop s cs tot' [])))"

definition parse_duration :: "string \<Rightarrow> string + nat" where
  "parse_duration s =
     (case duration_loop s (chars s) 0 [] of
        Inl e \<Rightarrow> Inl e
      | Inr (tot, buf) \<Rightarrow>
          let final = (if buf \<noteq> [] then
                 (case parse_uint u64_max buf of
                    None \<Rightarrow> Inl (''Invalid number: '' @ s)
                  | Some n \<Rightarrow> add_checked s tot n 60)
               else Inr tot)
          in (case final of Inl e \<Rightarrow> Inl e
              | Inr t \<Rightarrow> if t = 0 then Inl ''Duration cannot be zero'' else Inr t))"

definition parse_time :: "string \<Rightarrow> string + nat \<times> nat" where
  "parse_time s =
     (case split_char CHR '':'' s of
        [h, m] \<Rightarrow>
          (case parse_uint u32_max h of
             None \<Rightarrow> Inl (''Invalid hour: '' @ h)
           | Some hv \<Rightarrow>
               (case parse_uint u32_max m of
                  None \<Rightarrow> Inl (''Invalid minute: '' @ m)
                | Some mv \<Rightarrow>
                    if hv > 23 \<or> mv > 59 then Inl (''Time out of range: '' @ show_nat hv @ '':'' @ show_nat mv)
                    else Inr (hv, mv)))
      | _ \<Rightarrow> Inl (''Expected HH:MM, got: '' @ s))"

definition parse_day :: "string \<Rightarrow> string + nat" where
  "parse_day s =
     (if s \<in> {''mon'', ''monday''} then Inr 0 else if s \<in> {''tue'', ''tuesday''} then Inr 1
      else if s \<in> {''wed'', ''wednesday''} then Inr 2 else if s \<in> {''thu'', ''thursday''} then Inr 3
      else if s \<in> {''fri'', ''friday''} then Inr 4 else if s \<in> {''sat'', ''saturday''} then Inr 5
      else if s \<in> {''sun'', ''sunday''} then Inr 6 else Inl (''Unknown day: '' @ s))"

definition parse_schedule :: "string \<Rightarrow> string + schedule" where
  "parse_schedule raw =
     (let s = str_lower (str_trim raw)
      in case strip_prefix ''every '' s of
           Some rest \<Rightarrow>
             (case parse_duration rest of
                Inl e \<Rightarrow> Inl e
              | Inr secs \<Rightarrow> if secs < 60 then Inl ''Minimum interval is 60 seconds'' else Inr (Interval secs))
         | None \<Rightarrow>
             (case strip_prefix ''daily '' s of
                Some time \<Rightarrow> (case parse_time time of Inl e \<Rightarrow> Inl e | Inr (h, m) \<Rightarrow> Inr (Daily h m))
              | None \<Rightarrow>
                  (case strip_prefix ''weekly '' s of
                     Some stripped \<Rightarrow>
                       (case split_whitespace stripped of
                          [d, time] \<Rightarrow>
                            (case parse_day d of
                               Inl e \<Rightarrow> Inl e
                             | Inr day \<Rightarrow> (case parse_time time of Inl e \<Rightarrow> Inl e | Inr (h, m) \<Rightarrow> Inr (Weekly day h m)))
                        | _ \<Rightarrow> Inl ''Expected: weekly <day> <HH:MM>'')
                   | None \<Rightarrow> Inl (''Unknown schedule format: '' @ quoted s @
                       ''. Use: every <duration>, daily <HH:MM>, weekly <day> <HH:MM>''))))"

section \<open>The table of jobs\<close>

definition save_jobs :: "string option \<Rightarrow> cron_job list \<Rightarrow> cron_manager \<Rightarrow> cron_manager \<times> string option" where
  "save_jobs err jobs mgr = (case err of None \<Rightarrow> (mgr\<lparr>saved_jobs := jobs\<rparr>, None) | Some e \<Rightarrow> (mgr, Some e))"

definition cron_new :: "cron_job list \<Rightarrow> cron_manager" where
  "cron_new loaded = \<lparr>cron_jobs = loaded, saved_jobs = loaded\<rparr>"

definition add_job ::
  "string option \<Rightarrow> string \<Rightarrow> string \<Rightarrow> string \<Rightarrow> string \<Rightarrow> string \<Rightarrow> string option \<Rightarrow> cron_manager \<Rightarrow>
     cron_manager \<times> (string + cron_job)" where
  "add_job err fresh_id now name prompt sched wd mgr =
     (case parse_schedule sched of
        Inl e \<Rightarrow> (mgr, Inl (''Invalid schedule '' @ quoted sched @ '': '' @ e))
      | Inr _ \<Rightarrow>
          let job = \<lparr>job_id = take 8 fresh_id, job_name = name, job_prompt = prompt, job_schedule = sched, job_cwd = wd,
                     job_enabled = True, job_created_at = now, job_last_run = None, job_last_result = None\<rparr>
          in (case save_jobs err (cron_jobs mgr @ [job]) mgr of
                (mgr', Some e) \<Rightarrow> (mgr', Inl e)
              | (mgr', None) \<Rightarrow> (mgr'\<lparr>cron_jobs := cron_jobs mgr' @ [job]\<rparr>, Inr job)))"

definition remove_job :: "string option \<Rightarrow> string \<Rightarrow> cron_manager \<Rightarrow> cron_manager \<times> bool" where
  "remove_job err i mgr =
     (let kept = filter (\<lambda>j. job_id j \<noteq> i) (cron_jobs mgr); mgr1 = mgr\<lparr>cron_jobs := kept\<rparr>
      in if length kept < length (cron_jobs mgr) then (fst (save_jobs err kept mgr1), True) else (mgr1, False))"

fun update_first_job :: "string \<Rightarrow> (cron_job \<Rightarrow> cron_job) \<Rightarrow> cron_job list \<Rightarrow> cron_job list" where
  "update_first_job i f [] = []"
| "update_first_job i f (j # js) = (if job_id j = i then f j # js else j # update_first_job i f js)"

definition toggle_job :: "string option \<Rightarrow> string \<Rightarrow> cron_manager \<Rightarrow> cron_manager \<times> bool option" where
  "toggle_job err i mgr =
     (case List.find (\<lambda>j. job_id j = i) (cron_jobs mgr) of
        None \<Rightarrow> (mgr, None)
      | Some j \<Rightarrow>
          let jobs = update_first_job i (\<lambda>j. j\<lparr>job_enabled := \<not> job_enabled j\<rparr>) (cron_jobs mgr)
          in (fst (save_jobs err jobs (mgr\<lparr>cron_jobs := jobs\<rparr>)), Some (\<not> job_enabled j)))"

definition update_job_result :: "string option \<Rightarrow> string \<Rightarrow> string \<Rightarrow> string \<Rightarrow> cron_manager \<Rightarrow> cron_manager" where
  "update_job_result err now i res mgr =
     (let jobs = update_first_job i (\<lambda>j. j\<lparr>job_last_run := Some now, job_last_result := Some (take_chars 500 res)\<rparr>) (cron_jobs mgr)
      in fst (save_jobs err jobs (mgr\<lparr>cron_jobs := jobs\<rparr>)))"

section \<open>The scheduler's tick\<close>

text \<open>
  A moment: the monotonic instant in nanoseconds and the UTC weekday (0 is Monday), hour and minute.
  \<open>Instant::now() - Duration\<close> panics when the seconds leave the range of an \<open>i64\<close>: the result \<open>None\<close>.
\<close>

record moment =
  instant :: nat
  weekday :: nat
  hour :: nat
  minute :: nat

definition elapsed_secs :: "nat \<Rightarrow> nat \<Rightarrow> nat" where
  "elapsed_secs now t = (now - t) div 10 ^ 9"

definition not_recently :: "nat \<Rightarrow> nat option \<Rightarrow> bool" where
  "not_recently now last_fire = (case last_fire of None \<Rightarrow> True | Some l \<Rightarrow> elapsed_secs now l > 120)"

fun should_run :: "moment \<Rightarrow> nat option \<Rightarrow> schedule \<Rightarrow> bool option" where
  "should_run now last_fire (Interval secs) =
     (case last_fire of
        Some l \<Rightarrow> Some (elapsed_secs (instant now) l \<ge> secs)
      | None \<Rightarrow> if secs > instant now div 10 ^ 9 + 2 ^ 63 then None else Some True)"
| "should_run now last_fire (Daily h m) =
     Some (hour now = h \<and> minute now = m \<and> not_recently (instant now) last_fire)"
| "should_run now last_fire (Weekly d h m) =
     Some (weekday now = d \<and> hour now = h \<and> minute now = m \<and> not_recently (instant now) last_fire)"

type_synonym last_check = "(string, nat) hash_map"

text \<open>One job of a tick: the updated table of last firings and the jobs fired so far.\<close>

definition tick_job :: "moment \<Rightarrow> cron_job \<Rightarrow> last_check \<times> cron_job list \<Rightarrow> (last_check \<times> cron_job list) option" where
  "tick_job now job st =
     (if \<not> job_enabled job then Some st
      else case parse_schedule (job_schedule job) of
             Inl _ \<Rightarrow> Some st
           | Inr sched \<Rightarrow>
               (case should_run now (hm_get (fst st) (job_id job)) sched of
                  None \<Rightarrow> None
                | Some False \<Rightarrow> Some st
                | Some True \<Rightarrow> Some (hm_insert (job_id job) (instant now) (fst st), snd st @ [job])))"

fun tick_jobs :: "moment \<Rightarrow> cron_job list \<Rightarrow> last_check \<times> cron_job list \<Rightarrow> (last_check \<times> cron_job list) option" where
  "tick_jobs now [] st = Some st"
| "tick_jobs now (j # js) st = Option.bind (tick_job now j st) (tick_jobs now js)"


section \<open>Durations are read exactly\<close>

definition render_parts :: "(nat \<times> char) list \<Rightarrow> string" where
  "render_parts ps = concat (map (\<lambda>(n, u). show_nat n @ [u]) ps)"

definition part_seconds :: "nat \<times> char \<Rightarrow> nat" where
  "part_seconds p = fst p * the (unit_seconds [snd p])"

lemma loop_digits:
  "list_all is_digit ds \<Longrightarrow> duration_loop s (map (\<lambda>c. [c]) ds @ rest) tot buf = duration_loop s rest tot (buf @ ds)"
  by (induction ds arbitrary: buf) (simp_all add: single_digit_def)

definition unit_ok :: "nat \<times> char \<Rightarrow> bool" where
  "unit_ok p \<longleftrightarrow> snd p \<in> {CHR ''s'', CHR ''m'', CHR ''h'', CHR ''d''} \<and> fst p \<le> u64_max"

lemma unit_ok_facts:
  assumes "unit_ok (n, u)"
  shows "\<not> is_cont u" "\<not> single_digit [u]" "unit_seconds [u] \<noteq> None" "n \<le> u64_max"
  using assms by (auto simp: unit_ok_def is_cont_def single_digit_def is_digit_def byte_def unit_seconds_def)

lemma loop_parts:
  "list_all unit_ok ps \<Longrightarrow> tot \<le> u64_max \<Longrightarrow>
   duration_loop s (map (\<lambda>c. [c]) (render_parts ps)) tot [] =
     (if tot + sum_list (map part_seconds ps) \<le> u64_max then Inr (tot + sum_list (map part_seconds ps), [])
      else Inl (''Duration is too large: '' @ s))"
proof (induction ps arbitrary: tot)
  case (Cons p ps)
  obtain n u where p: "p = (n, u)" by (cases p)
  note U = unit_ok_facts [of n u]
  from Cons.prems p obtain k where k: "unit_seconds [u] = Some k" using U(3) by auto
  have "duration_loop s (map (\<lambda>c. [c]) (render_parts (p # ps))) tot [] =
    duration_loop s ([u] # map (\<lambda>c. [c]) (render_parts ps)) tot (show_nat n)"
    using loop_digits [of "show_nat n" s "[u] # map (\<lambda>c. [c]) (render_parts ps)" tot "[]"] show_nat_digits [of n]
    by (simp add: render_parts_def p)
  also have "\<dots> = (case add_checked s tot n k of Inl e \<Rightarrow> Inl e
      | Inr t \<Rightarrow> duration_loop s (map (\<lambda>c. [c]) (render_parts ps)) t [])"
    using Cons.prems U p k by (simp add: parse_uint_show)
  finally have step: "duration_loop s (map (\<lambda>c. [c]) (render_parts (p # ps))) tot [] =
      (case add_checked s tot n k of Inl e \<Rightarrow> Inl e
       | Inr t \<Rightarrow> duration_loop s (map (\<lambda>c. [c]) (render_parts ps)) t [])" .
  have "part_seconds p = n * k" using k p by (simp add: part_seconds_def)
  with Cons show ?case unfolding step by (auto simp: add_checked_def add.assoc)
qed (simp add: render_parts_def)

text \<open>
  A duration written as any sequence of numbers with the units s, m, h and d is read as exactly its
  number of seconds; a sum beyond \<open>u64\<close> is rejected and never wraps, and zero is rejected.
\<close>

lemma parse_duration_exact:
  assumes "list_all unit_ok ps"
  shows "parse_duration (render_parts ps) =
    (let secs = sum_list (map part_seconds ps)
     in if secs > u64_max then Inl (''Duration is too large: '' @ render_parts ps)
        else if secs = 0 then Inl ''Duration cannot be zero'' else Inr secs)"
proof -
  have "list_all (\<lambda>c. \<not> is_cont c) (render_parts ps)"
    using assms
  proof (induction ps)
    case (Cons p ps)
    obtain n u where p: "p = (n, u)" by (cases p)
    have "list_all (\<lambda>c. \<not> is_cont c) (show_nat n)"
      using show_nat_digits [of n] digit_not_cont by (auto simp: list_all_iff)
    with Cons p unit_ok_facts(1) [of n u] show ?case by (simp add: render_parts_def)
  qed (simp add: render_parts_def)
  then show ?thesis
    using loop_parts [OF assms, of 0 "render_parts ps"] by (simp add: parse_duration_def chars_ascii Let_def)
qed

lemma parse_duration_exact_witness:
  "parse_duration (render_parts [(2, CHR ''h''), (30, CHR ''m'')]) = Inr 9000 \<and>
   render_parts [(2, CHR ''h''), (30, CHR ''m'')] = ''2h30m''"
proof -
  have "render_parts [(2, CHR ''h''), (30, CHR ''m'')] = ''2h30m''" by code_simp
  with parse_duration_exact [of "[(2, CHR ''h''), (30, CHR ''m'')]"] show ?thesis
    by (simp add: unit_ok_def u64_max_def part_seconds_def unit_seconds_def)
qed

section \<open>A daily job fires once a day\<close>
















lemma huge_interval_panics:
  assumes "job_enabled j" "parse_schedule (job_schedule j) = Inr (Interval secs)" "secs > instant now div 10 ^ 9 + 2 ^ 63"
  shows "tick_jobs now (j # js) ([], []) = None"
  using assms by (simp add: tick_job_def)





end
