(* ===== verification/Bao_Budget.thy ===== *)
theory Bao_Budget
  imports Bao_Compaction
begin

text \<open>
  What a query spends: \<open>engine/cost_tracker.rs\<close>, \<open>engine/token_counter.rs\<close>, and the tracker of
  \<open>engine/query_engine.rs\<close> that adapts how many messages a compaction keeps. A double is its bit pattern;
  IEEE arithmetic is the record \<open>ieee\<close>, an argument, and the constants are written as bit patterns. The
  \<open>tiktoken\<close> tokenizer is the argument \<open>bpe\<close> (\<open>None\<close> when it does not load).
\<close>

section \<open>Floating point\<close>

record ieee =
  f_add :: "f64 \<Rightarrow> f64 \<Rightarrow> f64"
  f_mul :: "f64 \<Rightarrow> f64 \<Rightarrow> f64"
  f_div :: "f64 \<Rightarrow> f64 \<Rightarrow> f64"
  f_sum :: "f64 list \<Rightarrow> f64"
  f_of_u64 :: "u64 \<Rightarrow> f64"
  f_to_u64 :: "f64 \<Rightarrow> u64"
  f_less :: "f64 \<Rightarrow> f64 \<Rightarrow> bool"
  f_le :: "f64 \<Rightarrow> f64 \<Rightarrow> bool"

section \<open>Cost\<close>

record model_pricing =
  input_per_mtok :: f64
  output_per_mtok :: f64
  cache_write_per_mtok :: f64
  cache_read_per_mtok :: f64

text \<open>3.0, 15.0, 3.75 and 0.30.\<close>

definition default_pricing :: model_pricing where
  "default_pricing = \<lparr>input_per_mtok = 0x4008000000000000, output_per_mtok = 0x402E000000000000,
     cache_write_per_mtok = 0x400E000000000000, cache_read_per_mtok = 0x3FD3333333333333\<rparr>"

text \<open>Opus: 15.0, 75.0, 18.75 and 1.50; Haiku: 0.80, 4.0, 1.0 and 0.08.\<close>

definition pricing_table :: "(string \<times> model_pricing) list" where
  "pricing_table =
     [(''claude-sonnet-4-20250514'', default_pricing),
      (''claude-opus-4-20250514'', \<lparr>input_per_mtok = 0x402E000000000000, output_per_mtok = 0x4052C00000000000,
         cache_write_per_mtok = 0x4032C00000000000, cache_read_per_mtok = 0x3FF8000000000000\<rparr>),
      (''claude-3-5-haiku-20241022'', \<lparr>input_per_mtok = 0x3FE999999999999A, output_per_mtok = 0x4010000000000000,
         cache_write_per_mtok = 0x3FF0000000000000, cache_read_per_mtok = 0x3FB47AE147AE147B\<rparr>)]"

definition empty_usage :: usage where
  "empty_usage = \<lparr>input_tokens = 0, output_tokens = 0, cache_creation_input_tokens = None, cache_read_input_tokens = None\<rparr>"

record cost_tracker =
  current_query_cost :: f64
  total_cost :: f64
  tracked_usage :: usage

definition cost_tracker_new :: cost_tracker where
  "cost_tracker_new = \<lparr>current_query_cost = 0, total_cost = 0, tracked_usage = empty_usage\<rparr>"

definition pricing_of :: "string \<Rightarrow> model_pricing" where
  "pricing_of model = (case map_of pricing_table model of Some p \<Rightarrow> p | None \<Rightarrow> default_pricing)"

definition per_mtok :: "ieee \<Rightarrow> u64 \<Rightarrow> f64 \<Rightarrow> f64" where
  "per_mtok fp n price = f_mul fp (f_div fp (f_of_u64 fp n) 0x412E848000000000) price"

definition calculate_cost :: "ieee \<Rightarrow> usage \<Rightarrow> string \<Rightarrow> f64" where
  "calculate_cost fp u model =
     (let p = pricing_of model; or_zero = (\<lambda>x. case x of Some n \<Rightarrow> n | None \<Rightarrow> 0)
      in f_add fp (f_add fp (f_add fp (per_mtok fp (input_tokens u) (input_per_mtok p))
           (per_mtok fp (output_tokens u) (output_per_mtok p)))
           (per_mtok fp (or_zero (cache_creation_input_tokens u)) (cache_write_per_mtok p)))
           (per_mtok fp (or_zero (cache_read_input_tokens u)) (cache_read_per_mtok p)))"

definition per_million_prices :: "string \<Rightarrow> f64 \<times> f64" where
  "per_million_prices model = (input_per_mtok (pricing_of model), output_per_mtok (pricing_of model))"

definition cost_accumulate :: "ieee \<Rightarrow> usage \<Rightarrow> string \<Rightarrow> cost_tracker \<Rightarrow> cost_tracker" where
  "cost_accumulate fp u model c =
     (let cost = calculate_cost fp u model; t = tracked_usage c
      in \<lparr>current_query_cost = f_add fp (current_query_cost c) cost, total_cost = f_add fp (total_cost c) cost,
          tracked_usage = \<lparr>input_tokens = input_tokens t + input_tokens u, output_tokens = output_tokens t + output_tokens u,
            cache_creation_input_tokens = add_optional (cache_creation_input_tokens t) (cache_creation_input_tokens u),
            cache_read_input_tokens = add_optional (cache_read_input_tokens t) (cache_read_input_tokens u)\<rparr>\<rparr>)"

definition reset_query :: "cost_tracker \<Rightarrow> cost_tracker" where
  "reset_query c = c\<lparr>current_query_cost := 0\<rparr>"

section \<open>Tokens\<close>

record token_baseline =
  last_known_input_tokens :: u64
  last_known_message_count :: nat

record token_counter =
  tc_baseline :: "u64 option"
  tc_message_count :: nat
  tc_threshold_ratio :: f64
  tc_context_window :: u64

datatype budget_status = Normal | Compact | Warning | Blocking

definition token_counter_new :: "u64 \<Rightarrow> f64 \<Rightarrow> token_counter" where
  "token_counter_new window ratio =
     \<lparr>tc_baseline = None, tc_message_count = 0, tc_threshold_ratio = ratio, tc_context_window = window\<rparr>"

definition message_text :: "(json \<Rightarrow> string) \<Rightarrow> (content_block list \<Rightarrow> string) \<Rightarrow> message \<Rightarrow> string" where
  "message_text render render_blocks m =
     (case msg_content m of
        User um _ _ \<Rightarrow> (case um_content um of JString s \<Rightarrow> s | v \<Rightarrow> render v)
      | Assistant am _ _ \<Rightarrow> render_blocks (am_content am)
      | System _ content \<Rightarrow> content
      | Progress _ _ \<Rightarrow> [])"

definition count_text_tokens :: "(string \<Rightarrow> nat) option \<Rightarrow> string \<Rightarrow> u64" where
  "count_text_tokens bpe s =
     (case bpe of Some tokens \<Rightarrow> of_nat (tokens s) | None \<Rightarrow> saturating_mul (of_nat (chars_count s)) 3 div 4)"

definition calibrate :: "u64 \<Rightarrow> nat \<Rightarrow> token_counter \<Rightarrow> token_counter" where
  "calibrate tokens n tc = tc\<lparr>tc_baseline := Some tokens, tc_message_count := n\<rparr>"

definition token_estimate :: "(message \<Rightarrow> u64) \<Rightarrow> token_counter \<Rightarrow> message list \<Rightarrow> u64" where
  "token_estimate count tc messages =
     (case tc_baseline tc of
        Some baseline \<Rightarrow>
          if length messages \<ge> tc_message_count tc
          then baseline + sum_list (map count (drop (tc_message_count tc) messages))
          else sum_list (map count messages)
      | None \<Rightarrow> sum_list (map count messages))"

definition effective_window :: "token_counter \<Rightarrow> u64" where
  "effective_window tc = saturating_sub (tc_context_window tc) 33000"

definition warning_threshold :: "token_counter \<Rightarrow> u64" where
  "warning_threshold tc = saturating_sub (effective_window tc) 20000"

definition blocking_threshold :: "token_counter \<Rightarrow> u64" where
  "blocking_threshold tc = saturating_sub (effective_window tc) 3000"

definition compact_threshold :: "ieee \<Rightarrow> token_counter \<Rightarrow> u64" where
  "compact_threshold fp tc = f_to_u64 fp (f_mul fp (f_of_u64 fp (tc_context_window tc)) (tc_threshold_ratio tc))"

definition should_compact_given :: "ieee \<Rightarrow> token_counter \<Rightarrow> u64 \<Rightarrow> bool" where
  "should_compact_given fp tc est \<longleftrightarrow> est > compact_threshold fp tc"

definition budget_status_given :: "ieee \<Rightarrow> token_counter \<Rightarrow> u64 \<Rightarrow> budget_status" where
  "budget_status_given fp tc est =
     (if est > blocking_threshold tc then Blocking
      else if est > warning_threshold tc then Warning
      else if est > compact_threshold fp tc then Compact
      else Normal)"

definition save_baseline :: "token_counter \<Rightarrow> token_baseline option \<Rightarrow> token_baseline option" where
  "save_baseline tc saved =
     (case tc_baseline tc of
        Some t \<Rightarrow> Some \<lparr>last_known_input_tokens = t, last_known_message_count = tc_message_count tc\<rparr>
      | None \<Rightarrow> saved)"

definition apply_baseline :: "token_baseline \<Rightarrow> token_counter \<Rightarrow> token_counter" where
  "apply_baseline b tc =
     tc\<lparr>tc_baseline := Some (last_known_input_tokens b), tc_message_count := last_known_message_count b\<rparr>"

text \<open>A restored baseline continues where the saved counter was; an estimate only counts what came later.\<close>

lemma baseline_roundtrip:
  assumes "save_baseline (calibrate t n tc) saved = Some b"
  shows "apply_baseline b tc = calibrate t n tc"
  using assms by (auto simp: save_baseline_def apply_baseline_def calibrate_def)

lemma estimate_after_calibration:
  "token_estimate count (calibrate t (length ms) tc) (ms @ new) = t + sum_list (map count new)"
  by (simp add: token_estimate_def calibrate_def)

lemma thresholds_ordered: "warning_threshold tc \<le> blocking_threshold tc"
proof -
  have "saturating_sub w 20000 \<le> saturating_sub w 3000" for w :: u64
    unfolding saturating_sub_def word_less_nat_alt word_le_nat_alt
    by (auto simp: unat_sub word_le_nat_alt)
  then show ?thesis by (simp add: warning_threshold_def blocking_threshold_def)
qed

section \<open>How many messages a compaction keeps\<close>

record compact_feedback =
  compression_ratio :: f64
  fb_tokens_before :: u64
  fb_tokens_after :: u64
  user_repeated_topic :: bool

record adaptive_tracker =
  ad_history :: "compact_feedback list"
  keep_recent :: nat
  avg_compression_ratio :: f64
  avg_loss_score :: f64
  compact_count :: u32

definition adaptive_new :: adaptive_tracker where
  "adaptive_new = \<lparr>ad_history = [], keep_recent = 10, avg_compression_ratio = 0, avg_loss_score = 0, compact_count = 0\<rparr>"

text \<open>The constants are 0.15, 0.3, 0.05 and 0.6.\<close>

definition next_keep :: "ieee \<Rightarrow> f64 \<Rightarrow> f64 \<Rightarrow> nat \<Rightarrow> nat" where
  "next_keep fp ratio loss k =
     (if f_less fp 0x3FC3333333333333 loss then min (k + 4) 30
      else if f_less fp ratio 0x3FD3333333333333 \<and> f_less fp loss 0x3FA999999999999A then (if k > 6 then k - 2 else 6)
      else if f_less fp loss 0x3FA999999999999A \<and> f_less fp 0x3FE3333333333333 ratio then (if k > 8 then k - 1 else 8)
      else k)"

definition record_compact :: "ieee \<Rightarrow> u64 \<Rightarrow> u64 \<Rightarrow> u64 \<Rightarrow> bool \<Rightarrow> adaptive_tracker \<Rightarrow> adaptive_tracker" where
  "record_compact fp saved before after repeated ad =
     (let ratio = (if before > 0 then f_div fp (f_of_u64 fp saved) (f_of_u64 fp before) else 0);
          entry = \<lparr>compression_ratio = ratio, fb_tokens_before = before, fb_tokens_after = after, user_repeated_topic = repeated\<rparr>;
          all = ad_history ad @ [entry];
          history = drop (length all - 50) all;
          n = f_of_u64 fp (of_nat (length history));
          avg = f_div fp (f_sum fp (map compression_ratio history)) n;
          loss = f_div fp (f_sum fp (map (\<lambda>h. if user_repeated_topic h then 0x3FD3333333333333 else 0) history)) n
      in \<lparr>ad_history = history, keep_recent = next_keep fp avg loss (keep_recent ad), avg_compression_ratio = avg,
          avg_loss_score = loss, compact_count = compact_count ad + 1\<rparr>)"

definition adaptive_keep_recent :: "adaptive_tracker \<Rightarrow> nat" where
  "adaptive_keep_recent ad = max 8 (min (keep_recent ad) 30)"

definition record_compact_feedback ::
  "ieee \<Rightarrow> (json \<Rightarrow> string) \<Rightarrow> message list \<Rightarrow> u64 \<Rightarrow> adaptive_tracker \<Rightarrow> adaptive_tracker" where
  "record_compact_feedback fp render messages before ad =
     (let after = of_nat (estimate_tokens render messages)
      in record_compact fp (saturating_sub before after) before after False ad)"

text \<open>Whatever floating-point arithmetic answers, the tracker stays between 5 and 30 and keeps 50 records.
  The floor is 5 and not the 6 of the aggressive branch: from 7 that branch subtracts 2.\<close>

definition adaptive_ok :: "adaptive_tracker \<Rightarrow> bool" where
  "adaptive_ok ad \<longleftrightarrow> 5 \<le> keep_recent ad \<and> keep_recent ad \<le> 30 \<and> length (ad_history ad) \<le> 50"

lemma next_keep_bounds: "5 \<le> k \<Longrightarrow> k \<le> 30 \<Longrightarrow> 5 \<le> next_keep fp r l k \<and> next_keep fp r l k \<le> 30"
  unfolding next_keep_def by (cases "f_less fp 0x3FC3333333333333 l"; cases "f_less fp r 0x3FD3333333333333"; cases "f_less fp l 0x3FA999999999999A"; cases "f_less fp 0x3FE3333333333333 r"; simp; linarith)

lemma keep_recent_undershoots:
  assumes "\<not> f_less fp 0x3FC3333333333333 l" "f_less fp r 0x3FD3333333333333" "f_less fp l 0x3FA999999999999A"
  shows "next_keep fp r l 7 = 5"
  using assms by (simp add: next_keep_def)

lemma adaptive_step: "adaptive_ok ad \<Longrightarrow> adaptive_ok (record_compact_feedback fp render ms before ad)"
  by (simp add: adaptive_ok_def record_compact_feedback_def record_compact_def Let_def next_keep_bounds)

interpretation adaptive: machine "\<lambda>(ms, before). record_compact_feedback fp render ms before" adaptive_ok for fp render
  by unfold_locales (auto intro: adaptive_step)

lemma keep_recent_bounds: "8 \<le> adaptive_keep_recent ad \<and> adaptive_keep_recent ad \<le> 30"
  by (simp add: adaptive_keep_recent_def)

end
