(* ===== verification/Bao_Security.thy ===== *)
theory Bao_Security
  imports Bao_Text "HOL-Library.Word"
begin

unbundle bit_operations_syntax

text \<open>
  \<open>engine/security.rs\<close>: the hard blocklist of shell commands, the check of URLs against private addresses,
  and the scan of texts before they are kept as memory. \<open>redact_secrets\<close> rests on the \<open>regex\<close> crate and is
  not modelled.
\<close>

section \<open>Dangerous commands\<close>

definition dangerous_patterns :: "(string \<times> string) list" where
  "dangerous_patterns =
    [(''rm -rf /*'',
      ''Destructive command: recursive root delete (rm -rf /*)''),
     ('':(){ :|:& };:'',
      ''Destructive command: fork bomb detected''),
     (''dd if='',
      ''Dangerous command: dd with input redirection to block device''),
     (''of=/dev/sd'',
      ''Dangerous command: writing directly to SCSI/SATA block device''),
     (''of=/dev/hd'',
      ''Dangerous command: writing directly to IDE block device''),
     (''of=/dev/nvme'',
      ''Dangerous command: writing directly to NVMe block device''),
     (''of=/dev/md'',
      ''Dangerous command: writing directly to MD RAID device''),
     (''mkfs'',
      ''Dangerous command: filesystem formatting (mkfs)''),
     (''chmod -r 777 /'',
      ''Dangerous command: recursively setting world-writable permissions on /''),
     (''chmod 777 /'',
      ''Dangerous command: setting world-writable permissions on /''),
     (''> /etc/passwd'',
      ''Dangerous command: overwriting /etc/passwd''),
     (''> /etc/shadow'',
      ''Dangerous command: overwriting /etc/shadow''),
     (''shutdown'',
      ''Dangerous command: system shutdown''),
     (''reboot'',
      ''Dangerous command: system reboot''),
     (''poweroff'',
      ''Dangerous command: system power off''),
     (''halt'',
      ''Dangerous command: system halt''),
     (''init 0'',
      ''Dangerous command: init to runlevel 0 (shutdown)''),
     (''init 6'',
      ''Dangerous command: init to runlevel 6 (reboot)''),
     (''> /dev/sda'',
      ''Dangerous command: writing directly to block device /dev/sda''),
     (''> /dev/sdb'',
      ''Dangerous command: writing directly to block device /dev/sdb''),
     (''> /dev/sdc'',
      ''Dangerous command: writing directly to block device /dev/sdc''),
     (''> /dev/sdd'',
      ''Dangerous command: writing directly to block device /dev/sdd''),
     (''> /dev/nvme'',
      ''Dangerous command: writing directly to NVMe block device''),
     (''> /dev/vd'',
      ''Dangerous command: writing directly to virtual block device /dev/vd''),
     (''rm -rf ~'',
      ''Destructive command: recursive home directory delete (rm -rf ~)''),
     (''rm -rf $home'',
      ''Destructive command: recursive home directory delete (rm -rf $HOME)''),
     (''| bash'',
      ''Dangerous command: piping untrusted remote content directly into bash''),
     (''| sh'',
      ''Dangerous command: piping untrusted remote content directly into sh'')]"

definition check_dangerous_command :: "string \<Rightarrow> string + unit" where
  "check_dangerous_command cmd =
     (let cmd_lower = str_lower cmd
      in case List.find (\<lambda>(pattern, reason). str_contains cmd_lower pattern) dangerous_patterns of
           Some (_, reason) \<Rightarrow> Inl reason
         | None \<Rightarrow>
             (case split_once ''rm -rf /'' cmd_lower of
                Some (_, rest) \<Rightarrow>
                  if rest = [] \<or> starts_with rest ''*'' \<or> starts_with rest '' '' \<or> rest = ''.''
                  then Inl ''Destructive command: recursive root delete (rm -rf /)'' else Inr ()
              | None \<Rightarrow> Inr ()))"

section \<open>Private addresses\<close>

definition blocked_hostnames :: "string list" where
  "blocked_hostnames = [''metadata.google.internal'', ''metadata.internal'']"

definition extract_host :: "string \<Rightarrow> string" where
  "extract_host url =
     (let after_scheme = (case split_once ''://'' url of Some (_, rest) \<Rightarrow> rest | None \<Rightarrow> url);
          authority = takeWhile (\<lambda>c. c \<notin> set ''/?#'') after_scheme;
          host_port = (case rsplit_once (CHR ''@'') authority of Some (_, rest) \<Rightarrow> rest | None \<Rightarrow> authority)
      in if starts_with host_port ''['' then
           (case split_once '']'' host_port of Some (before, _) \<Rightarrow> drop 1 before | None \<Rightarrow> host_port)
         else (case rsplit_once (CHR '':'') host_port of Some (before, _) \<Rightarrow> before | None \<Rightarrow> host_port))"

definition ip_of_octets :: "nat list \<Rightarrow> 32 word" where
  "ip_of_octets os =
     push_bit 24 (of_nat (os ! 0)) OR push_bit 16 (of_nat (os ! 1)) OR push_bit 8 (of_nat (os ! 2)) OR of_nat (os ! 3)"

definition is_blocked_ip :: "string \<Rightarrow> bool" where
  "is_blocked_ip host =
     (if CHR '':'' \<in> set host then
        let h = str_lower host
        in h = ''::1'' \<or> h = ''0:0:0:0:0:0:0:1'' \<or> starts_with h ''fc'' \<or> starts_with h ''fd'' \<or> starts_with h ''fe8''
      else
        let octets = List.map_filter (parse_uint 255) (split_char (CHR ''.'') host)
        in if length octets \<noteq> 4 then False
           else let ip = ip_of_octets octets
                in drop_bit 24 ip = 127 \<or> drop_bit 24 ip = 10 \<or> drop_bit 20 ip = (push_bit 4 172 OR 1) \<or>
                   drop_bit 16 ip = (push_bit 8 192 OR 168) \<or> drop_bit 16 ip = (push_bit 8 169 OR 254) \<or>
                   drop_bit 22 ip = (push_bit 2 100 OR 1))"

definition check_ssrf_url :: "string \<Rightarrow> string + unit" where
  "check_ssrf_url url =
     (let host = extract_host url
      in if list_ex (\<lambda>blocked. str_lower host = blocked) blocked_hostnames
         then Inl (''SSRF blocked: access to internal hostname '' @ quoted host @ '' is denied'')
         else if is_blocked_ip host
         then Inl (''SSRF blocked: access to private/internal address '' @ quoted host @ '' is denied'')
         else Inr ())"

section \<open>Memory contents\<close>

text \<open>The code points \<open>U+200B .. U+200D\<close>, \<open>U+FEFF\<close> and \<open>U+202A .. U+202E\<close> with their names in error messages.\<close>

definition invisible_chars :: "(string \<times> string) list" where
  "invisible_chars =
     [([CHR 0xE2, CHR 0x80, CHR 0x8B], ''200B''), ([CHR 0xE2, CHR 0x80, CHR 0x8C], ''200C''),
      ([CHR 0xE2, CHR 0x80, CHR 0x8D], ''200D''), ([CHR 0xEF, CHR 0xBB, CHR 0xBF], ''FEFF''),
      ([CHR 0xE2, CHR 0x80, CHR 0xAA], ''202A''), ([CHR 0xE2, CHR 0x80, CHR 0xAB], ''202B''),
      ([CHR 0xE2, CHR 0x80, CHR 0xAC], ''202C''), ([CHR 0xE2, CHR 0x80, CHR 0xAD], ''202D''),
      ([CHR 0xE2, CHR 0x80, CHR 0xAE], ''202E'')]"

definition prompt_injection_patterns :: "string list" where
  "prompt_injection_patterns =
     [''ignore previous instructions'', ''disregard your instructions'', ''forget your instructions'']"

definition is_upper :: "char \<Rightarrow> bool" where
  "is_upper c \<longleftrightarrow> 65 \<le> byte c \<and> byte c \<le> 90"

definition is_alnum :: "char \<Rightarrow> bool" where
  "is_alnum c \<longleftrightarrow> is_digit c \<or> is_upper c \<or> (97 \<le> byte c \<and> byte c \<le> 122)"

definition count_alnum :: "string \<Rightarrow> nat" where
  "count_alnum s = length (takeWhile is_alnum s)"

definition count_upper_alnum :: "string \<Rightarrow> nat" where
  "count_upper_alnum s = length (takeWhile (\<lambda>c. is_upper c \<or> is_digit c) s)"

definition count_alnum_dash :: "string \<Rightarrow> nat" where
  "count_alnum_dash s = length (takeWhile (\<lambda>c. is_alnum c \<or> c = CHR ''-'') s)"

definition count_bearer_token :: "string \<Rightarrow> nat" where
  "count_bearer_token s = length (takeWhile (\<lambda>c. is_alnum c \<or> c \<in> set ''._-'') s)"

text \<open>The offsets of a byte (\<open>memchr_iter\<close>).\<close>

definition memchr_iter :: "char \<Rightarrow> string \<Rightarrow> nat list" where
  "memchr_iter needle s = filter (\<lambda>i. s ! i = needle) [0..<length s]"

definition has_token :: "string \<Rightarrow> (string \<Rightarrow> nat) \<Rightarrow> nat \<Rightarrow> string \<Rightarrow> bool" where
  "has_token p count least s \<longleftrightarrow>
     list_ex (\<lambda>i. i + length p < length s \<and> take (length p) (drop i s) = p \<and> count (drop (i + length p) s) \<ge> least)
       (memchr_iter (hd p) s)"

definition has_slack_token :: "string \<Rightarrow> bool" where
  "has_slack_token s \<longleftrightarrow>
     list_ex (\<lambda>i. i + 5 < length s \<and> take 3 (drop i s) = ''xox'' \<and> s ! (i + 3) \<in> set ''bpas'' \<and>
        s ! (i + 4) = CHR ''-'' \<and> count_alnum_dash (drop (i + 5) s) \<ge> 10) (memchr_iter (CHR ''x'') s)"

definition contains_credential :: "string \<Rightarrow> bool" where
  "contains_credential s \<longleftrightarrow>
     has_token ''sk-'' count_alnum 20 s \<or> has_token ''ghp_'' count_alnum 36 s \<or>
     has_token ''AKIA'' count_upper_alnum 16 s \<or> has_slack_token s \<or> has_token ''Bearer '' count_bearer_token 20 s"

definition validate_memory_content :: "string \<Rightarrow> string + unit" where
  "validate_memory_content content =
     (if contains_credential content then
        Inl ''Memory content rejected: potential API key or credential detected''
      else case List.find (\<lambda>(ch, _). str_contains content ch) invisible_chars of
             Some (_, u) \<Rightarrow> Inl (''Memory content rejected: invisible Unicode character U+'' @ u @ '' detected'')
           | None \<Rightarrow>
               (case List.find (str_contains (str_lower content)) prompt_injection_patterns of
                  Some p \<Rightarrow> Inl (''Memory content rejected: prompt-injection pattern '' @ quoted p @ '' detected'')
                | None \<Rightarrow> Inr ()))"

section \<open>IPv4 literals\<close>

lemma push_or_nat: "(x :: nat) < 2 ^ k \<Longrightarrow> push_bit k y OR x = y * 2 ^ k + x"
proof -
  assume "x < 2 ^ k"
  then have x: "x = take_bit k x" by (simp add: take_bit_nat_eq_self)
  have "push_bit k y AND take_bit k x = 0" by (simp add: bit_eq_iff bit_simps)
  then have "push_bit k y + take_bit k x = push_bit k y OR take_bit k x" by (rule disjunctive_add_eq_or)
  with x show ?thesis by (simp add: push_bit_eq_mult)
qed

lemma ip_of_octets_nat:
  assumes "a < 256" "b < 256" "c < 256" "d < 256"
  shows "unat (ip_of_octets [a, b, c, d]) = a * 2 ^ 24 + b * 2 ^ 16 + c * 2 ^ 8 + d"
proof -
  have small: "unat (push_bit k (of_nat x) :: 32 word) = push_bit k x" if "x < 256" "k \<le> 24" for x k
  proof -
    have "x * 2 ^ k < 2 ^ 8 * 2 ^ k" using that by simp
    also have "\<dots> \<le> 2 ^ 32" using that(2) using power_increasing [of k 24 "2 :: nat"] by simp
    finally have "x * 2 ^ k < 2 ^ 32" .
    moreover have "unat (of_nat x :: 32 word) = x" using that(1) by (simp add: unat_of_nat)
    ultimately show ?thesis by (simp add: unsigned_push_bit_eq push_bit_eq_mult [where 'a = nat] take_bit_nat_eq_self)
  qed
  have "unat (of_nat d :: 32 word) = d" using assms(4) by (simp add: unat_of_nat)
  with small [OF assms(1), of 24] small [OF assms(2), of 16] small [OF assms(3), of 8]
  have "unat (ip_of_octets [a, b, c, d]) = push_bit 24 a OR (push_bit 16 b OR (push_bit 8 c OR d))"
    by (simp add: ip_of_octets_def unsigned_or_eq or.assoc)
  also have "\<dots> = a * 2 ^ 24 + (b * 2 ^ 16 + (c * 2 ^ 8 + d))"
    using assms by (simp add: push_or_nat)
  finally show ?thesis by simp
qed

text \<open>The private and reserved ranges of IPv4 that the check means to block.\<close>

definition private_ipv4 :: "nat \<Rightarrow> nat \<Rightarrow> bool" where
  "private_ipv4 a b \<longleftrightarrow> a = 127 \<or> a = 10 \<or> (a = 172 \<and> 16 \<le> b \<and> b \<le> 31) \<or> (a = 192 \<and> b = 168) \<or>
     (a = 169 \<and> b = 254) \<or> (a = 100 \<and> 64 \<le> b \<and> b \<le> 127)"

definition ipv4_text :: "nat \<Rightarrow> nat \<Rightarrow> nat \<Rightarrow> nat \<Rightarrow> string" where
  "ipv4_text a b c d = show_nat a @ ''.'' @ show_nat b @ ''.'' @ show_nat c @ ''.'' @ show_nat d"

lemma show_nat_chars: "c \<in> set (show_nat n) \<Longrightarrow> is_digit c"
  using show_nat_digits [of n] by (auto simp: list_all_iff)

lemma blocked_ipv4:
  assumes "a < 256" "b < 256" "c < 256" "d < 256"
  shows "is_blocked_ip (ipv4_text a b c d) \<longleftrightarrow> private_ipv4 a b"
proof -
  have sep: "CHR ''.'' \<notin> set (show_nat n)" "CHR '':'' \<notin> set (show_nat n)" for n
    using show_nat_chars [of "CHR ''.''" n] show_nat_chars [of "CHR '':''" n] by (auto simp: is_digit_def byte_def)
  have "split_char (CHR ''.'') (ipv4_text a b c d) = [show_nat a, show_nat b, show_nat c, show_nat d]"
    by (simp add: ipv4_text_def split_char_append split_char_no_sep sep)
  then have octets: "List.map_filter (parse_uint 255) (split_char (CHR ''.'') (ipv4_text a b c d)) = [a, b, c, d]"
    using assms by (simp add: parse_uint_show List.map_filter_def)
  have no_colon: "CHR '':'' \<notin> set (ipv4_text a b c d)" by (simp add: ipv4_text_def sep)
  define n where "n = a * 2 ^ 24 + b * 2 ^ 16 + c * 2 ^ 8 + d"
  have drop: "drop_bit k (ip_of_octets [a, b, c, d]) = w \<longleftrightarrow> n div 2 ^ k = unat w" for k w
  proof -
    have "take_bit 32 (unat (ip_of_octets [a, b, c, d])) = unat (ip_of_octets [a, b, c, d])"
      using unsigned_less [of "ip_of_octets [a, b, c, d]", where ?'a = nat] by (simp add: take_bit_nat_eq_self)
    then have "unat (drop_bit k (ip_of_octets [a, b, c, d])) = n div 2 ^ k"
      using ip_of_octets_nat [OF assms] by (simp add: n_def unsigned_drop_bit_eq drop_bit_eq_div [where 'a = nat])
    then show ?thesis by (metis word_unat_eq_iff)
  qed
  have n: "n div 2 ^ 24 = a" "n div 2 ^ 20 = a * 16 + b div 16" "n div 2 ^ 16 = a * 256 + b" "n div 2 ^ 22 = a * 4 + b div 64"
    using assms unfolding n_def by simp_all
  have nets: "unat (push_bit 4 172 OR 1 :: 32 word) = 172 * 16 + 1" "unat (push_bit 8 192 OR 168 :: 32 word) = 192 * 256 + 168"
    "unat (push_bit 8 169 OR 254 :: 32 word) = 169 * 256 + 254" "unat (push_bit 2 100 OR 1 :: 32 word) = 100 * 4 + 1" by simp_all
  have b: "b div 16 < 16" "b div 64 < 4" "b div 16 = 1 \<longleftrightarrow> 16 \<le> b \<and> b \<le> 31" "b div 64 = 1 \<longleftrightarrow> 64 \<le> b \<and> b \<le> 127"
    using assms(2) by linarith+
  have ranges: "a * 16 + b div 16 = 172 * 16 + 1 \<longleftrightarrow> a = 172 \<and> b div 16 = 1" "a * 256 + b = 192 * 256 + 168 \<longleftrightarrow> a = 192 \<and> b = 168"
    "a * 256 + b = 169 * 256 + 254 \<longleftrightarrow> a = 169 \<and> b = 254" "a * 4 + b div 64 = 100 * 4 + 1 \<longleftrightarrow> a = 100 \<and> b div 64 = 1"
    by (rule digit_eq; use b(1,2) assms(2) in simp)+
  show ?thesis
    unfolding is_blocked_ip_def Let_def octets drop n nets ranges b
    by (simp add: no_colon private_ipv4_def)
qed

text \<open>The part of a URL after its host.\<close>

definition url_rest :: "string \<Rightarrow> bool" where
  "url_rest t \<longleftrightarrow> t = [] \<or> hd t \<in> set ''/?#'' \<or>
     (\<exists>p r. t = CHR '':'' # show_nat p @ r \<and> (r = [] \<or> hd r \<in> set ''/?#''))"

lemma host_of_ipv4_url:
  assumes "CHR '':'' \<notin> set scheme" "url_rest rest"
  shows "extract_host (scheme @ ''://'' @ ipv4_text a b c d @ rest) = ipv4_text a b c d"
proof -
  have host: "x \<in> set (ipv4_text a b c d) \<Longrightarrow> is_digit x \<or> x = CHR ''.''" for x
    using show_nat_chars by (auto simp: ipv4_text_def)
  have after: "split_once ''://'' (scheme @ ''://'' @ ipv4_text a b c d @ rest) = Some (scheme, ipv4_text a b c d @ rest)"
    using assms(1) by (intro split_once_first) simp_all
  have plain: "is_digit x \<or> x = CHR ''.'' \<or> x = CHR '':'' \<Longrightarrow> x \<notin> set ''/?#'' \<and> x \<noteq> CHR ''@'' \<and> x \<noteq> CHR ''[''" for x
    by (auto simp: is_digit_def byte_def)
  obtain port r where rest: "rest = port @ r" "r = [] \<or> hd r \<in> set ''/?#''" "port = [] \<or> (\<exists>p. port = CHR '':'' # show_nat p)"
    using assms(2) unfolding url_rest_def
    by (metis append.left_neutral append_Cons append_Nil2)
  have ok: "x \<in> set (ipv4_text a b c d @ port) \<Longrightarrow> is_digit x \<or> x = CHR ''.'' \<or> x = CHR '':''" for x
    using host rest(3) show_nat_chars by auto
  have auth: "takeWhile (\<lambda>c. c \<notin> set ''/?#'') (ipv4_text a b c d @ rest) = ipv4_text a b c d @ port"
  proof -
    have "takeWhile (\<lambda>c. c \<notin> set ''/?#'') r = []" using rest(2) by (cases r) auto
    moreover have "x \<in> set (ipv4_text a b c d @ port) \<Longrightarrow> x \<notin> set ''/?#''" for x using ok plain by blast
    ultimately show ?thesis
      using takeWhile_append2 [of "ipv4_text a b c d @ port" "\<lambda>c. c \<notin> set ''/?#''" r] rest(1) by simp
  qed
  have no_at: "rsplit_once (CHR ''@'') (ipv4_text a b c d @ port) = None"
    using ok plain by (auto simp: rsplit_once_None)
  have no_bracket: "\<not> starts_with (ipv4_text a b c d @ port) ''[''"
    using ok plain by (cases "ipv4_text a b c d @ port") auto
  have colon: "CHR '':'' \<notin> set (ipv4_text a b c d)" "CHR '':'' \<notin> set (show_nat p)" for p
    using host [of "CHR '':''"] show_nat_chars [of "CHR '':''" p] by (auto simp: is_digit_def byte_def)
  have last: "rsplit_once x (u @ x # v) = Some (u, v)" if "x \<notin> set v" for x :: char and u v
    using that by (induction u) (auto simp: rsplit_once_None [symmetric])
  have "(case rsplit_once (CHR '':'') (ipv4_text a b c d @ port) of Some (before, _) \<Rightarrow> before
      | None \<Rightarrow> ipv4_text a b c d @ port) = ipv4_text a b c d"
    using rest(3) colon last [of "CHR '':''"] by (auto simp: rsplit_once_None [symmetric])
  then show ?thesis
    by (simp only: extract_host_def Let_def after auth no_at no_bracket option.case prod.case if_False)
qed

text \<open>
  C26. A URL whose host is an IPv4 literal, with a scheme that has no colon and no user name before the host, whatever
  port, path or query follows, is refused exactly when the address is a loopback, private, link-local or carrier-grade
  NAT address.
\<close>

theorem ssrf_ipv4_exact:
  assumes "a < 256" "b < 256" "c < 256" "d < 256" "CHR '':'' \<notin> set scheme" "url_rest rest"
  shows "check_ssrf_url (scheme @ ''://'' @ ipv4_text a b c d @ rest) =
    (if private_ipv4 a b
     then Inl (''SSRF blocked: access to private/internal address '' @ quoted (ipv4_text a b c d) @ '' is denied'')
     else Inr ())"
proof -
  obtain x xs where x: "show_nat a = x # xs" using show_nat_digits [of a] by (cases "show_nat a") auto
  with show_nat_chars [of x a] have "is_digit x" by simp
  then have "str_lower (ipv4_text a b c d) = x # str_lower (drop 1 (ipv4_text a b c d))"
    by (auto simp: ipv4_text_def x is_digit_def byte_def ascii_lower_def)
  with \<open>is_digit x\<close> have "\<not> list_ex (\<lambda>blocked. str_lower (ipv4_text a b c d) = blocked) blocked_hostnames"
    by (auto simp: blocked_hostnames_def is_digit_def byte_def)
  then show ?thesis
    using host_of_ipv4_url [OF assms(5,6)] blocked_ipv4 [OF assms(1-4)] by (simp add: check_ssrf_url_def)
qed

theorem ssrf_ipv4_exact_witness:
  "check_ssrf_url (''http'' @ ''://'' @ ipv4_text 172 16 0 1 @ '':80/x'') \<noteq> Inr () \<and>
   check_ssrf_url (''http'' @ ''://'' @ ipv4_text 172 32 0 1 @ ''/x'') = Inr ()"
proof -
  have "show_nat 80 = ''80''" by code_simp
  then have "url_rest '':80/x''"
    unfolding url_rest_def by (intro disjI2 exI [of _ 80] exI [of _ "''/x''"]) simp
  moreover have "url_rest ''/x''" by (simp add: url_rest_def)
  ultimately show ?thesis
    using ssrf_ipv4_exact [of 172 16 0 1 "''http''" "'':80/x''"] ssrf_ipv4_exact [of 172 32 0 1 "''http''" "''/x''"]
    by (simp add: private_ipv4_def)
qed

section \<open>What the checks miss\<close>

text \<open>
  Only the first \<open>rm -rf /\<close> of a command is looked at: a command that first removes a directory below the
  root and then the root itself passes.
\<close>

lemma second_root_delete_passes: "check_dangerous_command ''rm -rf /tmp/x && rm -rf /'' = Inr ()"
proof -
  have "str_lower ''rm -rf /tmp/x && rm -rf /'' = ''rm -rf /tmp/x && rm -rf /''" by (simp add: ascii_lower_def byte_def)
  moreover have "List.find (\<lambda>(p, _). str_contains ''rm -rf /tmp/x && rm -rf /'' p) dangerous_patterns = None"
    by (simp add: dangerous_patterns_def sublist_Cons_right)
  ultimately show ?thesis by (simp add: check_dangerous_command_def)
qed

text \<open>The link-local range is \<open>fe80::/10\<close>, but only addresses that start with \<open>fe8\<close> are refused.\<close>

lemma link_local_passes: "check_ssrf_url ''http://[fe90::1]/'' = Inr ()"
proof -
  have "extract_host ''http://[fe90::1]/'' = ''fe90::1''" by (simp add: extract_host_def)
  moreover have "str_lower ''fe90::1'' = ''fe90::1''" by (simp add: ascii_lower_def byte_def)
  ultimately show ?thesis by (simp add: check_ssrf_url_def is_blocked_ip_def blocked_hostnames_def)
qed

text \<open>A secret key of the OpenAI form is found wherever it stands in a text.\<close>

lemma secret_key_rejected:
  assumes "length key \<ge> 20" "list_all is_alnum key"
  shows "validate_memory_content (before @ ''sk-'' @ key @ rest) =
    Inl ''Memory content rejected: potential API key or credential detected''"
proof -
  let ?s = "before @ ''sk-'' @ key @ rest"
  have "key \<noteq> []" using assms(1) by auto
  moreover have "count_alnum (key @ rest) \<ge> 20"
  proof -
    have "takeWhile is_alnum (key @ rest) = key @ takeWhile is_alnum rest"
      using assms(2) by (intro takeWhile_append2) (auto simp: list_all_iff)
    with assms(1) show ?thesis by (simp add: count_alnum_def)
  qed
  moreover have "length before \<in> set (memchr_iter (CHR ''s'') ?s)" by (simp add: memchr_iter_def nth_append)
  ultimately have "has_token ''sk-'' count_alnum 20 ?s"
    unfolding has_token_def list_ex_iff by (intro bexI [of _ "length before"]) (simp_all add: nth_append)
  then show ?thesis by (simp add: validate_memory_content_def contains_credential_def)
qed

end
