(* ===== verification/Bao_SessionMemory.thy ===== *)
theory Bao_SessionMemory
  imports Bao_Security
begin

text \<open>
  \<open>engine/session_memory.rs\<close>: the rolling summary of a session and the rule that decides when it is due for
  an update. \<open>sm_saved\<close> is the content of its file (\<open>None\<close> without a valid session id); a failed write is an
  argument and leaves the file as it was. Reading the file at start-up is an argument of \<open>sm_load\<close>.
\<close>

record session_memory =
  sm_content :: string
  sm_last_update_count :: nat
  sm_saved :: "string option"

definition first_update_threshold :: nat where
  "first_update_threshold = 6"

definition update_interval :: nat where
  "update_interval = 10"

definition max_summary_chars :: nat where
  "max_summary_chars = 8000"

definition sm_load :: "string option \<Rightarrow> session_memory" where
  "sm_load file = \<lparr>sm_content = (case file of Some c \<Rightarrow> c | None \<Rightarrow> []), sm_last_update_count = 0, sm_saved = file\<rparr>"

definition sm_is_available :: "session_memory \<Rightarrow> bool" where
  "sm_is_available sm \<longleftrightarrow> str_trim (sm_content sm) \<noteq> [] \<and> length (str_trim (sm_content sm)) > 20"

definition should_update :: "nat \<Rightarrow> session_memory \<Rightarrow> bool \<times> session_memory" where
  "should_update message_count sm =
     (let current = str_trim (sm_content sm)
      in if current = [] \<or> length current \<le> 20 then (message_count \<ge> first_update_threshold, sm)
         else let sm' = (if message_count < sm_last_update_count sm then sm\<lparr>sm_last_update_count := message_count\<rparr> else sm)
              in (message_count \<ge> sm_last_update_count sm' + update_interval, sm'))"

definition save_summary :: "bool \<Rightarrow> string \<Rightarrow> session_memory \<Rightarrow> session_memory" where
  "save_summary written content sm =
     (let sm' = sm\<lparr>sm_content := content\<rparr>
      in if sm_saved sm = None \<or> \<not> written then sm' else sm'\<lparr>sm_saved := Some content\<rparr>)"

definition sm_update :: "bool \<Rightarrow> string \<Rightarrow> session_memory \<Rightarrow> session_memory" where
  "sm_update written summary sm =
     (case validate_memory_content summary of
        Inl _ \<Rightarrow> sm
      | Inr _ \<Rightarrow>
          save_summary written
            (if length summary > max_summary_chars then
               take_chars max_summary_chars summary @ ''...'' @ [CHR 0x0A, CHR 0x0A] @ ''[Summary truncated at '' @
                 show_nat (length summary) @ '' chars]''
             else summary) sm)"

definition set_message_count :: "nat \<Rightarrow> session_memory \<Rightarrow> session_memory" where
  "set_message_count n sm = sm\<lparr>sm_last_update_count := n\<rparr>"

definition messages_since_update :: "nat \<Rightarrow> session_memory \<Rightarrow> nat option" where
  "messages_since_update current_count sm =
     (if sm_last_update_count sm = 0 \<or> current_count < sm_last_update_count sm then None
      else Some (current_count - sm_last_update_count sm))"

definition sm_clear :: "bool \<Rightarrow> session_memory \<Rightarrow> session_memory" where
  "sm_clear written sm = save_summary written [] sm"

text \<open>Once looked at, the summary is due after at most ten more messages, however the history shrank before.\<close>

lemma update_comes_due:
  "fst (should_update (n + update_interval + k) (snd (should_update n sm)))"
  by (auto simp: should_update_def Let_def first_update_threshold_def update_interval_def)

text \<open>No credential enters the memory: the content is what it was, or a summary that passed the scan.\<close>

lemma update_keeps_secrets_out:
  assumes "length key \<ge> 20" "list_all is_alnum key"
  shows "sm_update written (before @ ''sk-'' @ key @ rest) sm = sm"
  using secret_key_rejected [OF assms, of before rest] by (simp add: sm_update_def)

end
