(* ===== verification/Bao_Request.thy ===== *)
theory Bao_Request
  imports Bao_Compaction Bao_Tools Bao_ToolHealth Bao_SessionMemory "HOL-Library.List_Lexorder" "HOL-Library.Product_Lexorder" "HOL-Library.Multiset"
begin

text \<open>
  \<open>engine/api_builder.rs\<close>: what of a conversation, of the tools and of the surroundings goes into one request
  to the model. JSON objects list their fields in the order of \<open>serde_json\<close>'s sorted map. The \<open>glob\<close> crate,
  the JSON printer, the clock and the formatted failure rate of a tool are arguments.
\<close>

section \<open>Configuration\<close>

record git_info =
  branch :: "string option"
  has_changes :: bool
  staged_files :: "string list"
  modified_files :: "string list"
  untracked_files :: "string list"

record cached_rule =
  cr_filename :: string
  cr_content :: string
  cr_paths_pattern :: "string option"

datatype thinking_config = ThinkingDisabled | ThinkingAdaptive | ThinkingEnabled u32

text \<open>The fields of \<open>QueryLoopConfig\<close> that a request reads.\<close>

record request_config =
  qc_tools :: "tool list"
  qc_expanded_tools :: "string set"
  qc_model :: string
  qc_cwd :: path
  qc_custom_system_prompt :: "string option"
  qc_append_system_prompt :: "string option"
  qc_project_instructions :: "string option"
  qc_git_info :: "git_info option"
  qc_thinking :: thinking_config
  qc_session_memory :: "session_memory option"
  qc_recent_messages :: "message list"
  qc_cached_rules :: "cached_rule list"
  qc_tool_health :: tool_health_tracker
  qc_max_tokens :: u32

record create_message_request =
  cm_model :: string
  cm_messages :: "json list"
  cm_system :: "json list option"
  cm_tools :: "json list option"
  cm_max_tokens :: u32
  cm_thinking :: "json option"

record request_platform =
  rp_render :: "json \<Rightarrow> string"
  rp_glob :: "string \<Rightarrow> (string \<Rightarrow> bool) option"
  rp_rate :: "u64 \<Rightarrow> u64 \<Rightarrow> string"
  rp_elapsed :: "string \<Rightarrow> string \<Rightarrow> int option"
  rp_now :: string

section \<open>Rules\<close>

definition trim_matches :: "char \<Rightarrow> string \<Rightarrow> string" where
  "trim_matches x s = rev (dropWhile (\<lambda>c. c = x) (rev (dropWhile (\<lambda>c. c = x) s)))"

definition rule_paths_line :: "string \<Rightarrow> string option" where
  "rule_paths_line raw =
     (let line = str_trim raw
      in if starts_with line ''paths:'' \<or> starts_with line ''paths :'' then
           (case split_once '':'' line of
              Some (_, rest) \<Rightarrow>
                let v = trim_matches (CHR 0x27) (trim_matches (CHR 0x22) (str_trim rest))
                in if v = [] then None else Some v
            | None \<Rightarrow> None)
         else None)"

fun find_map :: "('a \<Rightarrow> 'b option) \<Rightarrow> 'a list \<Rightarrow> 'b option" where
  "find_map f [] = None"
| "find_map f (x # xs) = (case f x of Some y \<Rightarrow> Some y | None \<Rightarrow> find_map f xs)"

text \<open>The content of a rule file and its path pattern.\<close>

definition parse_rule_file :: "string \<Rightarrow> string \<times> string option" where
  "parse_rule_file content =
     (let trimmed = str_trim content
      in case Option.bind (strip_prefix ''---'' trimmed) (split_once ''---'') of
           Some (frontmatter, body) \<Rightarrow> (str_trim body, find_map rule_paths_line (str_lines frontmatter))
         | None \<Rightarrow> (trimmed, None))"

definition rule_applies :: "(string \<Rightarrow> (string \<Rightarrow> bool) option) \<Rightarrow> string list \<Rightarrow> cached_rule \<Rightarrow> bool" where
  "rule_applies glob recent rule =
     (case cr_paths_pattern rule of
        None \<Rightarrow> True
      | Some pattern \<Rightarrow>
          (case glob pattern of
             Some matches \<Rightarrow>
               list_ex (\<lambda>fp. matches fp \<or> matches (case file_name fp of Some n \<Rightarrow> n | None \<Rightarrow> [])) recent
           | None \<Rightarrow> True))"

definition newlines :: string where
  "newlines = [CHR 0x0A, CHR 0x0A]"

definition filter_cached_rules ::
  "(string \<Rightarrow> (string \<Rightarrow> bool) option) \<Rightarrow> cached_rule list \<Rightarrow> string list \<Rightarrow> string list" where
  "filter_cached_rules glob cached recent =
     map (\<lambda>r. ''# Rule: '' @ cr_filename r @ newlines @ cr_content r)
       (filter (\<lambda>r. str_trim (cr_content r) \<noteq> []) (filter (rule_applies glob recent) cached))"

definition path_like :: "string \<Rightarrow> bool" where
  "path_like w \<longleftrightarrow>
     list_ex (str_contains w) [''/'', ''.rs'', ''.ts'', ''.js'', ''.py'', ''.md'', ''.toml''] \<and> length w > 5 \<and> length w < 300"

definition result_paths :: "json \<Rightarrow> string list" where
  "result_paths block =
     (case get_str block ''content'' of
        Some content \<Rightarrow>
          map str_trim (filter (\<lambda>l. str_contains l ''/'' \<or> str_contains l [CHR 0x5C, CHR ''.'']) (take 50 (str_lines content)))
      | None \<Rightarrow> [])"

definition input_paths :: "content_block \<Rightarrow> string list" where
  "input_paths b =
     (case b of
        ToolUse _ _ inp \<Rightarrow> List.map_filter (get_str inp) [''file_path'', ''path'', ''pattern'']
      | _ \<Rightarrow> [])"

definition message_paths :: "message \<Rightarrow> string list" where
  "message_paths m =
     (case msg_content m of
        User um _ _ \<Rightarrow>
          (case um_content um of
             JArray blocks \<Rightarrow> concat (map result_paths blocks)
           | JString text \<Rightarrow> filter path_like (split_whitespace text)
           | _ \<Rightarrow> [])
      | Assistant am _ _ \<Rightarrow> concat (map input_paths (am_content am))
      | _ \<Rightarrow> [])"

definition extract_recent_file_paths :: "message list \<Rightarrow> nat \<Rightarrow> string list" where
  "extract_recent_file_paths messages max_messages =
     take 50 (rev (remdups (rev (concat (map message_paths (drop (length messages - max_messages) messages))))))"

section \<open>Messages on the wire\<close>

definition source_json :: "string \<Rightarrow> string \<Rightarrow> string \<Rightarrow> json" where
  "source_json ty media data = JObject [(''data'', JString data), (''media_type'', JString media), (''type'', JString ty)]"

fun block_json :: "content_block \<Rightarrow> json" where
  "block_json (Text t) = JObject [(''text'', JString t), (''type'', JString ''text'')]"
| "block_json (ToolUse i n inp) =
     JObject [(''id'', JString i), (''input'', inp), (''name'', JString n), (''type'', JString ''tool_use'')]"
| "block_json (Thinking t) = JObject [(''thinking'', JString t), (''type'', JString ''thinking'')]"
| "block_json (Image s) =
     JObject [(''source'', source_json (img_source_type s) (img_media_type s) (img_data s)), (''type'', JString ''image'')]"
| "block_json (Document s) =
     JObject [(''source'', source_json (doc_source_type s) (doc_media_type s) (doc_data s)), (''type'', JString ''document'')]"

definition wire_message :: "string \<Rightarrow> json \<Rightarrow> json" where
  "wire_message role content = JObject [(''content'', content), (''role'', JString role)]"

definition is_empty_content :: "json \<Rightarrow> bool" where
  "is_empty_content v = (case v of JString s \<Rightarrow> str_trim s = [] | JArray arr \<Rightarrow> arr = [] | _ \<Rightarrow> v = JNull)"

fun has_content :: "content_block \<Rightarrow> bool" where
  "has_content (Text t) = (str_trim t \<noteq> [])"
| "has_content (Thinking t) = (str_trim t \<noteq> [])"
| "has_content (ToolUse i n inp) = True"
| "has_content _ = False"

definition api_message :: "message \<Rightarrow> json option" where
  "api_message m =
     (case msg_content m of
        User um _ _ \<Rightarrow> if is_empty_content (um_content um) then None else Some (wire_message (um_role um) (um_content um))
      | Assistant am _ _ \<Rightarrow>
          if am_content am = [] \<or> \<not> list_ex has_content (am_content am) then None
          else Some (wire_message (am_role am) (JArray (map block_json (am_content am))))
      | _ \<Rightarrow> None)"

definition api_messages :: "message list \<Rightarrow> json list" where
  "api_messages messages = List.map_filter api_message (validate_and_fix_tool_messages messages)"

section \<open>The dynamic reminder\<close>

definition git_lines :: "git_info \<Rightarrow> string list" where
  "git_lines g =
     (case branch g of Some b \<Rightarrow> [''Current git branch: '' @ b] | None \<Rightarrow> []) @
     (if has_changes g then
        [''Changed files:'' @ [CHR 0x0A] @ join_str [CHR 0x0A]
           ((if staged_files g \<noteq> [] then [''Staged: '' @ join_str '', '' (staged_files g)] else []) @
            (if modified_files g \<noteq> [] then [''Modified: '' @ join_str '', '' (modified_files g)] else []) @
            (if untracked_files g \<noteq> [] then [''Untracked: '' @ join_str '', '' (untracked_files g)] else []))]
      else [])"

definition summary_freshness_note :: "nat option \<Rightarrow> string option" where
  "summary_freshness_note age =
     (case age of
        None \<Rightarrow> None
      | Some a \<Rightarrow>
          if a > update_interval then
            Some (''# Summary Freshness'' @ newlines @ ''The session summary above was last updated '' @ show_nat a @
              '' messages ago; later work may be missing from it.'')
          else None)"

definition memory_parts :: "nat \<Rightarrow> session_memory \<Rightarrow> string list" where
  "memory_parts n sm =
     (if sm_content sm = [] then []
      else (''# Session Memory'' @ newlines @ sm_content sm) #
        (case summary_freshness_note (messages_since_update n sm) of Some note \<Rightarrow> [note] | None \<Rightarrow> []))"

text \<open>Reading the warnings recovers tools whose time is up, so the tracker is part of the result.\<close>

definition build_dynamic_reminder :: "request_platform \<Rightarrow> request_config \<Rightarrow> tool_health_tracker \<times> string option" where
  "build_dynamic_reminder rp cfg =
     (let git = (case qc_git_info cfg of
                   Some g \<Rightarrow> if git_lines g = [] then [] else [''# Git Status'' @ newlines @ join_str [CHR 0x0A] (git_lines g)]
                 | None \<Rightarrow> []);
          memory = (case qc_session_memory cfg of Some sm \<Rightarrow> memory_parts (length (qc_recent_messages cfg)) sm | None \<Rightarrow> []);
          (th, warnings) = get_warnings (rp_rate rp) (rp_elapsed rp) (rp_now rp) (qc_tool_health cfg);
          health = (if warnings = [] then []
                    else [''# Tool Health Warnings'' @ newlines @ join_str [CHR 0x0A] warnings @ newlines @
                      ''These tools have been failing; prefer alternatives or use extra care with their inputs.'']);
          parts = git @ memory @ health
      in (th, if parts = [] then None
              else Some (''<system-reminder>'' @ [CHR 0x0A] @ join_str newlines parts @ [CHR 0x0A] @ ''</system-reminder>'')))"

definition is_user_text_turn :: "json \<Rightarrow> bool" where
  "is_user_text_turn msg \<longleftrightarrow>
     get_str msg ''role'' = Some ''user'' \<and>
     (case json_get msg ''content'' of
        Some (JString _) \<Rightarrow> True
      | Some (JArray blocks) \<Rightarrow> \<not> list_ex is_tool_result blocks
      | _ \<Rightarrow> False)"

definition add_reminder :: "(json \<Rightarrow> string) \<Rightarrow> string \<Rightarrow> json \<Rightarrow> json" where
  "add_reminder render reminder content =
     (case content of
        JString s \<Rightarrow> JString (s @ newlines @ reminder)
      | JArray blocks \<Rightarrow> JArray (blocks @ [JObject [(''text'', JString reminder), (''type'', JString ''text'')]])
      | other \<Rightarrow> JString (render other @ newlines @ reminder))"

definition inject_reminder :: "(json \<Rightarrow> string) \<Rightarrow> string option \<Rightarrow> json list \<Rightarrow> json list" where
  "inject_reminder render reminder msgs =
     (case reminder of
        Some r \<Rightarrow>
          if msgs \<noteq> [] \<and> is_user_text_turn (last msgs) then
            (case json_get (last msgs) ''content'' of
               Some content \<Rightarrow> butlast msgs @ [json_set_existing (last msgs) ''content'' (add_reminder render r content)]
             | None \<Rightarrow> msgs)
          else msgs
      | None \<Rightarrow> msgs)"

section \<open>The list of tools\<close>

datatype tool_group = Frozen | Activated | Stub

primrec group_rank :: "tool_group \<Rightarrow> nat" where
  "group_rank Frozen = 0"
| "group_rank Activated = 1"
| "group_rank Stub = 2"

definition group_of :: "string set \<Rightarrow> tool \<Rightarrow> tool_group" where
  "group_of expanded t = (if \<not> t_is_deferred t then Frozen else if t_name t \<in> expanded then Activated else Stub)"

definition tool_entry :: "tool_group \<Rightarrow> tool \<Rightarrow> json" where
  "tool_entry g t =
     (if g = Stub then
        JObject [(''description'', JString (t_short_description t)),
          (''input_schema'', JObject [(''properties'', JObject []), (''type'', JString ''object'')]), (''name'', JString (t_name t))]
      else JObject [(''description'', JString (t_prompt t)), (''input_schema'', t_input_schema t), (''name'', JString (t_name t))])"

definition listed :: "string set \<Rightarrow> tool \<Rightarrow> tool_group \<times> json" where
  "listed e t = (group_of e t, tool_entry (group_of e t) t)"

definition entry_key :: "tool_group \<times> json \<Rightarrow> nat \<times> string" where
  "entry_key e = (group_rank (fst e), case get_str (snd e) ''name'' of Some n \<Rightarrow> n | None \<Rightarrow> [])"

fun set_cache_control :: "json \<Rightarrow> json" where
  "set_cache_control (JObject kvs) = JObject ((''cache_control'', JObject [(''type'', JString ''ephemeral'')]) # kvs)"
| "set_cache_control v = v"

text \<open>\<open>frozen\<close> is one more than the last position of a frozen entry (\<open>rposition\<close>), or 0.\<close>

definition build_tools_list_with :: "tool list \<Rightarrow> string set \<Rightarrow> json list option" where
  "build_tools_list_with tools expanded =
     (if tools = [] then None
      else let entries = sort_key entry_key (map (listed expanded) tools);
               frozen = length (dropWhile (\<lambda>e. fst e \<noteq> Frozen) (rev entries));
               tool_list = map snd entries
           in Some (if frozen = 0 then tool_list else tool_list[frozen - 1 := set_cache_control (tool_list ! (frozen - 1))]))"

section \<open>The request\<close>

definition build_system_prompt :: "request_platform \<Rightarrow> request_config \<Rightarrow> json list option" where
  "build_system_prompt rp cfg =
     (let rules = filter_cached_rules (rp_glob rp) (qc_cached_rules cfg) (extract_recent_file_paths (qc_recent_messages cfg) 10);
          parts =
            [case qc_custom_system_prompt cfg of Some c \<Rightarrow> c | None \<Rightarrow> ''You are a helpful AI coding assistant.'',
             ''Current working directory: '' @ qc_cwd cfg @ newlines @
               ''When the user asks to display or show a file'' @ [CHR 0x27] @ ''s content, output the full content directly in your response. Do not summarize or describe the file '' @ em_dash @ '' show the actual text.''] @
            (case qc_project_instructions cfg of
               Some i \<Rightarrow> [''# Project Instructions (from BAOCLAW.md)'' @ newlines @ i] | None \<Rightarrow> []) @
            (if rules = [] then [] else [''# Project Rules (from .baoclaw/rules/)'' @ newlines @ join_str newlines rules]) @
            (case qc_append_system_prompt cfg of Some a \<Rightarrow> [a] | None \<Rightarrow> [])
      in Some [JObject [(''cache_control'', JObject [(''type'', JString ''ephemeral'')]),
           (''text'', JString (join_str newlines parts)), (''type'', JString ''text'')]])"

definition thinking_json :: "u32 \<Rightarrow> json" where
  "thinking_json budget =
     JObject [(''budget_tokens'', JNumber (PosInt (ucast budget))), (''type'', JString ''enabled'')]"

definition build_api_request ::
  "request_platform \<Rightarrow> message list \<Rightarrow> request_config \<Rightarrow> create_message_request \<times> tool_health_tracker" where
  "build_api_request rp messages cfg =
     (let (th, reminder) = build_dynamic_reminder rp cfg
      in (\<lparr>cm_model = qc_model cfg,
           cm_messages = inject_reminder (rp_render rp) reminder (api_messages messages),
           cm_system = build_system_prompt rp cfg,
           cm_tools = build_tools_list_with (qc_tools cfg) (qc_expanded_tools cfg),
           cm_max_tokens = qc_max_tokens cfg,
           cm_thinking = (case qc_thinking cfg of
              ThinkingDisabled \<Rightarrow> None | ThinkingAdaptive \<Rightarrow> Some (thinking_json 10240) | ThinkingEnabled b \<Rightarrow> Some (thinking_json b))\<rparr>,
          th))"

definition for_cache_safe_compaction :: "create_message_request \<Rightarrow> json list \<Rightarrow> string \<Rightarrow> create_message_request" where
  "for_cache_safe_compaction main old instruction =
     main\<lparr>cm_messages := old @ [wire_message ''user'' (JString instruction)], cm_max_tokens := 4096, cm_thinking := None\<rparr>"

section \<open>The cached prefix of the tool list\<close>

lemma sorted_split:
  fixes k :: "'a \<Rightarrow> 'b::linorder"
  assumes "sorted (map k xs)" "\<And>x y. x \<in> set xs \<Longrightarrow> y \<in> set xs \<Longrightarrow> P x \<Longrightarrow> \<not> P y \<Longrightarrow> k x < k y"
  shows "xs = filter P xs @ filter (\<lambda>x. \<not> P x) xs"
  using assms
proof (induction xs)
  case (Cons x xs)
  show ?case
  proof (cases "P x")
    case True
    with Cons show ?thesis by simp
  next
    case False
    with Cons.prems have "y \<in> set xs \<Longrightarrow> \<not> P y" for y by fastforce
    with False show ?thesis by simp
  qed
qed simp

lemma sort_key_split:
  fixes k :: "'a \<Rightarrow> 'b::linorder"
  assumes "\<And>x y. x \<in> set xs \<Longrightarrow> y \<in> set xs \<Longrightarrow> P x \<Longrightarrow> \<not> P y \<Longrightarrow> k x < k y"
  shows "sort_key k xs = sort_key k (filter P xs) @ sort_key k (filter (\<lambda>x. \<not> P x) xs)"
  using sorted_split [of k "sort_key k xs" P] assms by (simp add: filter_sort)

lemma last_position:
  assumes "list_all P xs" "list_all (\<lambda>x. \<not> P x) ys"
  shows "length (dropWhile (\<lambda>x. \<not> P x) (rev (xs @ ys))) = length xs"
proof -
  have "dropWhile (\<lambda>x. \<not> P x) (rev ys @ rev xs) = dropWhile (\<lambda>x. \<not> P x) (rev xs)"
    using assms(2) by (intro dropWhile_append2) (auto simp: list_all_iff)
  moreover have "dropWhile (\<lambda>x. \<not> P x) (rev xs) = rev xs"
    using assms(1) by (cases "rev xs") (auto simp: list_all_iff)
  ultimately show ?thesis by simp
qed

lemma mark_prefix:
  "(if length xs = 0 then xs @ ys else (xs @ ys)[length xs - 1 := f ((xs @ ys) ! (length xs - 1))]) =
   (if xs = [] then [] else xs[length xs - 1 := f (last xs)]) @ ys"
  by (cases xs rule: rev_cases) (auto simp: nth_append list_update_append)

lemma listed_frozen: "fst (listed e t) = Frozen \<longleftrightarrow> \<not> t_is_deferred t"
  "\<not> t_is_deferred t \<Longrightarrow> listed e t = (Frozen, tool_entry Frozen t)"
  by (simp_all add: listed_def group_of_def)

text \<open>The frozen entries come first, in an order that depends on nothing else.\<close>

lemma entries_split:
  "sort_key entry_key (map (listed e) tools) =
     sort_key entry_key (map (\<lambda>t. (Frozen, tool_entry Frozen t)) (filter (\<lambda>t. \<not> t_is_deferred t) tools)) @
     sort_key entry_key (map (listed e) (filter t_is_deferred tools))"
proof -
  have key: "entry_key x < entry_key y" if "fst x = Frozen" "fst y \<noteq> Frozen" for x y
    using that by (cases "fst y") (simp_all add: entry_key_def less_prod_def)
  have "filter (\<lambda>x. fst x = Frozen) (map (listed e) tools) =
      map (\<lambda>t. (Frozen, tool_entry Frozen t)) (filter (\<lambda>t. \<not> t_is_deferred t) tools)"
    by (induction tools) (simp_all add: listed_frozen)
  moreover have "filter (\<lambda>x. fst x \<noteq> Frozen) (map (listed e) tools) = map (listed e) (filter t_is_deferred tools)"
    by (induction tools) (simp_all add: listed_frozen)
  ultimately show ?thesis
    using sort_key_split [of "map (listed e) tools" "\<lambda>x. fst x = Frozen" entry_key] key by simp
qed

text \<open>An entry that carries the cache breakpoint.\<close>

definition has_breakpoint :: "json \<Rightarrow> bool" where
  "has_breakpoint v \<longleftrightarrow> json_get v ''cache_control'' \<noteq> None"

lemma tool_entry_fields:
  "\<not> has_breakpoint (tool_entry g t)" "get_str (tool_entry g t) ''name'' = Some (t_name t)"
  "has_breakpoint (set_cache_control (tool_entry g t))" "get_str (set_cache_control (tool_entry g t)) ''name'' = Some (t_name t)"
  by (simp_all add: has_breakpoint_def tool_entry_def get_str_def)

lemma marked_last:
  assumes "xs \<noteq> []" "\<forall>x\<in>set xs. \<exists>t. x = tool_entry Frozen t"
  shows "map has_breakpoint (xs[length xs - 1 := set_cache_control (last xs)]) = replicate (length xs - 1) False @ [True]"
    "map (\<lambda>x. get_str x ''name'') (xs[length xs - 1 := set_cache_control (last xs)]) = map (\<lambda>x. get_str x ''name'') xs"
proof -
  obtain ys y where xs: "xs = ys @ [y]" using assms(1) by (metis append_butlast_last_id)
  then obtain t where y: "y = tool_entry Frozen t" using assms(2) by auto
  have ys: "map has_breakpoint ys = replicate (length ys) False"
    using assms(2) tool_entry_fields(1) unfolding xs by (intro replicate_eqI) auto
  show "map has_breakpoint (xs[length xs - 1 := set_cache_control (last xs)]) = replicate (length xs - 1) False @ [True]"
    "map (\<lambda>x. get_str x ''name'') (xs[length xs - 1 := set_cache_control (last xs)]) = map (\<lambda>x. get_str x ''name'') xs"
    using ys by (simp_all add: xs y list_update_append tool_entry_fields)
qed

lemma frozen_names:
  "map (\<lambda>x. get_str (snd x) ''name'') (sort_key entry_key (map (\<lambda>t. (Frozen, tool_entry Frozen t)) ts)) = map Some (sort (map t_name ts))"
proof -
  let ?xs = "sort_key entry_key (map (\<lambda>t. (Frozen, tool_entry Frozen t)) ts)" and ?n = "\<lambda>x. the (get_str (snd x) ''name'')"
  have all: "\<exists>t. x = (Frozen, tool_entry Frozen t)" if "x \<in> set ?xs" for x using that by auto
  have key: "entry_key x = (group_rank Frozen, ?n x)" if "x \<in> set ?xs" for x
    using all [OF that] by (auto simp: entry_key_def tool_entry_fields)
  have "sorted (map entry_key ?xs)" by simp
  also have "map entry_key ?xs = map (Pair (group_rank Frozen)) (map ?n ?xs)" using key by simp
  finally have "sorted (map ?n ?xs)" by (simp add: sorted_map sorted_wrt_map less_eq_prod_def)
  moreover have "mset (map ?n ?xs) = mset (map t_name ts)" by (simp add: tool_entry_fields multiset.map_comp comp_def)
  ultimately have "map ?n ?xs = sort (map t_name ts)" by (metis properties_for_sort)
  moreover have "get_str (snd x) ''name'' = Some (?n x)" if "x \<in> set ?xs" for x using all [OF that] by (auto simp: tool_entry_fields)
  ultimately show ?thesis by (metis (no_types, lifting) list.map_comp map_cong comp_apply)
qed

text \<open>
  C25. Which deferred tools were activated changes nothing in the cached prefix of the tool list: for every set of
  activated tools the list starts with the same entries, those of the other tools in the order of their names, and
  exactly one entry of the whole list carries the cache breakpoint, the last of these (none when there are none).
\<close>

theorem tools_prefix_stable:
  assumes "tools \<noteq> []"
  shows "\<exists>prefix. map (\<lambda>x. get_str x ''name'') prefix = map Some (sort (map t_name (filter (\<lambda>t. \<not> t_is_deferred t) tools))) \<and>
    (\<forall>expanded. \<exists>rest. build_tools_list_with tools expanded = Some (prefix @ rest) \<and>
       length rest = length (filter t_is_deferred tools) \<and>
       map has_breakpoint (prefix @ rest) =
         (if prefix = [] then [] else replicate (length prefix - 1) False @ [True]) @ replicate (length rest) False)"
proof -
  let ?frozen = "sort_key entry_key (map (\<lambda>t. (Frozen, tool_entry Frozen t)) (filter (\<lambda>t. \<not> t_is_deferred t) tools))"
  let ?rest = "\<lambda>e. sort_key entry_key (map (listed e) (filter t_is_deferred tools))"
  let ?mark = "\<lambda>xs. if xs = [] then [] else xs[length xs - 1 := set_cache_control (last xs)]"
  let ?prefix = "?mark (map snd ?frozen)"
  have built: "build_tools_list_with tools e = Some (?prefix @ map snd (?rest e))" for e
  proof -
    have len: "length (dropWhile (\<lambda>e. fst e \<noteq> Frozen) (rev (?frozen @ ?rest e))) = length (map snd ?frozen)"
      using last_position [of "\<lambda>e. fst e = Frozen" ?frozen "?rest e"] by (simp add: list_all_iff listed_frozen)
    show ?thesis
      unfolding build_tools_list_with_def Let_def entries_split [of e tools] len map_append mark_prefix using assms by simp
  qed
  have entries: "\<forall>x\<in>set (map snd ?frozen). \<exists>t. x = tool_entry Frozen t" by auto
  have names: "map (\<lambda>x. get_str x ''name'') ?prefix = map Some (sort (map t_name (filter (\<lambda>t. \<not> t_is_deferred t) tools)))"
    using marked_last(2) [OF _ entries] frozen_names [of "filter (\<lambda>t. \<not> t_is_deferred t) tools"] by (auto simp: comp_def)
  have marks: "map has_breakpoint ?prefix = (if ?prefix = [] then [] else replicate (length ?prefix - 1) False @ [True])"
    using marked_last(1) [OF _ entries] by simp
  have rest: "map has_breakpoint (map snd (?rest e)) = replicate (length (map snd (?rest e))) False" for e
    by (intro replicate_eqI) (auto simp: listed_def tool_entry_fields)
  show ?thesis
  proof (rule exI [of _ ?prefix], intro conjI allI)
    fix e
    show "\<exists>rest. build_tools_list_with tools e = Some (?prefix @ rest) \<and> length rest = length (filter t_is_deferred tools) \<and>
       map has_breakpoint (?prefix @ rest) =
         (if ?prefix = [] then [] else replicate (length ?prefix - 1) False @ [True]) @ replicate (length rest) False"
      using built [of e] rest [of e] marks by (intro exI [of _ "map snd (?rest e)"]) (simp only: map_append length_map length_sort simp_thms)
  qed (rule names)
qed

theorem tools_prefix_stable_witness:
  "let tools = [sample_tool ''B'' True\<lparr>t_is_deferred := True\<rparr>, sample_tool ''C'' True, sample_tool ''A'' True]
   in \<exists>prefix. map (\<lambda>x. get_str x ''name'') prefix = [Some ''A'', Some ''C''] \<and>
     (\<forall>expanded. \<exists>last. build_tools_list_with tools expanded = Some (prefix @ [last]) \<and>
        map has_breakpoint (prefix @ [last]) = [False, True, False])"
proof -
  let ?tools = "[sample_tool ''B'' True\<lparr>t_is_deferred := True\<rparr>, sample_tool ''C'' True, sample_tool ''A'' True]"
  have d: "filter (\<lambda>t. \<not> t_is_deferred t) ?tools = [sample_tool ''C'' True, sample_tool ''A'' True]"
    "length (filter t_is_deferred ?tools) = 1" by (simp_all add: sample_tool_def)
  have names: "map Some (sort (map t_name [sample_tool ''C'' True, sample_tool ''A'' True])) = [Some ''A'', Some ''C'']"
    by (simp add: sample_tool_def less_char_def)
  have "?tools \<noteq> []" by simp
  from tools_prefix_stable [OF this, unfolded d names] obtain prefix where
    p: "map (\<lambda>x. get_str x ''name'') prefix = [Some ''A'', Some ''C'']"
    and l: "\<And>e. \<exists>rest. build_tools_list_with ?tools e = Some (prefix @ rest) \<and> length rest = 1 \<and>
      map has_breakpoint (prefix @ rest) = (if prefix = [] then [] else replicate (length prefix - 1) False @ [True]) @ replicate (length rest) False"
    by (elim exE conjE) (rule that, assumption, erule spec)
  have len: "length prefix = 2" using arg_cong [OF p, of length] by simp
  have "\<exists>last. build_tools_list_with ?tools e = Some (prefix @ [last]) \<and> map has_breakpoint (prefix @ [last]) = [False, True, False]" for e
  proof -
    from l [of e] obtain rest where r: "build_tools_list_with ?tools e = Some (prefix @ rest)" "length rest = 1"
      "map has_breakpoint (prefix @ rest) = (if prefix = [] then [] else replicate (length prefix - 1) False @ [True]) @ replicate (length rest) False"
      by blast
    from r(2) obtain x where "rest = [x]" by (auto simp: length_Suc_conv)
    with r len show ?thesis by auto
  qed
  with p show ?thesis unfolding Let_def by (intro exI [of _ prefix] conjI allI)
qed

section \<open>What reaches the model\<close>

definition wire_calls :: "json \<Rightarrow> string set" where
  "wire_calls m =
     (if get_str m ''role'' = Some ''assistant'' then
        (case json_get m ''content'' of
           Some (JArray bs) \<Rightarrow>
             set (List.map_filter (\<lambda>b. if get_str b ''type'' = Some ''tool_use'' then get_str b ''id'' else None) bs)
         | _ \<Rightarrow> {})
      else {})"

definition wire_results :: "json \<Rightarrow> string set" where
  "wire_results m =
     (if get_str m ''role'' = Some ''user'' then
        (case json_get m ''content'' of Some (JArray bs) \<Rightarrow> set (result_ids bs) | _ \<Rightarrow> {})
      else {})"

definition roles_ok :: "message list \<Rightarrow> bool" where
  "roles_ok ms \<longleftrightarrow> list_all (\<lambda>m. case msg_content m of
     User um _ _ \<Rightarrow> um_role um = ''user'' | Assistant am _ _ \<Rightarrow> am_role am = ''assistant'' | _ \<Rightarrow> True) ms"

lemma block_json_calls:
  "set (List.map_filter (\<lambda>b. if get_str b ''type'' = Some ''tool_use'' then get_str b ''id'' else None) (map block_json bs)) =
   set (tool_use_ids bs)"
proof (induction bs)
  case (Cons b bs)
  then show ?case by (cases b) (auto simp: get_str_def)
qed simp

lemma wire_fields [simp]:
  "get_str (wire_message r c) ''role'' = Some r" "json_get (wire_message r c) ''content'' = Some c"
  by (simp_all add: wire_message_def get_str_def)

lemma api_message_some:
  assumes "api_message m = Some w" "roles_ok [m]"
  shows "wire_calls w = message_uses m \<and> wire_results w = message_results m"
  using assms block_json_calls
  by (auto simp: api_message_def roles_ok_def wire_calls_def wire_results_def message_uses_def message_results_def
      extract_tool_result_ids_def split: message_content.splits if_splits json.splits)

lemma no_content_no_calls: "\<not> list_ex has_content bs \<Longrightarrow> tool_use_ids bs = []"
  by (induction bs rule: tool_use_ids.induct) auto

lemma api_message_none: "api_message m = None \<Longrightarrow> message_uses m = {} \<and> message_results m = {}"
  using no_content_no_calls
  by (auto simp: api_message_def message_uses_def message_results_def is_empty_content_def
      extract_tool_result_ids_def split: message_content.splits if_splits json.splits)

lemma api_ids:
  assumes "roles_ok ms"
  shows "(\<Union>w\<in>set (List.map_filter api_message ms). wire_calls w) = used_ids ms"
    "(\<Union>w\<in>set (List.map_filter api_message ms). wire_results w) = answered_ids ms"
  using assms
proof (induction ms)
  case (Cons m ms)
  { case 1
    with Cons show ?case using api_message_none [of m] api_message_some [of m] by (cases "api_message m") (auto simp: roles_ok_def)
  next
    case 2
    with Cons show ?case using api_message_none [of m] api_message_some [of m] by (cases "api_message m") (auto simp: roles_ok_def) }
qed simp_all

lemma roles_ok_fixed:
  assumes "roles_ok ms"
  shows "roles_ok (validate_and_fix_tool_messages ms)"
proof -
  have "roles_ok [m']" if "fix_message a b m = Some m'" "roles_ok [m]" for a b m m'
    using that by (auto simp: roles_ok_def set_user_blocks_def split: message_content.splits if_splits json.splits)
  then have "roles_ok (List.map_filter (fix_message a b) ms)" for a b
    using assms
    by (induction ms) (fastforce simp: roles_ok_def simp del: fix_message.simps split: option.splits)+
  then show ?thesis by (simp add: validate_and_fix_tool_messages_def split: prod.splits)
qed

lemma wire_set_content:
  assumes "json_get w ''content'' = Some c" "is_user_text_turn w"
  shows "wire_calls (json_set_existing w ''content'' (add_reminder render r c)) = {} \<and> wire_calls w = {} \<and>
    wire_results (json_set_existing w ''content'' (add_reminder render r c)) = {} \<and> wire_results w = {}"
proof -
  let ?w = "json_set_existing w ''content'' (add_reminder render r c)"
  have role: "get_str ?w ''role'' = Some ''user''" "get_str w ''role'' = Some ''user''"
    using assms by (simp_all add: get_str_def json_get_set_existing is_user_text_turn_def)
  have ids: "result_ids bs = []" if "\<not> list_ex is_tool_result bs" for bs using that by (induction bs) auto
  have new: "json_get ?w ''content'' = Some (add_reminder render r c)" using assms(1) by (simp add: json_get_set_existing)
  have plain: "\<not> is_tool_result (JObject [(''text'', JString r), (''type'', JString ''text'')])"
    by (simp add: is_tool_result_def get_str_def)
  show ?thesis
    using assms role new ids plain
    by (cases c) (auto simp: wire_calls_def wire_results_def is_user_text_turn_def add_reminder_def)
qed

lemma inject_ids:
  "(\<Union>w\<in>set (inject_reminder render r ms). wire_calls w) = (\<Union>w\<in>set ms. wire_calls w)"
  "(\<Union>w\<in>set (inject_reminder render r ms). wire_results w) = (\<Union>w\<in>set ms. wire_results w)"
proof -
  have "(\<Union>w\<in>set (inject_reminder render r ms). wire_calls w) = (\<Union>w\<in>set ms. wire_calls w) \<and>
    (\<Union>w\<in>set (inject_reminder render r ms). wire_results w) = (\<Union>w\<in>set ms. wire_results w)"
  proof (cases "r = None \<or> ms = [] \<or> \<not> is_user_text_turn (last ms)")
    case True
    then have "inject_reminder render r ms = ms" by (auto simp: inject_reminder_def split: option.splits)
    then show ?thesis by simp
  next
    case False
    then obtain reminder xs x where r: "r = Some reminder" "ms = xs @ [x]" "is_user_text_turn x"
      by (cases ms rule: rev_cases) auto
    then obtain c where c: "json_get x ''content'' = Some c" by (auto simp: is_user_text_turn_def split: option.splits)
    from r c have "inject_reminder render r ms = xs @ [json_set_existing x ''content'' (add_reminder render reminder c)]"
      by (simp add: inject_reminder_def)
    with wire_set_content [OF c r(3), of render reminder] r(2) show ?thesis by simp
  qed
  then show "(\<Union>w\<in>set (inject_reminder render r ms). wire_calls w) = (\<Union>w\<in>set ms. wire_calls w)"
    "(\<Union>w\<in>set (inject_reminder render r ms). wire_results w) = (\<Union>w\<in>set ms. wire_results w)" by blast+
qed

text \<open>
  When no assistant turn mixes answered and unanswered calls, the messages of a request pair up: the calls
  and the results that the model gets to see carry the same ids, namely those of the history that are both
  called and answered.
\<close>

lemma request_paired:
  fixes rp :: request_platform and cfg :: request_config
  assumes "settled_turns ms" "roles_ok ms"
  defines "sent \<equiv> set (cm_messages (fst (build_api_request rp ms cfg)))"
  shows "(\<Union>w\<in>sent. wire_calls w) = used_ids ms \<inter> answered_ids ms \<and>
    (\<Union>w\<in>sent. wire_results w) = used_ids ms \<inter> answered_ids ms"
proof -
  have "sent = set (inject_reminder (rp_render rp) (snd (build_dynamic_reminder rp cfg)) (api_messages ms))"
    by (simp add: sent_def build_api_request_def split: prod.splits)
  then show ?thesis
    using api_ids [OF roles_ok_fixed [OF assms(2)]] settled_fixed [OF assms(1)]
    by (auto simp: inject_ids api_messages_def paired_def)
qed

lemma request_paired_witness:
  "\<forall>rp cfg. let ms = [sample_call [''x''], sample_answer [''x'', ''z''], sample_call [''y'']]
   in (\<Union>w\<in>set (cm_messages (fst (build_api_request rp ms cfg))). wire_calls w) = {''x''} \<and>
      (\<Union>w\<in>set (cm_messages (fst (build_api_request rp ms cfg))). wire_results w) = {''x''}"
proof -
  have "settled_turns [sample_call [''x''], sample_answer [''x'', ''z''], sample_call [''y'']]" by (simp add: settled_turns_def)
  moreover have "roles_ok [sample_call [''x''], sample_answer [''x'', ''z''], sample_call [''y'']]"
    by (simp add: roles_ok_def sample_call_def sample_answer_def)
  ultimately show ?thesis
    using request_paired [of "[sample_call [''x''], sample_answer [''x'', ''z''], sample_call [''y'']]"] by simp
qed

text \<open>System messages never reach the model.\<close>

lemma system_message_dropped:
  "msg_content m = System sub text \<Longrightarrow> api_messages (m # ms) = api_messages ms"
  by (simp add: api_messages_def validate_and_fix_tool_messages_def collect_tool_ids_eq message_uses_def message_results_def)

end
