(* ===== verification/Bao_Stream.thy ===== *)
theory Bao_Stream
  imports Bao_Budget Bao_Request Bao_ToolExecutor
begin

text \<open>
  One answer of the model: the events the engine reports (\<open>EngineEvent\<close> of \<open>engine/query_engine.rs\<close>), the
  server-sent events and errors of the API (\<open>api/client.rs\<close>), how the stream of an answer becomes content
  blocks (\<open>engine/stream_ingest.rs\<close>) and how tool results become a message (\<open>engine/tool_loop.rs\<close>).
  The JSON printer and parser, floating point, \<open>f32\<close> ratios, money formatting, time and fresh message
  stamps are arguments, collected in the record \<open>engine_platform\<close>.
\<close>

section \<open>Events and errors\<close>

record engine_error =
  ee_code :: string
  ee_message :: string
  ee_details :: "json option"

datatype query_status = QueryComplete | QueryMaxTurns | QueryAborted | QueryError

record query_result =
  qr_status :: query_status
  qr_error :: "engine_error option"
  qr_text :: "string option"
  qr_stop_reason :: "string option"
  qr_total_cost_usd :: f64
  qr_usage :: usage
  qr_num_turns :: u32
  qr_duration_ms :: u64

datatype engine_event =
    AssistantChunk string "string option"
  | ThinkingChunk string
  | EvToolUse string json string
  | EvToolResult string json bool
  | EvPermissionRequest permission_event
  | EvProgress string json
  | StateUpdate json
  | ModelFallback string string
  | TurnStart u32 "u32 option" "string option"
  | TurnEnd u32 u64 u32 u64 u64
  | EvResult query_result
  | EvError engine_error
  | SystemWarning string

datatype api_stream_event =
    MessageStart json
  | ContentBlockStart u32 json
  | ContentBlockDelta u32 json
  | ContentBlockStop u32
  | MessageDelta json json
  | MessageStop
  | Ping
  | StreamError string string

type_synonym u16 = "16 word"

datatype api_error =
    HttpError u16 string
  | NetworkError string
  | ParseError string
  | ApiRateLimited
  | ApiServerError u16
  | AuthError
  | BadRequest string

definition show_word :: "'a::len word \<Rightarrow> string" where
  "show_word w = show_nat (unat w)"

fun api_error_str :: "api_error \<Rightarrow> string" where
  "api_error_str (HttpError status m) = ''HTTP error: status '' @ show_word status @ '', message: '' @ m"
| "api_error_str (NetworkError m) = ''Network error: '' @ m"
| "api_error_str (ParseError m) = ''Parse error: '' @ m"
| "api_error_str ApiRateLimited = ''Rate limited (429)''"
| "api_error_str (ApiServerError status) = ''Server error ('' @ show_word status @ '')''"
| "api_error_str AuthError = ''Auth error (401)''"
| "api_error_str (BadRequest m) = ''Bad request (400): '' @ m"

fun is_retryable :: "api_error \<Rightarrow> bool" where
  "is_retryable ApiRateLimited = True"
| "is_retryable (ApiServerError _) = True"
| "is_retryable _ = False"

text \<open>What the loop over a stream sees next: an event, a broken stream, or the abort signal.\<close>

datatype stream_item = Event api_stream_event | Broken api_error | AbortSignal

record engine_platform =
  ep_request :: request_platform
  ep_exec :: platform
  ep_parse :: "string \<Rightarrow> json option"
  ep_message_json :: "message \<Rightarrow> json"
  ep_blocks_text :: "content_block list \<Rightarrow> string"
  ep_fp :: ieee
  ep_ratio_ge :: "u32 \<Rightarrow> u32 \<Rightarrow> u32 \<Rightarrow> bool"
  ep_money :: "f64 \<Rightarrow> string"
  ep_bpe :: "(string \<Rightarrow> nat) option"
  ep_age :: "string \<Rightarrow> nat option"
  ep_elapsed_ms :: "nat \<Rightarrow> nat \<Rightarrow> u64"
  ep_stamp :: "nat \<Rightarrow> string \<times> string"

abbreviation ep_render :: "engine_platform \<Rightarrow> json \<Rightarrow> string" where
  "ep_render ep \<equiv> rp_render (ep_request ep)"

section \<open>Usage\<close>

definition u64_or_zero :: "json \<Rightarrow> string \<Rightarrow> u64" where
  "u64_or_zero v k = (case get_u64 v k of Some n \<Rightarrow> n | None \<Rightarrow> 0)"

definition usage_of :: "json \<Rightarrow> usage" where
  "usage_of v = \<lparr>input_tokens = u64_or_zero v ''input_tokens'', output_tokens = u64_or_zero v ''output_tokens'',
     cache_creation_input_tokens = get_u64 v ''cache_creation_input_tokens'',
     cache_read_input_tokens = get_u64 v ''cache_read_input_tokens''\<rparr>"

section \<open>Ingesting a stream\<close>

record ingest_state =
  ig_blocks :: "content_block list"
  ig_text :: string
  ig_tool_id :: string
  ig_tool_name :: string
  ig_tool_input :: string
  ig_thinking :: string
  ig_stop_reason :: "string option"
  ig_block_type :: string
  ig_usage :: usage
  ig_cost :: cost_tracker
  ig_counter :: token_counter
  ig_baseline :: "token_baseline option"
  ig_events :: "engine_event list"

definition ingest_start :: "usage \<Rightarrow> cost_tracker \<Rightarrow> token_counter \<Rightarrow> token_baseline option \<Rightarrow> ingest_state" where
  "ingest_start u c tc b = \<lparr>ig_blocks = [], ig_text = [], ig_tool_id = [], ig_tool_name = [], ig_tool_input = [],
     ig_thinking = [], ig_stop_reason = None, ig_block_type = [], ig_usage = u, ig_cost = c, ig_counter = tc,
     ig_baseline = b, ig_events = []\<rparr>"

definition str_or_empty :: "json \<Rightarrow> string \<Rightarrow> string" where
  "str_or_empty v k = (case get_str v k of Some s \<Rightarrow> s | None \<Rightarrow> [])"

definition seeded_input :: "(json \<Rightarrow> string) \<Rightarrow> json \<Rightarrow> string" where
  "seeded_input render block =
     (case json_get block ''input'' of
        Some (JObject kvs) \<Rightarrow> if kvs \<noteq> [] then render (JObject kvs) else []
      | _ \<Rightarrow> [])"

definition block_start :: "(json \<Rightarrow> string) \<Rightarrow> json \<Rightarrow> ingest_state \<Rightarrow> ingest_state" where
  "block_start render block g =
     (let ty = str_or_empty block ''type''; g' = g\<lparr>ig_block_type := ty\<rparr>
      in if ty = ''text'' then g'\<lparr>ig_text := []\<rparr>
         else if ty = ''tool_use'' then
           g'\<lparr>ig_tool_id := str_or_empty block ''id'', ig_tool_name := str_or_empty block ''name'',
              ig_tool_input := seeded_input render block\<rparr>
         else if ty = ''thinking'' then g'\<lparr>ig_thinking := []\<rparr>
         else g')"

definition block_delta :: "json \<Rightarrow> ingest_state \<Rightarrow> ingest_state" where
  "block_delta delta g =
     (let ty = str_or_empty delta ''type''
      in if ty = ''text_delta'' then
           (case get_str delta ''text'' of
              Some t \<Rightarrow> g\<lparr>ig_text := ig_text g @ t, ig_events := ig_events g @ [AssistantChunk t None]\<rparr>
            | None \<Rightarrow> g)
         else if ty = ''input_json_delta'' then
           (case get_str delta ''partial_json'' of
              Some t \<Rightarrow> g\<lparr>ig_tool_input := ig_tool_input g @ t\<rparr> | None \<Rightarrow> g)
         else if ty = ''thinking_delta'' then
           (case get_str delta ''thinking'' of
              Some t \<Rightarrow> g\<lparr>ig_thinking := ig_thinking g @ t, ig_events := ig_events g @ [ThinkingChunk t]\<rparr>
            | None \<Rightarrow> g)
         else g)"

definition block_stop :: "(string \<Rightarrow> json option) \<Rightarrow> ingest_state \<Rightarrow> ingest_state" where
  "block_stop parse g =
     (let ty = ig_block_type g;
          new = (if ty = ''text'' then (if ig_text g \<noteq> [] then [Text (ig_text g)] else [])
                 else if ty = ''tool_use'' then
                   [ToolUse (ig_tool_id g) (ig_tool_name g)
                      (case parse (ig_tool_input g) of Some v \<Rightarrow> v | None \<Rightarrow> JObject [])]
                 else if ty = ''thinking'' \<and> ig_thinking g \<noteq> [] then [Thinking (ig_thinking g)]
                 else [])
      in g\<lparr>ig_blocks := ig_blocks g @ new, ig_block_type := []\<rparr>)"

definition spend :: "ieee \<Rightarrow> string \<Rightarrow> json \<Rightarrow> ingest_state \<Rightarrow> ingest_state" where
  "spend fp model usage_val g =
     g\<lparr>ig_usage := accumulate_usage (ig_usage g) usage_val,
       ig_cost := cost_accumulate fp (usage_of usage_val) model (ig_cost g)\<rparr>"

definition message_delta :: "ieee \<Rightarrow> string \<Rightarrow> json \<Rightarrow> json \<Rightarrow> ingest_state \<Rightarrow> ingest_state" where
  "message_delta fp model delta usage_val g =
     spend fp model usage_val
       (case get_str delta ''stop_reason'' of Some sr \<Rightarrow> g\<lparr>ig_stop_reason := Some sr\<rparr> | None \<Rightarrow> g)"

text \<open>\<open>sid\<close> says whether the session has an id, under which the calibrated counter is saved.\<close>

definition message_start :: "ieee \<Rightarrow> string \<Rightarrow> bool \<Rightarrow> nat \<Rightarrow> json \<Rightarrow> ingest_state \<Rightarrow> ingest_state" where
  "message_start fp model sid n_messages message g =
     (case json_get message ''usage'' of
        None \<Rightarrow> g
      | Some usage_val \<Rightarrow>
          let g' = spend fp model usage_val g; input = u64_or_zero usage_val ''input_tokens''
          in if input > 0 then
               let tc = calibrate input n_messages (ig_counter g')
               in g'\<lparr>ig_counter := tc, ig_baseline := (if sid then save_baseline tc (ig_baseline g') else ig_baseline g')\<rparr>
             else g')"

fun ingest_event :: "engine_platform \<Rightarrow> string \<Rightarrow> bool \<Rightarrow> nat \<Rightarrow> api_stream_event \<Rightarrow> ingest_state \<Rightarrow> ingest_state" where
  "ingest_event ep model sid n (ContentBlockStart _ block) g = block_start (ep_render ep) block g"
| "ingest_event ep model sid n (ContentBlockDelta _ delta) g = block_delta delta g"
| "ingest_event ep model sid n (ContentBlockStop _) g = block_stop (ep_parse ep) g"
| "ingest_event ep model sid n (MessageDelta delta usage_val) g = message_delta (ep_fp ep) model delta usage_val g"
| "ingest_event ep model sid n (MessageStart message) g = message_start (ep_fp ep) model sid n message g"
| "ingest_event ep model sid n MessageStop g = g"
| "ingest_event ep model sid n Ping g = g"
| "ingest_event ep model sid n (StreamError _ _) g = g"

datatype stream_ingest = IngestContinue "content_block list" "string option" | IngestAborted | IngestFatal engine_error

definition is_user :: "message \<Rightarrow> bool" where
  "is_user m \<longleftrightarrow> (case msg_content m of User _ _ _ \<Rightarrow> True | _ \<Rightarrow> False)"

definition is_assistant :: "message \<Rightarrow> bool" where
  "is_assistant m \<longleftrightarrow> (case msg_content m of Assistant _ _ _ \<Rightarrow> True | _ \<Rightarrow> False)"

text \<open>\<open>if let Some(last) = messages.last() { if matches!(...) { messages.pop(); } }\<close>\<close>

definition pop_if :: "(message \<Rightarrow> bool) \<Rightarrow> message list \<Rightarrow> message list" where
  "pop_if P ms = (if ms \<noteq> [] \<and> P (last ms) then butlast ms else ms)"

definition plain_error :: "string \<Rightarrow> string \<Rightarrow> engine_error" where
  "plain_error code message = \<lparr>ee_code = code, ee_message = message, ee_details = None\<rparr>"

definition send_terminal_result ::
  "engine_platform \<Rightarrow> nat \<Rightarrow> cost_tracker \<Rightarrow> usage \<Rightarrow> u32 \<Rightarrow> query_status \<Rightarrow> engine_error option \<Rightarrow> string option \<Rightarrow>
     string option \<Rightarrow> engine_event" where
  "send_terminal_result ep t cost u turns status err txt stop_reason =
     EvResult \<lparr>qr_status = status, qr_error = err, qr_text = txt, qr_stop_reason = stop_reason,
       qr_total_cost_usd = total_cost cost, qr_usage = u, qr_num_turns = turns, qr_duration_ms = ep_elapsed_ms ep 0 t\<rparr>"

text \<open>The state records the events; \<open>t\<close> is the moment, counted from 0 at the start of the query, and the seed of
  fresh stamps.\<close>

fun ingest_stream_events ::
  "engine_platform \<Rightarrow> string \<Rightarrow> bool \<Rightarrow> u32 \<Rightarrow> nat \<Rightarrow> stream_item list \<Rightarrow> message list \<Rightarrow> ingest_state \<Rightarrow>
     stream_ingest \<times> message list \<times> ingest_state" where
  "ingest_stream_events ep model sid turns t [] ms g = (IngestContinue (ig_blocks g) (ig_stop_reason g), ms, g)"
| "ingest_stream_events ep model sid turns t (AbortSignal # _) ms g =
     (IngestAborted, fst (cleanup_orphan_tool_uses (fst (ep_stamp ep t)) (snd (ep_stamp ep t)) ms),
      g\<lparr>ig_events := ig_events g @ [send_terminal_result ep t (ig_cost g) (ig_usage g) turns QueryAborted None None None]\<rparr>)"
| "ingest_stream_events ep model sid turns t (Broken e # _) ms g =
     (let err = plain_error ''stream_error'' (api_error_str e)
      in (IngestFatal err, if ig_blocks g = [] then pop_if is_user ms else ms, g\<lparr>ig_events := ig_events g @ [EvError err]\<rparr>))"
| "ingest_stream_events ep model sid turns t (Event ev # items) ms g =
     (case ev of
        MessageStop \<Rightarrow> (IngestContinue (ig_blocks g) (ig_stop_reason g), ms, g)
      | StreamError ty m \<Rightarrow>
          let err = plain_error ty m in (IngestFatal err, ms, g\<lparr>ig_events := ig_events g @ [EvError err]\<rparr>)
      | _ \<Rightarrow> ingest_stream_events ep model sid turns t items ms (ingest_event ep model sid (length ms) ev g))"

section \<open>Tool results as a message\<close>

text \<open>
  A long string may hold JSON with images inside, so the stripping recurses through the text of strings;
  \<open>fuel\<close> bounds that nesting, and \<open>json_text\<close>, the longest string of a value, is enough of it
  (lemma \<open>strip_fuel\<close>).
\<close>

fun json_text :: "json \<Rightarrow> nat" where
  "json_text (JString s) = length s"
| "json_text (JArray xs) = Max (insert 0 (json_text ` set xs))"
| "json_text (JObject kvs) = Max (insert 0 ((\<lambda>kv. json_text (snd kv)) ` set kvs))"
| "json_text _ = 0"

definition is_image_data :: "string \<Rightarrow> json \<Rightarrow> bool" where
  "is_image_data k v \<longleftrightarrow> k = ''data'' \<and>
     (case v of JString s \<Rightarrow> length s > 1000 \<and> (prefix ''iVBOR'' s \<or> prefix ''/9j/'' s) | _ \<Rightarrow> False)"

function strip_images :: "(string \<Rightarrow> json option) \<Rightarrow> (json \<Rightarrow> string) \<Rightarrow> nat \<Rightarrow> json \<Rightarrow> json" where
  "strip_images parse render fuel (JString s) =
     (if length s > 10000 then
        (case parse s of
           Some parsed \<Rightarrow> (case fuel of 0 \<Rightarrow> JString s | Suc n \<Rightarrow> JString (render (strip_images parse render n parsed)))
         | None \<Rightarrow>
             if str_contains s ''iVBOR'' \<or> str_contains s ''data:image''
             then JString ''[image data removed to save context]'' else JString s)
      else JString s)"
| "strip_images parse render fuel (JObject kvs) =
     JObject (map (\<lambda>kv. (fst kv, if is_image_data (fst kv) (snd kv) then JString ''[image: base64 data removed]''
                                  else strip_images parse render fuel (snd kv))) kvs)"
| "strip_images parse render fuel (JArray xs) = JArray (map (strip_images parse render fuel) xs)"
| "strip_images parse render fuel JNull = JNull"
| "strip_images parse render fuel (JBool b) = JBool b"
| "strip_images parse render fuel (JNumber n) = JNumber n"
  by pat_completeness auto
termination strip_images
proof (relation "measures [\<lambda>(_, _, n, _). n, \<lambda>(_, _, _, v). size v]", goal_cases)
  case (3 parse render fuel kvs kv)
  then have "size_prod (\<lambda>_. 0) size kv \<le> size_list (size_prod (\<lambda>_. 0) size) kvs"
    by (simp add: size_list_estimation')
  moreover have "size (snd kv) < size_prod (\<lambda>_. 0) size kv" by (cases kv) simp
  ultimately show ?case by simp
qed (auto simp: less_Suc_eq_le size_list_estimation')

definition strip_base64_images :: "(string \<Rightarrow> json option) \<Rightarrow> (json \<Rightarrow> string) \<Rightarrow> json \<Rightarrow> json" where
  "strip_base64_images parse render v = strip_images parse render (json_text v) v"

definition max_tool_result_chars :: nat where
  "max_tool_result_chars = 200000"

definition clip_result :: "string \<Rightarrow> json" where
  "clip_result s =
     (if length s > max_tool_result_chars then
        JString (take_chars max_tool_result_chars s @ [CHR 0x0A, CHR 0x0A] @ ''['' @ [CHR 0xE2, CHR 0x80, CHR 0xA6] @
          '' truncated, '' @ show_nat (length s) @ '' total chars]'')
      else JString s)"

definition result_content :: "(string \<Rightarrow> json option) \<Rightarrow> (json \<Rightarrow> string) \<Rightarrow> json \<Rightarrow> json" where
  "result_content parse render out =
     (case strip_base64_images parse render out of
        JString s \<Rightarrow> clip_result s
      | JNull \<Rightarrow> JString []
      | JArray xs \<Rightarrow> JArray xs
      | other \<Rightarrow> clip_result (render other))"

definition result_block :: "(string \<Rightarrow> json option) \<Rightarrow> (json \<Rightarrow> string) \<Rightarrow> tool_execution_result \<Rightarrow> json" where
  "result_block parse render r = JObject [(''content'', result_content parse render (te_output r)),
     (''is_error'', JBool (te_is_error r)), (''tool_use_id'', JString (te_tool_use_id r)), (''type'', JString ''tool_result'')]"

definition build_tool_result_message ::
  "(string \<Rightarrow> json option) \<Rightarrow> (json \<Rightarrow> string) \<Rightarrow> string \<times> string \<Rightarrow> tool_execution_result list \<Rightarrow> message" where
  "build_tool_result_message parse render stamp results =
     \<lparr>msg_uuid = fst stamp, msg_timestamp = snd stamp,
      msg_content = User \<lparr>um_role = ''user'', um_content = JArray (map (result_block parse render) results)\<rparr> False None\<rparr>"

text \<open>
  Enough fuel: when the text of every string inside a parsed value is shorter than the string it was parsed
  from, as it is in JSON, where each is quoted in it, more fuel changes nothing.
\<close>

lemma strip_fuel:
  assumes "\<And>s v. parse s = Some v \<Longrightarrow> json_text v < length s"
    and "json_text v \<le> n" "json_text v \<le> m"
  shows "strip_images parse render n v = strip_images parse render m v"
  using assms
proof (induction parse render n v arbitrary: m rule: strip_images.induct)
  case (1 parse render n s)
  show ?case
  proof (cases "length s > 10000 \<and> parse s \<noteq> None")
    case True
    then obtain v where v: "parse s = Some v" by auto
    from True 1(3,4) obtain n' m' where Suc: "n = Suc n'" "m = Suc m'" by (cases n; cases m) auto
    from 1(2) [OF v] 1(3,4) Suc have "json_text v \<le> n'" "json_text v \<le> m'" by auto
    with True v Suc 1(1) [of v n' m'] 1(2) show ?thesis by simp
  qed (auto split: option.split)
qed (auto)

section \<open>What a stream renders is what is ingested\<close>

fun block_payload :: "(json \<Rightarrow> string) \<Rightarrow> content_block \<Rightarrow> string" where
  "block_payload render (Text t) = t"
| "block_payload render (Thinking t) = t"
| "block_payload render (ToolUse i name inp) = render inp"
| "block_payload render (Image src) = []"
| "block_payload render (Document src) = []"

fun block_header :: "content_block \<Rightarrow> json" where
  "block_header (Text t) = JObject [(''text'', JString []), (''type'', JString ''text'')]"
| "block_header (Thinking t) = JObject [(''thinking'', JString []), (''type'', JString ''thinking'')]"
| "block_header (ToolUse i name inp) = JObject [(''id'', JString i), (''input'', JObject []),
     (''name'', JString name), (''type'', JString ''tool_use'')]"
| "block_header (Image src) = JNull"
| "block_header (Document src) = JNull"

fun block_chunk :: "content_block \<Rightarrow> string \<Rightarrow> json" where
  "block_chunk (Text t) c = JObject [(''text'', JString c), (''type'', JString ''text_delta'')]"
| "block_chunk (Thinking t) c = JObject [(''thinking'', JString c), (''type'', JString ''thinking_delta'')]"
| "block_chunk (ToolUse i name inp) c = JObject [(''partial_json'', JString c), (''type'', JString ''input_json_delta'')]"
| "block_chunk (Image src) c = JNull"
| "block_chunk (Document src) c = JNull"

text \<open>The events of one block whose payload arrives in the pieces \<open>cs\<close>, and of a whole answer.\<close>

definition block_events :: "u32 \<Rightarrow> content_block \<times> string list \<Rightarrow> stream_item list" where
  "block_events i bc = (case bc of (b, cs) \<Rightarrow>
     [Event (ContentBlockStart i (block_header b))] @ map (\<lambda>c. Event (ContentBlockDelta i (block_chunk b c))) cs @
     [Event Ping, Event (ContentBlockStop i)])"

definition answer_events :: "(content_block \<times> string list) list \<Rightarrow> string \<Rightarrow> json \<Rightarrow> stream_item list" where
  "answer_events bcs stop u =
     concat (map (block_events 0) bcs) @
     [Event (MessageDelta (JObject [(''stop_reason'', JString stop)]) u), Event MessageStop]"

definition streamable :: "engine_platform \<Rightarrow> content_block \<times> string list \<Rightarrow> bool" where
  "streamable ep bc \<longleftrightarrow> (case bc of (b, cs) \<Rightarrow>
     concat cs = block_payload (ep_render ep) b \<and>
     (case b of
        Text t \<Rightarrow> t \<noteq> []
      | Thinking t \<Rightarrow> t \<noteq> []
      | ToolUse i name inp \<Rightarrow> ep_parse ep (ep_render ep inp) = Some inp
      | _ \<Rightarrow> False))"

fun shown :: "content_block \<times> string list \<Rightarrow> engine_event list" where
  "shown (Text t, cs) = map (\<lambda>c. AssistantChunk c None) cs"
| "shown (Thinking t, cs) = map ThinkingChunk cs"
| "shown (_, cs) = []"

fun add_chunks :: "content_block \<Rightarrow> string list \<Rightarrow> ingest_state \<Rightarrow> ingest_state" where
  "add_chunks (Text t) cs g = g\<lparr>ig_text := ig_text g @ concat cs, ig_events := ig_events g @ shown (Text t, cs)\<rparr>"
| "add_chunks (Thinking t) cs g = g\<lparr>ig_thinking := ig_thinking g @ concat cs, ig_events := ig_events g @ shown (Thinking t, cs)\<rparr>"
| "add_chunks (ToolUse i n inp) cs g = g\<lparr>ig_tool_input := ig_tool_input g @ concat cs\<rparr>"
| "add_chunks b cs g = g"

lemma block_delta_chunk: "block_delta (block_chunk b c) g = add_chunks b [c] g"
  by (cases b) (simp_all add: block_delta_def str_or_empty_def get_str_def)

lemma add_chunks_Nil: "add_chunks b [] g = g"
  by (cases b) simp_all

lemma add_chunks_Cons: "add_chunks b cs (add_chunks b [c] g) = add_chunks b (c # cs) g"
  by (cases b) simp_all

lemma ingest_chunks:
  "ingest_stream_events ep model sid turns t (map (\<lambda>c. Event (ContentBlockDelta i (block_chunk b c))) cs @ rest) ms g =
   ingest_stream_events ep model sid turns t rest ms (add_chunks b cs g)"
  by (induction cs arbitrary: g) (simp_all add: add_chunks_Nil block_delta_chunk add_chunks_Cons)

lemma ingest_block:
  assumes "streamable ep bc"
  shows "\<exists>g'. ingest_stream_events ep model sid turns t (block_events i bc @ rest) ms g =
      ingest_stream_events ep model sid turns t rest ms g' \<and>
    ig_blocks g' = ig_blocks g @ [fst bc] \<and> ig_events g' = ig_events g @ shown bc"
proof -
  obtain b cs where bc: "bc = (b, cs)" by (cases bc)
  from assms bc show ?thesis
    by (cases b) (auto simp del: block_chunk.simps simp: streamable_def block_events_def ingest_chunks block_start_def block_stop_def str_or_empty_def
        get_str_def seeded_input_def Let_def)
qed

lemma ingest_blocks:
  assumes "list_all (streamable ep) bcs"
  shows "\<exists>g'. ingest_stream_events ep model sid turns t (concat (map (block_events i) bcs) @ rest) ms g =
      ingest_stream_events ep model sid turns t rest ms g' \<and>
    ig_blocks g' = ig_blocks g @ map fst bcs \<and> ig_events g' = ig_events g @ concat (map shown bcs)"
  using assms
proof (induction bcs arbitrary: g)
  case (Cons bc bcs)
  from Cons.prems ingest_block [of ep bc model sid turns t i "concat (map (block_events i) bcs) @ rest" ms g]
  obtain g1 where g1: "ingest_stream_events ep model sid turns t (block_events i bc @ concat (map (block_events i) bcs) @ rest) ms g =
      ingest_stream_events ep model sid turns t (concat (map (block_events i) bcs) @ rest) ms g1"
    "ig_blocks g1 = ig_blocks g @ [fst bc]" "ig_events g1 = ig_events g @ shown bc"
    by auto
  from Cons.prems Cons.IH [of g1] g1 show ?case by auto
qed auto

text \<open>
  C24. Whatever an answer consists of and however its text, thinking and tool arguments are cut into deltas,
  ingesting the stream gives back exactly the blocks of the answer with its stop reason, the user is shown
  exactly the deltas of text and thinking in order, and the history is left alone.
\<close>

theorem stream_roundtrip:
  assumes "list_all (streamable ep) bcs"
  shows "case ingest_stream_events ep model sid turns t (answer_events bcs stop u) ms (ingest_start us c tc b) of
     (outcome, ms', g) \<Rightarrow> outcome = IngestContinue (map fst bcs) (Some stop) \<and> ms' = ms \<and>
       ig_events g = concat (map shown bcs)"
proof -
  from ingest_blocks [OF assms, of model sid turns t 0
      "[Event (MessageDelta (JObject [(''stop_reason'', JString stop)]) u), Event MessageStop]" ms "ingest_start us c tc b"]
  show ?thesis
    by (auto simp: answer_events_def message_delta_def spend_def get_str_def ingest_start_def)
qed

definition sample_platform :: engine_platform where
  "sample_platform = \<lparr>ep_request = \<lparr>rp_render = (\<lambda>_. ''{}''), rp_glob = (\<lambda>_. None), rp_rate = (\<lambda>_ _. []),
       rp_elapsed = (\<lambda>_ _. None), rp_now = []\<rparr>,
     ep_exec = idle_platform, ep_parse = (\<lambda>s. if s = ''{}'' then Some (JObject []) else None), ep_message_json = (\<lambda>_. JNull),
     ep_blocks_text = (\<lambda>_. []), ep_fp = \<lparr>f_add = (\<lambda>a b. a + b), f_mul = (\<lambda>a b. a * b), f_div = (\<lambda>a b. a div b),
       f_sum = sum_list, f_of_u64 = id, f_to_u64 = id, f_less = (\<lambda>a b. a < b), f_le = (\<lambda>a b. a \<le> b)\<rparr>,
     ep_ratio_ge = (\<lambda>_ _ _. False), ep_money = (\<lambda>_. []), ep_bpe = None, ep_age = (\<lambda>_. None), ep_elapsed_ms = (\<lambda>a b. of_nat (b - a)),
     ep_stamp = (\<lambda>n. (show_nat n, []))\<rparr>"

theorem stream_roundtrip_witness:
  "\<forall>m sid turns t ms us c tc b. let bcs = [(Thinking ''hmm'', [''h'', ''mm'']), (Text ''hi'', [''h'', [], ''i'']), (ToolUse ''1'' ''Bash'' (JObject []), [''{'', ''}''])]
   in case ingest_stream_events sample_platform m sid turns t (answer_events bcs ''tool_use'' JNull) ms (ingest_start us c tc b) of
     (outcome, ms', g) \<Rightarrow>
       outcome = IngestContinue [Thinking ''hmm'', Text ''hi'', ToolUse ''1'' ''Bash'' (JObject [])] (Some ''tool_use'') \<and>
       ms' = ms \<and> ig_events g = [ThinkingChunk ''h'', ThinkingChunk ''mm'', AssistantChunk ''h'' None, AssistantChunk [] None,
         AssistantChunk ''i'' None]"
proof -
  have "list_all (streamable sample_platform)
      [(Thinking ''hmm'', [''h'', ''mm'']), (Text ''hi'', [''h'', [], ''i'']), (ToolUse ''1'' ''Bash'' (JObject []), [''{'', ''}''])]"
    by (simp add: streamable_def sample_platform_def)
  from stream_roundtrip [OF this] show ?thesis by simp
qed

end
