(* ===== verification/Bao_Failover.thy ===== *)
theory Bao_Failover
  imports Bao_Stream Bao_Fallback
begin

text \<open>
  The state of a query and its calls of the model: \<open>engine/compact/mod.rs\<close> (compaction through the model),
  \<open>engine/failover.rs\<close> (one call with fallback) and the summary text of \<open>engine/query_engine.rs\<close>. The API is a
  function from requests to replies, a fresh one for every call site of every iteration.
\<close>

section \<open>Configuration and state\<close>

text \<open>\<open>QueryLoopConfig\<close>: the fields that stay fixed; \<open>lc_request\<close> holds what a request reads.\<close>

record loop_config =
  lc_request :: request_config
  lc_max_turns :: "u32 option"
  lc_max_budget_usd :: "f64 option"
  lc_max_tokens_budget :: "u64 option"
  lc_session_id :: "string option"
  lc_parent_turn_id :: "u32 option"
  lc_agent_label :: "string option"
  lc_micro_compact :: micro_compact_config
  lc_gated :: bool
  lc_context :: tool_context
  lc_fallback_models :: "string list"
  lc_max_retries_per_model :: u32
  lc_has_telemetry :: bool
  lc_has_evolution :: bool
  lc_has_transcript :: bool
  lc_has_index :: bool

record trajectory_action =
  ta_tool_name :: string
  ta_input_summary :: string
  ta_output_summary :: string
  ta_is_error :: bool

datatype trajectory_outcome = Completed string | TrajMaxTurns | TrajAborted | TrajError string string

record trajectory =
  tj_user_prompt :: string
  tj_actions :: "trajectory_action list"
  tj_outcome :: trajectory_outcome
  tj_tool_count :: nat
  tj_duration_ms :: u64

datatype transcript_entry_type = TxUserMessage | TxAssistantMessage | TxToolUse | TxToolResult

record transcript_entry =
  tx_timestamp :: string
  tx_type :: transcript_entry_type
  tx_data :: json

record telemetry_turn =
  tt_input_tokens :: u64
  tt_output_tokens :: u64
  tt_cost :: f64
  tt_duration_ms :: u64
  tt_tool_names :: "string list"

text \<open>
  The variables of \<open>run_query_loop\<close>, the fields of its configuration that it changes, and what it
  shares; the last ones record what it sent: events, requests, transcript, index, trajectories.
\<close>

record 'tx query_state =
  qs_prompt :: string
  qs_messages :: "message list"
  qs_usage :: usage
  qs_cost :: cost_tracker
  qs_turn_count :: u32
  qs_turn_id :: u32
  qs_warned_70 :: bool
  qs_warned_90 :: bool
  qs_grace_turn :: "u32 option"
  qs_empty_retries :: u32
  qs_overflow_retries :: u32
  qs_fallback :: fallback_controller
  qs_fail_count :: nat
  qs_initial_budget :: "(budget_status \<times> u64) option"
  qs_adaptive :: adaptive_tracker
  qs_git :: "git_info option"
  qs_counter :: token_counter
  qs_baseline :: "token_baseline option"
  qs_expanded :: "string set"
  qs_health :: tool_health_tracker
  qs_memory :: "session_memory option"
  qs_shared :: "'tx shared"
  qs_clock :: nat
  qs_events :: "engine_event list"
  qs_requests :: "create_message_request list"
  qs_summary_requests :: "create_message_request list"
  qs_transcript :: "transcript_entry list"
  qs_index :: "(string \<times> string) list"
  qs_actions :: "trajectory_action list"
  qs_trajectories :: "trajectory list"
  qs_telemetry :: "telemetry_turn list"
  qs_skill_outcomes :: "(string \<times> bool) list"
  qs_memory_jobs :: "message list list"

definition emit :: "engine_event \<Rightarrow> 'tx query_state \<Rightarrow> 'tx query_state" where
  "emit ev st = st\<lparr>qs_events := qs_events st @ [ev]\<rparr>"

definition progress :: "string \<Rightarrow> 'tx query_state \<Rightarrow> 'tx query_state" where
  "progress m = emit (EvProgress [] (JObject [(''message'', JString m)]))"

definition fresh_stamp :: "engine_platform \<Rightarrow> 'tx query_state \<Rightarrow> string \<times> string" where
  "fresh_stamp ep st = ep_stamp ep (qs_clock st)"

definition push_message :: "message \<Rightarrow> 'tx query_state \<Rightarrow> 'tx query_state" where
  "push_message m st = st\<lparr>qs_messages := qs_messages st @ [m], qs_clock := Suc (qs_clock st)\<rparr>"

definition set_messages :: "message list \<Rightarrow> 'tx query_state \<Rightarrow> 'tx query_state" where
  "set_messages ms st = st\<lparr>qs_messages := ms\<rparr>"

definition user_text :: "string \<times> string \<Rightarrow> string \<Rightarrow> message" where
  "user_text stamp txt = \<lparr>msg_uuid = fst stamp, msg_timestamp = snd stamp,
     msg_content = User \<lparr>um_role = ''user'', um_content = JString txt\<rparr> False None\<rparr>"

definition boundary_message :: "string \<times> string \<Rightarrow> string \<Rightarrow> message" where
  "boundary_message stamp summary =
     \<lparr>msg_uuid = fst stamp, msg_timestamp = snd stamp, msg_content = System CompactBoundary summary\<rparr>"

definition current_request_config :: "loop_config \<Rightarrow> 'tx query_state \<Rightarrow> request_config" where
  "current_request_config lc st = (lc_request lc)\<lparr>qc_git_info := qs_git st, qc_expanded_tools := qs_expanded st,
     qc_session_memory := qs_memory st, qc_tool_health := qs_health st\<rparr>"

abbreviation lc_model :: "loop_config \<Rightarrow> string" where
  "lc_model lc \<equiv> qc_model (lc_request lc)"

type_synonym api = "create_message_request \<Rightarrow> api_error + stream_item list"

section \<open>The text to be summarised\<close>

definition truncate_with_marker :: "string \<Rightarrow> nat \<Rightarrow> string" where
  "truncate_with_marker txt max_chars =
     (if length txt \<le> max_chars then txt
      else let e = next_boundary txt max_chars
           in take e txt @ '' [...'' @ show_nat (length txt - e) @ '' chars elided]'')"

function elide_for_summary :: "(json \<Rightarrow> string) \<Rightarrow> json \<Rightarrow> nat \<Rightarrow> string" where
  "elide_for_summary render (JString s) n = truncate_with_marker s n"
| "elide_for_summary render (JArray bs) n = join_str [CHR 0x0A] (map (\<lambda>b. elide_for_summary render b n) bs)"
| "elide_for_summary render (JObject kvs) n =
     (if get_str (JObject kvs) ''type'' = Some ''tool_result'' \<and> map_of kvs ''content'' \<noteq> None
      then elide_for_summary render (the (map_of kvs ''content'')) n
      else if get_str (JObject kvs) ''type'' = Some ''text'' \<and> get_str (JObject kvs) ''text'' \<noteq> None
      then truncate_with_marker (the (get_str (JObject kvs) ''text'')) n
      else truncate_with_marker (render (JObject kvs)) n)"
| "elide_for_summary render JNull n = truncate_with_marker (render JNull) n"
| "elide_for_summary render (JBool b) n = truncate_with_marker (render (JBool b)) n"
| "elide_for_summary render (JNumber x) n = truncate_with_marker (render (JNumber x)) n"
  by pat_completeness auto
termination elide_for_summary
proof (relation "measure (\<lambda>(_, v, _). size v)", goal_cases)
  case (3 render kvs n)
  then obtain v where v: "map_of kvs ''content'' = Some v" by auto
  then have "(''content'', v) \<in> set kvs" by (rule map_of_SomeD)
  then have "size_prod (\<lambda>_. 0) size (''content'', v) \<le> size_list (size_prod (\<lambda>_. 0) size) kvs"
    by (rule size_list_estimation') simp
  with v show ?case by simp
qed (auto simp: less_Suc_eq_le size_list_estimation')

definition summary_line :: "(json \<Rightarrow> string) \<Rightarrow> message \<Rightarrow> string" where
  "summary_line render m =
     (case msg_content m of
        User um _ _ \<Rightarrow> ''User: '' @ (case um_content um of JString s \<Rightarrow> s | other \<Rightarrow> elide_for_summary render other 400)
      | Assistant am _ _ \<Rightarrow> ''Assistant: '' @ join_str '' '' (text_pieces (am_content am))
      | System _ content \<Rightarrow> ''System: '' @ content
      | Progress _ _ \<Rightarrow> [])"

definition format_messages_for_summary :: "(json \<Rightarrow> string) \<Rightarrow> message list \<Rightarrow> string" where
  "format_messages_for_summary render ms =
     join_str newlines (filter (\<lambda>s. s \<noteq> []) (map (summary_line render) ms))"

definition summarize_prompt :: "string \<Rightarrow> string" where
  "summarize_prompt txt = ''Summarize the following conversation history concisely, preserving key context, decisions, and file changes:'' @
     newlines @ txt"

section \<open>Compaction through the model\<close>

fun collect_summary :: "stream_item list \<Rightarrow> string \<Rightarrow> string option" where
  "collect_summary [] acc = Some acc"
| "collect_summary (AbortSignal # _) acc = None"
| "collect_summary (Broken _ # _) acc = Some acc"
| "collect_summary (Event (ContentBlockDelta _ delta) # items) acc = collect_summary items (acc @ str_or_empty delta ''text'')"
| "collect_summary (Event _ # items) acc = collect_summary items acc"

definition raw_message :: "message \<Rightarrow> json option" where
  "raw_message m =
     (case msg_content m of
        User um _ _ \<Rightarrow> Some (wire_message (um_role um) (um_content um))
      | Assistant am _ _ \<Rightarrow> Some (wire_message (am_role am) (JArray (map block_json (am_content am))))
      | _ \<Rightarrow> None)"

definition clip_summary :: "string \<Rightarrow> string" where
  "clip_summary raw =
     (if length raw > 60000 then
        take_chars 60000 raw @ ''...'' @ newlines @ ''[Conversation truncated, '' @ show_nat (length raw) @ '' total chars]''
      else raw)"

definition compaction_request ::
  "engine_platform \<Rightarrow> loop_config \<Rightarrow> message list \<Rightarrow> 'tx query_state \<Rightarrow> create_message_request \<times> tool_health_tracker" where
  "compaction_request ep lc old st =
     (let (main, th) = build_api_request (ep_request ep) (qs_messages st) (current_request_config lc st)
      in (for_cache_safe_compaction main (List.map_filter raw_message old)
            (summarize_prompt (clip_summary (format_messages_for_summary (ep_render ep) old))), th))"

definition compact_messages ::
  "engine_platform \<Rightarrow> api \<Rightarrow> loop_config \<Rightarrow> nat \<Rightarrow> 'tx query_state \<Rightarrow> engine_error option \<times> 'tx query_state" where
  "compact_messages ep api lc keep st =
     (let ms = qs_messages st
      in if length ms \<le> keep then (None, st)
         else let old_count = adjust_compact_split ms (length ms - keep);
                  (request, th) = compaction_request ep lc (take old_count ms) st;
                  st1 = st\<lparr>qs_health := th, qs_summary_requests := qs_summary_requests st @ [request]\<rparr>
              in case api request of
                   Inl e \<Rightarrow> (Some (plain_error ''compact_failed'' (''Failed to call summary API: '' @ api_error_str e)), st1)
                 | Inr items \<Rightarrow>
                     (case collect_summary items [] of
                        None \<Rightarrow> (Some (plain_error ''compact_aborted'' ''User aborted compaction''), st1)
                      | Some txt \<Rightarrow>
                          let summary = (if str_trim txt = [] then ''[Previous conversation ('' @ show_nat old_count @
                                           '' messages) was compacted]'' else txt)
                          in (None, progress (''Context compacted: '' @ show_nat old_count @ '' messages summarized'')
                                (st1\<lparr>qs_messages := boundary_message (fresh_stamp ep st1) summary # drop old_count ms,
                                     qs_clock := Suc (qs_clock st1)\<rparr>))))"

fun overflow_summary :: "stream_item list \<Rightarrow> string \<Rightarrow> string option" where
  "overflow_summary [] acc = Some acc"
| "overflow_summary (AbortSignal # _) acc = Some acc"
| "overflow_summary (Broken _ # _) acc = None"
| "overflow_summary (Event (ContentBlockDelta _ delta) # items) acc = overflow_summary items (acc @ str_or_empty delta ''text'')"
| "overflow_summary (Event MessageStop # _) acc = Some acc"
| "overflow_summary (Event (StreamError _ _) # _) acc = None"
| "overflow_summary (Event _ # items) acc = overflow_summary items acc"

definition overflow_request :: "engine_platform \<Rightarrow> loop_config \<Rightarrow> message list \<Rightarrow> create_message_request" where
  "overflow_request ep lc old =
     \<lparr>cm_model = lc_model lc,
      cm_messages = [wire_message ''user'' (JString (summarize_prompt (format_messages_for_summary (ep_render ep) old)))],
      cm_system = Some [JObject [(''text'', JString ''You are a conversation summariser. Produce a concise summary.''),
        (''type'', JString ''text'')]],
      cm_tools = None, cm_max_tokens = 4096, cm_thinking = None\<rparr>"

definition clamp_symbol :: string where
  "clamp_symbol = [CHR 0xF0, CHR 0x9F, CHR 0x97, CHR 0x9C, CHR 0xEF, CHR 0xB8, CHR 0x8F]"

definition check_mark :: string where
  "check_mark = [CHR 0xE2, CHR 0x9C, CHR 0x85]"

text \<open>The middle part: summarise or drop all but the recent messages.\<close>

definition overflow_shrink :: "engine_platform \<Rightarrow> api \<Rightarrow> loop_config \<Rightarrow> 'tx query_state \<Rightarrow> 'tx query_state" where
  "overflow_shrink ep api lc st =
     (let ms = qs_messages st;
          keep = min (adaptive_keep_recent (qs_adaptive st)) (max (length ms - 2) 1)
      in if length ms \<le> keep then st
         else let split = adjust_compact_split ms (length ms - keep);
                  request = overflow_request ep lc (take split ms); recent = drop split ms;
                  st1 = st\<lparr>qs_summary_requests := qs_summary_requests st @ [request]\<rparr>;
                  summary = (case api request of Inl _ \<Rightarrow> None | Inr items \<Rightarrow> overflow_summary items [])
              in case summary of
                   Some (c # cs) \<Rightarrow> st1\<lparr>qs_messages := boundary_message (fresh_stamp ep st1) (c # cs) # recent,
                                        qs_clock := Suc (qs_clock st1)\<rparr>
                 | _ \<Rightarrow> set_messages (if length recent > 10 then reactive_compact (ep_render ep) recent None else recent) st1)"

definition context_overflow_compact :: "engine_platform \<Rightarrow> api \<Rightarrow> loop_config \<Rightarrow> 'tx query_state \<Rightarrow> 'tx query_state" where
  "context_overflow_compact ep api lc st =
     (let st1 = emit (AssistantChunk (clamp_symbol @ '' Context window full '' @ em_dash @
                  '' auto-compacting conversation history...'' @ [CHR 0x0A]) None) st;
          ms = pop_if is_assistant (qs_messages st1);
          st2 = overflow_shrink ep api lc (set_messages (butlast ms) st1);
          st3 = (if ms = [] then st2 else set_messages (qs_messages st2 @ [last ms]) st2)
      in emit (AssistantChunk (check_mark @ '' Compaction complete '' @ em_dash @ '' retrying...'' @ newlines) None) st3)"

section \<open>One call of the model\<close>

datatype api_reply = ApiTimeout | ApiAnswer "api_error + stream_item list"

datatype api_call_outcome = CallStream "stream_item list" | CallRetry | CallFatal engine_error | CallPanic

text \<open>\<open>API_CALL_TIMEOUT_SECS\<close> is part of \<open>ApiTimeout\<close>; \<open>CallPanic\<close> is an index beyond the chain of models.\<close>

definition max_compact_failures :: nat where
  "max_compact_failures = 3"

definition fail_call :: "engine_error \<Rightarrow> 'tx query_state \<Rightarrow> api_call_outcome \<times> 'tx query_state" where
  "fail_call err st = (CallFatal err, emit (EvError err) (set_messages (pop_if is_user (qs_messages st)) st))"

definition on_rate_limited :: "'tx query_state \<Rightarrow> api_call_outcome \<times> 'tx query_state" where
  "on_rate_limited st =
     (case on_rate_limit (qs_fallback st) of
        None \<Rightarrow> (CallPanic, st)
      | Some (Retry model attempt delay, fc) \<Rightarrow> (CallRetry, st\<lparr>qs_fallback := fc\<rparr>)
      | Some (Fallback from to, fc) \<Rightarrow> (CallRetry, emit (ModelFallback from to) (st\<lparr>qs_fallback := fc\<rparr>))
      | Some (Exhausted tried n, fc) \<Rightarrow>
          fail_call \<lparr>ee_code = ''all_models_exhausted'',
            ee_message = ''All models exhausted after '' @ show_word n @ '' retries. Tried: '' @ join_str '', '' tried,
            ee_details = Some (JObject [(''models_tried'', JArray (map JString tried)),
              (''total_retries'', JNumber (PosInt (ucast n)))])\<rparr> (st\<lparr>qs_fallback := fc\<rparr>))"

definition on_server_failure :: "u16 \<Rightarrow> 'tx query_state \<Rightarrow> api_call_outcome \<times> 'tx query_state" where
  "on_server_failure status st =
     (if fc_server_error_count (qs_fallback st) < 3 then (CallRetry, st\<lparr>qs_fallback := on_server_error (qs_fallback st)\<rparr>)
      else case on_server_error_exhausted (qs_fallback st) of
             None \<Rightarrow> (CallPanic, st)
           | Some (Fallback from to, fc) \<Rightarrow> (CallRetry, emit (ModelFallback from to) (st\<lparr>qs_fallback := fc\<rparr>))
           | Some (_, fc) \<Rightarrow>
               fail_call (plain_error ''api_server_error''
                 (''Server error '' @ show_word status @ '' after exhausting retries and fallbacks'')) (st\<lparr>qs_fallback := fc\<rparr>))"

definition looks_like_overflow :: "string \<Rightarrow> bool" where
  "looks_like_overflow m \<longleftrightarrow>
     list_ex (str_contains (str_lower m)) [''context'', ''token'', ''too large'', ''too long'']"

definition feedback :: "engine_platform \<Rightarrow> u64 \<Rightarrow> 'tx query_state \<Rightarrow> 'tx query_state" where
  "feedback ep before st =
     st\<lparr>qs_adaptive := record_compact_feedback (ep_fp ep) (ep_render ep) (qs_messages st) before (qs_adaptive st),
        qs_fail_count := 0\<rparr>"

definition tokens_now :: "engine_platform \<Rightarrow> 'tx query_state \<Rightarrow> u64" where
  "tokens_now ep st = of_nat (estimate_tokens (ep_render ep) (qs_messages st))"

definition react :: "engine_platform \<Rightarrow> 'tx query_state \<Rightarrow> 'tx query_state" where
  "react ep st = set_messages (reactive_compact (ep_render ep) (qs_messages st) None) st"

definition on_bad_request :: "engine_platform \<Rightarrow> api \<Rightarrow> loop_config \<Rightarrow> string \<Rightarrow> 'tx query_state \<Rightarrow> api_call_outcome \<times> 'tx query_state" where
  "on_bad_request ep api lc m st =
     (let fatal = fail_call (plain_error ''api_bad_request'' m)
      in if \<not> looks_like_overflow m then fatal st
         else if qs_fail_count st \<ge> max_compact_failures then
           (CallRetry, progress ''Reactive compact applied, retrying...'' (react ep st))
         else case compact_messages ep api lc (adaptive_keep_recent (qs_adaptive st)) st of
                (None, st1) \<Rightarrow> (CallRetry, progress ''Auto-compacted context and retrying...'' (feedback ep (tokens_now ep st) st1))
              | (Some _, st1) \<Rightarrow> fatal (react ep (st1\<lparr>qs_fail_count := Suc (qs_fail_count st1)\<rparr>)))"

definition call_api_with_fallback ::
  "engine_platform \<Rightarrow> (create_message_request \<Rightarrow> api_reply) \<Rightarrow> api \<Rightarrow> loop_config \<Rightarrow> u64 \<Rightarrow> 'tx query_state \<Rightarrow>
     api_call_outcome \<times> 'tx query_state" where
  "call_api_with_fallback ep main_api api lc current_tokens st =
     (case current_model (qs_fallback st) of
        None \<Rightarrow> (CallPanic, st)
      | Some model \<Rightarrow>
          let (request, th) = build_api_request (ep_request ep) (qs_messages st)
                ((current_request_config lc st)\<lparr>qc_model := model, qc_recent_messages := qs_messages st\<rparr>);
              st1 = progress (''Calling '' @ model @ '' ('' @ show_nat (length (qs_messages st)) @ '' messages, ~'' @
                      show_word current_tokens @ '' tokens)...'')
                    (st\<lparr>qs_health := th, qs_requests := qs_requests st @ [request]\<rparr>)
          in case main_api request of
               ApiTimeout \<Rightarrow> fail_call (plain_error ''timeout'' ''API call timed out after 5 minutes'') st1
             | ApiAnswer (Inr items) \<Rightarrow> (CallStream items, st1)
             | ApiAnswer (Inl ApiRateLimited) \<Rightarrow> on_rate_limited st1
             | ApiAnswer (Inl (ApiServerError status)) \<Rightarrow> on_server_failure status st1
             | ApiAnswer (Inl (BadRequest m)) \<Rightarrow> on_bad_request ep api lc m st1
             | ApiAnswer (Inl e) \<Rightarrow> fail_call (plain_error ''api_error'' (api_error_str e)) st1)"

end
