(* ===== verification/Bao_QueryLoop.thy ===== *)
theory Bao_QueryLoop
  imports Bao_Failover
begin

text \<open>
  \<open>engine/query_loop.rs\<close>: one query, from the history that ends with the user's message to the terminal
  result. One iteration of the loop takes what its surroundings answer in it, a \<open>turn_env\<close>; a run takes a
  list of them, and is still \<open>Looping\<close> when the list ends first. Nothing in the loop bounds the number of
  iterations, so no fuel is hidden in the model: the list is the time that the query is given.
\<close>

section \<open>Surroundings\<close>

text \<open>
  A finished background update of the session memory: the messages it was started on, the summary it
  started from, the reply of the model and whether its file could be written.
\<close>

record memory_job =
  mj_messages :: "message list"
  mj_model :: string
  mj_existing :: string
  mj_written :: bool

record 'tx turn_env =
  en_platform :: engine_platform
  en_clock :: clock
  en_finished_jobs :: "(memory_job \<times> api) list"
  en_aborted :: bool
  en_git :: "git_info option"
  en_main :: "create_message_request \<Rightarrow> api_reply"
  en_compact :: api
  en_retry :: api
  en_surroundings :: "nat \<Rightarrow> 'tx surroundings"
  en_order :: "job list \<Rightarrow> job list"

section \<open>Session memory in the background\<close>

definition notes_layout :: string where
  "notes_layout = join_str newlines
     [''You are summarizing a coding assistant session. Write a rolling meeting-notes summary in markdown with exactly these sections:'',
      join_str [CHR 0x0A] [''## Task Overview'', ''## Current State'', ''## Key Discoveries'', ''## Next Steps'', ''## Context to Preserve''],
      join_str [CHR 0x0A]
        [''- Task Overview: what the user asked for; quote key requests verbatim.'',
         ''- Current State: what is done, what is in progress, the very last action taken.'',
         ''- Key Discoveries: facts learned about the codebase/environment, including approaches that failed and why.'',
         ''- Next Steps: concrete pending actions, in order.'',
         ''- Context to Preserve: promises made to the user, constraints, stated preferences.''],
      ''Copy exact identifiers, paths, commands and error messages verbatim '' @ em_dash @
        '' never paraphrase literals. Be concise; the summary is capped at 8000 characters.'']"

definition memory_prompt :: "string \<Rightarrow> string \<Rightarrow> string" where
  "memory_prompt existing truncated =
     (if existing = [] then notes_layout @ newlines @ ''Conversation:'' @ [CHR 0x0A] @ truncated
      else ''You are updating a rolling summary of a coding assistant session.'' @ newlines @
        ''Existing summary:'' @ [CHR 0x0A] @ ''---'' @ [CHR 0x0A] @ existing @ [CHR 0x0A] @ ''---'' @ newlines @
        ''Recent conversation:'' @ [CHR 0x0A] @ truncated @ newlines @
        ''Rewrite the summary so it reflects the latest work. Keep the same section layout (Task Overview / Current State / Key Discoveries / Next Steps / Context to Preserve): merge duplicates, drop resolved items, add new discoveries and failed approaches, keep the current task state accurate. Copy exact identifiers, paths, commands and error messages verbatim '' @
        em_dash @ '' never paraphrase literals. Be concise; the summary is capped at 8000 characters.'')"

definition memory_request :: "engine_platform \<Rightarrow> memory_job \<Rightarrow> create_message_request" where
  "memory_request ep j =
     \<lparr>cm_model = mj_model j,
      cm_messages = [wire_message ''user'' (JString (memory_prompt (mj_existing j)
        (tail_chars (format_messages_for_summary (ep_render ep) (mj_messages j)) 40000)))],
      cm_system = Some [JObject [(''cache_control'', JObject [(''type'', JString ''ephemeral'')]),
        (''text'', JString ''You are a session summarizer. Produce concise, structured markdown summaries.''), (''type'', JString ''text'')]],
      cm_tools = None, cm_max_tokens = 2048, cm_thinking = None\<rparr>"

text \<open>Only a broken stream ends this reading early; it ignores the abort signal.\<close>

fun collect_notes :: "stream_item list \<Rightarrow> string \<Rightarrow> string" where
  "collect_notes [] acc = acc"
| "collect_notes (Broken _ # _) acc = acc"
| "collect_notes (Event (ContentBlockDelta _ delta) # items) acc = collect_notes items (acc @ str_or_empty delta ''text'')"
| "collect_notes (_ # items) acc = collect_notes items acc"

definition update_session_memory_background ::
  "engine_platform \<Rightarrow> memory_job \<times> api \<Rightarrow> session_memory \<Rightarrow> session_memory" where
  "update_session_memory_background ep ja sm =
     (let j = fst ja
      in if length (mj_messages j) < 4 then sm
         else case snd ja (memory_request ep j) of
                Inl _ \<Rightarrow> sm
              | Inr items \<Rightarrow>
                  let txt = collect_notes items []
                  in if str_trim txt = [] then sm
                     else set_message_count (length (mj_messages j)) (sm_update (mj_written j) txt sm))"

definition finish_jobs :: "'tx turn_env \<Rightarrow> 'tx query_state \<Rightarrow> 'tx query_state" where
  "finish_jobs e st =
     st\<lparr>qs_memory := map_option (fold (update_session_memory_background (en_platform e)) (en_finished_jobs e)) (qs_memory st)\<rparr>"

definition maybe_spawn_session_memory_update :: "'tx query_state \<Rightarrow> 'tx query_state" where
  "maybe_spawn_session_memory_update st =
     (case qs_memory st of
        None \<Rightarrow> st
      | Some sm \<Rightarrow>
          let (due, sm') = should_update (length (qs_messages st)) sm
          in st\<lparr>qs_memory := Some sm', qs_memory_jobs := (if due then qs_memory_jobs st @ [qs_messages st] else qs_memory_jobs st)\<rparr>)"

section \<open>Ending a query\<close>

datatype 'tx loop_status = Looping "'tx query_state" | Done "'tx query_state" | Panicked

definition record_query_trajectory ::
  "engine_platform \<Rightarrow> loop_config \<Rightarrow> trajectory_outcome \<Rightarrow> 'tx query_state \<Rightarrow> 'tx query_state" where
  "record_query_trajectory ep lc outcome st =
     (let st' = st\<lparr>qs_actions := []\<rparr>
      in if lc_has_evolution lc then
           st'\<lparr>qs_trajectories := qs_trajectories st @ [\<lparr>tj_user_prompt = take_chars 500 (qs_prompt st), tj_actions = qs_actions st,
             tj_outcome = outcome, tj_tool_count = length (qs_actions st), tj_duration_ms = ep_elapsed_ms ep 0 (qs_clock st)\<rparr>]\<rparr>
         else st')"

definition finish_query ::
  "engine_platform \<Rightarrow> loop_config \<Rightarrow> trajectory_outcome \<Rightarrow> query_status \<Rightarrow> engine_error option \<Rightarrow> string option \<Rightarrow> string option \<Rightarrow>
     'tx query_state \<Rightarrow> 'tx loop_status" where
  "finish_query ep lc outcome status err txt stop st =
     Done (emit (send_terminal_result ep (qs_clock st) (qs_cost st) (qs_usage st) (qs_turn_count st) status err txt stop)
       (record_query_trajectory ep lc outcome st))"

definition fail_query ::
  "engine_platform \<Rightarrow> loop_config \<Rightarrow> engine_error \<Rightarrow> string option \<Rightarrow> 'tx query_state \<Rightarrow> 'tx loop_status" where
  "fail_query ep lc err stop st =
     finish_query ep lc (TrajError (ee_code err) (ee_message err)) QueryError (Some err) None stop st"

definition report_and_fail ::
  "engine_platform \<Rightarrow> loop_config \<Rightarrow> engine_error \<Rightarrow> string option \<Rightarrow> 'tx query_state \<Rightarrow> 'tx loop_status" where
  "report_and_fail ep lc err stop st = fail_query ep lc err stop (emit (EvError err) st)"

definition abort_query :: "engine_platform \<Rightarrow> loop_config \<Rightarrow> 'tx query_state \<Rightarrow> 'tx loop_status" where
  "abort_query ep lc st =
     finish_query ep lc TrajAborted QueryAborted None None None
       (st\<lparr>qs_messages := fst (cleanup_orphan_tool_uses (fst (fresh_stamp ep st)) (snd (fresh_stamp ep st)) (qs_messages st)),
          qs_clock := Suc (qs_clock st)\<rparr>)"

section \<open>Budgets\<close>

definition cost_hit :: "engine_platform \<Rightarrow> loop_config \<Rightarrow> 'tx query_state \<Rightarrow> bool" where
  "cost_hit ep lc st \<longleftrightarrow>
     (case lc_max_budget_usd lc of Some b \<Rightarrow> f_le (ep_fp ep) b (current_query_cost (qs_cost st)) | None \<Rightarrow> False)"

definition tokens_used :: "'tx query_state \<Rightarrow> u64" where
  "tokens_used st = saturating_add (input_tokens (qs_usage st)) (output_tokens (qs_usage st))"

definition token_hit :: "loop_config \<Rightarrow> 'tx query_state \<Rightarrow> bool" where
  "token_hit lc st \<longleftrightarrow> (case lc_max_tokens_budget lc of Some t \<Rightarrow> t \<le> tokens_used st | None \<Rightarrow> False)"

definition budget_error :: "engine_platform \<Rightarrow> loop_config \<Rightarrow> 'tx query_state \<Rightarrow> engine_error" where
  "budget_error ep lc st = plain_error ''budget_exceeded''
     (''Query '' @ (if cost_hit ep lc st \<and> token_hit lc st then ''cost and token budgets''
        else if cost_hit ep lc st then ''cost budget'' else ''token budget'') @
      '' reached: stopped after '' @ show_word (qs_turn_count st) @ '' turn(s), $'' @
      ep_money ep (current_query_cost (qs_cost st)) @ '', '' @ show_word (tokens_used st) @ '' tokens'')"

definition past_grace :: "'tx query_state \<Rightarrow> bool" where
  "past_grace st \<longleftrightarrow> (case qs_grace_turn st of Some g \<Rightarrow> g < qs_turn_count st | None \<Rightarrow> False)"

text \<open>The answer is an error when the query has to stop.\<close>

definition budget_gate ::
  "engine_platform \<Rightarrow> loop_config \<Rightarrow> 'tx query_state \<Rightarrow> engine_error option \<times> 'tx query_state" where
  "budget_gate ep lc st =
     (if cost_hit ep lc st \<or> token_hit lc st then
        if past_grace st then (Some (budget_error ep lc st), st)
        else if qs_grace_turn st = None then
          (None, push_message (user_text (fresh_stamp ep st)
             ''[System: Resource budget EXHAUSTED (cost/token limit). You MUST produce your final response NOW. Do NOT use any tools.]'')
             (st\<lparr>qs_grace_turn := Some (qs_turn_count st)\<rparr>))
        else (None, st)
      else (None, st))"

definition refresh_git :: "git_info option \<Rightarrow> 'tx query_state \<Rightarrow> 'tx query_state" where
  "refresh_git fresh st =
     (if qs_turn_count st = 0 \<or> qs_turn_count st mod 10 = 0 then
        (case fresh of Some g \<Rightarrow> st\<lparr>qs_git := Some g\<rparr> | None \<Rightarrow> st)
      else st)"

text \<open>0.7 and 0.9 as \<open>f32\<close>.\<close>

definition inject_iteration_budget_warnings ::
  "engine_platform \<Rightarrow> loop_config \<Rightarrow> 'tx query_state \<Rightarrow> 'tx query_state" where
  "inject_iteration_budget_warnings ep lc st =
     (case lc_max_turns lc of
        None \<Rightarrow> st
      | Some max_turns \<Rightarrow>
          let st1 = (if ep_ratio_ge ep (qs_turn_count st) max_turns 0x3F333333 \<and> \<not> qs_warned_70 st then
                       push_message (user_text (fresh_stamp ep st)
                         ''[System: Iteration budget at 70%. Prioritize wrapping up the current task.]'') (st\<lparr>qs_warned_70 := True\<rparr>)
                     else st)
          in if ep_ratio_ge ep (qs_turn_count st) max_turns 0x3F666666 \<and> \<not> qs_warned_90 st1 then
               push_message (user_text (fresh_stamp ep st1)
                 ''[System: Iteration budget at 90% (CRITICAL). You must produce a final answer now. Do NOT start new sub-tasks.]'')
                 (st1\<lparr>qs_warned_90 := True\<rparr>)
             else st1)"

definition over_limit :: "loop_config \<Rightarrow> 'tx query_state \<Rightarrow> bool" where
  "over_limit lc st \<longleftrightarrow> (case lc_max_turns lc of Some m \<Rightarrow> m < qs_turn_count st | None \<Rightarrow> False)"

definition final_call :: "engine_platform \<Rightarrow> loop_config \<Rightarrow> 'tx query_state \<Rightarrow> 'tx query_state" where
  "final_call ep lc st =
     (case lc_max_turns lc of
        Some m \<Rightarrow>
          if m \<le> qs_turn_count st then
            push_message (user_text (fresh_stamp ep st)
              ''[System: Iteration budget EXHAUSTED. You MUST produce your final response NOW. Do NOT use any tools.]'') st
          else st
      | None \<Rightarrow> st)"

definition count_message :: "engine_platform \<Rightarrow> message \<Rightarrow> u64" where
  "count_message ep m = count_text_tokens (ep_bpe ep) (message_text (ep_render ep) (ep_blocks_text ep) m)"

definition compute_token_budget :: "engine_platform \<Rightarrow> 'tx query_state \<Rightarrow> (budget_status \<times> u64) \<times> 'tx query_state" where
  "compute_token_budget ep st =
     (let est = token_estimate (count_message ep) (qs_counter st) (qs_messages st);
          computed = (budget_status_given (ep_fp ep) (qs_counter st) est, est)
      in if qs_turn_count st = 0 then
           (case qs_initial_budget st of
              Some b \<Rightarrow> (b, st\<lparr>qs_initial_budget := None\<rparr>)
            | None \<Rightarrow> (computed, st))
         else (computed, st))"

definition enforce_token_budget ::
  "engine_platform \<Rightarrow> api \<Rightarrow> loop_config \<Rightarrow> budget_status \<Rightarrow> u64 \<Rightarrow> 'tx query_state \<Rightarrow> 'tx query_state" where
  "enforce_token_budget ep api lc status current_tokens st =
     (if status \<in> {Blocking, Compact} \<and> length (qs_messages st) > 5 then
        let st1 = progress (''Context approaching limit ('' @ show_word current_tokens @ '' est. tokens), compacting...'') st
        in if qs_fail_count st1 \<ge> max_compact_failures then st1
           else let before = tokens_now ep st1;
                    (ms, session_ok) =
                      (case qs_memory st1 of
                         Some sm \<Rightarrow> session_memory_compact (fst (fresh_stamp ep st1)) (snd (fresh_stamp ep st1)) (qs_messages st1) (sm_content sm)
                       | None \<Rightarrow> (qs_messages st1, False))
                in if session_ok then feedback ep before (st1\<lparr>qs_messages := ms, qs_clock := Suc (qs_clock st1)\<rparr>)
                   else case compact_messages ep api lc (adaptive_keep_recent (qs_adaptive st1)) st1 of
                          (None, st2) \<Rightarrow> feedback ep before st2
                        | (Some _, st2) \<Rightarrow> st2\<lparr>qs_fail_count := Suc (qs_fail_count st2)\<rparr>
      else st)"

section \<open>The assistant's turn\<close>

definition optional_count :: "u64 option \<Rightarrow> json" where
  "optional_count n = (case n of Some k \<Rightarrow> JNumber (PosInt k) | None \<Rightarrow> JNull)"

text \<open>A double that is not finite becomes \<open>null\<close>.\<close>

definition json_f64 :: "f64 \<Rightarrow> json" where
  "json_f64 c = (if c AND 0x7FF0000000000000 = 0x7FF0000000000000 then JNull else JNumber (Float c))"

definition cost_update :: "cost_tracker \<Rightarrow> usage \<Rightarrow> json" where
  "cost_update c u = JObject [(''current_query_cost_usd'', json_f64 (current_query_cost c)),
     (''total_cost_usd'', json_f64 (total_cost c)),
     (''usage'', JObject [(''cache_creation_input_tokens'', optional_count (cache_creation_input_tokens u)),
        (''cache_read_input_tokens'', optional_count (cache_read_input_tokens u)),
        (''input_tokens'', JNumber (PosInt (input_tokens u))), (''output_tokens'', JNumber (PosInt (output_tokens u)))])]"

definition append_transcript :: "loop_config \<Rightarrow> transcript_entry \<Rightarrow> 'tx query_state \<Rightarrow> 'tx query_state" where
  "append_transcript lc entry st = (if lc_has_transcript lc then st\<lparr>qs_transcript := qs_transcript st @ [entry]\<rparr> else st)"

definition index_message :: "loop_config \<Rightarrow> string \<Rightarrow> string \<Rightarrow> 'tx query_state \<Rightarrow> 'tx query_state" where
  "index_message lc role txt st =
     (if lc_has_index lc \<and> lc_session_id lc \<noteq> None then st\<lparr>qs_index := qs_index st @ [(role, txt)]\<rparr> else st)"

definition assistant_message ::
  "string \<times> string \<Rightarrow> content_block list \<Rightarrow> string option \<Rightarrow> f64 \<Rightarrow> message" where
  "assistant_message stamp blocks stop cost =
     \<lparr>msg_uuid = fst stamp, msg_timestamp = snd stamp,
      msg_content = Assistant \<lparr>am_role = ''assistant'', am_content = blocks, am_stop_reason = stop, am_usage = None\<rparr> cost 0\<rparr>"

definition record_assistant_turn ::
  "engine_platform \<Rightarrow> loop_config \<Rightarrow> content_block list \<Rightarrow> string option \<Rightarrow> 'tx query_state \<Rightarrow> 'tx query_state" where
  "record_assistant_turn ep lc blocks stop st =
     (let m = assistant_message (fresh_stamp ep st) blocks stop (current_query_cost (qs_cost st));
          st1 = append_transcript lc \<lparr>tx_timestamp = msg_timestamp m, tx_type = TxAssistantMessage, tx_data = ep_message_json ep m\<rparr>
                  (push_message m st);
          txt = join_str '' '' (text_pieces blocks);
          st2 = (if txt \<noteq> [] then index_message lc ''assistant'' txt st1 else st1)
      in emit (StateUpdate (cost_update (qs_cost st2) (qs_usage st2))) st2)"

section \<open>A turn with tool calls\<close>

definition note_tool_use :: "engine_platform \<Rightarrow> loop_config \<Rightarrow> tool_use_request \<Rightarrow> 'tx query_state \<Rightarrow> 'tx query_state" where
  "note_tool_use ep lc tu st =
     append_transcript lc \<lparr>tx_timestamp = snd (fresh_stamp ep st), tx_type = TxToolUse,
       tx_data = JObject [(''input'', req_input tu), (''tool_name'', JString (req_name tu)), (''tool_use_id'', JString (req_id tu))]\<rparr>
       (emit (EvToolUse (req_name tu) (req_input tu) (req_id tu)) st)"

definition note_tool_result :: "engine_platform \<Rightarrow> loop_config \<Rightarrow> tool_execution_result \<Rightarrow> 'tx query_state \<Rightarrow> 'tx query_state" where
  "note_tool_result ep lc r st =
     append_transcript lc \<lparr>tx_timestamp = snd (fresh_stamp ep st), tx_type = TxToolResult,
       tx_data = JObject [(''is_error'', JBool (te_is_error r)), (''output'', te_output r), (''tool_use_id'', JString (te_tool_use_id r))]\<rparr>
       (emit (EvToolResult (te_tool_use_id r) (te_output r) (te_is_error r)) st)"

definition record_health :: "engine_platform \<Rightarrow> tool list \<Rightarrow> tool_execution_result \<Rightarrow> tool_health_tracker \<Rightarrow> tool_health_tracker" where
  "record_health ep tools r th =
     (if te_is_error r then
        if list_ex (\<lambda>t. t_name t = te_tool_name r) tools
        then record_failure (rp_now (ep_request ep)) (te_tool_name r) (take_chars 200 (ep_render ep (te_output r))) th else th
      else record_success (rp_now (ep_request ep)) (te_tool_name r) th)"

definition is_deferred_tool :: "tool list \<Rightarrow> string \<Rightarrow> bool" where
  "is_deferred_tool tools n \<longleftrightarrow> list_ex (\<lambda>t. t_name t = n \<and> t_is_deferred t) tools"

definition activated_by :: "tool list \<Rightarrow> tool_execution_result \<Rightarrow> string set" where
  "activated_by tools r =
     (if te_tool_name r = ''ToolSearchTool'' then
        (case json_get (te_output r) ''matches'' of
           Some (JArray ms) \<Rightarrow> set (filter (is_deferred_tool tools) (List.map_filter (\<lambda>m. get_str m ''name'') ms))
         | _ \<Rightarrow> {})
      else if is_deferred_tool tools (te_tool_name r) then {te_tool_name r} else {})"

definition find_request :: "tool_use_request list \<Rightarrow> string \<Rightarrow> tool_use_request option" where
  "find_request tool_uses i = List.find (\<lambda>tu. req_id tu = i) tool_uses"

definition skill_outcome :: "tool_use_request list \<Rightarrow> tool_execution_result \<Rightarrow> (string \<times> bool) option" where
  "skill_outcome tool_uses r =
     (if te_tool_name r \<noteq> ''Skill'' then None
      else let name = (case find_request tool_uses (te_tool_use_id r) of Some tu \<Rightarrow> str_or_empty (req_input tu) ''skill'' | None \<Rightarrow> [])
           in if name = [] \<or> name = ''__list__'' then None else Some (name, \<not> te_is_error r))"

definition action_of :: "engine_platform \<Rightarrow> tool_use_request list \<Rightarrow> tool_execution_result \<Rightarrow> trajectory_action" where
  "action_of ep tool_uses r =
     \<lparr>ta_tool_name = te_tool_name r,
      ta_input_summary = take_chars 300 (case find_request tool_uses (te_tool_use_id r) of Some tu \<Rightarrow> ep_render ep (req_input tu) | None \<Rightarrow> []),
      ta_output_summary = take_chars 300 (ep_render ep (te_output r)), ta_is_error = te_is_error r\<rparr>"

definition record_telemetry_turn ::
  "engine_platform \<Rightarrow> loop_config \<Rightarrow> u64 \<Rightarrow> u64 \<Rightarrow> u64 \<Rightarrow> string list \<Rightarrow> 'tx query_state \<Rightarrow> 'tx query_state" where
  "record_telemetry_turn ep lc duration input output names st =
     (if lc_has_telemetry lc then
        st\<lparr>qs_telemetry := qs_telemetry st @ [\<lparr>tt_input_tokens = input, tt_output_tokens = output,
          tt_cost = calculate_cost (ep_fp ep) (empty_usage\<lparr>input_tokens := input, output_tokens := output\<rparr>) (lc_model lc),
          tt_duration_ms = duration, tt_tool_names = names\<rparr>]\<rparr>
      else st)"

text \<open>\<open>start\<close> is the state in which the turn started: its clock and its usage.\<close>

definition end_turn ::
  "engine_platform \<Rightarrow> loop_config \<Rightarrow> 'tx query_state \<Rightarrow> u32 \<Rightarrow> string list \<Rightarrow> 'tx query_state \<Rightarrow> 'tx query_state" where
  "end_turn ep lc start n names st =
     (let duration = ep_elapsed_ms ep (qs_clock start) (qs_clock st);
          input = saturating_sub (input_tokens (qs_usage st)) (input_tokens (qs_usage start));
          output = saturating_sub (output_tokens (qs_usage st)) (output_tokens (qs_usage start))
      in record_telemetry_turn ep lc duration input output names
           (emit (TurnEnd (qs_turn_id st) duration n input output) st))"

definition run_tools :: "'tx turn_env \<Rightarrow> loop_config \<Rightarrow> tool_use_request list \<Rightarrow> 'tx query_state \<Rightarrow>
    tool_execution_result list \<times> 'tx executor" where
  "run_tools e lc tool_uses st =
     execute_tools (ep_exec (en_platform e)) (lc_context lc) (en_clock e) (lc_gated lc) (en_surroundings e) (en_order e)
       (qc_tools (lc_request lc)) tool_uses (qs_shared st, Some (qs_health st))"

definition execute_tool_turn ::
  "'tx turn_env \<Rightarrow> loop_config \<Rightarrow> 'tx query_state \<Rightarrow> tool_use_request list \<Rightarrow> 'tx query_state \<Rightarrow> 'tx query_state" where
  "execute_tool_turn e lc start tool_uses st =
     (let ep = en_platform e; tools = qc_tools (lc_request lc);
          st1 = fold (note_tool_use ep lc) tool_uses st;
          (results, shared', health) = run_tools e lc tool_uses st1;
          st2 = fold (note_tool_result ep lc) results
                  (st1\<lparr>qs_shared := shared', qs_health := (case health of Some th \<Rightarrow> th | None \<Rightarrow> qs_health st1)\<rparr>);
          st3 = st2\<lparr>qs_health := fold (record_health ep tools) results (qs_health st2),
                    qs_expanded := qs_expanded st2 \<union> (\<Union>r\<in>set results. activated_by tools r),
                    qs_skill_outcomes := (if lc_has_evolution lc then qs_skill_outcomes st2 @ List.map_filter (skill_outcome tool_uses) results
                                          else qs_skill_outcomes st2),
                    qs_actions := qs_actions st2 @ map (action_of ep tool_uses) results\<rparr>
      in end_turn ep lc start (of_nat (length tool_uses)) (map req_name tool_uses)
           (push_message (build_tool_result_message (ep_parse ep) (ep_render ep) (fresh_stamp ep st3) results) st3))"

section \<open>The loop\<close>

definition max_empty_stream_retries :: u32 where
  "max_empty_stream_retries = 2"

definition max_overflow_compact_retries :: u32 where
  "max_overflow_compact_retries = 2"

definition start_turn :: "loop_config \<Rightarrow> 'tx query_state \<Rightarrow> 'tx query_state" where
  "start_turn lc st =
     emit (TurnStart (qs_turn_id st + 1) (lc_parent_turn_id lc) (lc_agent_label lc)) (st\<lparr>qs_turn_id := qs_turn_id st + 1\<rparr>)"

text \<open>An answer without tool calls: overflow, empty stream, or the end of the query.\<close>

definition textual_turn ::
  "'tx turn_env \<Rightarrow> loop_config \<Rightarrow> 'tx query_state \<Rightarrow> content_block list \<Rightarrow> string option \<Rightarrow> 'tx query_state \<Rightarrow> 'tx loop_status" where
  "textual_turn e lc start blocks stop st =
     (let ep = en_platform e
      in if stop = Some ''model_context_window_exceeded'' then
           if qs_overflow_retries st \<ge> max_overflow_compact_retries
           then report_and_fail ep lc (plain_error ''context_overflow'' ''Context window still exceeded after repeated compactions'') stop st
           else Looping (context_overflow_compact ep (en_retry e) lc (st\<lparr>qs_overflow_retries := qs_overflow_retries st + 1\<rparr>))
         else if blocks = [] then
           if qs_empty_retries st < max_empty_stream_retries
           then Looping (st\<lparr>qs_empty_retries := qs_empty_retries st + 1, qs_messages := pop_if is_assistant (qs_messages st)\<rparr>)
           else report_and_fail ep lc (plain_error ''empty_stream''
                  (''Model returned an empty stream (no content) after '' @ show_word (qs_empty_retries st) @ '' retries'')) stop st
         else let txt = extract_text blocks; st1 = end_turn ep lc start 0 [] st;
                  st2 = record_query_trajectory ep lc (Completed (case txt of Some t \<Rightarrow> t | None \<Rightarrow> [])) st1;
                  st3 = maybe_spawn_session_memory_update st2
              in Done (emit (send_terminal_result ep (qs_clock st3) (qs_cost st3) (qs_usage st3) (qs_turn_count st3)
                   QueryComplete None txt stop) st3))"

definition answered_turn ::
  "'tx turn_env \<Rightarrow> loop_config \<Rightarrow> 'tx query_state \<Rightarrow> content_block list \<Rightarrow> string option \<Rightarrow> 'tx query_state \<Rightarrow> 'tx loop_status" where
  "answered_turn e lc start blocks stop st =
     (let st1 = (if blocks \<noteq> [] then st\<lparr>qs_empty_retries := 0, qs_overflow_retries := 0\<rparr> else st);
          st2 = record_assistant_turn (en_platform e) lc blocks stop st1;
          tool_uses = extract_tool_uses blocks
      in if tool_uses = [] then textual_turn e lc start blocks stop st2
         else let st3 = execute_tool_turn e lc start tool_uses st2
              in Looping (maybe_spawn_session_memory_update (st3\<lparr>qs_turn_count := qs_turn_count st3 + 1\<rparr>)))"

definition streamed_turn ::
  "'tx turn_env \<Rightarrow> loop_config \<Rightarrow> 'tx query_state \<Rightarrow> stream_item list \<Rightarrow> 'tx query_state \<Rightarrow> 'tx loop_status" where
  "streamed_turn e lc start items st =
     (let ep = en_platform e;
          (outcome, ms, g) = ingest_stream_events ep (lc_model lc) (lc_session_id lc \<noteq> None) (qs_turn_count st) (qs_clock st) items
            (qs_messages st) (ingest_start (qs_usage st) (qs_cost st) (qs_counter st) (qs_baseline st));
          st1 = st\<lparr>qs_messages := ms, qs_usage := ig_usage g, qs_cost := ig_cost g, qs_counter := ig_counter g,
                  qs_baseline := ig_baseline g, qs_events := qs_events st @ ig_events g, qs_clock := Suc (qs_clock st)\<rparr>
      in case outcome of
           IngestContinue blocks stop \<Rightarrow> answered_turn e lc start blocks stop st1
         | IngestAborted \<Rightarrow> Done (record_query_trajectory ep lc TrajAborted st1)
         | IngestFatal err \<Rightarrow> fail_query ep lc err None st1)"

definition called_turn ::
  "'tx turn_env \<Rightarrow> loop_config \<Rightarrow> 'tx query_state \<Rightarrow> 'tx query_state \<Rightarrow> 'tx loop_status" where
  "called_turn e lc start st =
     (let ep = en_platform e;
          st1 = set_messages (micro_compact (ep_render ep) (ep_age ep) (qs_messages st) (lc_micro_compact lc)) st;
          ((status, tokens), st2) = compute_token_budget ep st1;
          st3 = enforce_token_budget ep (en_compact e) lc status tokens st2
      in case call_api_with_fallback ep (en_main e) (en_retry e) lc tokens st3 of
           (CallStream items, st4) \<Rightarrow> streamed_turn e lc start items st4
         | (CallRetry, st4) \<Rightarrow> Looping st4
         | (CallFatal err, st4) \<Rightarrow> fail_query ep lc err None st4
         | (CallPanic, _) \<Rightarrow> Panicked)"

definition loop_turn :: "loop_config \<Rightarrow> 'tx turn_env \<Rightarrow> 'tx query_state \<Rightarrow> 'tx loop_status" where
  "loop_turn lc e st0 =
     (let ep = en_platform e; start = start_turn lc (finish_jobs e st0)
      in if en_aborted e then abort_query ep lc start
         else case budget_gate ep lc start of
                (Some err, st1) \<Rightarrow> report_and_fail ep lc err None st1
              | (None, st1) \<Rightarrow>
                  let st2 = inject_iteration_budget_warnings ep lc (refresh_git (en_git e) st1)
                  in if over_limit lc st2 then finish_query ep lc TrajMaxTurns QueryMaxTurns None None None st2
                     else called_turn e lc start (final_call ep lc st2))"

fun run_loop :: "loop_config \<Rightarrow> 'tx turn_env list \<Rightarrow> 'tx query_state \<Rightarrow> 'tx loop_status" where
  "run_loop lc [] st = Looping st"
| "run_loop lc (e # es) st = (case loop_turn lc e st of Looping st' \<Rightarrow> run_loop lc es st' | ended \<Rightarrow> ended)"

definition query_prompt :: "message list \<Rightarrow> string" where
  "query_prompt ms =
     (case find_map (\<lambda>m. case msg_content m of User um _ None \<Rightarrow> as_str (um_content um) | _ \<Rightarrow> None) (rev ms) of
        Some s \<Rightarrow> s | None \<Rightarrow> [])"

definition fallback_config :: "loop_config \<Rightarrow> baoclaw_config" where
  "fallback_config lc = \<lparr>cfg_model = lc_model lc, cfg_fallback_models = lc_fallback_models lc,
     cfg_max_retries_per_model = lc_max_retries_per_model lc, cfg_model_profiles = [], cfg_primary_profile = None,
     cfg_fallback_profiles = []\<rparr>"

text \<open>
  The start of a query: \<open>given\<close> carries the history and what the configuration brings along. The message
  that started the query goes to the transcript and the index.
\<close>

definition query_start :: "engine_platform \<Rightarrow> loop_config \<Rightarrow> 'tx query_state \<Rightarrow> 'tx query_state" where
  "query_start ep lc given =
     (let ms = qs_messages given;
          st = given\<lparr>qs_prompt := query_prompt ms, qs_usage := empty_usage, qs_cost := reset_query cost_tracker_new,
             qs_turn_count := 0, qs_turn_id := 0, qs_warned_70 := False, qs_warned_90 := False, qs_grace_turn := None,
             qs_empty_retries := 0, qs_overflow_retries := 0, qs_fallback := fallback_new (fallback_config lc), qs_clock := 0,
             qs_events := [], qs_requests := [], qs_summary_requests := [], qs_actions := []\<rparr>
      in if ms = [] then st
         else let m = last ms;
                  st1 = append_transcript lc \<lparr>tx_timestamp = msg_timestamp m, tx_type = TxUserMessage, tx_data = ep_message_json ep m\<rparr> st
              in case msg_content m of
                   User um _ _ \<Rightarrow>
                     index_message lc ''user'' (case um_content um of JString s \<Rightarrow> s | other \<Rightarrow> ep_render ep other) st1
                 | _ \<Rightarrow> st1)"

definition run_query_loop ::
  "engine_platform \<Rightarrow> loop_config \<Rightarrow> 'tx turn_env list \<Rightarrow> 'tx query_state \<Rightarrow> 'tx loop_status" where
  "run_query_loop ep lc es given = run_loop lc es (query_start ep lc given)"

end
