(* ===== verification/Bao_QuerySafety.thy ===== *)
theory Bao_QuerySafety
  imports Bao_QueryLoop
begin

text \<open>
  What holds of every query: how it ends, when it ends, and what it sends. The first section says for each
  step of the loop which parts of the state it leaves alone; the collection \<open>loop_frame\<close> holds these facts.
\<close>

named_theorems loop_frame

section \<open>What a step leaves alone\<close>

text \<open>The counters that steer the loop, and the controller of the models.\<close>

definition same_course :: "'tx query_state \<Rightarrow> 'tx query_state \<Rightarrow> bool" where
  "same_course st st' \<longleftrightarrow> qs_turn_count st' = qs_turn_count st \<and> qs_grace_turn st' = qs_grace_turn st \<and>
     qs_empty_retries st' = qs_empty_retries st \<and> qs_overflow_retries st' = qs_overflow_retries st \<and>
     qs_fallback st' = qs_fallback st \<and> qs_requests st' = qs_requests st"

lemma same_course_refl [simp]: "same_course st st"
  by (simp add: same_course_def)

lemma same_course_trans: "same_course a b \<Longrightarrow> same_course b c \<Longrightarrow> same_course a c"
  by (simp add: same_course_def)

text \<open>Events that do not end a query.\<close>

fun is_final :: "engine_event \<Rightarrow> bool" where
  "is_final (EvResult _) = True"
| "is_final (EvError _) = True"
| "is_final _ = False"

definition quiet_step :: "'tx query_state \<Rightarrow> 'tx query_state \<Rightarrow> bool" where
  "quiet_step st st' \<longleftrightarrow> (\<exists>evs. qs_events st' = qs_events st @ evs \<and> list_all (\<lambda>ev. \<not> is_final ev) evs)"

lemma quiet_step_refl [simp]: "quiet_step st st"
  by (simp add: quiet_step_def)

lemma quiet_step_trans: "quiet_step a b \<Longrightarrow> quiet_step b c \<Longrightarrow> quiet_step a c"
  by (fastforce simp: quiet_step_def)

lemma quiet_step_same: "qs_events b = qs_events a \<Longrightarrow> quiet_step a b"
  by (simp add: quiet_step_def)

text \<open>Both together, for the steps that only work on the history or report progress.\<close>

definition calm :: "'tx query_state \<Rightarrow> 'tx query_state \<Rightarrow> bool" where
  "calm st st' \<longleftrightarrow> same_course st st' \<and> quiet_step st st'"

lemma calm_refl [simp]: "calm st st"
  by (simp add: calm_def)

lemma calm_trans: "calm a b \<Longrightarrow> calm b c \<Longrightarrow> calm a c"
  unfolding calm_def by (blast intro: same_course_trans quiet_step_trans)

lemma calm_emit [loop_frame]: "\<not> is_final ev \<Longrightarrow> calm st (emit ev st)"
  by (simp add: calm_def same_course_def quiet_step_def emit_def)

lemma calm_progress [loop_frame]: "calm st (progress m st)"
  by (simp add: progress_def calm_emit)

lemma calm_push [loop_frame]: "calm st (push_message m st)"
  by (simp add: calm_def same_course_def quiet_step_def push_message_def)

lemma calm_set_messages [loop_frame]: "calm st (set_messages ms st)"
  by (simp add: calm_def same_course_def quiet_step_def set_messages_def)

lemma calm_feedback [loop_frame]: "calm st (feedback ep before st)"
  by (simp add: calm_def same_course_def quiet_step_def feedback_def)

lemma calm_react [loop_frame]: "calm st (react ep st)"
  by (simp add: react_def calm_set_messages)

lemma calm_transcript [loop_frame]: "calm st (append_transcript lc entry st)"
  by (simp add: calm_def same_course_def quiet_step_def append_transcript_def)

lemma calm_index [loop_frame]: "calm st (index_message lc role txt st)"
  by (simp add: calm_def same_course_def quiet_step_def index_message_def)

lemma calm_trajectory [loop_frame]: "calm st (record_query_trajectory ep lc outcome st)"
  by (simp add: calm_def same_course_def quiet_step_def record_query_trajectory_def Let_def)

lemma calm_telemetry [loop_frame]: "calm st (record_telemetry_turn ep lc d i out names st)"
  by (simp add: calm_def same_course_def quiet_step_def record_telemetry_turn_def)

lemma calm_spawn [loop_frame]: "calm st (maybe_spawn_session_memory_update st)"
  by (simp add: calm_def same_course_def quiet_step_def maybe_spawn_session_memory_update_def split: option.split prod.split)

lemma calm_jobs [loop_frame]: "calm st (finish_jobs e st)"
  by (simp add: calm_def same_course_def quiet_step_def finish_jobs_def)

lemma calm_git [loop_frame]: "calm st (refresh_git g st)"
  by (simp add: calm_def same_course_def quiet_step_def refresh_git_def split: option.split)

lemma calm_end_turn [loop_frame]: "calm st (end_turn ep lc start n names st)"
  unfolding end_turn_def Let_def by (rule calm_trans [OF calm_emit calm_telemetry]) simp

lemma calm_start [loop_frame]: "calm st (start_turn lc st)"
  by (simp add: calm_def same_course_def quiet_step_def start_turn_def emit_def)

lemma calm_warnings [loop_frame]: "calm st (inject_iteration_budget_warnings ep lc st)"
  by (simp add: calm_def same_course_def quiet_step_def inject_iteration_budget_warnings_def push_message_def Let_def split: option.split)

lemma calm_final_call [loop_frame]: "calm st (final_call ep lc st)"
  by (simp add: final_call_def calm_push split: option.split)

lemma calm_token_budget [loop_frame]: "calm st (snd (compute_token_budget ep st))"
  by (simp add: calm_def same_course_def quiet_step_def compute_token_budget_def Let_def split: option.split)

lemma calm_fold:
  assumes "\<And>x st. calm st (f x st)"
  shows "calm st (fold f xs st)"
  by (induction xs arbitrary: st) (auto intro: calm_trans assms)

lemma calm_compact [loop_frame]: "calm st (snd (compact_messages ep api lc keep st))"
  by (auto simp: calm_def same_course_def quiet_step_def compact_messages_def Let_def progress_def emit_def
      split: prod.split sum.split option.split)

lemma calm_updates:
  "calm st x \<Longrightarrow> calm st (x\<lparr>qs_fail_count := n\<rparr>)"
  "calm st x \<Longrightarrow> calm st (x\<lparr>qs_messages := ms, qs_clock := n\<rparr>)"
  "calm st x \<Longrightarrow> calm st (x\<lparr>qs_summary_requests := rs\<rparr>)"
  "calm st x \<Longrightarrow> calm st (x\<lparr>qs_summary_requests := rs, qs_messages := ms, qs_clock := n\<rparr>)"
  "calm st x \<Longrightarrow> calm st (set_messages ms x)"
  "calm st x \<Longrightarrow> \<not> is_final ev \<Longrightarrow> calm st (emit ev x)"
  "calm st x \<Longrightarrow> calm st (feedback ep before x)"
  by (simp_all add: calm_def same_course_def quiet_step_def set_messages_def emit_def feedback_def) fastforce

lemma calm_compact_result:
  "compact_messages ep api lc keep x = (r, y) \<Longrightarrow> calm st x \<Longrightarrow> calm st y"
  using calm_trans [of st x, OF _ calm_compact [of x ep api lc keep]] by simp

lemma calm_enforce [loop_frame]: "calm st (enforce_token_budget ep api lc status tokens st)"
  unfolding enforce_token_budget_def Let_def
  by (auto simp only: split: if_split prod.split option.split intro!: calm_updates calm_progress calm_refl
      elim!: calm_compact_result)

lemma calm_shrink [loop_frame]: "calm st (overflow_shrink ep api lc st)"
  unfolding overflow_shrink_def Let_def
  by (auto simp only: split: if_split option.split list.split intro!: calm_updates calm_refl)

lemma calm_overflow [loop_frame]: "calm st (context_overflow_compact ep api lc st)"
proof -
  have "calm st (overflow_shrink ep api lc (set_messages ms (emit (AssistantChunk c None) st)))" for ms c
    by (rule calm_trans [OF _ calm_shrink]) (simp add: calm_updates)
  then show ?thesis
    unfolding context_overflow_compact_def Let_def by (simp add: calm_updates)
qed

lemma calm_record [loop_frame]: "calm st (record_assistant_turn ep lc blocks stop st)"
  unfolding record_assistant_turn_def Let_def
  by (auto intro!: calm_trans [OF _ calm_emit] calm_trans [OF _ calm_index] calm_trans [OF calm_push calm_transcript])

lemma calm_note_use [loop_frame]: "calm st (note_tool_use ep lc tu st)"
  unfolding note_tool_use_def by (rule calm_trans [OF calm_emit calm_transcript]) simp

lemma calm_note_result [loop_frame]: "calm st (note_tool_result ep lc r st)"
  unfolding note_tool_result_def by (rule calm_trans [OF calm_emit calm_transcript]) simp

lemma calm_tool_updates:
  "calm st x \<Longrightarrow> calm st (x\<lparr>qs_shared := sh, qs_health := th\<rparr>)"
  "calm st x \<Longrightarrow> calm st (x\<lparr>qs_health := th, qs_expanded := ex, qs_skill_outcomes := so, qs_actions := acts\<rparr>)"
  by (simp_all add: calm_def same_course_def quiet_step_def)

lemma calm_tools [loop_frame]: "calm st (execute_tool_turn e lc start tool_uses st)"
  unfolding execute_tool_turn_def Let_def
  by (auto simp only: split: prod.split
      intro!: calm_trans [OF _ calm_end_turn] calm_trans [OF _ calm_push] calm_tool_updates calm_trans [OF _ calm_fold]
        calm_note_use calm_note_result calm_refl)

section \<open>Calls of the model\<close>

text \<open>
  How often the controller of the models can still be asked for another attempt: per model that is left,
  its rate-limit retries, its three server-error retries and the step to it.
\<close>

definition potential :: "fallback_controller \<Rightarrow> nat" where
  "potential c = (length (fc_chain c) - 1 - fc_current_index c) * (unat (fc_max_retries_per_model c) + 4) +
     (unat (fc_max_retries_per_model c) - unat (fc_retry_count c)) + (3 - unat (fc_server_error_count c))"

definition controller_ok :: "fallback_controller \<Rightarrow> bool" where
  "controller_ok c \<longleftrightarrow> wf_controller c \<and> (fc_retry_count c < fc_max_retries_per_model c \<or> fc_retry_count c = 0)"

lemma unat_less_suc:
  fixes x y :: u32
  assumes "x < y"
  shows "unat (x + 1) = Suc (unat x)"
proof -
  have "unat x + 1 < 2 ^ 32" using assms unat_lt_u32 [of y] by (simp add: word_less_nat_alt)
  then show ?thesis by (simp add: unat_word_ariths)
qed

definition models_left :: "fallback_controller \<Rightarrow> nat" where
  "models_left c = (length (fc_chain c) - 1 - fc_current_index c) * (unat (fc_max_retries_per_model c) + 4)"

definition moved_on :: "fallback_controller \<Rightarrow> fallback_controller \<Rightarrow> bool" where
  "moved_on c c' \<longleftrightarrow> controller_ok c' \<and> potential c' < potential c"

lemma advance_moves:
  assumes "wf_controller c"
  shows "(\<exists>from to c'. advance_chain c = Some (Fallback from to, c') \<and> controller_ok c' \<and> potential c' < models_left c) \<or>
    (\<exists>tried n. advance_chain c = Some (Exhausted tried n, c))"
proof (cases "fc_current_index c + 1 < length (fc_chain c)")
  case True
  then obtain k where k: "length (fc_chain c) - 1 - fc_current_index c = Suc k"
    by (metis Suc_diff_Suc add.commute less_diff_conv plus_1_eq_Suc)
  then have "length (fc_chain c) - 1 - (fc_current_index c + 1) = k" by simp
  with True k show ?thesis
    by (simp add: advance_chain_def index_chain_def controller_ok_def wf_controller_def potential_def models_left_def)
next
  case False
  then show ?thesis by (simp add: advance_chain_def)
qed

lemma rate_limit_moves:
  assumes "controller_ok c"
  shows "(\<exists>m n d c'. on_rate_limit c = Some (Retry m n d, c') \<and> moved_on c c') \<or>
    (\<exists>from to c'. on_rate_limit c = Some (Fallback from to, c') \<and> moved_on c c') \<or>
    (\<exists>tried n c'. on_rate_limit c = Some (Exhausted tried n, c'))"
proof -
  let ?c = "c\<lparr>fc_retry_count := fc_retry_count c + 1, fc_total_retries := fc_total_retries c + 1\<rparr>"
  have wf: "wf_controller ?c" using assms by (simp add: controller_ok_def wf_controller_def)
  show ?thesis
  proof (cases "fc_retry_count c + 1 < fc_max_retries_per_model c")
    case True
    then have less: "fc_retry_count c < fc_max_retries_per_model c"
      using assms by (auto simp: controller_ok_def word_less_nat_alt)
    from unat_less_suc [OF this] less True wf show ?thesis
      by (auto simp: on_rate_limit_def index_chain_def moved_on_def controller_ok_def wf_controller_def potential_def
          word_less_nat_alt)
  next
    case False
    with advance_moves [OF wf] show ?thesis
      by (auto simp: on_rate_limit_def moved_on_def potential_def models_left_def)
  qed
qed

lemma server_error_moves:
  assumes "controller_ok c" "fc_server_error_count c < 3"
  shows "moved_on c (on_server_error c)"
proof -
  from unat_less_suc [OF assms(2)] have "unat (fc_server_error_count c + 1) = Suc (unat (fc_server_error_count c))" .
  moreover from assms(2) have "unat (fc_server_error_count c) < 3" by (simp add: word_less_nat_alt)
  ultimately show ?thesis
    using assms(1) by (simp add: moved_on_def on_server_error_def controller_ok_def wf_controller_def potential_def)
qed

text \<open>The counters that only the loop itself changes.\<close>

definition same_counters :: "'tx query_state \<Rightarrow> 'tx query_state \<Rightarrow> bool" where
  "same_counters st st' \<longleftrightarrow> qs_turn_count st' = qs_turn_count st \<and> qs_grace_turn st' = qs_grace_turn st \<and>
     qs_empty_retries st' = qs_empty_retries st \<and> qs_overflow_retries st' = qs_overflow_retries st"

lemma same_counters_trans: "same_counters a b \<Longrightarrow> same_counters b c \<Longrightarrow> same_counters a c"
  by (simp add: same_counters_def)

lemma calm_counters: "calm st st' \<Longrightarrow> same_counters st st'"
  by (simp add: calm_def same_course_def same_counters_def)

lemma calm_quiet: "calm st st' \<Longrightarrow> quiet_step st st'"
  by (simp add: calm_def)

lemma calm_fallback: "calm st st' \<Longrightarrow> qs_fallback st' = qs_fallback st"
  by (simp add: calm_def same_course_def)

text \<open>
  What a call may do to the query: it never panics, it reports an error exactly when it fails, and when
  it asks for another iteration the controller has moved on, unless a bad request was taken for an overflow.
\<close>

definition call_ok :: "bool \<Rightarrow> 'tx query_state \<Rightarrow> api_call_outcome \<times> 'tx query_state \<Rightarrow> bool" where
  "call_ok polite st r \<longleftrightarrow> same_counters st (snd r) \<and>
     (case fst r of
        CallPanic \<Rightarrow> False
      | CallFatal err \<Rightarrow> (\<exists>mid. quiet_step st mid \<and> qs_events (snd r) = qs_events mid @ [EvError err])
      | CallStream _ \<Rightarrow> quiet_step st (snd r) \<and> qs_fallback (snd r) = qs_fallback st
      | CallRetry \<Rightarrow> quiet_step st (snd r) \<and>
          (moved_on (qs_fallback st) (qs_fallback (snd r)) \<or> \<not> polite \<and> qs_fallback (snd r) = qs_fallback st))"

lemma call_ok_after: "calm st mid \<Longrightarrow> call_ok polite mid r \<Longrightarrow> call_ok polite st r"
  by (auto simp: call_ok_def calm_fallback split: api_call_outcome.splits
      intro: same_counters_trans quiet_step_trans dest: calm_counters calm_quiet)

lemma fail_call_ok:
  assumes "quiet_step st mid" "same_counters st mid"
  shows "call_ok polite st (fail_call err mid)"
  using assms by (auto simp: call_ok_def fail_call_def same_counters_def emit_def set_messages_def)

lemma rate_limited_ok:
  assumes "controller_ok (qs_fallback st)"
  shows "call_ok polite st (on_rate_limited st)"
  using rate_limit_moves [OF assms]
  by (auto simp: on_rate_limited_def call_ok_def [of _ _ "(CallRetry, _)"] same_counters_def emit_def quiet_step_def
      intro!: fail_call_ok)

lemma server_failure_ok:
  assumes "controller_ok (qs_fallback st)"
  shows "call_ok polite st (on_server_failure status st)"
proof (cases "fc_server_error_count (qs_fallback st) < 3")
  case True
  with server_error_moves [OF assms] show ?thesis
    by (simp add: on_server_failure_def call_ok_def same_counters_def quiet_step_def)
next
  case False
  have "models_left (qs_fallback st) \<le> potential (qs_fallback st)" by (simp add: models_left_def potential_def)
  with False advance_moves [of "qs_fallback st"] assms show ?thesis
    by (auto simp: on_server_failure_def on_server_error_exhausted_def call_ok_def [of _ _ "(CallRetry, _)"] same_counters_def
        emit_def quiet_step_def moved_on_def controller_ok_def intro!: fail_call_ok)
qed

lemma bad_request_ok: "call_ok (\<not> looks_like_overflow m) st (on_bad_request ep api lc m st)"
proof -
  have retry: "call_ok (\<not> looks_like_overflow m) st (CallRetry, x)" if "calm st x" "looks_like_overflow m" for x
    using that by (simp add: call_ok_def calm_counters calm_quiet calm_fallback)
  have fatal: "call_ok (\<not> looks_like_overflow m) st (fail_call err x)" if "calm st x" for err x
    using that by (intro fail_call_ok calm_counters calm_quiet)
  show ?thesis
    unfolding on_bad_request_def Let_def
    by (auto simp only: split: if_split prod.split option.split intro!: retry fatal calm_refl calm_trans [OF _ calm_progress]
        calm_trans [OF _ calm_react] calm_updates elim!: calm_compact_result)
qed

definition polite_api :: "(create_message_request \<Rightarrow> api_reply) \<Rightarrow> bool" where
  "polite_api f \<longleftrightarrow> (\<forall>req m. f req = ApiAnswer (Inl (BadRequest m)) \<longrightarrow> \<not> looks_like_overflow m)"

lemma call_ok_weaken: "call_ok p st r \<Longrightarrow> (q \<longrightarrow> p) \<Longrightarrow> call_ok q st r"
  by (auto simp: call_ok_def split: api_call_outcome.splits)

lemma call_ok_requests:
  assumes "call_ok p (x\<lparr>qs_health := th, qs_requests := rs\<rparr>) r"
  shows "call_ok p x r"
  using assms by (simp add: call_ok_def same_counters_def quiet_step_def split: api_call_outcome.splits)

text \<open>A call, with its request and the state in which it waits for the answer.\<close>

definition main_request :: "engine_platform \<Rightarrow> loop_config \<Rightarrow> string \<Rightarrow> 'tx query_state \<Rightarrow> create_message_request" where
  "main_request ep lc model st = fst (build_api_request (ep_request ep) (qs_messages st)
     ((current_request_config lc st)\<lparr>qc_model := model, qc_recent_messages := qs_messages st\<rparr>))"

definition called_state :: "engine_platform \<Rightarrow> loop_config \<Rightarrow> string \<Rightarrow> u64 \<Rightarrow> 'tx query_state \<Rightarrow> 'tx query_state" where
  "called_state ep lc model tokens st =
     progress (''Calling '' @ model @ '' ('' @ show_nat (length (qs_messages st)) @ '' messages, ~'' @ show_word tokens @ '' tokens)...'')
       (st\<lparr>qs_health := snd (build_api_request (ep_request ep) (qs_messages st)
             ((current_request_config lc st)\<lparr>qc_model := model, qc_recent_messages := qs_messages st\<rparr>)),
          qs_requests := qs_requests st @ [main_request ep lc model st]\<rparr>)"

lemma call_eq:
  assumes "current_model (qs_fallback st) = Some model"
  shows "call_api_with_fallback ep main api lc tokens st =
    (case main (main_request ep lc model st) of
       ApiTimeout \<Rightarrow> fail_call (plain_error ''timeout'' ''API call timed out after 5 minutes'') (called_state ep lc model tokens st)
     | ApiAnswer (Inr items) \<Rightarrow> (CallStream items, called_state ep lc model tokens st)
     | ApiAnswer (Inl ApiRateLimited) \<Rightarrow> on_rate_limited (called_state ep lc model tokens st)
     | ApiAnswer (Inl (ApiServerError status)) \<Rightarrow> on_server_failure status (called_state ep lc model tokens st)
     | ApiAnswer (Inl (BadRequest m)) \<Rightarrow> on_bad_request ep api lc m (called_state ep lc model tokens st)
     | ApiAnswer (Inl e) \<Rightarrow> fail_call (plain_error ''api_error'' (api_error_str e)) (called_state ep lc model tokens st))"
  by (simp only: call_api_with_fallback_def assms option.case Let_def main_request_def called_state_def case_prod_beta)

lemma controller_has_model:
  assumes "controller_ok c"
  obtains model where "current_model c = Some model"
  using assms by (auto simp: controller_ok_def wf_controller_def current_model_def index_chain_def)

lemma call_never_stuck:
  assumes "controller_ok (qs_fallback st)"
  shows "call_ok (polite_api main) st (call_api_with_fallback ep main api lc tokens st)"
proof -
  obtain model where model: "current_model (qs_fallback st) = Some model"
    using assms by (rule controller_has_model)
  let ?mid = "called_state ep lc model tokens st"
  have "qs_fallback ?mid = qs_fallback st" by (simp add: called_state_def progress_def emit_def)
  with assms have "controller_ok (qs_fallback ?mid)" by simp
  note oks = rate_limited_ok [OF this] server_failure_ok [OF this]
  have bad: "call_ok (polite_api main) ?mid (on_bad_request ep api lc m ?mid)"
    if "main (main_request ep lc model st) = ApiAnswer (Inl (BadRequest m))" for m
    using that by (intro call_ok_weaken [OF bad_request_ok]) (auto simp: polite_api_def)
  have "call_ok (polite_api main) ?mid (call_api_with_fallback ep main api lc tokens st)"
    unfolding call_eq [OF model] using oks bad
    by (auto simp: call_ok_def [of _ _ "(CallStream _, _)"] same_counters_def
        split: api_reply.split sum.split api_error.split intro!: fail_call_ok)
  from call_ok_after [OF calm_progress this [unfolded called_state_def]]
  show ?thesis by (rule call_ok_requests)
qed

lemma not_streaming:
  "fst (fail_call err st) \<noteq> CallStream items"
  "fst (on_rate_limited st) \<noteq> CallStream items"
  "fst (on_server_failure status st) \<noteq> CallStream items"
  "fst (on_bad_request ep api lc m st) \<noteq> CallStream items"
proof -
  show fails: "fst (fail_call err st) \<noteq> CallStream items" for err and st :: "'a query_state" by (simp add: fail_call_def)
  show "fst (on_rate_limited st) \<noteq> CallStream items"
    by (simp add: on_rate_limited_def fails split: option.split prod.split fallback_action.split)
  show "fst (on_server_failure status st) \<noteq> CallStream items"
    by (simp add: on_server_failure_def fails split: option.split prod.split fallback_action.split)
  show "fst (on_bad_request ep api lc m st) \<noteq> CallStream items"
    by (simp add: on_bad_request_def fails Let_def split: option.split prod.split)
qed

text \<open>An answer that is streamed is the answer to the request that was sent last.\<close>

lemma call_stream_request:
  assumes ok: "controller_ok (qs_fallback st)"
    and call: "call_api_with_fallback ep main api lc tokens st = (CallStream items, st')"
  obtains model where "main (main_request ep lc model st) = ApiAnswer (Inr items)" "st' = called_state ep lc model tokens st"
proof -
  obtain model where model: "current_model (qs_fallback st) = Some model" using ok by (rule controller_has_model)
  from call have streams: "fst (call_api_with_fallback ep main api lc tokens st) = CallStream items" by simp
  from streams have "main (main_request ep lc model st) = ApiAnswer (Inr items)"
    unfolding call_eq [OF model] by (simp add: not_streaming split: api_reply.splits sum.splits api_error.splits)
  moreover from this call have "st' = called_state ep lc model tokens st" by (simp add: call_eq [OF model])
  ultimately show ?thesis by (rule that)
qed

section \<open>Every query ends with exactly one result\<close>

text \<open>The end of the events of a query: its result, mirrored by an error event exactly when it failed.\<close>

definition closing :: "engine_event list \<Rightarrow> bool" where
  "closing evs \<longleftrightarrow>
     (\<exists>r. qr_status r \<noteq> QueryError \<and> qr_error r = None \<and> evs = [EvResult r]) \<or>
     (\<exists>r err. qr_status r = QueryError \<and> qr_error r = Some err \<and> evs = [EvError err, EvResult r])"

definition turn_ok :: "'tx query_state \<Rightarrow> 'tx loop_status \<Rightarrow> bool" where
  "turn_ok st res \<longleftrightarrow>
     (case res of
        Panicked \<Rightarrow> False
      | Looping st' \<Rightarrow> quiet_step st st' \<and> controller_ok (qs_fallback st')
      | Done st' \<Rightarrow> (\<exists>mid evs. quiet_step st mid \<and> closing evs \<and> qs_events st' = qs_events mid @ evs))"

lemma turn_ok_after: "quiet_step st mid \<Longrightarrow> turn_ok mid res \<Longrightarrow> turn_ok st res"
  by (auto simp: turn_ok_def split: loop_status.splits intro: quiet_step_trans)

lemma finish_events:
  "finish_query ep lc o' status err txt stop st = Done st' \<Longrightarrow>
     \<exists>r. qr_status r = status \<and> qr_error r = err \<and> qs_events st' = qs_events st @ [EvResult r]"
  by (auto simp: finish_query_def emit_def record_query_trajectory_def send_terminal_result_def Let_def)

lemma finish_ok: "status \<noteq> QueryError \<Longrightarrow> turn_ok st (finish_query ep lc o' status None txt stop st)"
  using finish_events [of ep lc o' status None "txt" stop st]
  by (fastforce simp: turn_ok_def closing_def finish_query_def intro: exI [of _ st])

lemma fail_query_ok:
  assumes "quiet_step st mid" "qs_events x = qs_events mid @ [EvError err]"
  shows "turn_ok st (fail_query ep lc err stop x)"
proof -
  obtain st' where st': "fail_query ep lc err stop x = Done st'" by (simp add: fail_query_def finish_query_def)
  then obtain r where "qr_status r = QueryError" "qr_error r = Some err" "qs_events st' = qs_events x @ [EvResult r]"
    using finish_events by (fastforce simp: fail_query_def)
  with assms st' show ?thesis
    by (auto simp: turn_ok_def closing_def intro!: exI [of _ mid])
qed

lemma report_and_fail_ok: "turn_ok st (report_and_fail ep lc err stop st)"
  unfolding report_and_fail_def by (rule fail_query_ok [of st st]) (simp_all add: emit_def)

lemma looping_ok:
  "calm st x \<Longrightarrow> controller_ok (qs_fallback st) \<Longrightarrow> turn_ok st (Looping x)"
  by (simp add: turn_ok_def calm_fallback calm_quiet)

lemma textual_ok:
  assumes "controller_ok (qs_fallback st)"
  shows "turn_ok st (textual_turn e lc start blocks stop st)"
proof -
  have "turn_ok st (Looping (context_overflow_compact ep api lc (st\<lparr>qs_overflow_retries := n\<rparr>)))" for ep api n
    by (rule turn_ok_after [of st "st\<lparr>qs_overflow_retries := n\<rparr>"])
      (simp_all add: assms quiet_step_same looping_ok calm_overflow)
  moreover have "turn_ok st (Done (emit (send_terminal_result ep t c u n QueryComplete None final stop) x))" if "calm st x" for ep t c u n final x
    using calm_quiet [OF that] by (auto simp: turn_ok_def closing_def emit_def send_terminal_result_def intro!: exI [of _ x])
  moreover have "calm st (maybe_spawn_session_memory_update (record_query_trajectory ep lc o' (end_turn ep lc start n names st)))"
    for ep o' n names
    by (intro calm_trans [OF _ calm_spawn] calm_trans [OF _ calm_trajectory] calm_end_turn)
  moreover have "turn_ok st (Looping (st\<lparr>qs_empty_retries := n, qs_messages := ms\<rparr>))" for n ms
    using assms by (simp add: turn_ok_def quiet_step_def)
  ultimately show ?thesis
    unfolding textual_turn_def Let_def by (simp add: report_and_fail_ok)
qed

text \<open>The parts of a turn, as the proofs take it apart.\<close>

definition after_stream :: "message list \<Rightarrow> ingest_state \<Rightarrow> 'tx query_state \<Rightarrow> 'tx query_state" where
  "after_stream ms g st = st\<lparr>qs_messages := ms, qs_usage := ig_usage g, qs_cost := ig_cost g, qs_counter := ig_counter g,
     qs_baseline := ig_baseline g, qs_events := qs_events st @ ig_events g, qs_clock := Suc (qs_clock st)\<rparr>"

lemma streamed_cases:
  obtains outcome ms g where
    "ingest_stream_events (en_platform e) (lc_model lc) (lc_session_id lc \<noteq> None) (qs_turn_count st) (qs_clock st) items
      (qs_messages st) (ingest_start (qs_usage st) (qs_cost st) (qs_counter st) (qs_baseline st)) = (outcome, ms, g)"
    "streamed_turn e lc start items st =
      (case outcome of IngestContinue blocks stop \<Rightarrow> answered_turn e lc start blocks stop (after_stream ms g st)
       | IngestAborted \<Rightarrow> Done (record_query_trajectory (en_platform e) lc TrajAborted (after_stream ms g st))
       | IngestFatal err \<Rightarrow> fail_query (en_platform e) lc err None (after_stream ms g st))"
proof -
  obtain outcome ms g where run:
    "ingest_stream_events (en_platform e) (lc_model lc) (lc_session_id lc \<noteq> None) (qs_turn_count st) (qs_clock st) items
      (qs_messages st) (ingest_start (qs_usage st) (qs_cost st) (qs_counter st) (qs_baseline st)) = (outcome, ms, g)"
    by (rule prod_cases3)
  show ?thesis
    by (rule that [OF run]) (simp only: streamed_turn_def run Let_def prod.case after_stream_def)
qed

definition compacted :: "'tx turn_env \<Rightarrow> loop_config \<Rightarrow> 'tx query_state \<Rightarrow> 'tx query_state" where
  "compacted e lc st =
     set_messages (micro_compact (ep_render (en_platform e)) (ep_age (en_platform e)) (qs_messages st) (lc_micro_compact lc)) st"

definition fresh_retries :: "content_block list \<Rightarrow> 'tx query_state \<Rightarrow> 'tx query_state" where
  "fresh_retries blocks st = (if blocks \<noteq> [] then st\<lparr>qs_empty_retries := 0, qs_overflow_retries := 0\<rparr> else st)"

definition recorded :: "'tx turn_env \<Rightarrow> loop_config \<Rightarrow> content_block list \<Rightarrow> string option \<Rightarrow> 'tx query_state \<Rightarrow> 'tx query_state" where
  "recorded e lc blocks stop st = record_assistant_turn (en_platform e) lc blocks stop (fresh_retries blocks st)"

definition tools_done ::
  "'tx turn_env \<Rightarrow> loop_config \<Rightarrow> 'tx query_state \<Rightarrow> content_block list \<Rightarrow> string option \<Rightarrow> 'tx query_state \<Rightarrow> 'tx query_state" where
  "tools_done e lc start blocks stop st =
     (let st3 = execute_tool_turn e lc start (extract_tool_uses blocks) (recorded e lc blocks stop st)
      in st3\<lparr>qs_turn_count := qs_turn_count st3 + 1\<rparr>)"

lemma answered_eq:
  "answered_turn e lc start blocks stop st =
     (if extract_tool_uses blocks = [] then textual_turn e lc start blocks stop (recorded e lc blocks stop st)
      else Looping (maybe_spawn_session_memory_update (tools_done e lc start blocks stop st)))"
  by (simp only: answered_turn_def Let_def recorded_def fresh_retries_def tools_done_def)

lemma calm_recorded: "calm (fresh_retries blocks st) (recorded e lc blocks stop st)"
  by (simp add: recorded_def calm_record)

lemma calm_tools_done: "\<exists>x. calm (fresh_retries blocks st) x \<and> tools_done e lc start blocks stop st = x\<lparr>qs_turn_count := qs_turn_count x + 1\<rparr>"
  unfolding tools_done_def Let_def by (blast intro: calm_trans [OF calm_recorded calm_tools])

lemma answered_ok:
  assumes "controller_ok (qs_fallback st)"
  shows "turn_ok st (answered_turn e lc start blocks stop st)"
proof -
  have q: "quiet_step st (fresh_retries blocks st)" "qs_fallback (fresh_retries blocks st) = qs_fallback st"
    by (simp_all add: fresh_retries_def quiet_step_def)
  obtain x where x: "calm (fresh_retries blocks st) x"
      "tools_done e lc start blocks stop st = x\<lparr>qs_turn_count := qs_turn_count x + 1\<rparr>"
    using calm_tools_done by blast
  then have "quiet_step (fresh_retries blocks st) (tools_done e lc start blocks stop st)"
      "qs_fallback (tools_done e lc start blocks stop st) = qs_fallback st"
    using q(2) by (simp_all add: calm_def quiet_step_def same_course_def)
  then have "turn_ok (fresh_retries blocks st) (Looping (maybe_spawn_session_memory_update (tools_done e lc start blocks stop st)))"
    using assms by (intro turn_ok_after [OF _ looping_ok [OF calm_spawn]]) simp_all
  moreover have "turn_ok (fresh_retries blocks st) (textual_turn e lc start blocks stop (recorded e lc blocks stop st))"
    using assms q(2) calm_fallback [OF calm_recorded [of blocks st e lc stop]]
    by (intro turn_ok_after [OF calm_quiet [OF calm_recorded] textual_ok]) simp
  ultimately show ?thesis
    using q(1) by (simp add: answered_eq turn_ok_after)
qed

lemma ingest_reports:
  assumes "ingest_stream_events ep model sid turns t items ms g = (outcome, ms', g')"
  shows "\<exists>evs. list_all (\<lambda>ev. \<not> is_final ev) evs \<and> ig_events g' = ig_events g @ evs @
    (case outcome of IngestContinue _ _ \<Rightarrow> []
     | IngestAborted \<Rightarrow> [send_terminal_result ep t (ig_cost g') (ig_usage g') turns QueryAborted None None None]
     | IngestFatal err \<Rightarrow> [EvError err])"
  using assms
proof (induction ep model sid turns t items ms g rule: ingest_stream_events.induct)
  case (4 ep model sid turns t ev items ms g)
  have step: "\<exists>evs. list_all (\<lambda>ev. \<not> is_final ev) evs \<and> ig_events (ingest_event ep model sid n ev g) = ig_events g @ evs" for n
    by (cases ev) (auto simp: block_start_def block_delta_def block_stop_def message_delta_def message_start_def spend_def
        Let_def split: option.split)
  from step [of "length ms"] obtain evs where evs: "list_all (\<lambda>ev. \<not> is_final ev) evs"
    "ig_events (ingest_event ep model sid (length ms) ev g) = ig_events g @ evs" by blast
  show ?case
  proof (cases "ev = MessageStop \<or> (\<exists>ty m. ev = StreamError ty m)")
    case True
    with 4(7) show ?thesis by (auto simp: Let_def)
  next
    case False
    with 4 have "\<exists>evs'. list_all (\<lambda>ev. \<not> is_final ev) evs' \<and>
      ig_events g' = ig_events (ingest_event ep model sid (length ms) ev g) @ evs' @
      (case outcome of IngestContinue _ _ \<Rightarrow> []
       | IngestAborted \<Rightarrow> [send_terminal_result ep t (ig_cost g') (ig_usage g') turns QueryAborted None None None]
       | IngestFatal err \<Rightarrow> [EvError err])"
      by (cases ev) simp_all
    with evs show ?thesis by (auto intro: exI [of _ "evs @ _"])
  qed
qed (auto simp: Let_def)

lemma streamed_ok:
  assumes "controller_ok (qs_fallback st)"
  shows "turn_ok st (streamed_turn e lc start items st)"
proof -
  obtain outcome ms g where
    run: "ingest_stream_events (en_platform e) (lc_model lc) (lc_session_id lc \<noteq> None) (qs_turn_count st) (qs_clock st) items
      (qs_messages st) (ingest_start (qs_usage st) (qs_cost st) (qs_counter st) (qs_baseline st)) = (outcome, ms, g)"
    and turn: "streamed_turn e lc start items st =
      (case outcome of IngestContinue blocks stop \<Rightarrow> answered_turn e lc start blocks stop (after_stream ms g st)
       | IngestAborted \<Rightarrow> Done (record_query_trajectory (en_platform e) lc TrajAborted (after_stream ms g st))
       | IngestFatal err \<Rightarrow> fail_query (en_platform e) lc err None (after_stream ms g st))"
    by (rule streamed_cases)
  from ingest_reports [OF run] obtain evs where evs: "list_all (\<lambda>ev. \<not> is_final ev) evs"
    "ig_events g = evs @ (case outcome of IngestContinue _ _ \<Rightarrow> []
       | IngestAborted \<Rightarrow> [send_terminal_result (en_platform e) (qs_clock st) (ig_cost g) (ig_usage g) (qs_turn_count st) QueryAborted None None None]
       | IngestFatal err \<Rightarrow> [EvError err])"
    by (auto simp: ingest_start_def)
  let ?mid = "st\<lparr>qs_events := qs_events st @ evs\<rparr>"
  have mid: "quiet_step st ?mid" using evs(1) by (simp add: quiet_step_def)
  show ?thesis
  proof (cases outcome)
    case (IngestContinue blocks stop)
    have "quiet_step st (after_stream ms g st)" using evs IngestContinue by (simp add: quiet_step_def after_stream_def)
    moreover have "controller_ok (qs_fallback (after_stream ms g st))" using assms by (simp add: after_stream_def)
    ultimately show ?thesis using IngestContinue by (simp add: turn turn_ok_after answered_ok)
  next
    case IngestAborted
    have "qs_events (record_query_trajectory (en_platform e) lc TrajAborted x) = qs_events x" for x :: "'a query_state"
      by (simp add: record_query_trajectory_def Let_def)
    with mid evs IngestAborted show ?thesis
      by (auto simp: turn turn_ok_def after_stream_def send_terminal_result_def closing_def intro!: exI [of _ ?mid])
  next
    case (IngestFatal err)
    with evs mid show ?thesis
      by (auto simp: turn after_stream_def intro!: fail_query_ok [of st ?mid])
  qed
qed

lemma called_cases:
  obtains tokens st3 outcome st4 where "calm st st3"
    "st3 = enforce_token_budget (en_platform e) (en_compact e) lc (fst (fst (compute_token_budget (en_platform e) (compacted e lc st))))
       tokens (snd (compute_token_budget (en_platform e) (compacted e lc st)))"
    "call_api_with_fallback (en_platform e) (en_main e) (en_retry e) lc tokens st3 = (outcome, st4)"
    "called_turn e lc start st = (case outcome of CallStream items \<Rightarrow> streamed_turn e lc start items st4
      | CallRetry \<Rightarrow> Looping st4 | CallFatal err \<Rightarrow> fail_query (en_platform e) lc err None st4 | CallPanic \<Rightarrow> Panicked)"
proof -
  let ?ep = "en_platform e"
  obtain status tokens st2 where st2: "compute_token_budget ?ep (compacted e lc st) = ((status, tokens), st2)" by (metis surj_pair)
  define st3 where "st3 = enforce_token_budget ?ep (en_compact e) lc status tokens st2"
  have "calm (compacted e lc st) st2" using calm_token_budget [of "compacted e lc st" ?ep] st2 by simp
  moreover have "calm st (compacted e lc st)" unfolding compacted_def by (rule calm_set_messages)
  ultimately have c: "calm st st3" unfolding st3_def by (metis calm_trans calm_enforce)
  obtain outcome st4 where call: "call_api_with_fallback ?ep (en_main e) (en_retry e) lc tokens st3 = (outcome, st4)" by fastforce
  show ?thesis
  proof (rule that [OF c _ call])
    show "st3 = enforce_token_budget ?ep (en_compact e) lc (fst (fst (compute_token_budget ?ep (compacted e lc st))))
       tokens (snd (compute_token_budget ?ep (compacted e lc st)))" by (simp add: st2 st3_def)
    show "called_turn e lc start st = (case outcome of CallStream items \<Rightarrow> streamed_turn e lc start items st4
      | CallRetry \<Rightarrow> Looping st4 | CallFatal err \<Rightarrow> fail_query ?ep lc err None st4 | CallPanic \<Rightarrow> Panicked)"
      by (simp only: called_turn_def Let_def compacted_def [symmetric] st2 prod.case st3_def [symmetric] call)
  qed
qed

lemma called_ok:
  assumes "controller_ok (qs_fallback st)"
  shows "turn_ok st (called_turn e lc start st)"
proof -
  obtain tokens st3 outcome st4 where c: "calm st st3"
    and call: "call_api_with_fallback (en_platform e) (en_main e) (en_retry e) lc tokens st3 = (outcome, st4)"
    and turn: "called_turn e lc start st = (case outcome of CallStream items \<Rightarrow> streamed_turn e lc start items st4
      | CallRetry \<Rightarrow> Looping st4 | CallFatal err \<Rightarrow> fail_query (en_platform e) lc err None st4 | CallPanic \<Rightarrow> Panicked)"
    by (rule called_cases)
  from assms have ok: "controller_ok (qs_fallback st3)" using calm_fallback [OF c] by simp
  from call_never_stuck [OF ok, of "en_main e" "en_platform e" "en_retry e" lc tokens]
  have ok4: "call_ok (polite_api (en_main e)) st3 (outcome, st4)" by (simp add: call)
  have "turn_ok st3 (called_turn e lc start st)"
  proof (cases outcome)
    case (CallStream items)
    with ok4 ok streamed_ok [of st4 e lc start items] show ?thesis
      by (auto simp: turn call_ok_def intro: turn_ok_after)
  next
    case CallRetry
    with ok4 ok show ?thesis by (auto simp: turn call_ok_def turn_ok_def moved_on_def)
  next
    case (CallFatal err)
    with ok4 show ?thesis by (auto simp: turn call_ok_def intro: fail_query_ok)
  next
    case CallPanic
    with ok4 show ?thesis by (simp add: call_ok_def)
  qed
  with calm_quiet [OF c] show ?thesis by (rule turn_ok_after)
qed

lemma budget_gate_calm: "budget_gate ep lc st = (r, st') \<Longrightarrow>
    quiet_step st st' \<and> qs_fallback st' = qs_fallback st \<and> qs_turn_count st' = qs_turn_count st \<and>
    qs_empty_retries st' = qs_empty_retries st \<and> qs_overflow_retries st' = qs_overflow_retries st"
  by (auto simp: budget_gate_def push_message_def quiet_step_def split: if_splits)

lemma loop_turn_ok:
  assumes "controller_ok (qs_fallback st)"
  shows "turn_ok st (loop_turn lc e st)"
proof -
  let ?ep = "en_platform e"
  define start where "start = start_turn lc (finish_jobs e st)"
  have c: "calm st start" unfolding start_def by (rule calm_trans [OF calm_jobs calm_start])
  obtain r st1 where gate: "budget_gate ?ep lc start = (r, st1)" by fastforce
  define st2 where "st2 = inject_iteration_budget_warnings ?ep lc (refresh_git (en_git e) st1)"
  have c2: "calm st1 (final_call ?ep lc st2)" "calm st1 st2"
    unfolding st2_def by (intro calm_trans [OF _ calm_final_call] calm_trans [OF calm_git calm_warnings])+
  have ok: "controller_ok (qs_fallback (final_call ?ep lc st2))"
    using assms calm_fallback [OF c] calm_fallback [OF c2(1)] budget_gate_calm [OF gate] by simp
  have after: "turn_ok start (called_turn e lc start (final_call ?ep lc st2))"
    using called_ok [OF ok] calm_quiet [OF c2(1)] budget_gate_calm [OF gate] by (blast intro: turn_ok_after quiet_step_trans)
  have maxed: "turn_ok start (finish_query ?ep lc TrajMaxTurns QueryMaxTurns None None None st2)"
    using calm_quiet [OF c2(2)] budget_gate_calm [OF gate] finish_ok [of QueryMaxTurns st2]
    by (blast intro: turn_ok_after quiet_step_trans)
  have aborted: "turn_ok start (abort_query ?ep lc start)"
    unfolding abort_query_def by (rule turn_ok_after [OF _ finish_ok]) (simp_all add: quiet_step_def)
  have failed: "turn_ok start (report_and_fail ?ep lc err None st1)" for err
    using budget_gate_calm [OF gate] by (blast intro: turn_ok_after report_and_fail_ok)
  have "loop_turn lc e st = (if en_aborted e then abort_query ?ep lc start
      else case r of Some err \<Rightarrow> report_and_fail ?ep lc err None st1
        | None \<Rightarrow> if over_limit lc st2 then finish_query ?ep lc TrajMaxTurns QueryMaxTurns None None None st2
                  else called_turn e lc start (final_call ?ep lc st2))"
    by (cases r) (simp_all only: loop_turn_def Let_def start_def [symmetric] gate prod.case option.case st2_def [symmetric])
  with after maxed aborted failed have "turn_ok start (loop_turn lc e st)" by (simp split: option.split)
  with calm_quiet [OF c] show ?thesis by (rule turn_ok_after)
qed

lemma run_loop_ok: "controller_ok (qs_fallback st) \<Longrightarrow> turn_ok st (run_loop lc es st)"
proof (induction es arbitrary: st)
  case (Cons e es)
  note turn = loop_turn_ok [OF Cons.prems, of lc e]
  show ?case
  proof (cases "loop_turn lc e st")
    case (Looping st')
    with turn have "quiet_step st st'" "controller_ok (qs_fallback st')" by (simp_all add: turn_ok_def)
    with Cons.IH [of st'] Looping show ?thesis by (auto intro: turn_ok_after)
  qed (use turn in auto)
qed (simp add: turn_ok_def)

lemma query_start_fields:
  "qs_events (query_start ep lc given) = []"
  "qs_requests (query_start ep lc given) = []"
  "qs_turn_count (query_start ep lc given) = 0"
  "qs_grace_turn (query_start ep lc given) = None"
  "qs_empty_retries (query_start ep lc given) = 0"
  "qs_overflow_retries (query_start ep lc given) = 0"
  "qs_messages (query_start ep lc given) = qs_messages given"
  "qs_fallback (query_start ep lc given) = fallback_new (fallback_config lc)"
  by (simp_all add: query_start_def append_transcript_def index_message_def Let_def split: message_content.split)

lemma controller_new: "controller_ok (fallback_new config)"
  using wf_new [of config] by (simp add: controller_ok_def fallback_new_def)

text \<open>
  C1. However long a query runs and whatever the model, the tools, the user and the surroundings do, it never
  panics; while it runs it has reported neither a result nor an error; and when it ends its last event is its
  only result, which says that it failed exactly when the event before it is the one error event, with the
  same error.
\<close>

theorem query_ends_with_one_result:
  "case run_query_loop ep lc es given of
     Panicked \<Rightarrow> False
   | Looping st \<Rightarrow> \<not> list_ex is_final (qs_events st)
   | Done st \<Rightarrow> (\<exists>evs r. \<not> list_ex is_final evs \<and>
       qs_events st = evs @ (case qr_error r of None \<Rightarrow> [] | Some err \<Rightarrow> [EvError err]) @ [EvResult r] \<and>
       (qr_status r = QueryError \<longleftrightarrow> qr_error r \<noteq> None))"
proof -
  have "turn_ok (query_start ep lc given) (run_query_loop ep lc es given)"
    unfolding run_query_loop_def by (rule run_loop_ok) (simp add: query_start_fields controller_new)
  moreover have "\<not> list_ex is_final (qs_events st)" if "quiet_step (query_start ep lc given) st" for st :: "'a query_state"
    using that by (auto simp: quiet_step_def query_start_fields list_ex_iff list_all_iff)
  moreover have "\<exists>r. qs = pre @ (case qr_error r of None \<Rightarrow> [] | Some err \<Rightarrow> [EvError err]) @ [EvResult r] \<and>
      (qr_status r = QueryError \<longleftrightarrow> qr_error r \<noteq> None)" if "qs = pre @ evs" "closing evs" for qs pre evs
    using that by (auto simp: closing_def)
  ultimately show ?thesis
    by (auto simp: turn_ok_def split: loop_status.splits) (metis (no_types, lifting))
qed

section \<open>A query with a turn limit ends\<close>

definition overflow_stop :: string where
  "overflow_stop = ''model_context_window_exceeded''"

fun overflows :: "stream_item \<Rightarrow> bool" where
  "overflows (Event (MessageDelta delta u)) = (get_str delta ''stop_reason'' = Some overflow_stop)"
| "overflows _ = False"

fun completes_block :: "stream_item \<Rightarrow> bool" where
  "completes_block (Event (ContentBlockStop i)) = True"
| "completes_block _ = False"

text \<open>
  A model is polite when it never refuses a request for its length and never reports an exceeded context
  window in an answer that has content. Both sections below show what happens without this.
\<close>

definition polite :: "'tx turn_env \<Rightarrow> bool" where
  "polite e \<longleftrightarrow> polite_api (en_main e) \<and>
     (\<forall>req items. en_main e req = ApiAnswer (Inr items) \<longrightarrow> list_ex overflows items \<longrightarrow> \<not> list_ex completes_block items)"

lemma ingest_stop_reason:
  assumes "ingest_stream_events ep model sid turns t items ms g = (IngestContinue blocks stop, ms', g')"
  shows "(stop = Some overflow_stop \<longrightarrow> ig_stop_reason g \<noteq> Some overflow_stop \<longrightarrow> list_ex overflows items) \<and>
    (\<not> list_ex completes_block items \<longrightarrow> blocks = ig_blocks g)"
  using assms
proof (induction ep model sid turns t items ms g rule: ingest_stream_events.induct)
  case (4 ep model sid turns t ev items ms g)
  show ?case
  proof (cases "ev = MessageStop \<or> (\<exists>ty m. ev = StreamError ty m)")
    case True
    with 4(7) show ?thesis by (auto simp: Let_def)
  next
    case False
    let ?g = "ingest_event ep model sid (length ms) ev g"
    have "ig_stop_reason ?g = Some overflow_stop \<Longrightarrow> ig_stop_reason g = Some overflow_stop \<or> overflows (Event ev)"
      by (cases ev) (auto simp: block_start_def block_delta_def block_stop_def message_delta_def message_start_def spend_def
          Let_def split: option.splits if_splits)
    moreover have "\<not> completes_block (Event ev) \<Longrightarrow> ig_blocks ?g = ig_blocks g"
      by (cases ev) (auto simp: block_start_def block_delta_def message_delta_def message_start_def spend_def
          Let_def split: option.splits if_splits)
    moreover have "(stop = Some overflow_stop \<longrightarrow> ig_stop_reason ?g \<noteq> Some overflow_stop \<longrightarrow> list_ex overflows items) \<and>
        (\<not> list_ex completes_block items \<longrightarrow> blocks = ig_blocks ?g)"
      using False 4 by (cases ev) simp_all
    ultimately show ?thesis by auto
  qed
qed (auto simp: Let_def)

lemma Looping_only: "finish_query ep lc o' status err t stop st \<noteq> Looping st'" "report_and_fail ep lc err2 stop st \<noteq> Looping st'"
    "fail_query ep lc err2 stop st \<noteq> Looping st'" "abort_query ep lc st \<noteq> Looping st'"
  by (simp_all add: finish_query_def report_and_fail_def fail_query_def abort_query_def)

text \<open>What another iteration after a streamed answer has used up.\<close>

definition used_up :: "'tx query_state \<Rightarrow> 'tx query_state \<Rightarrow> bool" where
  "used_up st st' \<longleftrightarrow> qs_fallback st' = qs_fallback st \<and>
     (qs_turn_count st' = qs_turn_count st + 1 \<or>
      qs_turn_count st' = qs_turn_count st \<and>
      (qs_overflow_retries st < 2 \<and> qs_overflow_retries st' = qs_overflow_retries st + 1 \<and> qs_empty_retries st' = qs_empty_retries st \<or>
       qs_empty_retries st < 2 \<and> qs_empty_retries st' = qs_empty_retries st + 1 \<and> qs_overflow_retries st' = qs_overflow_retries st))"

lemma textual_progress:
  assumes "textual_turn e lc start blocks stop st = Looping st'"
  shows "used_up st st'" "blocks \<noteq> [] \<Longrightarrow> stop = Some overflow_stop"
proof -
  have c: "calm (st\<lparr>qs_overflow_retries := n\<rparr>) (context_overflow_compact ep api lc (st\<lparr>qs_overflow_retries := n\<rparr>))" for ep api n
    by (rule calm_overflow)
  show "used_up st st'"
    using assms c [of "qs_overflow_retries st + 1" "en_platform e" "en_retry e"]
    by (auto simp: textual_turn_def Let_def Looping_only used_up_def calm_def same_course_def max_overflow_compact_retries_def
        max_empty_stream_retries_def split: if_splits)
  show "blocks \<noteq> [] \<Longrightarrow> stop = Some overflow_stop"
    using assms by (auto simp: textual_turn_def Let_def Looping_only overflow_stop_def split: if_splits)
qed

lemma answered_progress:
  assumes looping: "answered_turn e lc start blocks stop st = Looping st'"
    and polite: "stop = Some overflow_stop \<Longrightarrow> blocks = []"
  shows "used_up st st'"
proof (cases "extract_tool_uses blocks = []")
  case True
  with looping have run: "textual_turn e lc start blocks stop (recorded e lc blocks stop st) = Looping st'"
    by (simp add: answered_eq)
  have "blocks = []" using textual_progress(2) [OF run] polite by blast
  then have "calm st (recorded e lc blocks stop st)" using calm_recorded [of blocks st e lc stop] by (simp add: fresh_retries_def)
  with textual_progress(1) [OF run] show ?thesis by (simp add: used_up_def calm_def same_course_def)
next
  case False
  obtain x where x: "calm (fresh_retries blocks st) x"
      "tools_done e lc start blocks stop st = x\<lparr>qs_turn_count := qs_turn_count x + 1\<rparr>"
    using calm_tools_done by blast
  have "st' = maybe_spawn_session_memory_update (tools_done e lc start blocks stop st)"
    using looping False by (simp add: answered_eq)
  then have "calm (tools_done e lc start blocks stop st) st'" by (simp only: calm_spawn)
  with x show ?thesis by (simp add: used_up_def calm_def same_course_def fresh_retries_def split: if_splits)
qed

lemma streamed_progress:
  assumes looping: "streamed_turn e lc start items st = Looping st'"
    and polite: "list_ex overflows items \<Longrightarrow> \<not> list_ex completes_block items"
  shows "used_up st st'"
proof -
  obtain outcome ms g where
    run: "ingest_stream_events (en_platform e) (lc_model lc) (lc_session_id lc \<noteq> None) (qs_turn_count st) (qs_clock st) items
      (qs_messages st) (ingest_start (qs_usage st) (qs_cost st) (qs_counter st) (qs_baseline st)) = (outcome, ms, g)"
    and turn: "streamed_turn e lc start items st =
      (case outcome of IngestContinue blocks stop \<Rightarrow> answered_turn e lc start blocks stop (after_stream ms g st)
       | IngestAborted \<Rightarrow> Done (record_query_trajectory (en_platform e) lc TrajAborted (after_stream ms g st))
       | IngestFatal err \<Rightarrow> fail_query (en_platform e) lc err None (after_stream ms g st))"
    by (rule streamed_cases)
  from looping turn obtain blocks stop where o: "outcome = IngestContinue blocks stop"
      "answered_turn e lc start blocks stop (after_stream ms g st) = Looping st'"
    by (cases outcome) (simp_all add: Looping_only)
  from ingest_stop_reason [OF run [unfolded o(1)]] polite have "stop = Some overflow_stop \<Longrightarrow> blocks = []"
    by (auto simp: ingest_start_def)
  with answered_progress [OF o(2)] have "used_up (after_stream ms g st) st'" by simp
  then show ?thesis by (simp add: used_up_def after_stream_def)
qed

lemma called_progress:
  assumes looping: "called_turn e lc start st = Looping st'"
    and polite: "polite e" and ok: "controller_ok (qs_fallback st)"
  shows "same_counters st st' \<and> moved_on (qs_fallback st) (qs_fallback st') \<or> used_up st st'"
proof -
  obtain tokens st3 outcome st4 where c: "calm st st3"
    and call: "call_api_with_fallback (en_platform e) (en_main e) (en_retry e) lc tokens st3 = (outcome, st4)"
    and turn: "called_turn e lc start st = (case outcome of CallStream items \<Rightarrow> streamed_turn e lc start items st4
      | CallRetry \<Rightarrow> Looping st4 | CallFatal err \<Rightarrow> fail_query (en_platform e) lc err None st4 | CallPanic \<Rightarrow> Panicked)"
    by (rule called_cases)
  from ok have ok3: "controller_ok (qs_fallback st3)" using calm_fallback [OF c] by simp
  from call_never_stuck [OF ok3, of "en_main e" "en_platform e" "en_retry e" lc tokens]
  have ok4: "call_ok True st3 (outcome, st4)" using polite by (simp add: call polite_def)
  show ?thesis
  proof (cases outcome)
    case (CallStream items)
    with call have "call_api_with_fallback (en_platform e) (en_main e) (en_retry e) lc tokens st3 = (CallStream items, st4)" by simp
    then obtain model where "en_main e (main_request (en_platform e) lc model st3) = ApiAnswer (Inr items)"
      using call_stream_request [OF ok3] by metis
    with polite have "list_ex overflows items \<Longrightarrow> \<not> list_ex completes_block items" by (auto simp: polite_def)
    moreover have "streamed_turn e lc start items st4 = Looping st'" using looping turn CallStream by simp
    ultimately have "used_up st4 st'" by (intro streamed_progress)
    with ok4 c CallStream show ?thesis by (simp add: call_ok_def used_up_def same_counters_def calm_def same_course_def)
  next
    case CallRetry
    with looping turn have "st' = st4" by simp
    with ok4 c CallRetry show ?thesis by (simp add: call_ok_def same_counters_def calm_def same_course_def)
  qed (use looping turn in \<open>simp_all add: Looping_only\<close>)
qed

text \<open>
  What is left of a query: its turns, each of which can restart the empty and the overflow retries, and the
  attempts of the controller.
\<close>

definition turns_left :: "u32 \<Rightarrow> 'tx query_state \<Rightarrow> nat" where
  "turns_left m st = 5 * (Suc (unat m) - unat (qs_turn_count st)) + potential (qs_fallback st) +
     (2 - unat (qs_empty_retries st)) + (2 - unat (qs_overflow_retries st))"

lemma retries_shrink:
  assumes "r < (2 :: u32)"
  shows "2 - unat (r + 1) < 2 - unat r"
  using unat_less_suc [OF assms] assms by (simp add: word_less_nat_alt)

lemma used_up_shrinks:
  assumes "used_up st st'" "qs_turn_count st \<le> m" "m < 0xFFFFFFFF"
  shows "turns_left m st' < turns_left m st"
proof -
  have "unat (qs_turn_count st + 1) = Suc (unat (qs_turn_count st))" "unat (qs_turn_count st) \<le> unat m"
    using unat_less_suc [OF le_less_trans [OF assms(2,3)]] assms(2) by (simp_all add: word_le_nat_alt)
  with assms(1) show ?thesis
    using retries_shrink [of "qs_empty_retries st"] retries_shrink [of "qs_overflow_retries st"]
    by (auto simp: used_up_def turns_left_def)
qed

lemma moved_on_shrinks:
  "same_counters st st' \<Longrightarrow> moved_on (qs_fallback st) (qs_fallback st') \<Longrightarrow> turns_left m st' < turns_left m st"
  by (simp add: same_counters_def moved_on_def turns_left_def)

lemma turns_left_same: "same_counters st st' \<Longrightarrow> qs_fallback st' = qs_fallback st \<Longrightarrow> turns_left m st' = turns_left m st"
  by (simp add: same_counters_def turns_left_def)

lemma loop_turn_shrinks:
  assumes looping: "loop_turn lc e st = Looping st'" and polite: "polite e" and ok: "controller_ok (qs_fallback st)"
    and m: "lc_max_turns lc = Some m" "m < 0xFFFFFFFF"
  shows "turns_left m st' < turns_left m st"
proof -
  let ?ep = "en_platform e"
  define start where "start = start_turn lc (finish_jobs e st)"
  have c: "calm st start" unfolding start_def by (rule calm_trans [OF calm_jobs calm_start])
  obtain r st1 where gate: "budget_gate ?ep lc start = (r, st1)" by fastforce
  define st2 where "st2 = inject_iteration_budget_warnings ?ep lc (refresh_git (en_git e) st1)"
  have c2: "calm st1 st2" unfolding st2_def by (rule calm_trans [OF calm_git calm_warnings])
  have c3: "calm st2 (final_call ?ep lc st2)" by (rule calm_final_call)
  have run: "\<not> over_limit lc st2" "called_turn e lc start (final_call ?ep lc st2) = Looping st'"
    using looping unfolding loop_turn_def Let_def start_def [symmetric] gate prod.case st2_def [symmetric]
    by (cases r; simp add: Looping_only split: if_splits)+
  have same: "qs_fallback (final_call ?ep lc st2) = qs_fallback st" "qs_turn_count (final_call ?ep lc st2) = qs_turn_count st"
      "qs_empty_retries (final_call ?ep lc st2) = qs_empty_retries st" "qs_overflow_retries (final_call ?ep lc st2) = qs_overflow_retries st"
    using c c2 c3 budget_gate_calm [OF gate] by (simp_all add: calm_def same_course_def)
  then have left: "turns_left m (final_call ?ep lc st2) = turns_left m st" by (simp add: turns_left_def)
  have "qs_turn_count st2 \<le> m" using run(1) m by (simp add: over_limit_def)
  then have limit: "qs_turn_count (final_call ?ep lc st2) \<le> m" using c3 by (simp add: calm_def same_course_def)
  have "controller_ok (qs_fallback (final_call ?ep lc st2))" using ok same by simp
  from called_progress [OF run(2) polite this] have "turns_left m st' < turns_left m (final_call ?ep lc st2)"
    using used_up_shrinks [OF _ limit m(2)] moved_on_shrinks by blast
  with left show ?thesis by simp
qed

lemma run_loop_ends:
  assumes "controller_ok (qs_fallback st)" "list_all polite es" "lc_max_turns lc = Some m" "m < 0xFFFFFFFF"
    "turns_left m st < length es"
  shows "\<exists>st'. run_loop lc es st = Done st'"
  using assms
proof (induction es arbitrary: st)
  case (Cons e es)
  note turn = loop_turn_ok [OF Cons.prems(1), of lc e]
  show ?case
  proof (cases "loop_turn lc e st")
    case (Looping st')
    with turn have "controller_ok (qs_fallback st')" by (simp add: turn_ok_def)
    moreover have "turns_left m st' < turns_left m st"
      using loop_turn_shrinks [OF Looping _ Cons.prems(1,3,4)] Cons.prems(2) by simp
    ultimately show ?thesis using Cons.IH [of st'] Cons.prems Looping by simp
  qed (use turn in \<open>auto simp: turn_ok_def\<close>)
qed simp

text \<open>How many iterations a query with at most \<open>m\<close> turns can have.\<close>

definition iterations :: "loop_config \<Rightarrow> u32 \<Rightarrow> nat" where
  "iterations lc m = 5 * (unat m + 2) + (length (lc_fallback_models lc) + 1) * (unat (lc_max_retries_per_model lc) + 4)"

lemma turns_left_start: "turns_left m (query_start ep lc given) < iterations lc m"
  by (simp add: turns_left_def query_start_fields potential_def fallback_new_def fallback_config_def iterations_def)

text \<open>
  C2. A query with a turn limit ends: whatever its tools, budgets, compactions and server errors do, once
  \<open>iterations\<close> turns have been given to it the loop has returned, provided that the model is polite. The
  bound counts five iterations per turn (two retries of an empty answer, two of an overflow) and every retry
  of every model of the fallback chain. The limit must be below the largest \<open>u32\<close>, whose successor is 0.
\<close>

theorem query_terminates:
  assumes "list_all polite es" "lc_max_turns lc = Some m" "m < 0xFFFFFFFF" "iterations lc m \<le> length es"
  shows "\<exists>st. run_query_loop ep lc es given = Done st"
  unfolding run_query_loop_def
  using assms turns_left_start [of m ep lc given]
  by (intro run_loop_ends [of _ es lc m]) (simp_all add: query_start_fields controller_new)

text \<open>A model that always refuses with a rate limit, in any surroundings, and a limit of three turns.\<close>

theorem query_terminates_witness:
  "\<forall>ep lc given e. \<exists>st. run_query_loop ep (lc\<lparr>lc_max_turns := Some 3\<rparr>)
     (replicate (iterations lc 3) (e\<lparr>en_main := \<lambda>_. ApiAnswer (Inl ApiRateLimited)\<rparr>)) given = Done st"
proof (intro allI)
  fix ep lc given and e :: "'a turn_env"
  have "polite (e\<lparr>en_main := \<lambda>_. ApiAnswer (Inl ApiRateLimited)\<rparr>)" by (simp add: polite_def polite_api_def)
  then show "\<exists>st. run_query_loop ep (lc\<lparr>lc_max_turns := Some 3\<rparr>)
     (replicate (iterations lc 3) (e\<lparr>en_main := \<lambda>_. ApiAnswer (Inl ApiRateLimited)\<rparr>)) given = Done st"
    by (intro query_terminates [where m = 3]) (simp_all add: iterations_def list_all_iff)
qed

end
