(* ===== verification/Bao_QueryPairing.thy ===== *)
theory Bao_QueryPairing
  imports Bao_QuerySafety
begin

text \<open>
  What a query sends to get its turns: every such request is one that the API accepts, as far as tool calls go. The
  first section says what that is and that a request built from a sound history has it; the rest follows the
  history of a query and shows that it stays sound.
\<close>

section \<open>Answered calls\<close>

text \<open>Each element with calls is followed by one that holds the results of all of them.\<close>

fun answered_by :: "('m \<Rightarrow> 'i set) \<Rightarrow> ('m \<Rightarrow> 'i set) \<Rightarrow> 'm list \<Rightarrow> bool" where
  "answered_by u r [] \<longleftrightarrow> True"
| "answered_by u r [m] \<longleftrightarrow> u m = {}"
| "answered_by u r (m # n # ms) \<longleftrightarrow> u m \<subseteq> r n \<and> answered_by u r (n # ms)"

lemma answered_tl: "answered_by u r (m # ms) \<Longrightarrow> answered_by u r ms"
  by (cases ms) auto

lemma answered_Cons: "u m = {} \<Longrightarrow> answered_by u r (m # ms) \<longleftrightarrow> answered_by u r ms"
  by (cases ms) auto

lemma answered_drop: "answered_by u r ms \<Longrightarrow> answered_by u r (drop k ms)"
proof (induction k arbitrary: ms)
  case (Suc k)
  then show ?case by (cases ms) (auto dest: answered_tl)
qed simp

lemma answered_append: "answered_by u r xs \<Longrightarrow> answered_by u r ys \<Longrightarrow> answered_by u r (xs @ ys)"
  by (induction u r xs rule: answered_by.induct) (auto simp: answered_Cons)

lemma answered_snoc_pair: "u n = {} \<Longrightarrow> u m \<subseteq> r n \<Longrightarrow> answered_by u r xs \<Longrightarrow> answered_by u r (xs @ [m, n])"
  by (rule answered_append) simp_all

lemma answered_butlast: "answered_by u r (xs @ [m]) \<Longrightarrow> r m = {} \<Longrightarrow> answered_by u r xs"
  by (induction u r xs rule: answered_by.induct) auto

lemma answered_map:
  assumes "\<And>m. u (f m) = u m" "\<And>m. r (f m) = r m"
  shows "answered_by u r (map f ms) = answered_by u r ms"
  using assms by (induction u r ms rule: answered_by.induct) simp_all

lemma answered_change_last:
  "u m' = u m \<Longrightarrow> r m' = r m \<Longrightarrow> answered_by u r (xs @ [m']) = answered_by u r (xs @ [m])"
  by (induction u r xs rule: answered_by.induct) auto

text \<open>
  A filter keeps this when it never drops an element with calls, adds no calls, and keeps the results of
  all calls in \<open>K\<close>.
\<close>

lemma answered_map_filter:
  assumes "answered_by u r ms"
    and "\<And>m. m \<in> set ms \<Longrightarrow> u m \<subseteq> K"
    and "\<And>m m'. m \<in> set ms \<Longrightarrow> f m = Some m' \<Longrightarrow> u' m' \<subseteq> u m"
    and "\<And>m. m \<in> set ms \<Longrightarrow> r m \<inter> K \<subseteq> (case f m of None \<Rightarrow> {} | Some m' \<Rightarrow> r' m')"
  shows "answered_by u' r' (List.map_filter f ms)"
  using assms
proof (induction ms)
  case (Cons m ms)
  have IH: "answered_by u' r' (List.map_filter f ms)" by (rule Cons.IH) (use Cons.prems in \<open>auto dest: answered_tl\<close>)
  show ?case
  proof (cases "f m")
    case (Some m')
    then have sub: "u' m' \<subseteq> u m" using Cons.prems(3) by simp
    show ?thesis
    proof (cases "u' m' = {}")
      case True
      with Some IH show ?thesis by (simp add: answered_Cons)
    next
      case False
      with sub Cons.prems(1) obtain n ns where n: "ms = n # ns" "u m \<subseteq> r n" by (cases ms) auto
      moreover have "u m \<subseteq> K" using Cons.prems(2) by simp
      moreover have "r n \<inter> K \<subseteq> (case f n of None \<Rightarrow> {} | Some n' \<Rightarrow> r' n')" using Cons.prems(4) n by simp
      ultimately have "u' m' \<subseteq> (case f n of None \<Rightarrow> {} | Some n' \<Rightarrow> r' n')" using sub by blast
      with False obtain n' where "f n = Some n'" "u' m' \<subseteq> r' n'" by (cases "f n") auto
      with Some IH n show ?thesis by simp
    qed
  qed (use IH in simp)
qed simp

abbreviation answered_turns :: "message list \<Rightarrow> bool" where
  "answered_turns \<equiv> answered_by message_uses message_results"

lemma answered_used: "answered_turns ms \<Longrightarrow> used_ids ms \<subseteq> answered_ids ms"
  by (induction message_uses message_results ms rule: answered_by.induct) auto

lemma answered_settled:
  assumes "answered_turns ms"
  shows "settled_turns ms"
proof -
  have "message_uses m \<subseteq> answered_ids ms" if "m \<in> set ms" for m
    using answered_used [OF assms] that by (auto simp: used_ids_def)
  then show ?thesis by (simp add: settled_turns_def list_all_iff)
qed

text \<open>A history from which a sound request can be made.\<close>

definition sound_history :: "message list \<Rightarrow> bool" where
  "sound_history ms \<longleftrightarrow> answered_turns ms \<and> roles_ok ms"

text \<open>Messages on the wire: calls are answered by the next message, and every result belongs to a call.\<close>

definition legal_messages :: "json list \<Rightarrow> bool" where
  "legal_messages ws \<longleftrightarrow> answered_by wire_calls wire_results ws \<and>
     (\<Union>w\<in>set ws. wire_results w) = (\<Union>w\<in>set ws. wire_calls w)"

lemma answered_fixed:
  assumes "answered_turns ms"
  shows "answered_turns (validate_and_fix_tool_messages ms)"
proof -
  let ?f = "fix_message (used_ids ms - answered_ids ms) (answered_ids ms - used_ids ms)"
  have none: "used_ids ms - answered_ids ms = {}" using answered_used [OF assms] by blast
  have uses: "(case ?f m of None \<Rightarrow> {} | Some m' \<Rightarrow> message_uses m') = message_uses m" for m
    by (simp only: fix_message_uses none) simp
  have "answered_turns (List.map_filter ?f ms)"
  proof (rule answered_map_filter [where K = "used_ids ms", OF assms])
    show "message_uses m' \<subseteq> message_uses m" if "?f m = Some m'" for m m'
      using uses [of m] that by (auto simp del: fix_message.simps)
    show "message_results m \<inter> used_ids ms \<subseteq> (case ?f m of None \<Rightarrow> {} | Some m' \<Rightarrow> message_results m')" for m
      by (simp only: fix_message_results) blast
  qed (auto simp: used_ids_def)
  then show ?thesis by (simp add: validate_and_fix_tool_messages_def collect_tool_ids_eq del: fix_message.simps)
qed

lemma answered_api:
  assumes "answered_turns ms" "roles_ok ms"
  shows "answered_by wire_calls wire_results (List.map_filter api_message ms)"
proof (rule answered_map_filter [where K = UNIV, OF assms(1)])
  have role: "roles_ok [m]" if "m \<in> set ms" for m using assms(2) that by (simp add: roles_ok_def list_all_iff)
  show "wire_calls w \<subseteq> message_uses m" if "m \<in> set ms" "api_message m = Some w" for m w
    using api_message_some [OF that(2) role [OF that(1)]] by simp
  show "message_results m \<inter> UNIV \<subseteq> (case api_message m of None \<Rightarrow> {} | Some w \<Rightarrow> wire_results w)" if "m \<in> set ms" for m
  proof (cases "api_message m")
    case (Some w)
    from api_message_some [OF this role [OF that]] Some show ?thesis by simp
  qed (simp add: api_message_none)
qed simp

lemma answered_inject:
  "answered_by wire_calls wire_results (inject_reminder render r ws) = answered_by wire_calls wire_results ws"
proof (cases "r = None \<or> ws = [] \<or> \<not> is_user_text_turn (last ws)")
  case True
  then have "inject_reminder render r ws = ws" by (auto simp: inject_reminder_def split: option.splits)
  then show ?thesis by simp
next
  case False
  then obtain reminder xs x where r: "r = Some reminder" "ws = xs @ [x]" "is_user_text_turn x"
    by (cases ws rule: rev_cases) auto
  then obtain c where c: "json_get x ''content'' = Some c" by (auto simp: is_user_text_turn_def split: option.splits)
  from r c have "inject_reminder render r ws = xs @ [json_set_existing x ''content'' (add_reminder render reminder c)]"
    by (simp add: inject_reminder_def)
  moreover have "answered_by wire_calls wire_results (xs @ [json_set_existing x ''content'' (add_reminder render reminder c)]) =
      answered_by wire_calls wire_results (xs @ [x])"
    by (rule answered_change_last) (simp_all only: wire_set_content [OF c r(3), of render reminder])
  ultimately show ?thesis by (simp only: r(2))
qed

lemma sound_request_legal:
  assumes "sound_history ms"
  shows "legal_messages (cm_messages (fst (build_api_request rp ms cfg)))"
proof -
  from assms have sound: "answered_turns ms" "roles_ok ms" by (simp_all add: sound_history_def)
  have "cm_messages (fst (build_api_request rp ms cfg)) =
      inject_reminder (rp_render rp) (snd (build_dynamic_reminder rp cfg)) (api_messages ms)"
    by (simp add: build_api_request_def split: prod.splits)
  moreover have "answered_by wire_calls wire_results (api_messages ms)"
    unfolding api_messages_def by (intro answered_api answered_fixed roles_ok_fixed sound)
  ultimately show ?thesis
    using request_paired [OF answered_settled [OF sound(1)] sound(2), of rp cfg]
    by (simp add: legal_messages_def answered_inject)
qed

section \<open>The history of a query\<close>

text \<open>Steps that keep a history sound; the collection holds what is known of each.\<close>

named_theorems keeps_sound

definition keeps :: "'tx query_state \<Rightarrow> 'tx query_state \<Rightarrow> bool" where
  "keeps st st' \<longleftrightarrow> (sound_history (qs_messages st) \<longrightarrow> sound_history (qs_messages st'))"

lemma keeps_same [keeps_sound]: "qs_messages st' = qs_messages st \<Longrightarrow> keeps st st'"
  by (simp add: keeps_def)

lemma keeps_trans: "keeps a b \<Longrightarrow> keeps b c \<Longrightarrow> keeps a c"
  by (simp add: keeps_def)

text \<open>Messages that carry no calls.\<close>

definition plain_message :: "message \<Rightarrow> bool" where
  "plain_message m \<longleftrightarrow> message_uses m = {} \<and> roles_ok [m]"

lemma roles_ok_append [simp]: "roles_ok (xs @ ys) \<longleftrightarrow> roles_ok xs \<and> roles_ok ys"
  by (simp add: roles_ok_def)

lemma roles_ok_Cons: "roles_ok (m # ms) \<longleftrightarrow> roles_ok [m] \<and> roles_ok ms"
  by (simp add: roles_ok_def)

lemma roles_ok_drop: "roles_ok ms \<Longrightarrow> roles_ok (drop k ms)"
  using set_drop_subset [of k ms] by (auto simp: roles_ok_def list_all_iff)

lemma sound_snoc: "sound_history ms \<Longrightarrow> plain_message m \<Longrightarrow> sound_history (ms @ [m])"
  by (simp add: sound_history_def plain_message_def answered_append)

lemma sound_Cons: "sound_history ms \<Longrightarrow> plain_message m \<Longrightarrow> sound_history (m # ms)"
  using roles_ok_Cons [of m ms] by (simp add: sound_history_def plain_message_def answered_Cons)

lemma sound_drop: "sound_history ms \<Longrightarrow> sound_history (drop k ms)"
  by (simp add: sound_history_def answered_drop roles_ok_drop)

lemma plain_user_text [simp]: "plain_message (user_text stamp txt)"
  by (simp add: plain_message_def user_text_def message_uses_def roles_ok_def)

lemma plain_boundary [simp]: "plain_message (boundary_message stamp txt)"
  by (simp add: plain_message_def boundary_message_def message_uses_def roles_ok_def)

lemma sound_pop_assistant: "sound_history ms \<Longrightarrow> sound_history (pop_if is_assistant ms)"
proof -
  assume sound: "sound_history ms"
  show "sound_history (pop_if is_assistant ms)"
  proof (cases "ms \<noteq> [] \<and> is_assistant (last ms)")
    case True
    then obtain xs m where ms: "ms = xs @ [m]" "is_assistant m" by (cases ms rule: rev_cases) auto
    then have "message_results m = {}" by (auto simp: is_assistant_def message_results_def split: message_content.splits)
    with sound ms show ?thesis by (auto simp: sound_history_def pop_if_def dest: answered_butlast)
  qed (use sound in \<open>auto simp: pop_if_def\<close>)
qed

lemma sound_micro: "sound_history ms \<Longrightarrow> sound_history (micro_compact render age ms cfg)"
proof -
  assume sound: "sound_history ms"
  let ?f = "micro_message render age cfg (collect_tool_names ms)" and ?k = "length ms - 4"
  let ?ids = "\<lambda>m. (message_uses m, message_results m)"
  have "roles_ok [?f m]" if "roles_ok [m]" for m
    using that by (auto simp: micro_message_def roles_ok_def set_user_blocks_def split: option.split message_content.splits json.splits)
  then have "roles_ok (map ?f (take ?k ms))" if "roles_ok (take ?k ms)"
    using that by (simp add: roles_ok_def list_all_iff)
  moreover have "roles_ok (take ?k ms) \<and> roles_ok (drop ?k ms)"
    using sound append_take_drop_id [of ?k ms] by (metis roles_ok_append sound_history_def)
  ultimately have roles: "roles_ok (micro_compact render age ms cfg)" by (simp add: micro_compact_def Let_def)
  have "answered_turns (map ?f xs @ ys) = answered_turns (xs @ ys)" for xs ys
    by (induction message_uses message_results xs rule: answered_by.induct)
      (cases ys; simp add: micro_message_ids answered_Cons)+
  from this [of "take ?k ms" "drop ?k ms"] sound roles show ?thesis
    by (simp add: sound_history_def micro_compact_def Let_def)
qed

lemma session_memory_drops:
  "session_memory_compact u now ms summary = (ms', ok) \<Longrightarrow> sound_history ms \<Longrightarrow> sound_history ms'"
  by (auto simp: session_memory_compact_def Let_def plain_message_def message_uses_def roles_ok_def
      intro!: sound_Cons sound_drop split: if_splits)

lemma reactive_drops: "sound_history ms \<Longrightarrow> sound_history (reactive_compact render ms target)"
  by (auto simp: reactive_compact_def Let_def intro: sound_drop)

lemma keeps_push: "keeps st x \<Longrightarrow> plain_message m \<Longrightarrow> keeps st (push_message m x)"
  by (simp add: keeps_def push_message_def sound_snoc)

lemma keeps_messages:
  "qs_messages (emit ev st) = qs_messages st"
  "qs_messages (progress m st) = qs_messages st"
  "qs_messages (append_transcript lc entry st) = qs_messages st"
  "qs_messages (index_message lc role txt st) = qs_messages st"
  "qs_messages (record_query_trajectory ep lc outcome st) = qs_messages st"
  "qs_messages (record_telemetry_turn ep lc d i out names st) = qs_messages st"
  "qs_messages (maybe_spawn_session_memory_update st) = qs_messages st"
  "qs_messages (finish_jobs e st) = qs_messages st"
  "qs_messages (refresh_git g st) = qs_messages st"
  "qs_messages (start_turn lc st) = qs_messages st"
  "qs_messages (feedback ep before st) = qs_messages st"
  "qs_messages (set_messages ms st) = ms"
  by (simp_all add: progress_def emit_def append_transcript_def index_message_def record_query_trajectory_def
      record_telemetry_turn_def maybe_spawn_session_memory_update_def finish_jobs_def refresh_git_def start_turn_def
      feedback_def set_messages_def Let_def split: option.split prod.split)

lemma end_turn_messages: "qs_messages (end_turn ep lc start n names st) = qs_messages st"
  by (simp add: end_turn_def Let_def keeps_messages)

lemma token_budget_messages: "qs_messages (snd (compute_token_budget ep st)) = qs_messages st"
  by (simp add: compute_token_budget_def Let_def split: option.split)

lemma keeps_warnings: "keeps st (inject_iteration_budget_warnings ep lc st)"
  by (simp add: inject_iteration_budget_warnings_def Let_def keeps_def push_message_def sound_snoc split: option.split)

lemma keeps_final_call: "keeps st (final_call ep lc st)"
  by (simp add: final_call_def keeps_push keeps_same split: option.split)

lemma keeps_budget_gate: "budget_gate ep lc st = (r, st') \<Longrightarrow> keeps st st'"
  by (auto simp: budget_gate_def keeps_push keeps_same split: if_splits)

text \<open>What a compaction leaves: the end of the history, possibly after a boundary message.\<close>

definition shrunk :: "message list \<Rightarrow> message list \<Rightarrow> bool" where
  "shrunk ms ms' \<longleftrightarrow> (\<exists>k. ms' = drop k ms) \<or> (\<exists>b k. plain_message b \<and> ms' = b # drop k ms)"

lemma shrunk_refl [simp]: "shrunk ms ms"
  by (auto simp: shrunk_def intro: exI [of _ 0])

lemma shrunk_drop [simp]: "shrunk ms (drop k ms)"
  by (auto simp: shrunk_def)

lemma shrunk_boundary [simp]: "shrunk ms (boundary_message stamp txt # drop k ms)"
  by (auto simp: shrunk_def intro!: plain_boundary)

lemma shrunk_reactive [simp]: "shrunk ms (reactive_compact render ms target)"
  by (simp add: reactive_compact_def Let_def)

lemma shrunk_drop_trans: "shrunk (drop k ms) ms' \<Longrightarrow> shrunk ms ms'"
  by (auto simp: shrunk_def drop_drop)

lemma shrunk_session: "session_memory_compact u now ms summary = (ms', ok) \<Longrightarrow> shrunk ms ms'"
  by (auto simp: session_memory_compact_def Let_def shrunk_def plain_message_def message_uses_def roles_ok_def
      split: if_splits intro: exI [of _ 0])

lemma shrunk_sound: "shrunk ms ms' \<Longrightarrow> sound_history ms \<Longrightarrow> sound_history ms'"
  by (auto simp: shrunk_def intro: sound_Cons sound_drop)

lemma shrunk_keeps: "shrunk (qs_messages st) (qs_messages st') \<Longrightarrow> keeps st st'"
  by (simp add: keeps_def shrunk_sound)

lemma compact_shrinks:
  assumes "compact_messages ep api lc keep st = (r, st')"
  shows "shrunk (qs_messages st) (qs_messages st')"
proof -
  have "shrunk (qs_messages st) (qs_messages (snd (compact_messages ep api lc keep st)))"
    by (simp add: compact_messages_def Let_def keeps_messages split: prod.split sum.split option.split)
  with assms show ?thesis by simp
qed

lemma shrunk_updates:
  "shrunk ms (qs_messages x) \<Longrightarrow> shrunk ms (qs_messages (x\<lparr>qs_fail_count := n\<rparr>))"
  "shrunk ms ms' \<Longrightarrow> shrunk ms (qs_messages (x\<lparr>qs_messages := ms', qs_clock := n\<rparr>))"
  "shrunk ms (qs_messages x) \<Longrightarrow> shrunk ms (qs_messages (feedback ep before x))"
  "shrunk ms (qs_messages x) \<Longrightarrow> shrunk ms (qs_messages (progress m x))"
  by (simp_all add: keeps_messages)

lemma enforce_shrinks: "shrunk (qs_messages st) (qs_messages (enforce_token_budget ep api lc status tokens st))"
proof -
  define st1 where "st1 = progress (''Context approaching limit ('' @ show_word tokens @ '' est. tokens), compacting...'') st"
  have st1: "qs_messages st1 = qs_messages st" by (simp add: st1_def keeps_messages)
  obtain ms ok where session: "(case qs_memory st1 of
      Some sm \<Rightarrow> session_memory_compact (fst (fresh_stamp ep st1)) (snd (fresh_stamp ep st1)) (qs_messages st1) (sm_content sm)
    | None \<Rightarrow> (qs_messages st1, False)) = (ms, ok)" by fastforce
  then have ms: "shrunk (qs_messages st) ms"
    by (cases "qs_memory st1") (auto simp: st1 dest: shrunk_session)
  obtain r st2 where compact: "compact_messages ep api lc (adaptive_keep_recent (qs_adaptive st1)) st1 = (r, st2)" by fastforce
  then have st2: "shrunk (qs_messages st) (qs_messages st2)" using compact_shrinks st1 by metis
  have "enforce_token_budget ep api lc status tokens st =
      (if status \<in> {Blocking, Compact} \<and> length (qs_messages st) > 5 then
         if qs_fail_count st1 \<ge> max_compact_failures then st1
         else if ok then feedback ep (tokens_now ep st1) (st1\<lparr>qs_messages := ms, qs_clock := Suc (qs_clock st1)\<rparr>)
         else case r of None \<Rightarrow> feedback ep (tokens_now ep st1) st2 | Some _ \<Rightarrow> st2\<lparr>qs_fail_count := Suc (qs_fail_count st2)\<rparr>
       else st)"
    unfolding enforce_token_budget_def Let_def st1_def [symmetric] session prod.case compact by (cases r) (simp_all only: prod.case option.case)
  with ms st1 st2 show ?thesis by (simp add: shrunk_updates split: option.split)
qed

lemma overflow_shrinks: "shrunk (qs_messages st) (qs_messages (overflow_shrink ep api lc st))"
proof (cases "length (qs_messages st) \<le> min (adaptive_keep_recent (qs_adaptive st)) (max (length (qs_messages st) - 2) 1)")
  case True
  then show ?thesis by (simp add: overflow_shrink_def Let_def)
next
  case False
  define k where "k = adjust_compact_split (qs_messages st)
    (length (qs_messages st) - min (adaptive_keep_recent (qs_adaptive st)) (max (length (qs_messages st) - 2) 1))"
  define request where "request = overflow_request ep lc (take k (qs_messages st))"
  define st1 where "st1 = st\<lparr>qs_summary_requests := qs_summary_requests st @ [request]\<rparr>"
  define summary where "summary = (case api request of Inl _ \<Rightarrow> None | Inr items \<Rightarrow> overflow_summary items [])"
  define recent where "recent = (if length (drop k (qs_messages st)) > 10 then reactive_compact (ep_render ep) (drop k (qs_messages st)) None
    else drop k (qs_messages st))"
  have "shrunk (qs_messages st) recent" using shrunk_drop_trans [OF shrunk_reactive] by (simp add: recent_def)
  moreover have "overflow_shrink ep api lc st = (case summary of
      Some (c # cs) \<Rightarrow> st1\<lparr>qs_messages := boundary_message (fresh_stamp ep st1) (c # cs) # drop k (qs_messages st),
                           qs_clock := Suc (qs_clock st1)\<rparr>
    | _ \<Rightarrow> set_messages recent st1)"
    unfolding overflow_shrink_def Let_def if_not_P [OF False] k_def [symmetric] request_def [symmetric] st1_def [symmetric]
      summary_def [symmetric] recent_def [symmetric] ..
  ultimately show ?thesis by (simp add: keeps_messages split: option.split list.split)
qed

text \<open>The last message is put aside while the others shrink, and appended again.\<close>

lemma shrunk_around_last:
  assumes "shrunk xs ys" "sound_history (xs @ [m])"
  shows "sound_history (ys @ [m])"
proof -
  have rest: "sound_history (drop k xs @ [m])" for k
  proof (cases "k \<le> length xs")
    case True
    with sound_drop [OF assms(2), of k] show ?thesis by simp
  next
    case False
    with sound_drop [OF assms(2), of "length xs"] show ?thesis by simp
  qed
  from assms(1) rest sound_Cons [OF rest] show ?thesis by (auto simp: shrunk_def)
qed

lemma keeps_overflow: "keeps st (context_overflow_compact ep api lc st)"
proof -
  define st1 where "st1 = emit (AssistantChunk (clamp_symbol @ '' Context window full '' @ em_dash @
                  '' auto-compacting conversation history...'' @ [CHR 0x0A]) None) st"
  define ms where "ms = pop_if is_assistant (qs_messages st1)"
  define st2 where "st2 = overflow_shrink ep api lc (set_messages (butlast ms) st1)"
  have shrinks: "shrunk (butlast ms) (qs_messages st2)"
    using overflow_shrinks [of "set_messages (butlast ms) st1" ep api lc] by (simp add: st2_def keeps_messages)
  have "sound_history (if ms = [] then qs_messages st2 else qs_messages st2 @ [last ms])" if "sound_history ms"
  proof (cases ms rule: rev_cases)
    case Nil
    with shrinks that show ?thesis by (auto intro: shrunk_sound)
  next
    case (snoc xs m)
    with shrinks that show ?thesis using shrunk_around_last [of xs "qs_messages st2" m] by simp
  qed
  moreover have "sound_history ms" if "sound_history (qs_messages st)"
    using sound_pop_assistant [OF that] by (simp add: ms_def st1_def keeps_messages)
  moreover have "qs_messages (context_overflow_compact ep api lc st) =
      (if ms = [] then qs_messages st2 else qs_messages st2 @ [last ms])"
  proof -
    have "context_overflow_compact ep api lc st = emit (AssistantChunk (check_mark @ '' Compaction complete '' @ em_dash @ '' retrying...'' @ newlines) None)
        (if ms = [] then st2 else set_messages (qs_messages st2 @ [last ms]) st2)"
      by (simp only: context_overflow_compact_def Let_def st1_def [symmetric] ms_def [symmetric] st2_def [symmetric])
    then show ?thesis by (simp add: keeps_messages)
  qed
  ultimately show ?thesis by (simp add: keeps_def)
qed

section \<open>Requests of a query\<close>

definition sent_legally :: "'tx query_state \<Rightarrow> bool" where
  "sent_legally st \<longleftrightarrow> list_all (\<lambda>req. legal_messages (cm_messages req)) (qs_requests st)"

definition good :: "'tx query_state \<Rightarrow> bool" where
  "good st \<longleftrightarrow> sound_history (qs_messages st) \<and> sent_legally st"

lemma good_step: "good st \<Longrightarrow> keeps st st' \<Longrightarrow> qs_requests st' = qs_requests st \<Longrightarrow> good st'"
  by (simp add: good_def keeps_def sent_legally_def)

lemma calm_requests: "calm st st' \<Longrightarrow> qs_requests st' = qs_requests st"
  by (simp add: calm_def same_course_def)

lemma good_calm: "good st \<Longrightarrow> keeps st st' \<Longrightarrow> calm st st' \<Longrightarrow> good st'"
  by (rule good_step) (simp_all add: calm_requests)

lemma good_called: "good st \<Longrightarrow> good (called_state ep lc model tokens st)"
  using sound_request_legal [of "qs_messages st"]
  by (simp add: good_def called_state_def keeps_messages sent_legally_def main_request_def progress_def emit_def)

lemma handler_requests:
  "qs_requests (snd (fail_call err st)) = qs_requests st"
  "qs_requests (snd (on_rate_limited st)) = qs_requests st"
  "qs_requests (snd (on_server_failure status st)) = qs_requests st"
  "qs_requests (snd (on_bad_request ep api lc m st)) = qs_requests st"
proof -
  have same: "qs_requests (emit ev st) = qs_requests st" "qs_requests (set_messages ms st) = qs_requests st"
    for ev ms and st :: "'a query_state" by (simp_all add: emit_def set_messages_def)
  show fails: "qs_requests (snd (fail_call err st)) = qs_requests st" for err and st :: "'a query_state"
    by (simp add: fail_call_def same)
  show "qs_requests (snd (on_rate_limited st)) = qs_requests st"
    by (simp add: on_rate_limited_def fails same split: option.split prod.split fallback_action.split)
  show "qs_requests (snd (on_server_failure status st)) = qs_requests st"
    by (simp add: on_server_failure_def fails same split: option.split prod.split fallback_action.split)
  have "qs_requests x = qs_requests st" if "compact_messages ep api lc k st = (r, x)" for k r x
    using that calm_requests [OF calm_compact [of st ep api lc k]] by simp
  then show "qs_requests (snd (on_bad_request ep api lc m st)) = qs_requests st"
    by (auto simp: on_bad_request_def Let_def fails same progress_def react_def feedback_def split: option.split prod.split)
qed

lemma handler_keeps:
  "fst (on_rate_limited st) = CallRetry \<Longrightarrow> keeps st (snd (on_rate_limited st))"
  "fst (on_server_failure status st) = CallRetry \<Longrightarrow> keeps st (snd (on_server_failure status st))"
  "fst (on_bad_request ep api lc m st) = CallRetry \<Longrightarrow> keeps st (snd (on_bad_request ep api lc m st))"
proof -
  show "keeps st (snd (on_rate_limited st))" if "fst (on_rate_limited st) = CallRetry"
    using that by (auto simp: on_rate_limited_def fail_call_def keeps_messages intro!: keeps_same
        split: option.splits prod.splits fallback_action.splits)
  show "keeps st (snd (on_server_failure status st))" if "fst (on_server_failure status st) = CallRetry"
    using that by (auto simp: on_server_failure_def fail_call_def keeps_messages intro!: keeps_same
        split: option.splits prod.splits fallback_action.splits if_splits)
  have "shrunk (qs_messages st) (qs_messages x)" if "compact_messages ep api lc k st = (r, x)" for k r x
    using that by (rule compact_shrinks)
  then show "keeps st (snd (on_bad_request ep api lc m st))" if "fst (on_bad_request ep api lc m st) = CallRetry"
    using that by (auto simp: on_bad_request_def Let_def fail_call_def keeps_messages react_def intro!: shrunk_keeps
        split: option.splits prod.splits if_splits)
qed

lemma call_good:
  assumes good: "good st" and ok: "controller_ok (qs_fallback st)"
    and call: "call_api_with_fallback ep main api lc tokens st = (outcome, st')"
  shows "sent_legally st' \<and> (outcome = CallRetry \<or> (\<exists>items. outcome = CallStream items) \<longrightarrow> good st')"
proof -
  obtain model where model: "current_model (qs_fallback st) = Some model" using ok by (rule controller_has_model)
  let ?mid = "called_state ep lc model tokens st" and ?r = "call_api_with_fallback ep main api lc tokens st"
  have mid: "good ?mid" using good by (rule good_called)
  have "qs_requests (snd ?r) = qs_requests ?mid"
    unfolding call_eq [OF model] by (simp add: handler_requests split: api_reply.split sum.split api_error.split)
  then have sent: "sent_legally (snd ?r)" using mid by (simp add: good_def sent_legally_def)
  have "keeps ?mid (snd ?r)" if "fst ?r = CallRetry \<or> (\<exists>items. fst ?r = CallStream items)"
    using that unfolding call_eq [OF model]
    by (auto simp: handler_keeps not_streaming keeps_same fail_call_def split: api_reply.splits sum.splits api_error.splits)
  with sent mid call show ?thesis by (auto simp: good_def keeps_def)
qed

section \<open>Answers and tool turns\<close>

lemma ingest_history:
  assumes "ingest_stream_events ep model sid turns t items ms g = (outcome, ms', g')"
  shows "(\<exists>blocks stop. outcome = IngestContinue blocks stop) \<and> ms' = ms \<or>
    outcome = IngestAborted \<and> (\<exists>u now. ms' = fst (cleanup_orphan_tool_uses u now ms)) \<or>
    (\<exists>err. outcome = IngestFatal err)"
  using assms
proof (induction ep model sid turns t items ms g rule: ingest_stream_events.induct)
  case (4 ep model sid turns t ev items ms g)
  then show ?case by (cases ev) (auto simp: Let_def)
qed (auto simp: Let_def)

lemma sound_cleanup: "sound_history ms \<Longrightarrow> sound_history (fst (cleanup_orphan_tool_uses u now ms))"
proof (cases ms rule: rev_cases)
  case (snoc xs m)
  assume "sound_history ms"
  then have "message_uses m = {}"
    using sound_drop [of ms "length xs"] snoc by (simp add: sound_history_def)
  then have "tool_use_ids (am_content am) = []" if "msg_content m = Assistant am c d" for am c d
    using that by (simp add: message_uses_def)
  with \<open>sound_history ms\<close> snoc show ?thesis
    by (simp add: cleanup_orphan_tool_uses_def split: message_content.split)
qed (simp add: cleanup_orphan_tool_uses_def)

lemma record_messages:
  "qs_messages (record_assistant_turn ep lc blocks stop st) =
     qs_messages st @ [assistant_message (fresh_stamp ep st) blocks stop (current_query_cost (qs_cost st))]"
  unfolding record_assistant_turn_def Let_def
  by (auto simp: keeps_messages push_message_def)

lemma assistant_message_ids:
  "message_uses (assistant_message stamp blocks stop cost) = set (map req_id (extract_tool_uses blocks))"
  "message_results (assistant_message stamp blocks stop cost) = {}"
  "roles_ok [assistant_message stamp blocks stop cost]"
proof -
  have "tool_use_ids blocks = map req_id (extract_tool_uses blocks)" by (induction blocks rule: tool_use_ids.induct) simp_all
  then show "message_uses (assistant_message stamp blocks stop cost) = set (map req_id (extract_tool_uses blocks))"
    by (simp add: message_uses_def assistant_message_def)
qed (simp_all add: message_results_def assistant_message_def roles_ok_def)

lemma result_message_ids:
  "message_uses (build_tool_result_message parse render stamp results) = {}"
  "message_results (build_tool_result_message parse render stamp results) = te_tool_use_id ` set results"
  "roles_ok [build_tool_result_message parse render stamp results]"
proof -
  have "result_ids (map (result_block parse render) results) = map te_tool_use_id results"
    by (induction results) (simp_all add: result_block_def is_tool_result_def get_str_def)
  then show "message_results (build_tool_result_message parse render stamp results) = te_tool_use_id ` set results"
    by (simp add: message_results_def build_tool_result_message_def extract_tool_result_ids_def)
qed (simp_all add: message_uses_def build_tool_result_message_def roles_ok_def)

text \<open>The executor may start the concurrent tools of a turn in any order, but starts all of them.\<close>

definition starts_all :: "'tx turn_env \<Rightarrow> bool" where
  "starts_all e \<longleftrightarrow> (\<forall>jobs. set (en_order e jobs) = set jobs)"

lemma fold_messages:
  assumes "\<And>x st. qs_messages (f x st) = qs_messages st"
  shows "qs_messages (fold f xs st) = qs_messages st"
  by (induction xs arbitrary: st) (simp_all add: assms)

lemma tool_turn_messages:
  assumes "starts_all e"
  shows "\<exists>parse render stamp results. qs_messages (execute_tool_turn e lc start tool_uses st) =
      qs_messages st @ [build_tool_result_message parse render stamp results] \<and>
    te_tool_use_id ` set results = req_id ` set tool_uses"
proof -
  let ?ep = "en_platform e"
  define st1 where "st1 = fold (note_tool_use ?ep lc) tool_uses st"
  obtain results shared' health where run: "run_tools e lc tool_uses st1 = (results, shared', health)" by (rule prod_cases3)
  have uses: "qs_messages st1 = qs_messages st"
    unfolding st1_def by (rule fold_messages) (simp add: note_tool_use_def keeps_messages)
  have noted: "qs_messages (fold (note_tool_result ?ep lc) results x) = qs_messages x" for x :: "'a query_state"
    by (rule fold_messages) (simp add: note_tool_result_def keeps_messages)
  have "map (\<lambda>r. (te_tool_use_id r, te_tool_name r)) results =
      map (\<lambda>req. (req_id req, answering_name (qc_tools (lc_request lc)) req)) tool_uses"
    using one_result_per_request [of "en_order e" "qc_tools (lc_request lc)" tool_uses "ep_exec ?ep" "lc_context lc" "en_clock e"
        "lc_gated lc" "en_surroundings e" "(qs_shared st1, Some (qs_health st1))"] assms run
    by (simp add: starts_all_def run_tools_def)
  from arg_cong [OF this, of "\<lambda>ps. set (map fst ps)"] have "te_tool_use_id ` set results = req_id ` set tool_uses"
    by (simp add: image_image)
  moreover have "\<exists>stamp. qs_messages (execute_tool_turn e lc start tool_uses st) =
      qs_messages st @ [build_tool_result_message (ep_parse ?ep) (ep_render ?ep) stamp results]"
    unfolding execute_tool_turn_def Let_def st1_def [symmetric] run prod.case end_turn_messages
    by (auto simp add: push_message_def noted uses simp del: split_paired_Ex)
  ultimately show ?thesis by blast
qed

lemma sound_tool_turn:
  assumes "sound_history ms" "set (map req_id (extract_tool_uses blocks)) = te_tool_use_id ` set results"
  shows "sound_history (ms @ [assistant_message stamp blocks stop cost, build_tool_result_message parse render stamp' results])"
proof -
  have "roles_ok [assistant_message stamp blocks stop cost, build_tool_result_message parse render stamp' results]"
    using assistant_message_ids(3) [of stamp blocks stop cost] result_message_ids(3) [of parse render stamp' results]
    by (simp add: roles_ok_def)
  with assms show ?thesis
    by (simp add: sound_history_def) (intro answered_snoc_pair; simp add: assistant_message_ids result_message_ids)
qed

section \<open>Every request is legal\<close>

text \<open>
  What an iteration leaves: a history from which the next one can go on, or the end of the query, and the
  history is still sound unless the query failed.
\<close>

definition leaves_good :: "'tx loop_status \<Rightarrow> bool" where
  "leaves_good res \<longleftrightarrow>
     (case res of
        Looping st \<Rightarrow> good st
      | Done st \<Rightarrow> sent_legally st \<and> (\<exists>r. last (qs_events st) = EvResult r \<and> (qr_status r \<noteq> QueryError \<longrightarrow> sound_history (qs_messages st)))
      | Panicked \<Rightarrow> True)"

lemma finish_good:
  assumes "sent_legally st" "status \<noteq> QueryError \<longrightarrow> sound_history (qs_messages st)"
  shows "leaves_good (finish_query ep lc outcome status err txt stop st)"
  using assms calm_requests [OF calm_trajectory [of st ep lc outcome]]
  by (simp add: finish_query_def leaves_good_def keeps_messages sent_legally_def send_terminal_result_def emit_def)

lemma fail_good: "sent_legally st \<Longrightarrow> leaves_good (fail_query ep lc err stop st)"
  unfolding fail_query_def by (rule finish_good) simp_all

lemma report_good: "sent_legally st \<Longrightarrow> leaves_good (report_and_fail ep lc err stop st)"
  unfolding report_and_fail_def by (rule fail_good) (simp add: sent_legally_def emit_def)

lemma good_recorded:
  assumes "good st" "extract_tool_uses blocks = []"
  shows "good (recorded e lc blocks stop st)"
proof (rule good_step [OF assms(1)])
  have "qs_messages (fresh_retries blocks st) = qs_messages st" by (simp add: fresh_retries_def)
  then show "keeps st (recorded e lc blocks stop st)"
    using assms(2) by (simp add: keeps_def recorded_def record_messages sound_snoc plain_message_def assistant_message_ids)
  show "qs_requests (recorded e lc blocks stop st) = qs_requests st"
    using calm_requests [OF calm_recorded [of blocks st e lc stop]] by (simp add: fresh_retries_def)
qed

lemma good_tools_done:
  assumes "good st" "starts_all e"
  shows "good (tools_done e lc start blocks stop st)"
proof (rule good_step [OF assms(1)])
  let ?uses = "extract_tool_uses blocks"
  obtain parse render stamp results where results: "te_tool_use_id ` set results = req_id ` set ?uses"
    "qs_messages (execute_tool_turn e lc start ?uses (recorded e lc blocks stop st)) =
      qs_messages (recorded e lc blocks stop st) @ [build_tool_result_message parse render stamp results]"
    using tool_turn_messages [OF assms(2), of lc start ?uses "recorded e lc blocks stop st"] by blast
  have "qs_messages (fresh_retries blocks st) = qs_messages st" by (simp add: fresh_retries_def)
  then have "qs_messages (tools_done e lc start blocks stop st) = qs_messages st @
      [assistant_message (fresh_stamp (en_platform e) (fresh_retries blocks st)) blocks stop (current_query_cost (qs_cost (fresh_retries blocks st))),
       build_tool_result_message parse render stamp results]"
    by (simp add: tools_done_def Let_def results(2)) (simp add: recorded_def record_messages)
  then show "keeps st (tools_done e lc start blocks stop st)"
    using results(1) by (simp add: keeps_def sound_tool_turn)
  obtain x where "calm (fresh_retries blocks st) x"
      "tools_done e lc start blocks stop st = x\<lparr>qs_turn_count := qs_turn_count x + 1\<rparr>"
    using calm_tools_done by blast
  then show "qs_requests (tools_done e lc start blocks stop st) = qs_requests st"
    by (simp add: calm_def same_course_def fresh_retries_def)
qed

lemma textual_good:
  assumes good: "good st"
  shows "leaves_good (textual_turn e lc start blocks stop st)"
proof -
  let ?ep = "en_platform e"
  have sent: "sent_legally st" using good by (simp add: good_def)
  have retry: "good (st\<lparr>qs_overflow_retries := n\<rparr>)" for n using good by (simp add: good_def sent_legally_def)
  have overflow: "leaves_good (Looping (context_overflow_compact ?ep (en_retry e) lc (st\<lparr>qs_overflow_retries := n\<rparr>)))" for n
    using good_calm [OF retry keeps_overflow calm_overflow] by (simp add: leaves_good_def)
  have empty: "leaves_good (Looping (st\<lparr>qs_empty_retries := n, qs_messages := pop_if is_assistant (qs_messages st)\<rparr>))" for n
    using good by (simp add: leaves_good_def good_def sent_legally_def sound_pop_assistant)
  have complete: "leaves_good (Done (emit (send_terminal_result ?ep c d u n QueryComplete None reply stop)
      (maybe_spawn_session_memory_update (record_query_trajectory ?ep lc outcome (end_turn ?ep lc start 0 [] st)))))" for c d u n reply outcome
  proof -
    have "calm st (maybe_spawn_session_memory_update (record_query_trajectory ?ep lc outcome (end_turn ?ep lc start 0 [] st)))"
      by (intro calm_trans [OF _ calm_spawn] calm_trans [OF _ calm_trajectory] calm_end_turn)
    from calm_requests [OF this] good show ?thesis
      by (simp add: leaves_good_def good_def sent_legally_def keeps_messages end_turn_messages send_terminal_result_def emit_def)
  qed
  show ?thesis
    unfolding textual_turn_def Let_def
    by (simp add: report_good [OF sent] overflow empty complete)
qed

lemma answered_good:
  assumes "good st" "starts_all e"
  shows "leaves_good (answered_turn e lc start blocks stop st)"
proof (cases "extract_tool_uses blocks = []")
  case True
  with textual_good [OF good_recorded [OF assms(1)]] show ?thesis by (simp add: answered_eq)
next
  case False
  let ?st = "tools_done e lc start blocks stop st"
  have "good (maybe_spawn_session_memory_update ?st)"
    by (rule good_calm [OF good_tools_done [OF assms] keeps_same calm_spawn]) (simp add: keeps_messages)
  with False show ?thesis by (simp add: answered_eq leaves_good_def)
qed

lemma streamed_good:
  assumes good: "good st" and "starts_all e"
  shows "leaves_good (streamed_turn e lc start items st)"
proof -
  let ?ep = "en_platform e"
  obtain outcome ms g where
    run: "ingest_stream_events ?ep (lc_model lc) (lc_session_id lc \<noteq> None) (qs_turn_count st) (qs_clock st) items
      (qs_messages st) (ingest_start (qs_usage st) (qs_cost st) (qs_counter st) (qs_baseline st)) = (outcome, ms, g)"
    and turn: "streamed_turn e lc start items st =
      (case outcome of IngestContinue blocks stop \<Rightarrow> answered_turn e lc start blocks stop (after_stream ms g st)
       | IngestAborted \<Rightarrow> Done (record_query_trajectory ?ep lc TrajAborted (after_stream ms g st))
       | IngestFatal err \<Rightarrow> fail_query ?ep lc err None (after_stream ms g st))"
    by (rule streamed_cases)
  note history = ingest_history [OF run]
  have sent: "sent_legally (after_stream ms g st)" using good by (simp add: good_def sent_legally_def after_stream_def)
  show ?thesis
  proof (cases outcome)
    case (IngestContinue blocks stop)
    then have "good (after_stream ms g st)"
      using history good sent by (auto simp: good_def after_stream_def)
    with answered_good [OF this assms(2)] IngestContinue show ?thesis by (simp add: turn)
  next
    case IngestAborted
    then have "sound_history ms" using history good by (auto simp: good_def intro: sound_cleanup)
    moreover have "\<exists>r. last (ig_events g) = EvResult r \<and> ig_events g \<noteq> []"
      using run IngestAborted ingest_reports [OF run] by (auto simp: send_terminal_result_def)
    ultimately show ?thesis
      using sent calm_requests [OF calm_trajectory [of "after_stream ms g st" ?ep lc TrajAborted]] IngestAborted
      by (auto simp: turn leaves_good_def sent_legally_def keeps_messages after_stream_def record_query_trajectory_def Let_def)
  next
    case (IngestFatal err)
    with fail_good [OF sent] show ?thesis by (simp add: turn)
  qed
qed

lemma called_good:
  assumes good: "good st" and "starts_all e" and ok: "controller_ok (qs_fallback st)"
  shows "leaves_good (called_turn e lc start st)"
proof -
  let ?ep = "en_platform e"
  obtain tokens st3 outcome st4 where c: "calm st st3"
    and st3: "st3 = enforce_token_budget ?ep (en_compact e) lc (fst (fst (compute_token_budget ?ep (compacted e lc st))))
       tokens (snd (compute_token_budget ?ep (compacted e lc st)))"
    and call: "call_api_with_fallback ?ep (en_main e) (en_retry e) lc tokens st3 = (outcome, st4)"
    and turn: "called_turn e lc start st = (case outcome of CallStream items \<Rightarrow> streamed_turn e lc start items st4
      | CallRetry \<Rightarrow> Looping st4 | CallFatal err \<Rightarrow> fail_query ?ep lc err None st4 | CallPanic \<Rightarrow> Panicked)"
    by (rule called_cases)
  have "keeps st (compacted e lc st)" by (simp add: keeps_def compacted_def keeps_messages sound_micro)
  moreover have "keeps (compacted e lc st) st3"
    using enforce_shrinks [of "snd (compute_token_budget ?ep (compacted e lc st))"]
    by (intro shrunk_keeps) (simp add: st3 token_budget_messages)
  ultimately have good3: "good st3" using good c by (blast intro: good_calm keeps_trans)
  from ok have "controller_ok (qs_fallback st3)" using calm_fallback [OF c] by simp
  from call_good [OF good3 this call] show ?thesis
    using streamed_good [OF _ assms(2)] fail_good by (auto simp: turn leaves_good_def [of "Looping _"] leaves_good_def [of Panicked]
        split: api_call_outcome.split)
qed

lemma loop_turn_good:
  assumes good: "good st" and starts: "starts_all e" and ok: "controller_ok (qs_fallback st)"
  shows "leaves_good (loop_turn lc e st)"
proof -
  let ?ep = "en_platform e"
  define start where "start = start_turn lc (finish_jobs e st)"
  have c: "calm st start" unfolding start_def by (rule calm_trans [OF calm_jobs calm_start])
  obtain r st1 where gate: "budget_gate ?ep lc start = (r, st1)" by fastforce
  define st2 where "st2 = inject_iteration_budget_warnings ?ep lc (refresh_git (en_git e) st1)"
  have c2: "calm st1 st2" unfolding st2_def by (rule calm_trans [OF calm_git calm_warnings])
  have start: "good start" by (rule good_calm [OF good keeps_same c]) (simp add: start_def keeps_messages)
  have "qs_requests st1 = qs_requests start" using gate by (auto simp: budget_gate_def push_message_def split: if_splits)
  from good_step [OF start keeps_budget_gate [OF gate] this] have good1: "good st1" .
  have "keeps st1 st2" unfolding st2_def by (rule keeps_trans [OF keeps_same keeps_warnings]) (simp add: keeps_messages)
  from good_calm [OF good1 this c2] have good2: "good st2" .
  have good3: "good (final_call ?ep lc st2)" by (rule good_calm [OF good2 keeps_final_call calm_final_call])
  have "controller_ok (qs_fallback (final_call ?ep lc st2))"
    using ok calm_fallback [OF c] calm_fallback [OF c2] calm_fallback [OF calm_final_call [of st2 ?ep lc]] budget_gate_calm [OF gate]
    by simp
  note called = called_good [OF good3 starts this, of lc start]
  have "sent_legally start" "sent_legally st1" "sent_legally st2" "sound_history (qs_messages st2)" "sound_history (qs_messages start)"
    using start good1 good2 by (simp_all add: good_def)
  note sent = this
  have aborted: "leaves_good (abort_query ?ep lc start)"
    unfolding abort_query_def using sent by (intro finish_good) (simp_all add: sent_legally_def sound_cleanup)
  show ?thesis
    using called aborted report_good [OF sent(2)] finish_good [OF sent(3)] sent(4)
    unfolding loop_turn_def Let_def start_def [symmetric] gate prod.case st2_def [symmetric]
    by (simp split: option.split)
qed

lemma run_loop_good:
  assumes "good st" "list_all starts_all es" "controller_ok (qs_fallback st)"
  shows "leaves_good (run_loop lc es st)"
  using assms
proof (induction es arbitrary: st)
  case (Cons e es)
  have turn: "leaves_good (loop_turn lc e st)" "turn_ok st (loop_turn lc e st)"
    using Cons.prems by (auto intro: loop_turn_good loop_turn_ok)
  show ?case
  proof (cases "loop_turn lc e st")
    case (Looping st')
    with turn have "good st'" "controller_ok (qs_fallback st')" by (simp_all add: leaves_good_def turn_ok_def)
    with Cons.IH [of st'] Cons.prems(2) Looping show ?thesis by simp
  qed (use turn in simp_all)
qed (simp add: leaves_good_def)

text \<open>
  C3. A query that starts from a history in which every tool call is answered by the next message only ever
  asks the model for a turn with legal messages: in each of these requests, the first one of every iteration and all
  its retries, each call is answered by the message right after it, and every result belongs to a call, whatever the
  model, the tools, compactions, retries and warnings do in between. Unless the query fails, it leaves a history from
  which the next query can start. Hypothesis: the executor starts all the concurrent tools of a turn. The two other
  requests of a query are not covered, those that ask for a summary during a compaction and for the session memory:
  the first carries the old messages unrepaired.
\<close>

theorem query_requests_legal:
  assumes "sound_history (qs_messages given)" "list_all starts_all es"
  shows "case run_query_loop ep lc es given of
     Looping st \<Rightarrow> list_all (\<lambda>req. legal_messages (cm_messages req)) (qs_requests st)
   | Done st \<Rightarrow> list_all (\<lambda>req. legal_messages (cm_messages req)) (qs_requests st) \<and>
       (\<exists>r. last (qs_events st) = EvResult r \<and> (qr_status r \<noteq> QueryError \<longrightarrow> sound_history (qs_messages st)))
   | Panicked \<Rightarrow> False"
proof -
  have "good (query_start ep lc given)"
    using assms(1) by (simp add: good_def query_start_fields sent_legally_def)
  then have "leaves_good (run_query_loop ep lc es given)"
    unfolding run_query_loop_def by (rule run_loop_good) (simp_all add: assms(2) query_start_fields controller_new)
  moreover have "turn_ok (query_start ep lc given) (run_query_loop ep lc es given)"
    unfolding run_query_loop_def by (rule run_loop_ok) (simp add: query_start_fields controller_new)
  ultimately show ?thesis
    by (simp add: leaves_good_def turn_ok_def good_def sent_legally_def split: loop_status.splits)
qed

text \<open>Any query that goes on after a tool turn, in surroundings that start the tools in reverse.\<close>

theorem query_requests_legal_witness:
  "\<forall>ep lc given e. case run_query_loop ep lc (replicate 3 (e\<lparr>en_order := rev\<rparr>))
       (given\<lparr>qs_messages := [sample_ask, sample_call [''x''], sample_answer [''x''], sample_ask]\<rparr>) of
     Looping st \<Rightarrow> list_all (\<lambda>req. legal_messages (cm_messages req)) (qs_requests st)
   | Done st \<Rightarrow> list_all (\<lambda>req. legal_messages (cm_messages req)) (qs_requests st)
   | Panicked \<Rightarrow> False"
proof (intro allI)
  fix ep lc and given :: "'a query_state" and e :: "'a turn_env"
  let ?ms = "[sample_ask, sample_call [''x''], sample_answer [''x''], sample_ask]"
  have "message_uses sample_ask = {}" by (simp add: message_uses_def sample_ask_def)
  moreover have "roles_ok ?ms" by (simp add: roles_ok_def sample_ask_def sample_call_def sample_answer_def)
  ultimately have sound: "sound_history (qs_messages (given\<lparr>qs_messages := ?ms\<rparr>))" by (simp add: sound_history_def)
  have "list_all starts_all (replicate 3 (e\<lparr>en_order := rev\<rparr>))" by (simp add: starts_all_def list_all_iff)
  from query_requests_legal [OF sound this, of ep lc]
  show "case run_query_loop ep lc (replicate 3 (e\<lparr>en_order := rev\<rparr>)) (given\<lparr>qs_messages := ?ms\<rparr>) of
     Looping st \<Rightarrow> list_all (\<lambda>req. legal_messages (cm_messages req)) (qs_requests st)
   | Done st \<Rightarrow> list_all (\<lambda>req. legal_messages (cm_messages req)) (qs_requests st)
   | Panicked \<Rightarrow> False"
    by (auto split: loop_status.splits)
qed

text \<open>
  C23. The exception is real: a call that times out after a tool turn drops the last user message, which is the one
  with the tool results, and leaves the turn's calls without an answer.
\<close>

theorem failed_call_unanswers:
  "qs_messages (snd (call_api_with_fallback ep (\<lambda>_. ApiTimeout) api lc tokens
     (st\<lparr>qs_messages := ms @ [sample_call [i], sample_answer [i]], qs_fallback := fallback_new config\<rparr>))) = ms @ [sample_call [i]] \<and>
   \<not> sound_history (ms @ [sample_call [i]])"
proof
  let ?st = "st\<lparr>qs_messages := ms @ [sample_call [i], sample_answer [i]], qs_fallback := fallback_new config\<rparr>"
  obtain model where "current_model (qs_fallback ?st) = Some model"
    using controller_new [of config] by (auto intro: controller_has_model)
  moreover have "is_user (sample_answer [i])" by (simp add: is_user_def sample_answer_def)
  ultimately show "qs_messages (snd (call_api_with_fallback ep (\<lambda>_. ApiTimeout) api lc tokens ?st)) = ms @ [sample_call [i]]"
    by (simp add: call_eq fail_call_def keeps_messages called_state_def pop_if_def butlast_append)
  show "\<not> sound_history (ms @ [sample_call [i]])"
    using sound_drop [of "ms @ [sample_call [i]]" "length ms"] by (auto simp: sound_history_def)
qed

end
