(* ===== verification/Bao_QueryLimits.thy ===== *)
theory Bao_QueryLimits
  imports Bao_QuerySafety
begin

text \<open>
  Where the guards of the query loop end: two kinds of answers that keep a query running forever, in spite of
  every turn limit and budget, and what compaction does to what the model gets to see.
\<close>

section \<open>Queries without an end\<close>

text \<open>An answer that has written some text when it reports that the context window is exceeded.\<close>

definition cut_off_answer :: "string \<Rightarrow> stream_item list" where
  "cut_off_answer t =
     [Event (ContentBlockStart 0 (JObject [(''type'', JString ''text'')])),
      Event (ContentBlockDelta 0 (JObject [(''text'', JString t), (''type'', JString ''text_delta'')])),
      Event (ContentBlockStop 0),
      Event (MessageDelta (JObject [(''stop_reason'', JString overflow_stop)]) (JObject [])),
      Event MessageStop]"

text \<open>
  The model either always cuts its answer off like this, or always refuses the request as too long while
  the compaction that follows succeeds.
\<close>

definition endless :: "'tx turn_env \<Rightarrow> bool" where
  "endless e \<longleftrightarrow> \<not> en_aborted e \<and>
     ((\<forall>req. \<exists>t. t \<noteq> [] \<and> en_main e req = ApiAnswer (Inr (cut_off_answer t))) \<or>
      (\<forall>req. \<exists>m. looks_like_overflow m \<and> en_main e req = ApiAnswer (Inl (BadRequest m))) \<and>
      (\<forall>req. \<exists>items s. en_retry e req = Inr items \<and> collect_summary items [] = Some s))"

lemma cut_off_ingested:
  assumes "t \<noteq> []"
  shows "\<exists>g'. ingest_stream_events ep model sid turns n (cut_off_answer t) ms (ingest_start u c tc b) =
    (IngestContinue [Text t] (Some overflow_stop), ms, g')"
  using assms
  by (simp add: cut_off_answer_def ingest_start_def block_start_def block_delta_def block_stop_def message_delta_def spend_def
      str_or_empty_def get_str_def Let_def)

text \<open>The state between two such iterations.\<close>

definition unstarted :: "'tx query_state \<Rightarrow> bool" where
  "unstarted st \<longleftrightarrow> controller_ok (qs_fallback st) \<and> qs_turn_count st = 0 \<and> qs_grace_turn st \<in> {None, Some 0}"

lemma cut_off_streamed:
  assumes "t \<noteq> []"
  shows "\<exists>st'. streamed_turn e lc start (cut_off_answer t) st = Looping st' \<and>
    qs_turn_count st' = qs_turn_count st \<and> qs_grace_turn st' = qs_grace_turn st"
proof -
  obtain outcome ms g where
    run: "ingest_stream_events (en_platform e) (lc_model lc) (lc_session_id lc \<noteq> None) (qs_turn_count st) (qs_clock st) (cut_off_answer t)
      (qs_messages st) (ingest_start (qs_usage st) (qs_cost st) (qs_counter st) (qs_baseline st)) = (outcome, ms, g)"
    and turn: "streamed_turn e lc start (cut_off_answer t) st =
      (case outcome of IngestContinue blocks stop \<Rightarrow> answered_turn e lc start blocks stop (after_stream ms g st)
       | IngestAborted \<Rightarrow> Done (record_query_trajectory (en_platform e) lc TrajAborted (after_stream ms g st))
       | IngestFatal err \<Rightarrow> fail_query (en_platform e) lc err None (after_stream ms g st))"
    by (rule streamed_cases)
  let ?st = "recorded e lc [Text t] (Some overflow_stop) (after_stream ms g st)"
  let ?next = "?st\<lparr>qs_overflow_retries := qs_overflow_retries ?st + 1\<rparr>"
  from cut_off_ingested [OF assms] run have outcome: "outcome = IngestContinue [Text t] (Some overflow_stop)" by (metis fst_conv)
  have c: "calm (fresh_retries [Text t] (after_stream ms g st)) ?st" by (rule calm_recorded)
  then have zero: "qs_overflow_retries ?st = 0" by (simp add: calm_def same_course_def fresh_retries_def)
  have "streamed_turn e lc start (cut_off_answer t) st = textual_turn e lc start [Text t] (Some overflow_stop) ?st"
    by (simp add: turn outcome answered_eq)
  also have "\<dots> = Looping (context_overflow_compact (en_platform e) (en_retry e) lc ?next)"
    using zero by (simp add: textual_turn_def Let_def overflow_stop_def max_overflow_compact_retries_def)
  finally show ?thesis
    using c calm_overflow [of ?next "en_platform e" "en_retry e" lc]
    by (simp add: calm_def same_course_def fresh_retries_def after_stream_def)
qed

lemma refused_call:
  assumes "looks_like_overflow m" "\<forall>req. \<exists>items s. api req = Inr items \<and> collect_summary items [] = Some s"
  shows "\<exists>st'. on_bad_request ep api lc m st = (CallRetry, st')"
proof -
  have "\<exists>st'. compact_messages ep api lc k st = (None, st')" for k
  proof -
    obtain request th where request: "compaction_request ep lc (take (adjust_compact_split (qs_messages st) (length (qs_messages st) - k))
        (qs_messages st)) st = (request, th)" by fastforce
    from assms(2) obtain items s where "api request = Inr items" "collect_summary items [] = Some s" by blast
    then show ?thesis by (simp add: compact_messages_def Let_def request)
  qed
  then obtain st' where "compact_messages ep api lc (adaptive_keep_recent (qs_adaptive st)) st = (None, st')" by blast
  with assms(1) show ?thesis by (simp add: on_bad_request_def Let_def)
qed

lemma endless_called:
  assumes "endless e" "controller_ok (qs_fallback st)"
  shows "\<exists>st'. called_turn e lc start st = Looping st' \<and>
    qs_turn_count st' = qs_turn_count st \<and> qs_grace_turn st' = qs_grace_turn st"
proof -
  obtain tokens st3 outcome st4 where c: "calm st st3"
    and call: "call_api_with_fallback (en_platform e) (en_main e) (en_retry e) lc tokens st3 = (outcome, st4)"
    and turn: "called_turn e lc start st = (case outcome of CallStream items \<Rightarrow> streamed_turn e lc start items st4
      | CallRetry \<Rightarrow> Looping st4 | CallFatal err \<Rightarrow> fail_query (en_platform e) lc err None st4 | CallPanic \<Rightarrow> Panicked)"
    by (rule called_cases)
  from assms(2) have ok3: "controller_ok (qs_fallback st3)" using calm_fallback [OF c] by simp
  then obtain model where model: "current_model (qs_fallback st3) = Some model" by (rule controller_has_model)
  have counters: "same_counters st st4"
    using call_never_stuck [OF ok3, of "en_main e" "en_platform e" "en_retry e" lc tokens] c
    by (auto simp: call call_ok_def intro: same_counters_trans calm_counters)
  let ?req = "main_request (en_platform e) lc model st3"
  from assms(1) consider (cut_off) t where "t \<noteq> []" "en_main e ?req = ApiAnswer (Inr (cut_off_answer t))"
    | (refused) m where "looks_like_overflow m" "en_main e ?req = ApiAnswer (Inl (BadRequest m))"
        "\<forall>req. \<exists>items s. en_retry e req = Inr items \<and> collect_summary items [] = Some s"
    unfolding endless_def by meson
  then consider t where "t \<noteq> []" "outcome = CallStream (cut_off_answer t)" | "outcome = CallRetry"
  proof cases
    case (cut_off t)
    with call that(1) show ?thesis by (simp add: call_eq [OF model])
  next
    case (refused m)
    obtain st' where "on_bad_request (en_platform e) (en_retry e) lc m (called_state (en_platform e) lc model tokens st3) = (CallRetry, st')"
      using refused_call [OF refused(1,3)] by blast
    with refused(2) call that(2) show ?thesis by (simp add: call_eq [OF model])
  qed
  then show ?thesis
  proof cases
    case 1
    with cut_off_streamed [of t e lc start st4] counters show ?thesis by (auto simp: turn same_counters_def)
  qed (use turn counters in \<open>simp add: same_counters_def\<close>)
qed

lemma endless_turn:
  assumes "endless e" "unstarted st"
  shows "\<exists>st'. loop_turn lc e st = Looping st' \<and> unstarted st'"
proof -
  let ?ep = "en_platform e"
  define start where "start = start_turn lc (finish_jobs e st)"
  have c: "calm st start" unfolding start_def by (rule calm_trans [OF calm_jobs calm_start])
  then have start: "qs_turn_count start = 0" "qs_grace_turn start \<in> {None, Some 0}"
    using assms(2) by (simp_all add: unstarted_def calm_def same_course_def)
  then have "fst (budget_gate ?ep lc start) = None \<and> qs_grace_turn (snd (budget_gate ?ep lc start)) \<in> {None, Some 0}"
    by (auto simp: budget_gate_def past_grace_def push_message_def)
  then obtain st1 where gate: "budget_gate ?ep lc start = (None, st1)" "qs_grace_turn st1 \<in> {None, Some 0}"
    by (cases "budget_gate ?ep lc start") auto
  define st2 where "st2 = inject_iteration_budget_warnings ?ep lc (refresh_git (en_git e) st1)"
  have c2: "calm st1 st2" unfolding st2_def by (rule calm_trans [OF calm_git calm_warnings])
  let ?st3 = "final_call ?ep lc st2"
  note c3 = calm_final_call [of st2 ?ep lc]
  have st3: "qs_turn_count ?st3 = 0" "qs_grace_turn ?st3 \<in> {None, Some 0}" "qs_fallback ?st3 = qs_fallback st" "qs_turn_count st2 = 0"
    using c c2 c3 start budget_gate_calm [OF gate(1)] gate(2) by (simp_all add: calm_def same_course_def)
  then have ok: "controller_ok (qs_fallback ?st3)" using assms(2) by (simp add: unstarted_def)
  from endless_called [OF assms(1) ok, of lc start] st3 obtain st' where
    "called_turn e lc start ?st3 = Looping st'" "qs_turn_count st' = 0" "qs_grace_turn st' \<in> {None, Some 0}" by auto
  moreover have "\<not> over_limit lc st2" using st3(4) by (simp add: over_limit_def split: option.split)
  ultimately have looping: "loop_turn lc e st = Looping st'" and counters: "qs_turn_count st' = 0" "qs_grace_turn st' \<in> {None, Some 0}"
    using assms(1) unfolding loop_turn_def Let_def start_def [symmetric] gate(1) prod.case option.case st2_def [symmetric]
    by (simp_all add: endless_def)
  have "controller_ok (qs_fallback st')"
    using loop_turn_ok [of st lc e] assms(2) looping by (simp add: unstarted_def turn_ok_def)
  with looping counters show ?thesis by (simp add: unstarted_def)
qed

lemma endless_run: "list_all endless es \<Longrightarrow> unstarted st \<Longrightarrow> \<exists>st'. run_loop lc es st = Looping st'"
proof (induction es arbitrary: st)
  case (Cons e es)
  then obtain st' where "loop_turn lc e st = Looping st'" "unstarted st'" using endless_turn by fastforce
  with Cons show ?case by simp
qed simp

text \<open>
  C21. Both conditions of \<open>query_terminates\<close> are needed. A model that reports an exceeded window in answers with
  text resets the counter of overflow retries each time, and a request refused as too long is compacted and
  repeated without being counted; neither counts as a turn, so no turn limit and no cost or token budget ever
  ends the query, for any number of iterations.
\<close>

theorem impolite_model_never_stops:
  assumes "list_all endless es"
  shows "\<exists>st. run_query_loop ep lc es given = Looping st"
  unfolding run_query_loop_def
  by (rule endless_run [OF assms]) (simp add: unstarted_def query_start_fields controller_new)

theorem impolite_model_never_stops_witness:
  "\<forall>ep lc given e. \<exists>st. run_query_loop ep (lc\<lparr>lc_max_turns := Some 1\<rparr>)
     (replicate 100 (e\<lparr>en_aborted := False, en_main := \<lambda>_. ApiAnswer (Inr (cut_off_answer ''so''))\<rparr>)) given = Looping st"
  by (intro allI impolite_model_never_stops) (auto simp: list_all_iff endless_def intro!: exI [of _ "''so''"])

section \<open>What compaction leaves for the model\<close>

text \<open>
  C22. The summary of a compacted history is in no later request for a turn: a successful compaction through the model
  puts it into a boundary message, and the messages of every later request for a turn, whatever has been added to the
  history by then, are those of a request that is built from the kept messages alone. Only the prompt of a later
  compaction, or of an update of the session memory, which lists the history as text, can show it to a model.
\<close>

theorem summary_never_sent:
  assumes "compact_messages ep api lc keep st = (None, st')" "keep < length (qs_messages st)"
  defines "kept \<equiv> drop (adjust_compact_split (qs_messages st) (length (qs_messages st) - keep)) (qs_messages st)"
  shows "(\<exists>b summary. qs_messages st' = b # kept \<and> msg_content b = System CompactBoundary summary) \<and>
    api_messages (qs_messages st' @ later) = api_messages (kept @ later)"
proof -
  obtain request th where request: "compaction_request ep lc (take (adjust_compact_split (qs_messages st) (length (qs_messages st) - keep))
        (qs_messages st)) st = (request, th)" by fastforce
  obtain b summary where shape: "qs_messages st' = b # kept" "msg_content b = System CompactBoundary summary"
    using assms(1,2) by (auto simp: compact_messages_def Let_def request kept_def progress_def emit_def boundary_message_def
        split: sum.splits option.splits)
  with system_message_dropped [OF shape(2), of "kept @ later"] show ?thesis by auto
qed

text \<open>
  Between the warning and the blocking threshold nothing is compacted, although the estimate is above the
  lower compaction threshold.
\<close>

lemma warning_band_not_compacted:
  assumes "warning_threshold tc < est" "est \<le> blocking_threshold tc"
  shows "enforce_token_budget ep api lc (budget_status_given fp tc est) tokens st = st"
  using assms by (simp add: budget_status_given_def enforce_token_budget_def)

text \<open>When the compaction threshold is not below the warning threshold, only blocking ever compacts.\<close>

lemma compact_band_empty:
  assumes "warning_threshold tc \<le> compact_threshold fp tc"
  shows "budget_status_given fp tc est \<noteq> Compact"
  using assms by (auto simp: budget_status_given_def)

text \<open>A compaction of a history of seven messages that keeps five of them.\<close>

theorem summary_never_sent_witness:
  "\<forall>ep lc st. \<exists>st' b summary. compact_messages ep (\<lambda>_. Inr [Event (ContentBlockDelta 0 (JObject [(''text'', JString ''gist'')]))]) lc 5
      (st\<lparr>qs_messages := replicate 7 sample_ask\<rparr>) = (None, st') \<and>
    qs_messages st' = b # replicate 5 sample_ask \<and> msg_content b = System CompactBoundary summary \<and>
    api_messages (qs_messages st') = api_messages (replicate 5 sample_ask)"
proof (intro allI)
  fix ep lc and st :: "'a query_state"
  let ?api = "\<lambda>_. Inr [Event (ContentBlockDelta 0 (JObject [(''text'', JString ''gist'')]))]"
  let ?st = "st\<lparr>qs_messages := replicate 7 sample_ask\<rparr>"
  obtain request th where request: "compaction_request ep lc (take (adjust_compact_split (qs_messages ?st) (length (qs_messages ?st) - 5))
        (qs_messages ?st)) ?st = (request, th)" by fastforce
  then have "\<exists>st'. compact_messages ep ?api lc 5 ?st = (None, st')" by (simp add: compact_messages_def Let_def str_or_empty_def get_str_def)
  then obtain st' where st': "compact_messages ep ?api lc 5 ?st = (None, st')" by blast
  have kept: "drop (adjust_compact_split (qs_messages ?st) (length (qs_messages ?st) - 5)) (qs_messages ?st) = replicate 5 sample_ask"
    by (simp add: adjust_compact_split_def sample_ask_def)
  from summary_never_sent [OF st', of "[]"] show "\<exists>st' b summary. compact_messages ep ?api lc 5 ?st = (None, st') \<and>
    qs_messages st' = b # replicate 5 sample_ask \<and> msg_content b = System CompactBoundary summary \<and>
    api_messages (qs_messages st') = api_messages (replicate 5 sample_ask)"
    using st' unfolding kept by auto
qed

end
