(* ===== verification/Bao_Tasks.thy ===== *)
theory Bao_Tasks
  imports Bao_QuerySafety
begin

text \<open>
  \<open>engine/task_manager.rs\<close>: background tasks, each of which runs a query of its own. A task reads the events of
  its query (\<open>collect_events\<close>) and records the outcome; callers create, stop and list tasks meanwhile. Each access
  under one lock is one step of the relation \<open>task_step\<close>, so stopping a task takes two. The resources that are
  copied into the task's engine are part of the query's configuration and not repeated here.
\<close>

section \<open>Data\<close>

datatype bg_task_status = BgRunning | BgCompleted | BgFailed string | BgAborted

record background_task =
  bt_id :: string
  bt_description :: string
  bt_status :: bg_task_status
  bt_created_at :: string
  bt_completed_at :: "string option"
  bt_result :: "string option"

text \<open>The abort channel of a task is its latest value.\<close>

record task_manager =
  tm_tasks :: "(string, background_task) hash_map"
  tm_abort_handles :: "(string, bool) hash_map"

definition task_manager_new :: task_manager where
  "task_manager_new = \<lparr>tm_tasks = [], tm_abort_handles = []\<rparr>"

section \<open>Operations\<close>

text \<open>The registration of a task; its id and the time are arguments.\<close>

definition create_task :: "string \<Rightarrow> string \<Rightarrow> string \<Rightarrow> task_manager \<Rightarrow> task_manager" where
  "create_task i now description tm =
     tm\<lparr>tm_tasks := hm_insert i \<lparr>bt_id = i, bt_description = description, bt_status = BgRunning, bt_created_at = now,
            bt_completed_at = None, bt_result = None\<rparr> (tm_tasks tm),
        tm_abort_handles := hm_insert i False (tm_abort_handles tm)\<rparr>"

text \<open>The spawned task reads events until the first result or error, or until the channel is closed.\<close>

fun collect_events :: "engine_event list \<Rightarrow> string \<Rightarrow> string \<times> string option" where
  "collect_events [] final_text = (final_text, None)"
| "collect_events (AssistantChunk content _ # evs) final_text = collect_events evs (final_text @ content)"
| "collect_events (EvResult r # _) final_text = ((case qr_text r of Some t \<Rightarrow> t | None \<Rightarrow> final_text), None)"
| "collect_events (EvError err # _) final_text = (final_text, Some (ee_message err))"
| "collect_events (_ # evs) final_text = collect_events evs final_text"

definition finish_task :: "string \<times> string option \<Rightarrow> string \<Rightarrow> background_task \<Rightarrow> background_task" where
  "finish_task outcome now task =
     (if bt_status task = BgAborted then task
      else case snd outcome of
             Some err \<Rightarrow> task\<lparr>bt_status := BgFailed err, bt_completed_at := Some now\<rparr>
           | None \<Rightarrow> task\<lparr>bt_status := BgCompleted, bt_result := Some (fst outcome), bt_completed_at := Some now\<rparr>)"

definition update_status :: "string \<Rightarrow> string \<times> string option \<Rightarrow> string \<Rightarrow> task_manager \<Rightarrow> task_manager" where
  "update_status i outcome now tm =
     (case hm_get (tm_tasks tm) i of
        Some task \<Rightarrow> tm\<lparr>tm_tasks := hm_insert i (finish_task outcome now task) (tm_tasks tm)\<rparr>
      | None \<Rightarrow> tm)"

definition clean_up :: "string \<Rightarrow> task_manager \<Rightarrow> task_manager" where
  "clean_up i tm = tm\<lparr>tm_abort_handles := hm_remove i (tm_abort_handles tm)\<rparr>"

definition list_tasks :: "task_manager \<Rightarrow> background_task list" where
  "list_tasks tm = hm_values (tm_tasks tm)"

definition get_task_status :: "string \<Rightarrow> task_manager \<Rightarrow> background_task option" where
  "get_task_status i tm = hm_get (tm_tasks tm) i"

text \<open>
  Stopping a task: the signal, which is delivered as long as the task holds its receiver, that is until it has
  removed its handle; and then the mark, with the answer of \<open>stop_task\<close>.
\<close>

definition stop_signal :: "string \<Rightarrow> task_manager \<Rightarrow> bool \<times> task_manager" where
  "stop_signal i tm =
     (if hm_contains (tm_abort_handles tm) i
      then (True, tm\<lparr>tm_abort_handles := hm_insert i True (tm_abort_handles tm)\<rparr>) else (False, tm))"

definition stop_mark :: "string \<Rightarrow> string \<Rightarrow> bool \<Rightarrow> task_manager \<Rightarrow> bool \<times> task_manager" where
  "stop_mark i now sent tm =
     (case hm_get (tm_tasks tm) i of
        Some task \<Rightarrow>
          if bt_status task = BgRunning
          then (True, tm\<lparr>tm_tasks := hm_insert i (task\<lparr>bt_status := BgAborted, bt_completed_at := Some now\<rparr>) (tm_tasks tm)\<rparr>)
          else (sent, tm)
      | None \<Rightarrow> (sent, tm))"

section \<open>Interleavings\<close>

text \<open>
  A world is the manager, the spawned tasks by what they still have to do, and the stops that are between
  their two steps, with what their signal answered.
\<close>

datatype task_phase = Reading | Updated

record task_world =
  tw_manager :: task_manager
  tw_phase :: "string \<rightharpoonup> task_phase"
  tw_stops :: "(string \<times> bool) list"

definition empty_world :: task_world where
  "empty_world = \<lparr>tw_manager = task_manager_new, tw_phase = Map.empty, tw_stops = []\<rparr>"

datatype task_event =
    Created string
  | Signalled string
  | StopAnswered string bool
  | StatusUpdated string "string \<times> string option"
  | CleanedUp string

inductive task_step :: "task_world \<Rightarrow> task_event \<Rightarrow> task_world \<Rightarrow> bool" where
  created: "hm_get (tm_tasks (tw_manager w)) i = None \<Longrightarrow>
    task_step w (Created i) (w\<lparr>tw_manager := create_task i now description (tw_manager w), tw_phase := (tw_phase w)(i \<mapsto> Reading)\<rparr>)"
| signalled: "stop_signal i (tw_manager w) = (sent, tm) \<Longrightarrow>
    task_step w (Signalled i) (w\<lparr>tw_manager := tm, tw_stops := (i, sent) # tw_stops w\<rparr>)"
| answered: "(i, sent) \<in> set (tw_stops w) \<Longrightarrow> stop_mark i now sent (tw_manager w) = (answer, tm) \<Longrightarrow>
    task_step w (StopAnswered i answer) (w\<lparr>tw_manager := tm, tw_stops := remove1 (i, sent) (tw_stops w)\<rparr>)"
| updated: "tw_phase w i = Some Reading \<Longrightarrow> outcome = collect_events evs [] \<Longrightarrow>
    task_step w (StatusUpdated i outcome)
      (w\<lparr>tw_manager := update_status i outcome now (tw_manager w), tw_phase := (tw_phase w)(i \<mapsto> Updated)\<rparr>)"
| cleaned: "tw_phase w i = Some Updated \<Longrightarrow>
    task_step w (CleanedUp i) (w\<lparr>tw_manager := clean_up i (tw_manager w), tw_phase := (tw_phase w)(i := None)\<rparr>)"

inductive_cases task_stepE: "task_step w ev w'"

inductive task_run :: "task_world \<Rightarrow> task_event list \<Rightarrow> task_world \<Rightarrow> bool" where
  task_run_refl: "task_run w [] w"
| task_run_step: "task_step w ev w' \<Longrightarrow> task_run w' evs w'' \<Longrightarrow> task_run w (ev # evs) w''"

section \<open>The state of every task\<close>

definition task_ok :: "task_manager \<Rightarrow> string \<Rightarrow> task_phase option \<Rightarrow> bool" where
  "task_ok tm i phase \<longleftrightarrow>
     (case hm_get (tm_tasks tm) i of
        None \<Rightarrow> phase = None
      | Some task \<Rightarrow> bt_id task = i \<and> (bt_completed_at task = None \<longleftrightarrow> bt_status task = BgRunning) \<and>
          (bt_result task \<noteq> None \<longleftrightarrow> bt_status task = BgCompleted) \<and>
          (case phase of Some Reading \<Rightarrow> bt_status task \<in> {BgRunning, BgAborted} | _ \<Rightarrow> bt_status task \<noteq> BgRunning)) \<and>
     (hm_contains (tm_abort_handles tm) i \<longleftrightarrow> phase \<noteq> None)"

definition tasks_ok :: "task_world \<Rightarrow> bool" where
  "tasks_ok w \<longleftrightarrow> (\<forall>i. task_ok (tw_manager w) i (tw_phase w i))"

text \<open>Looking at one task after an operation on another, or on the same one.\<close>

lemma manager_gets:
  "hm_get (tm_tasks (create_task i now d tm)) j =
     (if j = i then Some \<lparr>bt_id = i, bt_description = d, bt_status = BgRunning, bt_created_at = now, bt_completed_at = None, bt_result = None\<rparr>
      else hm_get (tm_tasks tm) j)"
  "hm_get (tm_abort_handles (create_task i now d tm)) j = (if j = i then Some False else hm_get (tm_abort_handles tm) j)"
  "hm_get (tm_tasks (clean_up i tm)) j = hm_get (tm_tasks tm) j"
  "hm_get (tm_abort_handles (clean_up i tm)) j = (if j = i then None else hm_get (tm_abort_handles tm) j)"
  "hm_get (tm_tasks (update_status i outcome now tm)) j =
     (if j = i then map_option (finish_task outcome now) (hm_get (tm_tasks tm) i) else hm_get (tm_tasks tm) j)"
  "tm_abort_handles (update_status i outcome now tm) = tm_abort_handles tm"
  by (auto simp: create_task_def clean_up_def update_status_def hm_get_insert hm_get_remove split: option.split)

lemma signal_gets:
  "stop_signal i tm = (sent, tm') \<Longrightarrow> tm_tasks tm' = tm_tasks tm \<and>
    (hm_contains (tm_abort_handles tm') j \<longleftrightarrow> hm_contains (tm_abort_handles tm) j)"
  by (auto simp: stop_signal_def hm_get_insert split: if_splits)

lemma mark_gets:
  assumes "stop_mark i now sent tm = (answer, tm')"
  shows "hm_get (tm_tasks tm') j =
      (case hm_get (tm_tasks tm) j of
         Some task \<Rightarrow> Some (if j = i \<and> bt_status task = BgRunning
           then task\<lparr>bt_status := BgAborted, bt_completed_at := Some now\<rparr> else task)
       | None \<Rightarrow> None) \<and> tm_abort_handles tm' = tm_abort_handles tm"
  using assms by (auto simp: stop_mark_def hm_get_insert split: option.splits if_splits)

lemma task_step_ok:
  assumes "task_step w ev w'" "tasks_ok w"
  shows "tasks_ok w'"
  using assms
proof (induction rule: task_step.induct)
  case (created w i now description)
  then show ?case by (auto simp: tasks_ok_def task_ok_def manager_gets)
next
  case (signalled i w sent tm)
  from signal_gets [OF signalled(1)] signalled(2) show ?case by (simp add: tasks_ok_def task_ok_def)
next
  case (answered i sent w now answer tm)
  then have ok: "task_ok (tw_manager w) j (tw_phase w j)" for j by (simp add: tasks_ok_def)
  have "task_ok tm j (tw_phase w j)" for j
    using mark_gets [OF answered(2), of j] ok [of j] by (cases "hm_get (tm_tasks (tw_manager w)) j")
      (auto simp: task_ok_def split: option.splits task_phase.splits)
  then show ?case by (simp add: tasks_ok_def)
next
  case (updated w i outcome evs now)
  then have ok: "task_ok (tw_manager w) j (tw_phase w j)" for j by (simp add: tasks_ok_def)
  have "task_ok (update_status i outcome now (tw_manager w)) j (((tw_phase w)(i \<mapsto> Updated)) j)" for j
    using ok [of j] updated(1) by (auto simp: task_ok_def manager_gets finish_task_def split: option.splits)
  then show ?case by (simp add: tasks_ok_def)
next
  case (cleaned w i)
  then have ok: "task_ok (tw_manager w) j (tw_phase w j)" for j by (simp add: tasks_ok_def)
  have "task_ok (clean_up i (tw_manager w)) j (((tw_phase w)(i := None)) j)" for j
    using ok [of j] cleaned(1) by (auto simp: task_ok_def manager_gets split: option.splits)
  then show ?case by (simp add: tasks_ok_def)
qed

lemma empty_world_ok: "tasks_ok empty_world"
  by (simp add: tasks_ok_def task_ok_def empty_world_def task_manager_new_def)

lemma task_run_ok: "task_run w evs w' \<Longrightarrow> tasks_ok w \<Longrightarrow> tasks_ok w'"
  by (induction rule: task_run.induct) (auto intro: task_step_ok)

lemma settled_step:
  assumes "task_step w ev w'" "tasks_ok w" "get_task_status i (tw_manager w) = Some task" "bt_status task \<noteq> BgRunning"
  shows "get_task_status i (tw_manager w') = Some task"
  using assms
proof (induction rule: task_step.induct)
  case (signalled j w sent tm)
  with signal_gets [OF signalled(1)] show ?case by (simp add: get_task_status_def)
next
  case (answered j sent w now answer tm)
  with mark_gets [OF answered(2), of i] show ?case by (simp add: get_task_status_def)
next
  case (updated w j outcome evs now)
  then have "task_ok (tw_manager w) j (Some Reading)" by (metis tasks_ok_def)
  then have "i = j \<Longrightarrow> bt_status task = BgAborted" using updated(4,5) by (auto simp: get_task_status_def task_ok_def)
  with updated(4) show ?case by (cases "i = j") (simp_all add: get_task_status_def manager_gets finish_task_def)
next
  case (created w j now description)
  then have "i \<noteq> j" by (auto simp: get_task_status_def)
  with created(3) show ?case by (simp add: get_task_status_def manager_gets)
qed (simp add: get_task_status_def manager_gets)

text \<open>
  C27. In every interleaving of creations, under fresh ids, stops and finishing tasks, a task that is no longer running
  never changes again: a finished task is not turned into an aborted one, an aborted one keeps its status when its
  query delivers a result later, and its completion time and result stay.
\<close>

theorem settled_tasks_stay:
  assumes "task_run empty_world evs w" "task_run w evs' w'"
    and "get_task_status i (tw_manager w) = Some task" "bt_status task \<noteq> BgRunning"
  shows "get_task_status i (tw_manager w') = Some task"
proof -
  have "tasks_ok w" using task_run_ok [OF assms(1) empty_world_ok] .
  with assms(2-4) show ?thesis
    by (induction rule: task_run.induct) (auto intro: settled_step task_step_ok)
qed

text \<open>
  A run in which a stop sends its signal, the task then finishes on its own, and the stop completes.
\<close>

definition late_stop :: "task_event list" where
  "late_stop = [Created ''1'', Signalled ''1'', StatusUpdated ''1'' (''done'', None), StopAnswered ''1'' True]"

lemma late_stop_runs:
  "\<exists>w task. task_run empty_world late_stop w \<and> get_task_status ''1'' (tw_manager w) = Some task \<and> bt_status task = BgCompleted"
proof -
  define tm where "tm = create_task ''1'' ''t'' ''d'' task_manager_new"
  define sent where "sent = snd (stop_signal ''1'' tm)"
  define ended where "ended = update_status ''1'' (''done'', None) ''u'' sent"
  let ?w = "\<lambda>m p s. \<lparr>tw_manager = m, tw_phase = p, tw_stops = s\<rparr>"
  have signal: "stop_signal ''1'' tm = (True, sent)"
    by (simp add: sent_def stop_signal_def tm_def manager_gets)
  have task: "get_task_status ''1'' ended = Some (finish_task (''done'', None) ''u''
      \<lparr>bt_id = ''1'', bt_description = ''d'', bt_status = BgRunning, bt_created_at = ''t'', bt_completed_at = None, bt_result = None\<rparr>)"
    using signal_gets [OF signal] by (simp add: get_task_status_def ended_def manager_gets tm_def)
  then have mark: "stop_mark ''1'' ''v'' True ended = (True, ended)"
    by (simp add: stop_mark_def get_task_status_def finish_task_def)
  have "task_step (?w task_manager_new Map.empty []) (Created ''1'') (?w tm [''1'' \<mapsto> Reading] [])"
    using created [of "?w task_manager_new Map.empty []" "''1''" "''t''" "''d''"] by (simp add: task_manager_new_def tm_def)
  moreover have "task_step (?w tm [''1'' \<mapsto> Reading] []) (Signalled ''1'') (?w sent [''1'' \<mapsto> Reading] [(''1'', True)])"
    using signalled [of "''1''" "?w tm [''1'' \<mapsto> Reading] []"] signal by simp
  moreover have "task_step (?w sent [''1'' \<mapsto> Reading] [(''1'', True)]) (StatusUpdated ''1'' (''done'', None))
      (?w ended [''1'' \<mapsto> Updated] [(''1'', True)])"
    using updated [of "?w sent [''1'' \<mapsto> Reading] [(''1'', True)]" "''1''" "(''done'', None)" "[AssistantChunk ''done'' None]" "''u''"]
    by (simp add: ended_def)
  moreover have "task_step (?w ended [''1'' \<mapsto> Updated] [(''1'', True)]) (StopAnswered ''1'' True) (?w ended [''1'' \<mapsto> Updated] [])"
    using answered [of "''1''" True "?w ended [''1'' \<mapsto> Updated] [(''1'', True)]"] mark by simp
  ultimately have "task_run empty_world late_stop (?w ended [''1'' \<mapsto> Updated] [])"
    unfolding late_stop_def empty_world_def by (blast intro: task_run_step task_run_refl)
  with task show ?thesis by (auto simp: finish_task_def)
qed

text \<open>
  The answer of \<open>stop_task\<close> does not say that the task was stopped: there is a run in which it is true and the
  task has completed on its own, because the signal is answered before the status is looked at.
\<close>

lemma stop_can_miss:
  "\<exists>evs w task. task_run empty_world (evs @ [StopAnswered ''1'' True]) w \<and>
     get_task_status ''1'' (tw_manager w) = Some task \<and> bt_status task = BgCompleted"
proof -
  have "late_stop = [Created ''1'', Signalled ''1'', StatusUpdated ''1'' (''done'', None)] @ [StopAnswered ''1'' True]"
    by (simp add: late_stop_def)
  with late_stop_runs show ?thesis by metis
qed

theorem settled_tasks_stay_witness:
  "\<exists>w task. task_run empty_world late_stop w \<and> get_task_status ''1'' (tw_manager w) = Some task \<and> bt_status task = BgCompleted \<and>
     (\<forall>evs' w'. task_run w evs' w' \<longrightarrow> get_task_status ''1'' (tw_manager w') = Some task)"
proof -
  obtain w task where run: "task_run empty_world late_stop w" "get_task_status ''1'' (tw_manager w) = Some task" "bt_status task = BgCompleted"
    using late_stop_runs by blast
  with settled_tasks_stay [OF run(1) _ run(2)] show ?thesis by auto
qed

section \<open>What a task makes of its query\<close>

definition chunks :: "engine_event list \<Rightarrow> string list" where
  "chunks evs = List.map_filter (\<lambda>ev. case ev of AssistantChunk c _ \<Rightarrow> Some c | _ \<Rightarrow> None) evs"

lemma collect_quiet:
  "list_all (\<lambda>ev. \<not> is_final ev) evs \<Longrightarrow> collect_events (evs @ rest) acc = collect_events rest (acc @ concat (chunks evs))"
proof (induction evs arbitrary: acc)
  case (Cons ev evs)
  then show ?case by (cases ev) (simp_all add: chunks_def)
qed (simp add: chunks_def)

lemma chunks_append: "chunks (xs @ ys) = chunks xs @ chunks ys"
  by (induction xs) (auto simp: chunks_def split: engine_event.split)

lemma chunks_final: "chunks [EvResult r] = []" "chunks [EvError err, EvResult r] = []"
  by (simp_all add: chunks_def)

text \<open>
  A background task reports its query faithfully as far as failure goes: it ends as failed exactly when the
  query reports an error, with that error's message. Every other end of the query, also one at its turn limit,
  counts as completed, with the text of the result or else all the text that was streamed.
\<close>

lemma task_mirrors_query:
  fixes now :: string
  assumes "run_query_loop ep lc es given = Done st" "bt_status task = BgRunning"
  defines "task' \<equiv> finish_task (collect_events (qs_events st) []) now task"
  shows "\<exists>r. last (qs_events st) = EvResult r \<and> (qr_status r = QueryError \<longleftrightarrow> qr_error r \<noteq> None) \<and>
    bt_status task' = (case qr_error r of Some err \<Rightarrow> BgFailed (ee_message err) | None \<Rightarrow> BgCompleted) \<and>
    (qr_error r = None \<longrightarrow> bt_result task' = Some (case qr_text r of Some t \<Rightarrow> t | None \<Rightarrow> concat (chunks (qs_events st))))"
proof -
  have "turn_ok (query_start ep lc given) (run_query_loop ep lc es given)"
    unfolding run_query_loop_def by (rule run_loop_ok) (simp add: query_start_fields controller_new)
  then obtain mid evs where "quiet_step (query_start ep lc given) mid" "closing evs" "qs_events st = qs_events mid @ evs"
    using assms(1) by (auto simp: turn_ok_def)
  then obtain pre where pre: "list_all (\<lambda>ev. \<not> is_final ev) pre" "qs_events st = pre @ evs" "closing evs"
    by (auto simp: quiet_step_def query_start_fields)
  have chunks: "chunks (qs_events st) = chunks pre" using pre(3) by (auto simp: pre(2) closing_def chunks_append chunks_final)
  have read: "collect_events (qs_events st) [] = collect_events evs (concat (chunks pre))"
    using collect_quiet [OF pre(1), of evs "[]"] by (simp add: pre(2))
  from pre(3) show ?thesis
    unfolding closing_def task'_def read chunks
    by (elim disjE exE conjE) (simp_all add: pre(2) finish_task_def assms(2))
qed

lemma task_mirrors_query_witness:
  "\<forall>ep lc given e. \<exists>st r. run_query_loop ep lc [e\<lparr>en_aborted := True\<rparr>] given = Done st \<and> last (qs_events st) = EvResult r \<and>
    bt_status (finish_task (collect_events (qs_events st) []) ''now''
      \<lparr>bt_id = ''1'', bt_description = ''d'', bt_status = BgRunning, bt_created_at = ''t'', bt_completed_at = None, bt_result = None\<rparr>) =
    (case qr_error r of Some err \<Rightarrow> BgFailed (ee_message err) | None \<Rightarrow> BgCompleted)"
proof (intro allI)
  fix ep lc and given :: "'a query_state" and e :: "'a turn_env"
  let ?task = "\<lparr>bt_id = ''1'', bt_description = ''d'', bt_status = BgRunning, bt_created_at = ''t'', bt_completed_at = None, bt_result = None\<rparr>"
  obtain st where st: "run_query_loop ep lc [e\<lparr>en_aborted := True\<rparr>] given = Done st"
    by (simp add: run_query_loop_def loop_turn_def Let_def abort_query_def finish_query_def)
  from task_mirrors_query [OF st, of ?task "''now''"] st show "\<exists>st r. run_query_loop ep lc [e\<lparr>en_aborted := True\<rparr>] given = Done st \<and>
      last (qs_events st) = EvResult r \<and>
      bt_status (finish_task (collect_events (qs_events st) []) ''now'' ?task) =
      (case qr_error r of Some err \<Rightarrow> BgFailed (ee_message err) | None \<Rightarrow> BgCompleted)"
    by auto
qed

end
