(* ===== verification/Bao_ModelRouter.thy ===== *)
theory Bao_ModelRouter
  imports Bao_Budget Bao_Text "HOL-Library.List_Lexorder" "HOL-Library.Product_Lexorder"
begin

text \<open>
  \<open>engine/model_router\<close>: the rules that choose a model for a prompt, and the daily and monthly budgets. The hour
  and the date are arguments, and so are the formatting of money and whether the budget file can be written.
\<close>

section \<open>Models and rules\<close>

record model_info =
  mi_name :: string
  mi_provider :: string
  mi_max_tokens :: u64
  mi_cost_per_1k_input :: f64
  mi_cost_per_1k_output :: f64
  mi_capabilities :: "string list"
  mi_priority :: int

definition model_info_new :: "string \<Rightarrow> string \<Rightarrow> u64 \<Rightarrow> f64 \<Rightarrow> f64 \<Rightarrow> model_info" where
  "model_info_new n provider max_tokens input output =
     \<lparr>mi_name = n, mi_provider = provider, mi_max_tokens = max_tokens, mi_cost_per_1k_input = input,
      mi_cost_per_1k_output = output, mi_capabilities = [], mi_priority = 0\<rparr>"

definition with_capabilities :: "string list \<Rightarrow> model_info \<Rightarrow> model_info" where
  "with_capabilities caps m = m\<lparr>mi_capabilities := caps\<rparr>"

definition with_model_priority :: "int \<Rightarrow> model_info \<Rightarrow> model_info" where
  "with_model_priority p m = m\<lparr>mi_priority := p\<rparr>"

definition has_capability :: "string \<Rightarrow> model_info \<Rightarrow> bool" where
  "has_capability cap m \<longleftrightarrow> list_ex (\<lambda>c. c = cap) (mi_capabilities m)"

text \<open>1000.0.\<close>

definition estimate_cost :: "ieee \<Rightarrow> u64 \<Rightarrow> u64 \<Rightarrow> model_info \<Rightarrow> f64" where
  "estimate_cost fp input output m =
     (let input_cost = f_mul fp (f_div fp (f_of_u64 fp input) 0x408F400000000000) (mi_cost_per_1k_input m);
          output_cost = f_mul fp (f_div fp (f_of_u64 fp output) 0x408F400000000000) (mi_cost_per_1k_output m)
      in f_add fp input_cost output_cost)"

datatype route_condition =
    TaskComplexity f64 f64
  | MessageLength nat nat
  | FileCount nat nat
  | TimeOfDay u32 u32
  | Always

fun condition_matches :: "ieee \<Rightarrow> string \<Rightarrow> nat \<Rightarrow> f64 \<Rightarrow> u32 \<Rightarrow> route_condition \<Rightarrow> bool" where
  "condition_matches fp prompt file_count complexity hour (TaskComplexity lo hi) \<longleftrightarrow> f_le fp lo complexity \<and> f_le fp complexity hi"
| "condition_matches fp prompt file_count complexity hour (MessageLength lo hi) \<longleftrightarrow>
     (let n = chars_count prompt in lo \<le> n \<and> n \<le> hi)"
| "condition_matches fp prompt file_count complexity hour (FileCount lo hi) \<longleftrightarrow> lo \<le> file_count \<and> file_count \<le> hi"
| "condition_matches fp prompt file_count complexity hour (TimeOfDay from to) \<longleftrightarrow>
     (if from \<le> to then from \<le> hour \<and> hour \<le> to else from \<le> hour \<or> hour \<le> to)"
| "condition_matches fp prompt file_count complexity hour Always \<longleftrightarrow> True"

record routing_rule =
  rr_id :: string
  rr_description :: string
  rr_condition :: route_condition
  rr_target_model :: string
  rr_priority :: int
  rr_enabled :: bool

record routing_decision =
  rd_selected_model :: string
  rd_reason :: string
  rd_confidence :: f64

section \<open>The router\<close>

record model_router =
  mr_models :: "model_info list"
  mr_rules :: "routing_rule list"

text \<open>0.003 and 0.015, 0.015 and 0.075, 0.0008 and 0.004.\<close>

definition model_router_new :: model_router where
  "model_router_new =
     \<lparr>mr_models =
        [with_model_priority 10 (with_capabilities [''code'', ''reasoning'', ''vision'', ''tool_use'']
           (model_info_new ''claude-sonnet-4-20250514'' ''anthropic'' 200000 0x3F689374BC6A7EFA 0x3F8EB851EB851EB8)),
         with_model_priority 5 (with_capabilities [''code'', ''reasoning'', ''vision'', ''tool_use'', ''advanced_reasoning'']
           (model_info_new ''claude-opus-4-20250514'' ''anthropic'' 200000 0x3F8EB851EB851EB8 0x3FB3333333333333)),
         with_model_priority 1 (with_capabilities [''code'', ''tool_use'', ''fast'']
           (model_info_new ''claude-3-5-haiku-20241022'' ''anthropic'' 200000 0x3F4A36E2EB1C432D 0x3F70624DD2F1A9FC))],
      mr_rules = []\<rparr>"

text \<open>The first entry with the same key is replaced; a new key goes to the end.\<close>

fun put_by :: "('a \<Rightarrow> 'k) \<Rightarrow> 'a \<Rightarrow> 'a list \<Rightarrow> 'a list" where
  "put_by key x [] = [x]"
| "put_by key x (y # ys) = (if key y = key x then x # ys else y # put_by key x ys)"

definition add_model :: "model_info \<Rightarrow> model_router \<Rightarrow> model_router" where
  "add_model m r = r\<lparr>mr_models := put_by mi_name m (mr_models r)\<rparr>"

definition remove_model :: "string \<Rightarrow> model_router \<Rightarrow> bool \<times> model_router" where
  "remove_model n r =
     (let ms = filter (\<lambda>m. mi_name m \<noteq> n) (mr_models r)
      in (length ms < length (mr_models r), r\<lparr>mr_models := ms\<rparr>))"

definition add_routing_rule :: "routing_rule \<Rightarrow> model_router \<Rightarrow> model_router" where
  "add_routing_rule rule r = r\<lparr>mr_rules := put_by rr_id rule (mr_rules r)\<rparr>"

definition remove_routing_rule :: "string \<Rightarrow> model_router \<Rightarrow> bool \<times> model_router" where
  "remove_routing_rule i r =
     (let rs = filter (\<lambda>rule. rr_id rule \<noteq> i) (mr_rules r)
      in (length rs < length (mr_rules r), r\<lparr>mr_rules := rs\<rparr>))"

definition set_rules :: "routing_rule list \<Rightarrow> model_router \<Rightarrow> model_router" where
  "set_rules rules r = r\<lparr>mr_rules := rules\<rparr>"

definition get_model :: "string \<Rightarrow> model_router \<Rightarrow> model_info option" where
  "get_model n r = List.find (\<lambda>m. mi_name m = n) (mr_models r)"

definition rule_order :: "routing_rule \<Rightarrow> int \<times> string" where
  "rule_order rule = (- rr_priority rule, rr_id rule)"

text \<open>\<open>max_by_key\<close> answers the last of the greatest elements.\<close>

fun max_by_key :: "('a \<Rightarrow> int) \<Rightarrow> 'a list \<Rightarrow> 'a option" where
  "max_by_key key [] = None"
| "max_by_key key (x # xs) =
     (case max_by_key key xs of None \<Rightarrow> Some x | Some y \<Rightarrow> if key x \<le> key y then Some y else Some x)"

text \<open>0.85 and 0.5.\<close>

definition route :: "ieee \<Rightarrow> string \<Rightarrow> nat \<Rightarrow> f64 \<Rightarrow> u32 \<Rightarrow> model_router \<Rightarrow> routing_decision" where
  "route fp prompt file_count complexity hour r =
     (let sorted_rules = sort_key rule_order (filter rr_enabled (mr_rules r));
          applies = (\<lambda>rule. condition_matches fp prompt file_count complexity hour (rr_condition rule) \<and>
            get_model (rr_target_model rule) r \<noteq> None)
      in case List.find applies sorted_rules of
           Some rule \<Rightarrow> \<lparr>rd_selected_model = rr_target_model rule,
             rd_reason = ''Rule '' @ [CHR 0x27] @ rr_id rule @ [CHR 0x27] @ '': '' @ rr_description rule,
             rd_confidence = 0x3FEB333333333333\<rparr>
         | None \<Rightarrow> \<lparr>rd_selected_model = (case max_by_key mi_priority (mr_models r) of
               Some m \<Rightarrow> mi_name m | None \<Rightarrow> ''claude-sonnet-4-20250514''),
             rd_reason = ''No rules matched; using default highest-priority model'', rd_confidence = 0x3FE0000000000000\<rparr>)"

section \<open>Budgets\<close>

datatype budget_result = Affordable | BudgetWarning string | Blocked string

record date =
  d_year :: int
  d_month :: u32
  d_day :: u32

record budget_manager =
  daily_limit :: f64
  monthly_limit :: f64
  current_daily :: f64
  current_monthly :: f64
  last_daily_reset_day :: u32
  last_monthly_reset_month :: u32
  last_reset_year :: int

definition budget_manager_new :: "date \<Rightarrow> f64 \<Rightarrow> f64 \<Rightarrow> budget_manager" where
  "budget_manager_new today daily monthly =
     \<lparr>daily_limit = daily, monthly_limit = monthly, current_daily = 0, current_monthly = 0,
      last_daily_reset_day = d_day today, last_monthly_reset_month = d_month today, last_reset_year = d_year today\<rparr>"

text \<open>10.0 and 200.0.\<close>

definition default_spending_budget :: "date \<Rightarrow> budget_manager" where
  "default_spending_budget today = budget_manager_new today 0x4024000000000000 0x4069000000000000"

definition ensure_reset :: "date \<Rightarrow> budget_manager \<Rightarrow> budget_manager" where
  "ensure_reset today b =
     (let b1 = (if d_month today \<noteq> last_monthly_reset_month b \<or> d_year today \<noteq> last_reset_year b
                then b\<lparr>current_monthly := 0, last_monthly_reset_month := d_month today\<rparr> else b);
          b2 = (if d_day today \<noteq> last_daily_reset_day b1 \<or> d_month today \<noteq> last_monthly_reset_month b1 \<or> d_year today \<noteq> last_reset_year b1
                then b1\<lparr>current_daily := 0, last_daily_reset_day := d_day today\<rparr> else b1)
      in b2\<lparr>last_reset_year := d_year today\<rparr>)"

text \<open>\<open>a - b\<close> is \<open>a + (-b)\<close>; a negation flips the sign bit.\<close>

definition f_sub :: "ieee \<Rightarrow> f64 \<Rightarrow> f64 \<Rightarrow> f64" where
  "f_sub fp a b = f_add fp a (xor b 0x8000000000000000)"

text \<open>0.7, 0.3 and 0.9.\<close>

definition can_afford ::
  "ieee \<Rightarrow> (nat \<Rightarrow> f64 \<Rightarrow> string) \<Rightarrow> date \<Rightarrow> model_info \<Rightarrow> u64 \<Rightarrow> budget_manager \<Rightarrow> budget_result \<times> budget_manager" where
  "can_afford fp money today m estimated_tokens b0 =
     (let b = ensure_reset today b0;
          input = f_to_u64 fp (f_mul fp (f_of_u64 fp estimated_tokens) 0x3FE6666666666666);
          output = f_to_u64 fp (f_mul fp (f_of_u64 fp estimated_tokens) 0x3FD3333333333333);
          cost = estimate_cost fp input output m;
          projected = f_add fp (current_daily b) cost
      in (if f_less fp 0 (monthly_limit b) \<and> f_less fp (monthly_limit b) (f_add fp (current_monthly b) cost) then
            Blocked (''Monthly budget exceeded: $'' @ money 2 (current_monthly b) @ '' spent of $'' @ money 2 (monthly_limit b) @
              '' limit, estimated $'' @ money 4 cost @ '' for this request'')
          else if f_less fp 0 (daily_limit b) then
            if f_le fp (daily_limit b) (current_daily b) then
              Blocked (''Daily budget exhausted: $'' @ money 2 (current_daily b) @ '' of $'' @ money 2 (daily_limit b))
            else if f_less fp (f_mul fp (daily_limit b) 0x3FECCCCCCCCCCCCD) projected \<and> f_le fp projected (daily_limit b) then
              BudgetWarning (''Approaching daily budget limit: $'' @ money 2 (current_daily b) @ '' / $'' @ money 2 (daily_limit b) @
                '' ($'' @ money 4 (f_sub fp (daily_limit b) (current_daily b)) @ '' remaining)'')
            else if f_less fp (daily_limit b) projected then
              Blocked (''Daily budget would be exceeded: $'' @ money 2 (current_daily b) @ '' spent + $'' @ money 4 cost @
                '' estimated > $'' @ money 2 (daily_limit b) @ '' limit'')
            else Affordable
          else Affordable, b))"

text \<open>The budget file: its content as it is read back, or that it is missing or does not parse.\<close>

datatype budget_file = NoFile | BadFile | BudgetFile budget_manager

definition budget_save :: "bool \<Rightarrow> budget_manager \<Rightarrow> budget_file \<Rightarrow> budget_file" where
  "budget_save written b file = (if written then BudgetFile b else file)"

definition record_cost :: "ieee \<Rightarrow> date \<Rightarrow> bool \<Rightarrow> f64 \<Rightarrow> budget_manager \<times> budget_file \<Rightarrow> budget_manager \<times> budget_file" where
  "record_cost fp today written cost bf =
     (let b = ensure_reset today (fst bf);
          b' = b\<lparr>current_daily := f_add fp (current_daily b) cost, current_monthly := f_add fp (current_monthly b) cost\<rparr>
      in (b', budget_save written b' (snd bf)))"

definition remaining_daily :: "ieee \<Rightarrow> budget_manager \<Rightarrow> f64" where
  "remaining_daily fp b = (let x = f_sub fp (daily_limit b) (current_daily b) in if f_le fp 0 x then x else 0)"

definition remaining_monthly :: "ieee \<Rightarrow> budget_manager \<Rightarrow> f64" where
  "remaining_monthly fp b = (let x = f_sub fp (monthly_limit b) (current_monthly b) in if f_le fp 0 x then x else 0)"

definition budget_load :: "date \<Rightarrow> bool \<Rightarrow> budget_file \<Rightarrow> budget_manager \<times> budget_file" where
  "budget_load today written file =
     (case file of
        BudgetFile b \<Rightarrow> (ensure_reset today b, file)
      | BadFile \<Rightarrow> (default_spending_budget today, file)
      | NoFile \<Rightarrow> (default_spending_budget today, budget_save written (default_spending_budget today) file))"

section \<open>What is shown\<close>

lemma max_by_key_best: "max_by_key key xs = Some x \<Longrightarrow> x \<in> set xs \<and> (\<forall>y\<in>set xs. key y \<le> key x)"
proof (induction xs arbitrary: x)
  case (Cons y ys)
  show ?case
  proof (cases "max_by_key key ys")
    case None
    then have "ys = []" by (cases ys) (auto split: option.splits if_splits)
    with Cons.prems show ?thesis by simp
  next
    case (Some z)
    with Cons.IH [OF Some] Cons.prems show ?thesis by (auto split: if_splits)
  qed
qed simp

lemma max_by_key_none: "max_by_key key xs = None \<longleftrightarrow> xs = []"
  by (cases xs) (auto split: option.splits if_splits)

lemma find_sorted_least:
  assumes "List.find P (sort_key k xs) = Some x"
  shows "x \<in> set xs \<and> P x \<and> (\<forall>y\<in>set xs. P y \<longrightarrow> k x \<le> k y)"
proof -
  have "sorted (map k (sort_key k xs))" by simp
  moreover from assms obtain i where i: "i < length (sort_key k xs)" "P (sort_key k xs ! i)" "x = sort_key k xs ! i"
      "\<forall>j<i. \<not> P (sort_key k xs ! j)" by (auto simp: find_Some_iff)
  moreover have "k x \<le> k y" if "y \<in> set xs" "P y" for y
  proof -
    from that obtain j where j: "j < length (sort_key k xs)" "y = sort_key k xs ! j"
      by (metis in_set_conv_nth set_sort)
    with i that have "i \<le> j" by (meson not_le)
    with \<open>sorted (map k (sort_key k xs))\<close> i j show ?thesis by (simp add: sorted_iff_nth_mono)
  qed
  ultimately show ?thesis by (metis nth_mem set_sort)
qed

text \<open>
  C28. The router obeys the best rule: among the enabled rules that match and whose model is known, one of the
  highest priority (the one with the least id, in byte order) decides, and its model is a known one; without such
  a rule the known model of the highest priority is chosen, and a built-in name only when there are no models.
\<close>

theorem route_best:
  fixes fp :: ieee and prompt :: string and file_count :: nat and complexity :: f64 and hour :: u32
  defines "applies \<equiv> \<lambda>r rule. rr_enabled rule \<and> condition_matches fp prompt file_count complexity hour (rr_condition rule) \<and>
    rr_target_model rule \<in> mi_name ` set (mr_models r)"
  shows "(\<exists>rule\<in>set (mr_rules r). applies r rule \<and>
      rd_selected_model (route fp prompt file_count complexity hour r) = rr_target_model rule \<and>
      (\<forall>other\<in>set (mr_rules r). applies r other \<longrightarrow>
         rr_priority other < rr_priority rule \<or> rr_priority other = rr_priority rule \<and> rr_id rule \<le> rr_id other)) \<or>
    (\<forall>rule\<in>set (mr_rules r). \<not> applies r rule) \<and>
     (if mr_models r = [] then rd_selected_model (route fp prompt file_count complexity hour r) = ''claude-sonnet-4-20250514''
      else \<exists>m\<in>set (mr_models r). rd_selected_model (route fp prompt file_count complexity hour r) = mi_name m \<and>
        (\<forall>m'\<in>set (mr_models r). mi_priority m' \<le> mi_priority m))"
proof -
  define P where "P = (\<lambda>rule :: routing_rule. condition_matches fp prompt file_count complexity hour (rr_condition rule) \<and>
            get_model (rr_target_model rule) r \<noteq> None)"
  have known: "get_model n r \<noteq> None \<longleftrightarrow> n \<in> mi_name ` set (mr_models r)" for n
    by (auto simp: get_model_def find_None_iff)
  have P: "rr_enabled rule \<and> P rule \<longleftrightarrow> applies r rule" for rule :: routing_rule by (simp only: P_def applies_def known)
  show ?thesis
  proof (cases "List.find P (sort_key rule_order (filter rr_enabled (mr_rules r)))")
    case (Some rule)
    from find_sorted_least [OF Some] have best: "rule \<in> set (mr_rules r)" "applies r rule"
      "\<And>other. other \<in> set (mr_rules r) \<Longrightarrow> applies r other \<Longrightarrow> rule_order rule \<le> rule_order other"
      by (auto simp flip: P)
    have "rr_priority other < rr_priority rule \<or> rr_priority other = rr_priority rule \<and> rr_id rule \<le> rr_id other"
      if "other \<in> set (mr_rules r)" "applies r other" for other :: routing_rule
      using best(3) [OF that] by (auto simp: rule_order_def less_eq_prod_def)
    moreover have "rd_selected_model (route fp prompt file_count complexity hour r) = rr_target_model rule"
      using Some by (simp add: route_def P_def)
    ultimately show ?thesis using best(1,2) by blast
  next
    case None
    then have "\<forall>rule\<in>set (mr_rules r). \<not> applies r rule" by (auto simp: find_None_iff simp flip: P)
    moreover have "rd_selected_model (route fp prompt file_count complexity hour r) =
        (case max_by_key mi_priority (mr_models r) of Some m \<Rightarrow> mi_name m | None \<Rightarrow> ''claude-sonnet-4-20250514'')"
      using None by (simp add: route_def P_def)
    ultimately show ?thesis
      using max_by_key_best [of mi_priority "mr_models r"] max_by_key_none [of mi_priority "mr_models r"]
      by (cases "max_by_key mi_priority (mr_models r)") auto
  qed
qed

text \<open>A rule for the night beats the default model.\<close>

theorem route_best_witness:
  "\<forall>fp. rd_selected_model (route fp ''hi'' 0 0 23
     (add_routing_rule \<lparr>rr_id = ''night'', rr_description = [], rr_condition = TimeOfDay 22 6,
        rr_target_model = ''claude-3-5-haiku-20241022'', rr_priority = 1, rr_enabled = True\<rparr> model_router_new)) = ''claude-3-5-haiku-20241022''"
proof
  fix fp :: ieee
  let ?r = "add_routing_rule \<lparr>rr_id = ''night'', rr_description = [], rr_condition = TimeOfDay 22 6,
        rr_target_model = ''claude-3-5-haiku-20241022'', rr_priority = 1, rr_enabled = True\<rparr> model_router_new"
  show "rd_selected_model (route fp ''hi'' 0 0 23 ?r) = ''claude-3-5-haiku-20241022''"
    using route_best [of ?r fp "''hi''" 0 0 23]
    by (simp add: add_routing_rule_def model_router_new_def with_model_priority_def with_capabilities_def model_info_new_def)
qed

text \<open>
  What \<open>ensure_reset\<close> does on a given day, exactly: the monthly counter restarts in every new month, but the
  daily counter only when the day of the month or the year is another one. On the same day of the next month
  the money spent a month ago still counts as spent today.
\<close>

lemma daily_reset_exact:
  "current_monthly (ensure_reset today b) =
     (if d_month today = last_monthly_reset_month b \<and> d_year today = last_reset_year b then current_monthly b else 0) \<and>
   current_daily (ensure_reset today b) =
     (if d_day today = last_daily_reset_day b \<and> d_year today = last_reset_year b then current_daily b else 0)"
  by (simp add: ensure_reset_def Let_def)

end
