(* ===== verification/Bao_Sse.thy ===== *)
theory Bao_Sse
  imports Bao_Stream
begin

text \<open>
  \<open>api/client.rs\<close>: the server-sent events of an answer. Bytes arrive in chunks that may end anywhere, also inside
  a UTF-8 sequence; the stream decodes them, cuts the text into blocks at empty lines and reads one event from
  each. HTTP itself is not modelled; the JSON parser and the texts of its errors are arguments.
\<close>

section \<open>Decoding UTF-8\<close>

text \<open>
  \<open>std::str::from_utf8\<close>: the ranges of the bytes that may follow a leading byte, and what the beginning of a
  text is: a scalar value of so many bytes, the beginning of one, or bytes that no text begins with.
\<close>

definition following :: "nat \<Rightarrow> (nat \<times> nat) list option" where
  "following b =
     (if b < 0x80 then Some []
      else if 0xC2 \<le> b \<and> b \<le> 0xDF then Some [(0x80, 0xBF)]
      else if b = 0xE0 then Some [(0xA0, 0xBF), (0x80, 0xBF)]
      else if b = 0xED then Some [(0x80, 0x9F), (0x80, 0xBF)]
      else if 0xE1 \<le> b \<and> b \<le> 0xEF then Some [(0x80, 0xBF), (0x80, 0xBF)]
      else if b = 0xF0 then Some [(0x90, 0xBF), (0x80, 0xBF), (0x80, 0xBF)]
      else if 0xF1 \<le> b \<and> b \<le> 0xF3 then Some [(0x80, 0xBF), (0x80, 0xBF), (0x80, 0xBF)]
      else if b = 0xF4 then Some [(0x80, 0x8F), (0x80, 0xBF), (0x80, 0xBF)]
      else None)"

datatype scan = Scalar nat | Truncated | Invalid nat

fun follow :: "nat \<Rightarrow> (nat \<times> nat) list \<Rightarrow> string \<Rightarrow> scan" where
  "follow k [] cs = Scalar k"
| "follow k (r # rs) [] = Truncated"
| "follow k (r # rs) (c # cs) = (if fst r \<le> byte c \<and> byte c \<le> snd r then follow (Suc k) rs cs else Invalid k)"

fun first_scalar :: "string \<Rightarrow> scan" where
  "first_scalar [] = Truncated"
| "first_scalar (c # cs) = (case following (byte c) of None \<Rightarrow> Invalid 1 | Some rs \<Rightarrow> follow 1 rs cs)"

lemma follow_bounds: "follow k rs cs = Scalar n \<Longrightarrow> k \<le> n \<and> n \<le> k + length cs"
  by (induction k rs cs rule: follow.induct) (auto split: if_splits)

lemma follow_positive: "follow k rs cs = Invalid n \<Longrightarrow> 0 < k \<Longrightarrow> 0 < n"
  by (induction k rs cs rule: follow.induct) (auto split: if_splits)

text \<open>The valid beginning of a text, the rest, and the length of the bytes that are wrong, if any are.\<close>

function utf8_split :: "string \<Rightarrow> string \<times> string \<times> nat option" where
  "utf8_split s =
     (case first_scalar s of
        Scalar k \<Rightarrow> (case utf8_split (drop k s) of (v, r, e) \<Rightarrow> (take k s @ v, r, e))
      | Truncated \<Rightarrow> ([], s, None)
      | Invalid k \<Rightarrow> ([], s, Some k))"
  by pat_completeness auto
termination
proof (relation "measure length", goal_cases)
  case (2 s k)
  then show ?case by (cases s) (auto split: option.splits dest: follow_bounds)
qed simp

declare utf8_split.simps [simp del]

definition valid_utf8 :: "string \<Rightarrow> bool" where
  "valid_utf8 s \<longleftrightarrow> fst (snd (utf8_split s)) = []"

section \<open>Events\<close>

text \<open>
  Reading an \<open>ApiStreamEvent\<close>, an internally tagged enumeration: its variant is the string at \<open>type\<close> and its fields
  are those of the object; serde also takes them by position from an array.
\<close>

definition event_tag :: "json \<Rightarrow> string option" where
  "event_tag v = (case v of JObject _ \<Rightarrow> get_str v ''type'' | JArray (JString t # _) \<Rightarrow> Some t | _ \<Rightarrow> None)"

definition variant_fields :: "string list \<Rightarrow> json \<Rightarrow> json list option" where
  "variant_fields names v =
     (case v of
        JObject _ \<Rightarrow> those (map (json_get v) names)
      | JArray (_ # xs) \<Rightarrow> if length xs = length names then Some xs else None
      | _ \<Rightarrow> None)"

definition json_u32 :: "json \<Rightarrow> u32 option" where
  "json_u32 v = (case v of JNumber (PosInt n) \<Rightarrow> if n < 0x100000000 then Some (ucast n) else None | _ \<Rightarrow> None)"

definition error_detail :: "json \<Rightarrow> (string \<times> string) option" where
  "error_detail v =
     (case (case v of JArray xs \<Rightarrow> if length xs = 2 then Some xs else None | _ \<Rightarrow> variant_fields [''type'', ''message''] v) of
        Some [JString t, JString m] \<Rightarrow> Some (t, m) | _ \<Rightarrow> None)"

definition event_of_json :: "json \<Rightarrow> api_stream_event option" where
  "event_of_json v =
     (case event_tag v of
        None \<Rightarrow> None
      | Some t \<Rightarrow>
          if t = ''message_start'' then (case variant_fields [''message''] v of Some [m] \<Rightarrow> Some (MessageStart m) | _ \<Rightarrow> None)
          else if t = ''content_block_start'' then
            (case variant_fields [''index'', ''content_block''] v of
               Some [i, b] \<Rightarrow> map_option (\<lambda>n. ContentBlockStart n b) (json_u32 i) | _ \<Rightarrow> None)
          else if t = ''content_block_delta'' then
            (case variant_fields [''index'', ''delta''] v of
               Some [i, d] \<Rightarrow> map_option (\<lambda>n. ContentBlockDelta n d) (json_u32 i) | _ \<Rightarrow> None)
          else if t = ''content_block_stop'' then
            (case variant_fields [''index''] v of Some [i] \<Rightarrow> map_option ContentBlockStop (json_u32 i) | _ \<Rightarrow> None)
          else if t = ''message_delta'' then
            (case variant_fields [''delta'', ''usage''] v of Some [d, u] \<Rightarrow> Some (MessageDelta d u) | _ \<Rightarrow> None)
          else if t = ''message_stop'' then map_option (\<lambda>_. MessageStop) (variant_fields [] v)
          else if t = ''ping'' then map_option (\<lambda>_. Ping) (variant_fields [] v)
          else if t = ''error'' then
            (case variant_fields [''error''] v of
               Some [e] \<Rightarrow> map_option (\<lambda>(ty, m). StreamError ty m) (error_detail e) | _ \<Rightarrow> None)
          else None)"

type_synonym sse_item = "api_error + api_stream_event"

record json_parser =
  jp_parse :: "string \<Rightarrow> json option"
  jp_error :: "string \<Rightarrow> string"

text \<open>One event: \<open>None\<close> for a block without data and for the sentinel at the end.\<close>

definition data_line :: "string \<Rightarrow> string option" where
  "data_line block =
     fold (\<lambda>raw found.
         let line = str_trim raw
         in if line = [] \<or> prefix ''event:'' line then found
            else case strip_prefix ''data:'' line of Some rest \<Rightarrow> Some (str_trim rest) | None \<Rightarrow> found)
       (str_lines block) None"

definition error_text :: "json \<Rightarrow> string" where
  "error_text e = (case get_str e ''code'' of Some c \<Rightarrow> c | None \<Rightarrow> ''unknown'') @ '': '' @
     (case get_str e ''message'' of Some m \<Rightarrow> m | None \<Rightarrow> ''Unknown API error'')"

definition parse_sse_block :: "json_parser \<Rightarrow> string \<Rightarrow> sse_item option" where
  "parse_sse_block p block =
     (case data_line block of
        None \<Rightarrow> None
      | Some d \<Rightarrow>
          if d = ''[DONE]'' then None
          else case Option.bind (jp_parse p d) (\<lambda>v. json_get v ''error'') of
                 Some e \<Rightarrow> Some (Inl (BadRequest (error_text e)))
               | None \<Rightarrow>
                   (case Option.bind (jp_parse p d) event_of_json of
                      Some ev \<Rightarrow> Some (Inr ev)
                    | None \<Rightarrow> Some (Inl (ParseError (''Failed to parse SSE event JSON: '' @ jp_error p d @ '' (data: '' @ d @ '')'')))))"

definition parse_next_sse_event :: "json_parser \<Rightarrow> string \<Rightarrow> sse_item option \<times> string" where
  "parse_next_sse_event p buffer =
     (case split_once newlines buffer of
        None \<Rightarrow> (None, buffer)
      | Some (block, rest) \<Rightarrow> (parse_sse_block p block, rest))"

section \<open>The stream\<close>

text \<open>\<open>poll_next\<close> until the buffer yields nothing more.\<close>

lemma split_once_shorter: "split_once q s = Some (a, b) \<Longrightarrow> length a + length q + length b = length s"
proof (induction s arbitrary: a)
  case (Cons c s)
  show ?case
  proof (cases "prefix q (c # s)")
    case True
    then have "length q \<le> length (c # s)" by (rule prefix_length_le)
    with Cons.prems True show ?thesis by auto
  next
    case False
    with Cons.prems obtain a' where "split_once q s = Some (a', b)" "a = c # a'" by auto
    with Cons.IH [of a'] show ?thesis by simp
  qed
qed (simp split: if_splits)

function drain :: "json_parser \<Rightarrow> string \<Rightarrow> sse_item list \<times> string" where
  "drain p buffer =
     (case parse_next_sse_event p buffer of
        (None, rest) \<Rightarrow> ([], rest)
      | (Some it, rest) \<Rightarrow> (case drain p rest of (items, left) \<Rightarrow> (it # items, left)))"
  by pat_completeness auto
termination
  by (relation "measure (\<lambda>(p, b). length b)")
    (auto simp: parse_next_sse_event_def newlines_def split: option.splits dest: split_once_shorter)

declare drain.simps [simp del]

text \<open>A chunk goes to the buffer as far as it is text; \<open>pending_bytes\<close> holds what is left.\<close>

definition feed :: "string \<Rightarrow> string \<times> string \<Rightarrow> string \<times> string" where
  "feed chunk st =
     (case utf8_split (snd st @ chunk) of
        (v, r, None) \<Rightarrow> (fst st @ v, r)
      | (v, r, Some k) \<Rightarrow> (fst st @ v, drop k r))"

datatype net_item = Chunk string | NetFailure string

definition network_error :: "string \<Rightarrow> api_error" where
  "network_error m = NetworkError
     (if str_contains m ''decoding'' \<or> str_contains m ''h2'' \<or> str_contains m ''protocol''
      then m @ [CHR 0x0A] @ ''  hint: if using a third-party gateway, try setting BAOCLAW_HTTP1_ONLY=1'' else m)"

text \<open>All that a consumer sees that polls to the end.\<close>

fun sse_items :: "json_parser \<Rightarrow> net_item list \<Rightarrow> string \<times> string \<Rightarrow> sse_item list" where
  "sse_items p [] st = fst (drain p (fst st))"
| "sse_items p (Chunk c # ns) st = (case drain p (fst st) of (items, left) \<Rightarrow> items @ sse_items p ns (feed c (left, snd st)))"
| "sse_items p (NetFailure m # ns) st =
     (case drain p (fst st) of (items, left) \<Rightarrow> items @ Inl (network_error m) # sse_items p ns (left, snd st))"

section \<open>Requests\<close>

definition endpoint_url :: "string \<Rightarrow> string option \<Rightarrow> string" where
  "endpoint_url base api_path =
     (case api_path of
        Some q \<Rightarrow> if q = [] then base else base @ q
      | None \<Rightarrow>
          if str_contains base ''/v1/messages'' \<or> str_contains base ''/v1/chat'' then base
          else if suffix ''/v1'' base then base @ ''/messages''
          else base @ ''/v1/messages'')"

definition status_error :: "u16 \<Rightarrow> string \<Rightarrow> api_error option" where
  "status_error status body =
     (if 200 \<le> status \<and> status \<le> 299 then None
      else Some (if status = 401 then AuthError else if status = 429 then ApiRateLimited
        else if status = 400 then BadRequest body
        else if 500 \<le> status \<and> status \<le> 599 then ApiServerError status
        else HttpError status body))"

definition is_auth_error :: "api_error \<Rightarrow> bool" where
  "is_auth_error e \<longleftrightarrow> e = AuthError"


section \<open>How the answer is cut does not matter\<close>

lemma follow_append:
  "follow k rs cs = Scalar n \<Longrightarrow> follow k rs (cs @ ds) = Scalar n"
  "follow k rs cs = Invalid n \<Longrightarrow> follow k rs (cs @ ds) = Invalid n"
  by (induction k rs cs rule: follow.induct) (auto split: if_splits)

lemma first_scalar_append:
  "first_scalar x = Scalar n \<Longrightarrow> first_scalar (x @ y) = Scalar n \<and> 0 < n \<and> n \<le> length x"
  "first_scalar x = Invalid n \<Longrightarrow> first_scalar (x @ y) = Invalid n \<and> x \<noteq> []"
  by (cases x; auto split: option.splits intro: follow_append dest: follow_bounds)+

lemma utf8_split_Nil [simp]: "utf8_split [] = ([], [], None)"
  by (simp add: utf8_split.simps)

lemma valid_utf8_drop:
  assumes "first_scalar x = Scalar n"
  shows "valid_utf8 (x @ y) \<longleftrightarrow> valid_utf8 (drop n x @ y)"
  using first_scalar_append(1) [OF assms, of y]
  by (subst valid_utf8_def, subst utf8_split.simps) (simp add: valid_utf8_def split: prod.splits)

text \<open>The bytes at hand decode without an error, and what is kept for later still makes valid text with the rest.\<close>

lemma utf8_split_prefix:
  "valid_utf8 (x @ y) \<Longrightarrow> \<exists>v r. utf8_split x = (v, r, None) \<and> x = v @ r \<and> utf8_split r = ([], r, None) \<and> valid_utf8 (r @ y)"
proof (induction x rule: utf8_split.induct)
  case (1 x)
  show ?case
  proof (cases "first_scalar x")
    case (Scalar n)
    from 1 Scalar obtain v r where "utf8_split (drop n x) = (v, r, None)" "drop n x = v @ r"
        "utf8_split r = ([], r, None)" "valid_utf8 (r @ y)"
      using valid_utf8_drop by blast
    moreover from this(2) have "x = (take n x @ v) @ r" by (metis append_assoc append_take_drop_id)
    ultimately show ?thesis using Scalar by (subst utf8_split.simps) auto
  next
    case Truncated
    with 1(2) show ?thesis by (simp add: utf8_split.simps)
  next
    case (Invalid n)
    from first_scalar_append(2) [OF this, of y] 1(2) show ?thesis
      by (simp add: valid_utf8_def utf8_split.simps [of "x @ y"])
  qed
qed

lemma valid_utf8_whole:
  assumes "valid_utf8 x" shows "utf8_split x = (x, [], None)"
  using utf8_split_prefix [of x "[]"] assms by (auto simp: valid_utf8_def)

lemma valid_utf8_append: "valid_utf8 x \<Longrightarrow> valid_utf8 y \<Longrightarrow> valid_utf8 (x @ y)"
proof (induction x rule: utf8_split.induct)
  case (1 x)
  show ?case
  proof (cases "first_scalar x")
    case (Scalar n)
    with 1 valid_utf8_drop [OF Scalar, of "[]"] have "valid_utf8 (drop n x @ y)" by simp
    with valid_utf8_drop [OF Scalar] show ?thesis by simp
  next
    case Truncated
    with 1(2,3) show ?thesis by (simp add: valid_utf8_def utf8_split.simps [of x])
  next
    case (Invalid n)
    from first_scalar_append(2) [OF this] 1(2) show ?thesis
      by (simp add: valid_utf8_def utf8_split.simps [of x] Invalid)
  qed
qed

lemma valid_utf8_Nil [simp]: "valid_utf8 []"
  by (simp add: valid_utf8_def)

lemma valid_utf8_ascii: "byte c < 0x80 \<Longrightarrow> valid_utf8 (c # s) \<longleftrightarrow> valid_utf8 s"
  using valid_utf8_drop [of "[c]" 1 s] by (simp add: following_def)

lemma valid_utf8_two: "byte c \<in> {0xC2..0xDF} \<Longrightarrow> byte d \<in> {0x80..0xBF} \<Longrightarrow> valid_utf8 (c # d # s) \<longleftrightarrow> valid_utf8 s"
  using valid_utf8_drop [of "[c, d]" "Suc (Suc 0)" s] by (simp add: following_def)

definition sealed :: "string \<Rightarrow> bool" where
  "sealed block \<longleftrightarrow> \<not> str_contains (block @ [CHR 0x0A]) newlines"

definition frames :: "string list \<Rightarrow> string" where
  "frames blocks = concat (map (\<lambda>b. b @ newlines) blocks)"

lemma frames_simps [simp]: "frames [] = []" "frames (b # bs) = b @ newlines @ frames bs" "frames (bs @ cs) = frames bs @ frames cs"
  by (simp_all add: frames_def)

lemma sealed_Cons:
  assumes "sealed (c # b)"
  shows "sealed b" "\<not> prefix newlines (c # b @ newlines @ rest)"
proof -
  show "sealed b" using assms by (auto simp: sealed_def sublist_Cons_right)
  show "\<not> prefix newlines (c # b @ newlines @ rest)"
    using assms by (cases b) (auto simp: sealed_def newlines_def sublist_Cons_right)
qed

lemma split_once_sealed: "sealed b \<Longrightarrow> split_once newlines (b @ newlines @ rest) = Some (b, rest)"
proof (induction b)
  case Nil
  show ?case by (simp add: newlines_def)
next
  case (Cons c b)
  from sealed_Cons [OF Cons.prems] Cons.IH show ?case by simp
qed

lemma split_once_part:
  assumes "sealed b" "strict_prefix s (b @ newlines)"
  shows "split_once newlines s = None"
proof -
  have "b @ newlines = (b @ [CHR 0x0A]) @ [CHR 0x0A]" by (simp add: newlines_def)
  with assms(2) have "prefix s (b @ [CHR 0x0A])" by (metis prefix_order.dual_order.strict_implies_not_eq prefix_snoc strict_prefixE)
  then have "sublist s (b @ [CHR 0x0A])" by (rule prefix_imp_sublist)
  with assms(1) show ?thesis unfolding sealed_def split_once_None by (meson sublist_order.order_trans)
qed

abbreviation "good p b \<equiv> sealed b \<and> parse_sse_block p b \<noteq> None"

abbreviation "event_at p b \<equiv> the (parse_sse_block p b)"

lemma drain_block:
  "good p b \<Longrightarrow> drain p (b @ newlines @ rest) = (case drain p rest of (items, left) \<Rightarrow> (event_at p b # items, left))"
  by (subst drain.simps) (auto simp: parse_next_sse_event_def split_once_sealed split: option.splits prod.splits)

lemma drain_blocks:
  "list_all (good p) bs \<Longrightarrow> drain p (frames bs @ rest) = (case drain p rest of (items, left) \<Rightarrow> (map (event_at p) bs @ items, left))"
  by (induction bs) (simp_all add: drain_block split: prod.splits)

lemma drain_part: "split_once newlines s = None \<Longrightarrow> drain p s = ([], s)"
  by (subst drain.simps) (simp add: parse_next_sse_event_def)

lemma drain_Nil [simp]: "drain p [] = ([], [])"
  by (rule drain_part) (simp add: newlines_def)

lemma drain_prefix:
  assumes "list_all (good p) bs" "buf @ later = frames bs"
  shows "\<exists>bs1 bs2 part. bs = bs1 @ bs2 \<and> drain p buf = (map (event_at p) bs1, part) \<and> part @ later = frames bs2"
  using assms
proof (induction bs arbitrary: buf)
  case Nil
  then show ?case by (auto simp: drain_part)
next
  case (Cons b bs)
  from Cons.prems(2) have "buf @ later = (b @ newlines) @ frames bs" by simp
  then consider (whole) rest where "buf = (b @ newlines) @ rest" "rest @ later = frames bs"
    | (part) "strict_prefix buf (b @ newlines)"
  proof -
    from \<open>buf @ later = (b @ newlines) @ frames bs\<close> obtain us where
      "buf = (b @ newlines) @ us \<and> us @ later = frames bs \<or> b @ newlines = buf @ us \<and> later = us @ frames bs"
      unfolding append_eq_append_conv2 by metis
    then show ?thesis using that by (cases us) (auto simp: strict_prefix_def)
  qed
  then show ?case
  proof cases
    case whole
    with Cons.IH [of rest] Cons.prems(1) obtain bs1 bs2 part where
      "bs = bs1 @ bs2" "drain p rest = (map (event_at p) bs1, part)" "part @ later = frames bs2" by auto
    with whole Cons.prems(1) show ?thesis
      by (intro exI [of _ "b # bs1"] exI [of _ bs2] exI [of _ part]) (simp add: drain_block)
  next
    case part
    with Cons.prems have "drain p buf = ([], buf)" by (intro drain_part split_once_part) auto
    with Cons.prems(2) show ?thesis by (intro exI [of _ "[]"] exI [of _ "b # bs"] exI [of _ buf]) simp
  qed
qed

lemma sse_items_cut:
  "list_all (good p) bs \<Longrightarrow> utf8_split pend = ([], pend, None) \<Longrightarrow> valid_utf8 (pend @ concat cs) \<Longrightarrow>
   buf @ pend @ concat cs = frames bs \<Longrightarrow> sse_items p (map Chunk cs) (buf, pend) = map (event_at p) bs"
proof (induction cs arbitrary: bs buf pend)
  case Nil
  then have "pend = []" by (simp add: valid_utf8_def)
  with Nil.prems(4) drain_blocks [OF Nil.prems(1), of "[]"] show ?case by (simp add: drain_part)
next
  case (Cons c cs)
  from drain_prefix [OF Cons.prems(1), of buf "pend @ c @ concat cs"] Cons.prems(4) obtain bs1 bs2 part where
    d: "bs = bs1 @ bs2" "drain p buf = (map (event_at p) bs1, part)" "part @ pend @ c @ concat cs = frames bs2" by auto
  from utf8_split_prefix [of "pend @ c" "concat cs"] Cons.prems(3) obtain v r where
    u: "utf8_split (pend @ c) = (v, r, None)" "pend @ c = v @ r" "utf8_split r = ([], r, None)" "valid_utf8 (r @ concat cs)"
    by auto
  from d(3) u(2) have "(part @ v) @ r @ concat cs = frames bs2" by (metis append.assoc)
  with Cons.IH [OF _ u(3,4), of bs2 "part @ v"] Cons.prems(1) d(1)
  have "sse_items p (map Chunk cs) (part @ v, r) = map (event_at p) bs2" by simp
  with d u(1) show ?case by (simp add: feed_def)
qed

text \<open>
  C29. The events of an answer made of complete blocks that carry data do not depend on how the network cuts its bytes
  into chunks, not even when a chunk ends inside a character or inside the empty line between two events: exactly the
  events of the blocks come out, in their order. The hypotheses are on the answer: every block parses to an event (a
  keep-alive block does not, see the next property) and contains no empty line, and the bytes as a whole are valid
  UTF-8.
\<close>

theorem sse_cut_independent:
  assumes "list_all (\<lambda>b. sealed b \<and> parse_sse_block p b \<noteq> None) bs" "valid_utf8 (frames bs)" "concat cs = frames bs"
  shows "sse_items p (map Chunk cs) ([], []) = map (\<lambda>b. the (parse_sse_block p b)) bs"
  using assms by (intro sse_items_cut) simp_all


lemma drain_blank:
  "sealed b \<Longrightarrow> parse_sse_block p b = None \<Longrightarrow> drain p (b @ newlines @ rest) = ([], rest)"
  by (subst drain.simps) (simp add: parse_next_sse_event_def split_once_sealed)

text \<open>
  C30. A block without data, such as a keep-alive comment, stops the reading of the buffer: the events behind it in
  the last chunk of an answer are lost, whereas the same bytes in two chunks give all events.
\<close>

theorem keep_alive_loses_events:
  assumes "list_all (\<lambda>b. sealed b \<and> parse_sse_block p b \<noteq> None) bs" "sealed k" "parse_sse_block p k = None"
    and "list_all (\<lambda>b. sealed b \<and> parse_sse_block p b \<noteq> None) cs" "valid_utf8 (frames (bs @ [k]))" "valid_utf8 (frames cs)"
  shows "sse_items p [Chunk (frames (bs @ [k] @ cs))] ([], []) = map (\<lambda>b. the (parse_sse_block p b)) bs \<and>
    sse_items p [Chunk (frames (bs @ [k])), Chunk (frames cs)] ([], []) = map (\<lambda>b. the (parse_sse_block p b)) (bs @ cs)"
proof
  have "valid_utf8 (frames (bs @ [k] @ cs))" using valid_utf8_append [OF assms(5,6)] by simp
  then show "sse_items p [Chunk (frames (bs @ [k] @ cs))] ([], []) = map (\<lambda>b. the (parse_sse_block p b)) bs"
    using drain_blocks [OF assms(1), of "k @ newlines @ frames cs"] drain_blank [OF assms(2,3), of "frames cs"]
    by (simp add: feed_def valid_utf8_whole)
  show "sse_items p [Chunk (frames (bs @ [k])), Chunk (frames cs)] ([], []) = map (\<lambda>b. the (parse_sse_block p b)) (bs @ cs)"
    using drain_blocks [OF assms(1), of "k @ newlines"] drain_blank [OF assms(2,3), of "[]"]
      drain_blocks [OF assms(4), of "[]"] valid_utf8_whole [OF assms(5)] valid_utf8_whole [OF assms(6)]
    by (simp add: feed_def)
qed

text \<open>A parser that knows two documents, the second one with a character of two bytes.\<close>

definition two_events :: json_parser where
  "two_events = \<lparr>jp_parse = (\<lambda>s. if s = ''ping'' then Some (JObject [(''type'', JString ''ping'')])
       else if s = ''st'' @ [CHR 0xC3, CHR 0xA9] @ ''p'' then Some (JObject [(''type'', JString ''message_stop'')]) else None),
     jp_error = (\<lambda>s. s)\<rparr>"


lemma two_events_blocks:
  "parse_sse_block two_events ''data:ping'' = Some (Inr Ping)"
  "parse_sse_block two_events (''data:st'' @ [CHR 0xC3, CHR 0xA9] @ ''p'') = Some (Inr MessageStop)"
  "parse_sse_block two_events '': keep-alive'' = None"
proof -
  have "data_line ''data:ping'' = Some ''ping''" "data_line (''data:st'' @ [CHR 0xC3, CHR 0xA9] @ ''p'') = Some (''st'' @ [CHR 0xC3, CHR 0xA9] @ ''p'')"
    "data_line '': keep-alive'' = None"
    by (simp_all add: data_line_def str_lines_def strip_prefix_def trim_graphic graphic_def byte_def)
  then
  show "parse_sse_block two_events ''data:ping'' = Some (Inr Ping)"
    "parse_sse_block two_events (''data:st'' @ [CHR 0xC3, CHR 0xA9] @ ''p'') = Some (Inr MessageStop)"
    "parse_sse_block two_events '': keep-alive'' = None"
    by (simp_all add: parse_sse_block_def two_events_def event_of_json_def event_tag_def variant_fields_def get_str_def)
qed

theorem sse_cut_independent_witness:
  "sse_items two_events [Chunk ''data:pi'', Chunk (''ng'' @ [CHR 0x0A]), Chunk ([CHR 0x0A] @ ''data:st'' @ [CHR 0xC3]),
      Chunk (CHR 0xA9 # CHR ''p'' # newlines)] ([], []) = [Inr Ping, Inr MessageStop]"
proof -
  let ?bs = "[''data:ping'', ''data:st'' @ [CHR 0xC3, CHR 0xA9] @ ''p'']"
  let ?cs = "[''data:pi'', ''ng'' @ [CHR 0x0A], [CHR 0x0A] @ ''data:st'' @ [CHR 0xC3], CHR 0xA9 # CHR ''p'' # newlines]"
  have "list_all sealed ?bs" "concat ?cs = frames ?bs"
    by code_simp+
  moreover have "valid_utf8 (frames ?bs)"
    by (simp add: valid_utf8_ascii valid_utf8_two byte_def newlines_def)
  ultimately
  show ?thesis using sse_cut_independent [of two_events ?bs ?cs] two_events_blocks by simp
qed

theorem keep_alive_loses_events_witness:
  "sse_items two_events [Chunk (frames [''data:ping'', '': keep-alive'', ''data:ping''])] ([], []) = [Inr Ping] \<and>
   sse_items two_events [Chunk (frames [''data:ping'', '': keep-alive'']), Chunk (frames [''data:ping''])] ([], []) = [Inr Ping, Inr Ping]"
proof -
  have "sealed ''data:ping''" "sealed '': keep-alive''"
    by code_simp+
  moreover have "valid_utf8 (frames ([''data:ping''] @ ['': keep-alive'']))" "valid_utf8 (frames [''data:ping''])"
    by (simp_all add: valid_utf8_ascii byte_def newlines_def)
  ultimately show ?thesis using keep_alive_loses_events [of two_events "[''data:ping'']" "'': keep-alive''" "[''data:ping'']"] two_events_blocks by simp
qed

text \<open>An error that the server sends as an event is taken for a refused request without a code, whatever its type.\<close>

lemma error_events_are_bad_requests:
  assumes "data_line b = Some d" "d \<noteq> ''[DONE]''" "jp_parse p d = Some (JObject fs)" "get_str (JObject fs) ''type'' = Some ''error''"
  shows "parse_sse_block p b \<noteq> Some (Inr (StreamError ty m))"
  using assms by (auto simp: parse_sse_block_def event_of_json_def event_tag_def variant_fields_def split: option.splits)

end
