(* ===== verification/Bao_OpenAi.thy ===== *)
theory Bao_OpenAi
  imports Bao_Sse
begin

text \<open>
  \<open>api/openai_client.rs\<close>: the client for services with the OpenAI interface. It rewrites a request in that
  format, and the chunks of the answer into the events of the other client. HTTP is not modelled; the JSON parser
  and printer are arguments. Objects list their keys in order, as \<open>json!\<close> makes them.
\<close>

section \<open>Requests\<close>

definition json_index :: "json \<Rightarrow> string \<Rightarrow> json" where
  "json_index v k = (case json_get v k of Some x \<Rightarrow> x | None \<Rightarrow> JNull)"

definition str_default :: "json \<Rightarrow> string \<Rightarrow> string \<Rightarrow> string" where
  "str_default v k d = (case get_str v k of Some s \<Rightarrow> s | None \<Rightarrow> d)"

definition oai_message :: "string \<Rightarrow> json \<Rightarrow> json" where
  "oai_message role content = JObject [(''content'', content), (''role'', JString role)]"

definition convert_system_message :: "json list \<Rightarrow> json list" where
  "convert_system_message blocks =
     (let t = join_str newlines (List.map_filter (\<lambda>b. get_str b ''text'') blocks)
      in if t = [] then [] else [oai_message ''system'' (JString t)])"

definition text_part :: "string \<Rightarrow> json" where
  "text_part t = JObject [(''text'', JString t), (''type'', JString ''text'')]"

definition url_part :: "string \<Rightarrow> string \<Rightarrow> json" where
  "url_part media d = JObject [(''image_url'', JObject [(''url'', JString (''data:'' @ media @ '';base64,'' @ d))]),
     (''type'', JString ''image_url'')]"

definition document_part :: "json \<Rightarrow> json" where
  "document_part source =
     (let media = str_default source ''media_type'' ''application/octet-stream''
      in if media = ''application/pdf'' then url_part media (str_or_empty source ''data'')
         else text_part (''[Attached document: '' @ media @ '']''))"

definition tool_message :: "(json \<Rightarrow> string) \<Rightarrow> json \<Rightarrow> json" where
  "tool_message render block =
     JObject [(''content'', JString (case json_index block ''content'' of JString s \<Rightarrow> s | other \<Rightarrow> render other)),
       (''role'', JString ''tool''), (''tool_call_id'', JString (str_or_empty block ''tool_use_id''))]"

text \<open>One block of a user message: the messages so far and the parts that are not in a message yet.\<close>

definition user_block :: "(json \<Rightarrow> string) \<Rightarrow> json \<Rightarrow> json list \<times> json list \<Rightarrow> json list \<times> json list" where
  "user_block render block mp =
     (let ty = str_or_empty block ''type''; parts = snd mp
      in if ty = ''tool_result'' then
           (fst mp @ (if parts = [] then [] else [oai_message ''user'' (JArray parts)]) @ [tool_message render block], [])
         else if ty = ''text'' then (fst mp, parts @ [text_part (str_or_empty block ''text'')])
         else if ty = ''image'' then
           (case json_get block ''source'' of
              Some source \<Rightarrow> (fst mp, parts @ [url_part (str_default source ''media_type'' ''image/png'') (str_or_empty source ''data'')])
            | None \<Rightarrow> mp)
         else if ty = ''document'' then
           (case json_get block ''source'' of Some source \<Rightarrow> (fst mp, parts @ [document_part source]) | None \<Rightarrow> mp)
         else mp)"

definition flush_parts :: "json list \<Rightarrow> json list" where
  "flush_parts parts =
     (case parts of
        [] \<Rightarrow> []
      | [p] \<Rightarrow> [oai_message ''user'' (if get_str p ''type'' = Some ''text'' then json_index p ''text'' else JArray [p])]
      | _ \<Rightarrow> [oai_message ''user'' (JArray parts)])"

definition convert_user_message :: "(json \<Rightarrow> string) \<Rightarrow> json \<Rightarrow> json list" where
  "convert_user_message render content =
     (case content of
        JArray bs \<Rightarrow>
          let (ms, parts) = fold (user_block render) bs ([], [])
          in ms @ flush_parts parts @ (if bs = [] then [oai_message ''user'' (JString [])] else [])
      | _ \<Rightarrow> [oai_message ''user'' content])"

definition typed_strings :: "string \<Rightarrow> string \<Rightarrow> json list \<Rightarrow> string list" where
  "typed_strings ty k bs = List.map_filter (\<lambda>b. if str_or_empty b ''type'' = ty then get_str b k else None) bs"

definition tool_call_json :: "(json \<Rightarrow> string) \<Rightarrow> json \<Rightarrow> json" where
  "tool_call_json render block =
     JObject [(''function'', JObject [(''arguments'', JString (render (case json_get block ''input'' of Some v \<Rightarrow> v | None \<Rightarrow> JObject []))),
         (''name'', JString (str_or_empty block ''name''))]),
       (''id'', JString (str_or_empty block ''id'')), (''type'', JString ''function'')]"

definition convert_assistant_message :: "(json \<Rightarrow> string) \<Rightarrow> json \<Rightarrow> json list" where
  "convert_assistant_message render content =
     (case content of
        JArray bs \<Rightarrow>
          let t = concat (typed_strings ''text'' ''text'' bs);
              calls = map (tool_call_json render) (filter (\<lambda>b. str_or_empty b ''type'' = ''tool_use'') bs)
          in [JObject ((if t \<noteq> [] \<or> calls = [] then [(''content'', JString t)] else []) @
               [(''reasoning_content'', JString (concat (typed_strings ''thinking'' ''thinking'' bs))), (''role'', JString ''assistant'')] @
               (if calls = [] then [] else [(''tool_calls'', JArray calls)]))]
      | _ \<Rightarrow> [oai_message ''assistant'' content])"

definition convert_other_message :: "(json \<Rightarrow> string) \<Rightarrow> string \<Rightarrow> json \<Rightarrow> json" where
  "convert_other_message render role content =
     (if role = ''system'' then
        oai_message ''user'' (JString (''[System context]'' @ [CHR 0x0A] @ (case content of JString s \<Rightarrow> s | _ \<Rightarrow> render content)))
      else oai_message role content)"

definition convert_message :: "(json \<Rightarrow> string) \<Rightarrow> json \<Rightarrow> json list" where
  "convert_message render msg =
     (let role = str_default msg ''role'' ''user''; content = json_index msg ''content''
      in if role = ''user'' then convert_user_message render content
         else if role = ''assistant'' then convert_assistant_message render content
         else [convert_other_message render role content])"

definition convert_tool :: "json \<Rightarrow> json" where
  "convert_tool t = JObject [(''function'', JObject [(''description'', JString (str_or_empty t ''description'')),
       (''name'', JString (str_default t ''name'' ''unknown'')),
       (''parameters'', case json_get t ''input_schema'' of Some s \<Rightarrow> s | None \<Rightarrow> JObject [(''type'', JString ''object'')])]),
     (''type'', JString ''function'')]"

definition convert_request :: "(json \<Rightarrow> string) \<Rightarrow> create_message_request \<Rightarrow> json" where
  "convert_request render req =
     JObject ([(''max_tokens'', JNumber (PosInt (ucast (cm_max_tokens req)))),
        (''messages'', JArray ((case cm_system req of Some bs \<Rightarrow> convert_system_message bs | None \<Rightarrow> []) @
           concat (map (convert_message render) (cm_messages req)))),
        (''model'', JString (cm_model req)), (''stream'', JBool True),
        (''stream_options'', JObject [(''include_usage'', JBool True)])] @
      (case cm_tools req of
         Some ts \<Rightarrow> if ts = [] then [] else [(''tools'', JArray (map convert_tool ts))]
       | None \<Rightarrow> []))"

definition completions_url :: "string \<Rightarrow> string" where
  "completions_url base =
     (if str_contains base ''/chat/completions'' then base
      else if suffix ''/v1'' base \<or> suffix ''/v4'' base then base @ ''/chat/completions''
      else base @ ''/v1/chat/completions'')"

section \<open>Answers\<close>

text \<open>\<open>OpenAiSseStream\<close>, with what only the translation of chunks uses in a record of its own.\<close>

record tool_call_state =
  tcs_index :: u32
  tcs_id :: string
  tcs_name :: string
  tcs_arguments :: string
  tcs_started :: bool

record oai_translator =
  ot_sent_start :: bool
  ot_content_index :: u32
  ot_tools :: "tool_call_state list"
  ot_finished :: bool
  ot_in_thinking :: bool
  ot_text_started :: bool
  ot_text_index :: u32

record oai_stream =
  os_translator :: oai_translator
  os_buffer :: string
  os_pending :: "sse_item list"

definition oai_translator_new :: oai_translator where
  "oai_translator_new = \<lparr>ot_sent_start = False, ot_content_index = 0, ot_tools = [], ot_finished = False,
     ot_in_thinking = False, ot_text_started = False, ot_text_index = 0\<rparr>"

definition oai_stream_new :: oai_stream where
  "oai_stream_new = \<lparr>os_translator = oai_translator_new, os_buffer = [], os_pending = []\<rparr>"

text \<open>A handler emits events and changes the translator; one after the other.\<close>

type_synonym handler = "oai_translator \<Rightarrow> api_stream_event list \<times> oai_translator"

definition and_then :: "handler \<Rightarrow> handler \<Rightarrow> handler" where
  "and_then f g s = (case f s of (evs, s') \<Rightarrow> (case g s' of (evs', s'') \<Rightarrow> (evs @ evs', s'')))"

fun each :: "('a \<Rightarrow> handler) \<Rightarrow> 'a list \<Rightarrow> handler" where
  "each h [] s = ([], s)"
| "each h (x # xs) s = and_then (h x) (each h xs) s"

definition handle_done :: handler where
  "handle_done s =
     (map (\<lambda>tc. ContentBlockStop (tcs_index tc)) (filter tcs_started (ot_tools s)) @ [MessageStop], s\<lparr>ot_finished := True\<rparr>)"

definition handle_message_start :: "json \<Rightarrow> handler" where
  "handle_message_start chunk s =
     (let u = (case json_get chunk ''usage'' of Some v \<Rightarrow> v | None \<Rightarrow> JObject [])
      in ([MessageStart (JObject [(''id'', json_index chunk ''id''), (''model'', json_index chunk ''model''),
            (''usage'', JObject [
               (''input_tokens'', case json_get u ''prompt_tokens'' of Some n \<Rightarrow> n | None \<Rightarrow> JNumber (PosInt 0)),
               (''output_tokens'', JNumber (PosInt 0))])])],
          s\<lparr>ot_sent_start := True\<rparr>))"

definition handle_text_delta :: "json \<Rightarrow> handler" where
  "handle_text_delta delta s =
     (case get_str delta ''content'' of
        None \<Rightarrow> ([], s)
      | Some content \<Rightarrow>
          if content = [] then ([], s)
          else
            let (e1, s1) = (if ot_in_thinking s
                  then ([ContentBlockStop 0], s\<lparr>ot_in_thinking := False, ot_content_index := 1\<rparr>) else ([], s));
                (e2, s2) = (if \<not> ot_text_started s1 \<and> ot_tools s1 = []
                  then ([ContentBlockStart (ot_content_index s1) (JObject [(''text'', JString []), (''type'', JString ''text'')])],
                        s1\<lparr>ot_text_started := True, ot_text_index := ot_content_index s1, ot_content_index := ot_content_index s1 + 1\<rparr>)
                  else ([], s1))
            in (e1 @ e2 @ [ContentBlockDelta (ot_text_index s2)
                  (JObject [(''text'', JString content), (''type'', JString ''text_delta'')])], s2))"

definition handle_reasoning_delta :: "json \<Rightarrow> handler" where
  "handle_reasoning_delta delta s =
     (case get_str delta ''reasoning_content'' of
        None \<Rightarrow> ([], s)
      | Some reasoning \<Rightarrow>
          if reasoning = [] then ([], s)
          else ((if ot_in_thinking s then []
                 else [ContentBlockStart 0 (JObject [(''thinking'', JString []), (''type'', JString ''thinking'')])]) @
                [ContentBlockDelta 0 (JObject [(''thinking'', JString reasoning), (''type'', JString ''thinking_delta'')])],
                s\<lparr>ot_in_thinking := True\<rparr>))"

definition ensure_states :: "nat \<Rightarrow> oai_translator \<Rightarrow> oai_translator" where
  "ensure_states i s =
     s\<lparr>ot_tools := ot_tools s @ map (\<lambda>k. \<lparr>tcs_index = ot_content_index s + of_nat k, tcs_id = [], tcs_name = [],
         tcs_arguments = [], tcs_started = False\<rparr>) [length (ot_tools s)..<Suc i]\<rparr>"

definition start_tool :: "nat \<Rightarrow> handler" where
  "start_tool i s =
     (let tc = ot_tools s ! i
      in if tcs_started tc then ([], s)
         else
           let e1 = (if ot_in_thinking s then [ContentBlockStop 0] else []);
               s1 = s\<lparr>ot_in_thinking := False\<rparr>;
               (e2, s2) = (if ot_text_started s1 \<and> i = 0 then ([ContentBlockStop (ot_text_index s1)], s1\<lparr>ot_text_started := False\<rparr>)
                 else if ot_content_index s1 = 1 \<and> i = 0 then ([ContentBlockStop 0], s1) else ([], s1))
           in (e1 @ e2 @ [ContentBlockStart (tcs_index tc) (JObject [(''id'', JString (tcs_id tc)), (''input'', JObject []),
                 (''name'', JString (tcs_name tc)), (''type'', JString ''tool_use'')])],
               s2\<lparr>ot_tools := (ot_tools s2)[i := tc\<lparr>tcs_started := True\<rparr>]\<rparr>))"

definition handle_tool_call :: "json \<Rightarrow> handler" where
  "handle_tool_call tc s =
     (let i = (case get_u64 tc ''index'' of Some n \<Rightarrow> unat n | None \<Rightarrow> 0);
          func = json_index tc ''function'';
          args = str_or_empty func ''arguments'';
          s1 = ensure_states i s;
          st = ot_tools s1 ! i;
          st1 = st\<lparr>tcs_id := (if str_or_empty tc ''id'' \<noteq> [] then str_or_empty tc ''id'' else tcs_id st),
                   tcs_name := (if str_or_empty func ''name'' \<noteq> [] then str_or_empty func ''name'' else tcs_name st),
                   tcs_arguments := tcs_arguments st @ args\<rparr>;
          (evs, s2) = start_tool i (s1\<lparr>ot_tools := (ot_tools s1)[i := st1]\<rparr>)
      in (evs @ (if args = [] then [] else [ContentBlockDelta (tcs_index st1)
            (JObject [(''partial_json'', JString args), (''type'', JString ''input_json_delta'')])]), s2))"

definition handle_tool_call_deltas :: "json \<Rightarrow> handler" where
  "handle_tool_call_deltas delta s =
     (case json_get delta ''tool_calls'' of Some (JArray tcs) \<Rightarrow> each handle_tool_call tcs s | _ \<Rightarrow> ([], s))"

definition stop_reason_of :: "string \<Rightarrow> string" where
  "stop_reason_of reason =
     (if reason = ''stop'' then ''end_turn'' else if reason = ''tool_calls'' then ''tool_use''
      else if reason = ''length'' then ''max_tokens'' else if reason = ''content_filter'' then ''end_turn'' else reason)"

definition handle_finish_reason :: "string option \<Rightarrow> json \<Rightarrow> handler" where
  "handle_finish_reason finish chunk s =
     (case finish of
        None \<Rightarrow> ([], s)
      | Some reason \<Rightarrow>
          let e1 = (if ot_in_thinking s then [ContentBlockStop 0] else []);
              s1 = s\<lparr>ot_in_thinking := False\<rparr>;
              e2 = (if ot_text_started s1 then [ContentBlockStop (ot_text_index s1)]
                else if ot_content_index s1 = 1 \<and> ot_tools s1 = [] then [ContentBlockStop 0] else []);
              u = (case json_get chunk ''usage'' of Some v \<Rightarrow> v | None \<Rightarrow> JObject [])
          in (e1 @ e2 @ [MessageDelta (JObject [(''stop_reason'', JString (stop_reason_of reason))])
                (JObject [(''input_tokens'', case json_get u ''prompt_tokens'' of Some n \<Rightarrow> n | None \<Rightarrow> JNumber (PosInt 0)),
                  (''output_tokens'', case json_get u ''completion_tokens'' of Some n \<Rightarrow> n | None \<Rightarrow> JNumber (PosInt 0))])], s1))"

definition handle_choice :: "json \<Rightarrow> json \<Rightarrow> handler" where
  "handle_choice chunk choice =
     (let delta = json_index choice ''delta''
      in and_then (handle_text_delta delta) (and_then (handle_reasoning_delta delta)
           (and_then (handle_tool_call_deltas delta) (handle_finish_reason (get_str choice ''finish_reason'') chunk))))"

definition handle_chunk :: "json \<Rightarrow> handler" where
  "handle_chunk chunk =
     and_then (\<lambda>s. if ot_sent_start s then ([], s) else handle_message_start chunk s)
       (\<lambda>s. case json_get chunk ''choices'' of Some (JArray cs) \<Rightarrow> each (handle_choice chunk) cs s | _ \<Rightarrow> ([], s))"

definition translate_chunk :: "json_parser \<Rightarrow> string \<Rightarrow> oai_translator \<Rightarrow> sse_item list \<times> oai_translator" where
  "translate_chunk p d s =
     (if d = ''[DONE]'' then (case handle_done s of (evs, s') \<Rightarrow> (map Inr evs, s'))
      else case jp_parse p d of
             None \<Rightarrow> ([Inl (ParseError (''Invalid JSON: '' @ jp_error p d))], s)
           | Some chunk \<Rightarrow> (case handle_chunk chunk s of (evs, s') \<Rightarrow> (map Inr evs, s')))"

section \<open>The stream\<close>

lemma utf8_split_invalid: "utf8_split s = (v, r, Some k) \<Longrightarrow> length r - k < length s"
proof (induction s arbitrary: v rule: utf8_split.induct)
  case (1 s)
  show ?case
  proof (cases "first_scalar s")
    case (Scalar n)
    with 1(2) obtain v' where "utf8_split (drop n s) = (v', r, Some k)"
      by (auto simp: utf8_split.simps [of s] split: prod.splits)
    from 1(1) [OF Scalar this] show ?thesis by auto
  next
    case Truncated
    with 1(2) show ?thesis by (simp add: utf8_split.simps [of s])
  next
    case (Invalid n)
    then have "0 < n" by (cases s) (auto split: option.splits dest: follow_positive)
    with Invalid 1(2) first_scalar_append(2) [OF Invalid] show ?thesis by (simp add: utf8_split.simps [of s])
  qed
qed

text \<open>\<open>String::from_utf8_lossy\<close>: every wrong or unfinished sequence becomes U+FFFD.\<close>

function from_utf8_lossy :: "string \<Rightarrow> string" where
  "from_utf8_lossy s =
     (case utf8_split s of
        (v, r, None) \<Rightarrow> v @ (if r = [] then [] else [CHR 0xEF, CHR 0xBF, CHR 0xBD])
      | (v, r, Some k) \<Rightarrow> v @ [CHR 0xEF, CHR 0xBF, CHR 0xBD] @ from_utf8_lossy (drop k r))"
  by pat_completeness auto
termination
  by (relation "measure length") (auto dest!: utf8_split_invalid [OF sym])

declare from_utf8_lossy.simps [simp del]

text \<open>\<open>parse_next_sse\<close>: the lines of a block up to the first one that yields events; the rest of the block is dropped.\<close>

definition oai_data :: "string \<Rightarrow> string option" where
  "oai_data raw =
     (let line = str_trim raw
      in if line = [] \<or> prefix '':'' line then None
         else case strip_prefix ''data: '' line of
                Some rest \<Rightarrow> if str_trim rest = [] then None else Some (str_trim rest)
              | None \<Rightarrow> None)"

fun translate_lines :: "json_parser \<Rightarrow> string list \<Rightarrow> oai_translator \<Rightarrow> sse_item list \<times> oai_translator" where
  "translate_lines p [] s = ([], s)"
| "translate_lines p (l # ls) s =
     (case oai_data l of
        None \<Rightarrow> translate_lines p ls s
      | Some d \<Rightarrow> (case translate_chunk p d s of
           ([], s') \<Rightarrow> translate_lines p ls s'
         | (items, s') \<Rightarrow> (items, s')))"

function parse_blocks :: "json_parser \<Rightarrow> oai_stream \<Rightarrow> sse_item option \<times> oai_stream" where
  "parse_blocks p s =
     (case split_once newlines (os_buffer s) of
        None \<Rightarrow> (None, s)
      | Some (block, rest) \<Rightarrow>
          (case translate_lines p (str_lines block) (os_translator s) of
             ([], tr) \<Rightarrow> parse_blocks p (s\<lparr>os_translator := tr, os_buffer := rest\<rparr>)
           | (first # later, tr) \<Rightarrow> (Some first, s\<lparr>os_translator := tr, os_buffer := rest, os_pending := os_pending s @ later\<rparr>)))"
  by pat_completeness auto
termination
  by (relation "measure (\<lambda>(p, s). length (os_buffer s))") (auto simp: newlines_def dest: split_once_shorter)

declare parse_blocks.simps [simp del]

lemma parse_blocks_shorter: "parse_blocks p s = (Some it, s') \<Longrightarrow> length (os_buffer s') < length (os_buffer s)"
proof (induction p s rule: parse_blocks.induct)
  case (1 p s)
  then obtain block rest where b: "split_once newlines (os_buffer s) = Some (block, rest)"
    by (subst (asm) (2) parse_blocks.simps) (auto split: option.splits)
  then have less: "length rest < length (os_buffer s)" by (auto simp: newlines_def dest: split_once_shorter)
  obtain items tr where t: "translate_lines p (str_lines block) (os_translator s) = (items, tr)" by fastforce
  show ?case
  proof (cases items)
    case Nil
    with 1(2) b t have "parse_blocks p (s\<lparr>os_translator := tr, os_buffer := rest\<rparr>) = (Some it, s')"
      by (subst (asm) parse_blocks.simps) simp
    from 1(1) [OF b refl t [unfolded Nil, symmetric] refl this] less show ?thesis by simp
  next
    case (Cons a as)
    with 1(2) b t less show ?thesis by (subst (asm) parse_blocks.simps) auto
  qed
qed

definition parse_next_sse :: "json_parser \<Rightarrow> oai_stream \<Rightarrow> sse_item option \<times> oai_stream" where
  "parse_next_sse p s =
     (case os_pending s of
        first # later \<Rightarrow> (Some first, s\<lparr>os_pending := later\<rparr>)
      | [] \<Rightarrow> parse_blocks p s)"

text \<open>
  All that a consumer sees that polls to the end: nothing more once the stream is finished; the end of the
  response itself is reported as the end of the message.
\<close>

function oai_drain :: "json_parser \<Rightarrow> oai_stream \<Rightarrow> sse_item list \<times> oai_stream" where
  "oai_drain p s =
     (if ot_finished (os_translator s) then ([], s)
      else case parse_next_sse p s of
             (None, s') \<Rightarrow> ([], s')
           | (Some it, s') \<Rightarrow> (case oai_drain p s' of (items, s'') \<Rightarrow> (it # items, s'')))"
  by pat_completeness auto
termination
  by (relation "inv_image (less_than <*lex*> less_than) (\<lambda>(p, s). (length (os_buffer s), length (os_pending s)))")
    (auto simp: parse_next_sse_def split: list.splits dest: parse_blocks_shorter [OF sym])

declare oai_drain.simps [simp del]

fun oai_items :: "json_parser \<Rightarrow> net_item list \<Rightarrow> oai_stream \<Rightarrow> sse_item list" where
  "oai_items p ns s =
     (case oai_drain p s of
        (items, s') \<Rightarrow> items @
          (if ot_finished (os_translator s') then []
           else case ns of
                  [] \<Rightarrow> [Inr MessageStop]
                | Chunk c # ns' \<Rightarrow> oai_items p ns' (s'\<lparr>os_buffer := os_buffer s' @ from_utf8_lossy c\<rparr>)
                | NetFailure m # ns' \<Rightarrow> Inl (network_error m) # oai_items p ns' s'))"

declare oai_items.simps [simp del]


section \<open>The stream as a fold over its chunks\<close>

text \<open>What the chunks of an answer are translated to, one after the other; after the sentinel only one event is left.\<close>

fun translate_all :: "json_parser \<Rightarrow> string list \<Rightarrow> oai_translator \<Rightarrow> sse_item list" where
  "translate_all p [] s = [Inr MessageStop]"
| "translate_all p (d # ds) s =
     (case translate_chunk p d s of (items, s') \<Rightarrow> if ot_finished s' then take 1 items else items @ translate_all p ds s')"

text \<open>A data line that is what it looks like: text without line breaks and without space around it.\<close>

definition plain_data :: "string \<Rightarrow> bool" where
  "plain_data d \<longleftrightarrow> d \<noteq> [] \<and> graphic (hd d) \<and> graphic (last d) \<and> CHR 0x0A \<notin> set d"

definition data_block :: "string \<Rightarrow> string" where
  "data_block d = ''data: '' @ d"

lemma sealed_plain: "CHR 0x0A \<notin> set b \<Longrightarrow> sealed b"
proof (induction b)
  case Nil
  show ?case by (simp add: sealed_def newlines_def sublist_Cons_right)
next
  case (Cons c b)
  then show ?case by (auto simp: sealed_def newlines_def sublist_Cons_right)
qed

lemma plain_sealed: "plain_data d \<Longrightarrow> sealed (data_block d)"
  by (rule sealed_plain) (auto simp: plain_data_def data_block_def)

lemma split_char_one: "c \<notin> set s \<Longrightarrow> split_char c s = [s]"
  by (induction s) auto

lemma oai_data_block:
  assumes "plain_data d"
  shows "str_lines (data_block d) = [data_block d]" "oai_data (data_block d) = Some d"
proof -
  from assms have d: "d \<noteq> []" "graphic (hd d)" "graphic (last d)" "CHR 0x0A \<notin> set d" by (simp_all add: plain_data_def)
  then have "split_char (CHR 0x0A) (data_block d) = [data_block d]" by (intro split_char_one) (auto simp: data_block_def)
  then show "str_lines (data_block d) = [data_block d]" by (simp add: str_lines_def data_block_def)
  have "str_trim (data_block d) = data_block d" using d by (intro trim_graphic) (simp_all add: graphic_def byte_def data_block_def)
  moreover have "str_trim d = d" using d by (intro trim_graphic)
  ultimately show "oai_data (data_block d) = Some d" using d by (simp add: oai_data_def strip_prefix_def data_block_def)
qed

text \<open>Only the sentinel finishes the translator.\<close>

lemma and_then_finished:
  assumes "\<And>s. ot_finished (snd (f s)) = ot_finished s" "\<And>s. ot_finished (snd (g s)) = ot_finished s"
  shows "ot_finished (snd (and_then f g s)) = ot_finished s"
  using assms by (simp add: and_then_def case_prod_beta)

lemma each_finished:
  assumes "\<And>x s. ot_finished (snd (h x s)) = ot_finished s"
  shows "ot_finished (snd (each h xs s)) = ot_finished s"
  using assms by (induction xs arbitrary: s) (simp_all add: and_then_finished)

lemma start_tool_finished: "ot_finished (snd (start_tool i s)) = ot_finished s"
  by (simp add: start_tool_def Let_def)

lemma handle_tool_call_finished: "ot_finished (snd (handle_tool_call tc s)) = ot_finished s"
  by (simp add: handle_tool_call_def Let_def case_prod_beta start_tool_finished ensure_states_def)

lemma handle_chunk_finished: "ot_finished (snd (handle_chunk chunk s)) = ot_finished s"
proof -
  have "ot_finished (snd (handle_text_delta d s)) = ot_finished s" for d s
    by (simp add: handle_text_delta_def Let_def split: option.splits)
  moreover have "ot_finished (snd (handle_reasoning_delta d s)) = ot_finished s" for d s
    by (simp add: handle_reasoning_delta_def split: option.splits)
  moreover have "ot_finished (snd (handle_tool_call_deltas d s)) = ot_finished s" for d s
    by (simp add: handle_tool_call_deltas_def each_finished handle_tool_call_finished split: option.splits json.splits)
  moreover have "ot_finished (snd (handle_finish_reason r c s)) = ot_finished s" for r c s
    by (simp add: handle_finish_reason_def Let_def split: option.splits)
  ultimately have "ot_finished (snd (handle_choice chunk c s)) = ot_finished s" for c s
    by (simp add: handle_choice_def Let_def and_then_finished)
  moreover have "ot_finished (snd (handle_message_start chunk s)) = ot_finished s" for s
    by (simp add: handle_message_start_def Let_def)
  ultimately show ?thesis
    by (simp add: handle_chunk_def and_then_finished each_finished split: option.splits json.splits)
qed

lemma nothing_not_finished:
  assumes "translate_chunk p d s = ([], s')"
  shows "ot_finished s' = ot_finished s"
  using assms handle_chunk_finished [of _ s]
  by (auto simp: translate_chunk_def handle_done_def split: if_splits option.splits prod.splits) (metis snd_conv)+

lemma from_utf8_lossy_valid: "valid_utf8 c \<Longrightarrow> from_utf8_lossy c = c"
  by (subst from_utf8_lossy.simps) (simp add: valid_utf8_whole)

abbreviation at_buffer :: "oai_translator \<Rightarrow> string \<Rightarrow> oai_stream" where
  "at_buffer tr b \<equiv> \<lparr>os_translator = tr, os_buffer = b, os_pending = []\<rparr>"

lemma parse_blocks_none: "split_once newlines b = None \<Longrightarrow> parse_blocks p (at_buffer tr b) = (None, at_buffer tr b)"
  by (subst parse_blocks.simps) simp

lemma oai_drain_finished: "ot_finished (os_translator s) \<Longrightarrow> oai_drain p s = ([], s)"
  by (subst oai_drain.simps) simp

lemma oai_drain_pending:
  "\<not> ot_finished tr \<Longrightarrow> oai_drain p \<lparr>os_translator = tr, os_buffer = b, os_pending = xs\<rparr> =
     (case oai_drain p (at_buffer tr b) of (items, s) \<Rightarrow> (xs @ items, s))"
proof (induction xs)
  case (Cons x xs)
  then show ?case by (subst oai_drain.simps) (simp add: parse_next_sse_def split: prod.splits)
qed (simp split: prod.splits)

lemma oai_drain_block:
  assumes "plain_data d" "\<not> ot_finished tr" "translate_chunk p d tr = (items, tr')"
  shows "oai_drain p (at_buffer tr (data_block d @ newlines @ rest)) =
    (if ot_finished tr' then (take 1 items, \<lparr>os_translator = tr', os_buffer = rest, os_pending = drop 1 items\<rparr>)
     else case oai_drain p (at_buffer tr' rest) of (more_items, s) \<Rightarrow> (items @ more_items, s))"
proof -
  let ?s = "at_buffer tr (data_block d @ newlines @ rest)"
  have split: "split_once newlines (data_block d @ newlines @ rest) = Some (data_block d, rest)"
    by (rule split_once_sealed [OF plain_sealed [OF assms(1)]])
  have lines: "translate_lines p (str_lines (data_block d)) tr = (items, tr')"
    using assms(3) by (cases items) (simp_all add: oai_data_block [OF assms(1)])
  show ?thesis
  proof (cases items)
    case Nil
    have "\<not> ot_finished tr'"
      using assms(2,3) Nil nothing_not_finished by simp
    have "parse_blocks p ?s = parse_blocks p (at_buffer tr' rest)"
      using split lines Nil by (subst parse_blocks.simps) simp
    with Nil assms(2) \<open>\<not> ot_finished tr'\<close> show ?thesis
      by (subst (1 2) oai_drain.simps) (simp add: parse_next_sse_def split: prod.splits)
  next
    case (Cons first later)
    have "parse_blocks p ?s = (Some first, \<lparr>os_translator = tr', os_buffer = rest, os_pending = later\<rparr>)"
      using split lines Cons by (subst parse_blocks.simps) simp
    with assms(2) have "oai_drain p ?s =
        (case oai_drain p \<lparr>os_translator = tr', os_buffer = rest, os_pending = later\<rparr> of (is, s) \<Rightarrow> (first # is, s))"
      by (subst oai_drain.simps) (simp add: parse_next_sse_def)
    with Cons oai_drain_pending [of tr' p rest later] show ?thesis
      by (cases "ot_finished tr'") (simp_all add: oai_drain_finished split: prod.splits)
  qed
qed


lemma oai_items_block:
  assumes "plain_data d" "\<not> ot_finished tr" "translate_chunk p d tr = (items, tr')"
  shows "oai_items p ns (at_buffer tr (data_block d @ newlines @ rest)) =
    (if ot_finished tr' then take 1 items else items @ oai_items p ns (at_buffer tr' rest))"
  using oai_drain_block [OF assms, of rest]
  by (subst (1 2) oai_items.simps) (auto split: prod.splits)

lemma oai_items_wait:
  assumes "split_once newlines b = None" "\<not> ot_finished tr"
  shows "oai_items p [] (at_buffer tr b) = [Inr MessageStop]"
    "valid_utf8 c \<Longrightarrow> oai_items p (Chunk c # ns) (at_buffer tr b) = oai_items p ns (at_buffer tr (b @ c))"
proof -
  have "oai_drain p (at_buffer tr b) = ([], at_buffer tr b)"
    using assms by (subst oai_drain.simps) (simp add: parse_next_sse_def parse_blocks_none)
  then show "oai_items p [] (at_buffer tr b) = [Inr MessageStop]"
    "valid_utf8 c \<Longrightarrow> oai_items p (Chunk c # ns) (at_buffer tr b) = oai_items p ns (at_buffer tr (b @ c))"
    using assms(2) by (simp_all add: oai_items.simps [of p _ "at_buffer tr b"] from_utf8_lossy_valid)
qed

text \<open>How much of the frames the buffer holds: a whole block, or a part of the first one.\<close>

lemma frame_cases:
  assumes "buf @ later = b @ newlines @ rest"
  obtains (whole) r where "buf = b @ newlines @ r" "r @ later = rest"
    | (part) "strict_prefix buf (b @ newlines)"
proof -
  from assms have "buf @ later = (b @ newlines) @ rest" by simp
  then obtain us where "buf = (b @ newlines) @ us \<and> us @ later = rest \<or> b @ newlines = buf @ us \<and> later = us @ rest"
    unfolding append_eq_append_conv2 by metis
  then show thesis using whole part by (cases us) (auto simp: strict_prefix_def)
qed

lemma oai_items_cut:
  "list_all plain_data ds \<Longrightarrow> list_all valid_utf8 cs \<Longrightarrow> \<not> ot_finished tr \<Longrightarrow> buf @ concat cs = frames (map data_block ds) \<Longrightarrow>
   oai_items p (map Chunk cs) (at_buffer tr buf) = translate_all p ds tr"
proof (induction cs arbitrary: ds tr buf)
  case Nil
  then show ?case
  proof (induction ds arbitrary: tr buf)
    case Nil
    then show ?case using oai_items_wait(1) [of "[]" tr p] by (simp add: newlines_def)
  next
    case (Cons d ds)
    then show ?case
      by (cases "translate_chunk p d tr") (auto simp: oai_items_block)
  qed
next
  case outer: (Cons c cs)
  from outer.prems show ?case
  proof (induction ds arbitrary: tr buf)
    case Nil
    with outer.IH [of "[]" tr "[]"] show ?case by (simp add: oai_items_wait newlines_def)
  next
    case (Cons d ds)
    from Cons.prems(4) have "buf @ (c @ concat cs) = data_block d @ newlines @ frames (map data_block ds)" by simp
    then show ?case
    proof (cases rule: frame_cases)
      case (whole r)
      with Cons show ?thesis by (cases "translate_chunk p d tr") (auto simp: oai_items_block)
    next
      case part
      with Cons.prems have "split_once newlines buf = None" by (intro split_once_part [of "data_block d"]) (simp_all add: plain_sealed)
      with Cons.prems outer.IH [of "d # ds" tr "buf @ c"] show ?thesis by (simp add: oai_items_wait)
    qed
  qed
qed

text \<open>
  The events of an answer in the OpenAI format are the translation of its chunks one after the other, however
  the network cuts the bytes, as long as no chunk of bytes ends inside a character.
\<close>

lemma oai_cut_independent:
  assumes "list_all plain_data ds" "list_all valid_utf8 cs" "concat cs = frames (map data_block ds)"
  shows "oai_items p (map Chunk cs) oai_stream_new = translate_all p ds oai_translator_new"
  using oai_items_cut [OF assms(1,2), of oai_translator_new "[]" p] assms(3)
  by (simp add: oai_stream_new_def oai_translator_new_def)


section \<open>A whole answer\<close>

text \<open>
  The chunks of an answer: reasoning and text in pieces, then the tool calls, each with its id and name first and
  its arguments in pieces.
\<close>

definition delta_chunk :: "(string \<times> json) list \<Rightarrow> json" where
  "delta_chunk kvs = JObject [(''choices'', JArray [JObject [(''delta'', JObject kvs), (''finish_reason'', JNull)]])]"

definition call_chunk :: "nat \<Rightarrow> (string \<times> json) list \<Rightarrow> (string \<times> json) list \<Rightarrow> json" where
  "call_chunk i func kvs = delta_chunk [(''tool_calls'', JArray [JObject ([(''function'', JObject func)] @ kvs @
     [(''index'', JNumber (PosInt (of_nat i)))])])]"

type_synonym oai_call = "string \<times> string \<times> string list"

definition call_chunks :: "nat \<Rightarrow> oai_call \<Rightarrow> json list" where
  "call_chunks i c = (case c of (cid, cname, pieces) \<Rightarrow>
     call_chunk i [(''arguments'', JString []), (''name'', JString cname)] [(''id'', JString cid)] #
     map (\<lambda>a. call_chunk i [(''arguments'', JString a)] []) pieces)"

fun calls_chunks :: "nat \<Rightarrow> oai_call list \<Rightarrow> json list" where
  "calls_chunks i [] = []"
| "calls_chunks i (c # cs) = call_chunks i c @ calls_chunks (Suc i) cs"

definition answer_chunks :: "string list \<Rightarrow> string list \<Rightarrow> oai_call list \<Rightarrow> string \<Rightarrow> json list" where
  "answer_chunks reasoning answer tcs reason =
     [delta_chunk [(''content'', JString []), (''role'', JString ''assistant'')]] @
     map (\<lambda>t. delta_chunk [(''reasoning_content'', JString t)]) reasoning @
     map (\<lambda>t. delta_chunk [(''content'', JString t)]) answer @
     calls_chunks 0 tcs @
     [JObject [(''choices'', JArray [JObject [(''delta'', JObject []), (''finish_reason'', JString reason)]])]]"

definition opened :: "u32 \<Rightarrow> content_block \<Rightarrow> string list \<Rightarrow> api_stream_event list" where
  "opened i b cs = ContentBlockStart i (block_header b) # map (\<lambda>c. ContentBlockDelta i (block_chunk b c)) cs"

definition closed :: "u32 \<Rightarrow> content_block \<Rightarrow> string list \<Rightarrow> api_stream_event list" where
  "closed i b cs = (if cs = [] then [] else opened i b cs @ [ContentBlockStop i])"

subsection \<open>Its translation\<close>

lemma each_append: "each h (xs @ ys) s = and_then (each h xs) (each h ys) s"
  by (induction xs arbitrary: s) (simp_all add: and_then_def split: prod.splits)

lemma each_Cons: "h x s = (e1, s1) \<Longrightarrow> each h xs s1 = (e2, s2) \<Longrightarrow> each h (x # xs) s = (e1 @ e2, s2)"
  by (simp add: and_then_def)

lemma each_join: "each h xs s = (e1, s1) \<Longrightarrow> each h ys s1 = (e2, s2) \<Longrightarrow> each h (xs @ ys) s = (e1 @ e2, s2)"
  by (simp add: each_append and_then_def)

lemma handle_delta_chunk:
  assumes "ot_sent_start s"
  shows "handle_chunk (delta_chunk kvs) s = and_then (handle_text_delta (JObject kvs))
     (and_then (handle_reasoning_delta (JObject kvs)) (handle_tool_call_deltas (JObject kvs))) s"
  using assms by (simp add: handle_chunk_def delta_chunk_def handle_choice_def json_index_def and_then_def
      handle_finish_reason_def get_str_def Let_def split: prod.splits)

lemma still_thinking: "ot_in_thinking s \<Longrightarrow> s\<lparr>ot_in_thinking := True\<rparr> = s"
  by simp

lemma not_thinking: "\<not> ot_in_thinking s \<Longrightarrow> s\<lparr>ot_in_thinking := False\<rparr> = s"
  by simp

lemmas delta_simps = handle_delta_chunk and_then_def handle_text_delta_def handle_reasoning_delta_def
  handle_tool_call_deltas_def get_str_def Let_def

text \<open>What the handlers see of a translator while text and reasoning arrive.\<close>

lemma reasoning_chunks:
  assumes "ot_sent_start s" "ot_in_thinking s" "list_all (\<lambda>t. t \<noteq> []) ts"
  shows "each handle_chunk (map (\<lambda>t. delta_chunk [(''reasoning_content'', JString t)]) ts) s =
    (map (\<lambda>c. ContentBlockDelta 0 (block_chunk (Thinking x) c)) ts, s)"
  using assms by (induction ts) (simp_all add: delta_simps still_thinking)

lemma reasoning_phase:
  assumes "ot_sent_start s" "\<not> ot_in_thinking s" "list_all (\<lambda>t. t \<noteq> []) ts" "ts \<noteq> []"
  shows "each handle_chunk (map (\<lambda>t. delta_chunk [(''reasoning_content'', JString t)]) ts) s =
    (opened 0 (Thinking x) ts, s\<lparr>ot_in_thinking := True\<rparr>)"
proof -
  from assms(4) obtain t us where t: "ts = t # us" by (cases ts) auto
  with assms reasoning_chunks [of "s\<lparr>ot_in_thinking := True\<rparr>" us x] show ?thesis
    by (simp add: delta_simps opened_def)
qed

lemma text_chunks:
  assumes "ot_sent_start s" "\<not> ot_in_thinking s" "ot_text_started s" "list_all (\<lambda>t. t \<noteq> []) ts"
  shows "each handle_chunk (map (\<lambda>t. delta_chunk [(''content'', JString t)]) ts) s =
    (map (\<lambda>c. ContentBlockDelta (ot_text_index s) (block_chunk (Text x) c)) ts, s)"
  using assms by (induction ts) (simp_all add: delta_simps)

lemma text_phase:
  assumes "ot_sent_start s" "\<not> ot_text_started s" "ot_tools s = []" "list_all (\<lambda>t. t \<noteq> []) ts" "ts \<noteq> []"
  defines "k \<equiv> (if ot_in_thinking s then 1 else ot_content_index s)"
  shows "each handle_chunk (map (\<lambda>t. delta_chunk [(''content'', JString t)]) ts) s =
    ((if ot_in_thinking s then [ContentBlockStop 0] else []) @ opened k (Text x) ts,
     s\<lparr>ot_in_thinking := False, ot_text_started := True, ot_text_index := k, ot_content_index := k + 1\<rparr>)"
proof -
  from assms(5) obtain t us where t: "ts = t # us" by (cases ts) auto
  with assms(1-4) text_chunks [of "s\<lparr>ot_in_thinking := False, ot_text_started := True, ot_text_index := k, ot_content_index := k + 1\<rparr>" us x]
  show ?thesis by (cases "ot_in_thinking s") (simp_all add: delta_simps opened_def k_def not_thinking)
qed


lemma unat_index: "n < 2 ^ 64 \<Longrightarrow> unat (of_nat n :: u64) = n"
  by (simp add: unsigned_of_nat take_bit_nat_eq_self_iff)

lemma handle_call_chunk:
  assumes "ot_sent_start s"
  shows "handle_chunk (call_chunk i func kvs) s =
    handle_tool_call (JObject ([(''function'', JObject func)] @ kvs @ [(''index'', JNumber (PosInt (of_nat i)))])) s"
  using assms by (simp add: call_chunk_def delta_simps split: prod.splits)

abbreviation call_state :: "u32 \<Rightarrow> string \<Rightarrow> string \<Rightarrow> string \<Rightarrow> tool_call_state" where
  "call_state k cid cname args \<equiv> \<lparr>tcs_index = k, tcs_id = cid, tcs_name = cname, tcs_arguments = args, tcs_started = True\<rparr>"

definition before_call :: "oai_translator \<Rightarrow> api_stream_event list" where
  "before_call s = (if ot_in_thinking s then [ContentBlockStop 0] else []) @
     (if ot_tools s \<noteq> [] then [] else if ot_text_started s then [ContentBlockStop (ot_text_index s)]
      else if ot_content_index s = 1 then [ContentBlockStop 0] else [])"

definition after_call :: "tool_call_state \<Rightarrow> oai_translator \<Rightarrow> oai_translator" where
  "after_call tc s = s\<lparr>ot_in_thinking := False, ot_text_started := (ot_tools s \<noteq> [] \<and> ot_text_started s), ot_tools := ot_tools s @ [tc]\<rparr>"

lemma call_head:
  assumes "ot_sent_start s" "length (ot_tools s) < 2 ^ 64"
  defines "k \<equiv> ot_content_index s + of_nat (length (ot_tools s))"
  shows "handle_chunk (call_chunk (length (ot_tools s)) [(''arguments'', JString []), (''name'', JString cname)] [(''id'', JString cid)]) s =
    (before_call s @ [ContentBlockStart k (block_header (ToolUse cid cname x))], after_call (call_state k cid cname []) s)"
  using assms(1,2)
  by (simp add: handle_call_chunk handle_tool_call_def get_u64_def unat_index json_index_def str_or_empty_def get_str_def
      ensure_states_def start_tool_def before_call_def after_call_def nth_append k_def Let_def)


lemma call_piece:
  assumes "ot_sent_start s" "ot_tools s = xs @ [call_state k cid cname args]" "length xs < 2 ^ 64"
  shows "handle_chunk (call_chunk (length xs) [(''arguments'', JString a)] []) s =
    ((if a = [] then [] else [ContentBlockDelta k (block_chunk (ToolUse cid cname x) a)]),
     s\<lparr>ot_tools := xs @ [call_state k cid cname (args @ a)]\<rparr>)"
  using assms
  by (simp add: handle_call_chunk handle_tool_call_def get_u64_def unat_index json_index_def str_or_empty_def get_str_def
      ensure_states_def start_tool_def nth_append Let_def)

lemma call_pieces:
  assumes "ot_sent_start s" "ot_tools s = xs @ [call_state k cid cname args]" "length xs < 2 ^ 64"
  shows "each handle_chunk (map (\<lambda>a. call_chunk (length xs) [(''arguments'', JString a)] []) as) s =
    (map (\<lambda>a. ContentBlockDelta k (block_chunk (ToolUse cid cname x) a)) (filter (\<lambda>a. a \<noteq> []) as),
     s\<lparr>ot_tools := xs @ [call_state k cid cname (args @ concat as)]\<rparr>)"
  using assms
proof (induction as arbitrary: s args)
  case (Cons a as)
  from Cons.IH [of "s\<lparr>ot_tools := xs @ [call_state k cid cname (args @ a)]\<rparr>" "args @ a"] Cons.prems call_piece [OF Cons.prems, of a x]
  show ?case by (simp add: and_then_def del: block_chunk.simps)
qed simp

definition opened_call :: "u32 \<Rightarrow> oai_call \<Rightarrow> api_stream_event list" where
  "opened_call k c = (case c of (cid, cname, pieces) \<Rightarrow> opened k (ToolUse cid cname JNull) (filter (\<lambda>a. a \<noteq> []) pieces))"

lemma one_call:
  assumes "ot_sent_start s" "length (ot_tools s) < 2 ^ 64"
  shows "\<exists>tc. tcs_started tc \<and> each handle_chunk (call_chunks (length (ot_tools s)) c) s =
    (before_call s @ opened_call (ot_content_index s + of_nat (length (ot_tools s))) c, after_call tc s)"
proof -
  obtain cid cname pieces where c: "c = (cid, cname, pieces)" by (cases c)
  let ?k = "ot_content_index s + of_nat (length (ot_tools s))"
  let ?s1 = "after_call (call_state ?k cid cname []) s"
  have "each handle_chunk (map (\<lambda>a. call_chunk (length (ot_tools s)) [(''arguments'', JString a)] []) pieces) ?s1 =
    (map (\<lambda>a. ContentBlockDelta ?k (block_chunk (ToolUse cid cname JNull) a)) (filter (\<lambda>a. a \<noteq> []) pieces),
     after_call (call_state ?k cid cname (concat pieces)) s)"
    using call_pieces [of ?s1 "ot_tools s" ?k cid cname "[]" pieces JNull] assms by (simp add: after_call_def)
  with call_head [OF assms, of cname cid JNull] show ?thesis
    by (intro exI [of _ "call_state ?k cid cname (concat pieces)"])
      (simp add: c call_chunks_def opened_call_def opened_def and_then_def del: block_chunk.simps block_header.simps)
qed

fun opened_calls :: "u32 \<Rightarrow> oai_call list \<Rightarrow> api_stream_event list" where
  "opened_calls k [] = []"
| "opened_calls k (c # cs) = opened_call k c @ opened_calls (k + 1) cs"

definition between :: "oai_translator \<Rightarrow> bool" where
  "between s \<longleftrightarrow> ot_sent_start s \<and> \<not> ot_finished s \<and> list_all tcs_started (ot_tools s) \<and>
     (ot_tools s \<noteq> [] \<longrightarrow> \<not> ot_in_thinking s \<and> \<not> ot_text_started s)"

lemma between_after_call: "between s \<Longrightarrow> tcs_started tc \<Longrightarrow> between (after_call tc s)"
  by (auto simp: between_def after_call_def)

lemma later_calls:
  assumes "between s" "ot_tools s \<noteq> []" "length (ot_tools s) + length cs < 2 ^ 64"
  shows "\<exists>s'. each handle_chunk (calls_chunks (length (ot_tools s)) cs) s =
      (opened_calls (ot_content_index s + of_nat (length (ot_tools s))) cs, s') \<and> between s' \<and> ot_tools s' \<noteq> []"
  using assms
proof (induction cs arbitrary: s)
  case (Cons c cs)
  from one_call [of s c] Cons.prems obtain tc where tc: "tcs_started tc"
    "each handle_chunk (call_chunks (length (ot_tools s)) c) s =
       (opened_call (ot_content_index s + of_nat (length (ot_tools s))) c, after_call tc s)"
    by (auto simp: between_def before_call_def)
  have s1: "between (after_call tc s)" "ot_tools (after_call tc s) \<noteq> []" "length (ot_tools (after_call tc s)) = Suc (length (ot_tools s))"
    "ot_content_index (after_call tc s) = ot_content_index s"
    using between_after_call [OF Cons.prems(1) tc(1)] by (simp_all add: after_call_def)
  from Cons.IH [OF s1(1,2)] Cons.prems(3) s1(3,4) obtain s' where
    "each handle_chunk (calls_chunks (Suc (length (ot_tools s))) cs) (after_call tc s) =
      (opened_calls (ot_content_index s + of_nat (Suc (length (ot_tools s)))) cs, s')" "between s'" "ot_tools s' \<noteq> []"
    by auto
  with each_join [OF tc(2) this(1)] show ?case by (auto simp: algebra_simps)
qed auto

lemma calls_phase:
  assumes "between s" "ot_tools s = []" "cs \<noteq> []" "length cs < 2 ^ 64"
  shows "\<exists>s'. each handle_chunk (calls_chunks 0 cs) s = (before_call s @ opened_calls (ot_content_index s) cs, s') \<and>
      between s' \<and> ot_tools s' \<noteq> []"
proof -
  from assms(3) obtain c cs' where cs: "cs = c # cs'" by (cases cs) auto
  from one_call [of s c] assms(1,2) obtain tc where tc: "tcs_started tc"
    "each handle_chunk (call_chunks 0 c) s = (before_call s @ opened_call (ot_content_index s) c, after_call tc s)"
    by (auto simp: between_def)
  have s1: "between (after_call tc s)" "ot_tools (after_call tc s) \<noteq> []" "length (ot_tools (after_call tc s)) = 1"
    "ot_content_index (after_call tc s) = ot_content_index s"
    using between_after_call [OF assms(1) tc(1)] assms(2) by (simp_all add: after_call_def)
  from later_calls [OF s1(1,2), of cs'] assms(4) cs s1(3,4) obtain s' where
    "each handle_chunk (calls_chunks 1 cs') (after_call tc s) = (opened_calls (ot_content_index s + 1) cs', s')" "between s'" "ot_tools s' \<noteq> []"
    by auto
  with each_join [OF tc(2) this(1)] cs show ?thesis by auto
qed


definition no_usage :: json where
  "no_usage = JObject [(''input_tokens'', JNumber (PosInt 0)), (''output_tokens'', JNumber (PosInt 0))]"

definition last_delta :: "string \<Rightarrow> api_stream_event" where
  "last_delta reason = MessageDelta (JObject [(''stop_reason'', JString (stop_reason_of reason))]) no_usage"

lemma finish_chunk:
  assumes "ot_sent_start s"
  shows "handle_chunk (JObject [(''choices'', JArray [JObject [(''delta'', JObject []), (''finish_reason'', JString reason)]])]) s =
    ((if ot_in_thinking s then [ContentBlockStop 0] else []) @
     (if ot_text_started s then [ContentBlockStop (ot_text_index s)]
      else if ot_content_index s = 1 \<and> ot_tools s = [] then [ContentBlockStop 0] else []) @ [last_delta reason],
     s\<lparr>ot_in_thinking := False\<rparr>)"
  using assms
  by (simp add: handle_chunk_def handle_choice_def json_index_def and_then_def handle_text_delta_def handle_reasoning_delta_def
      handle_tool_call_deltas_def handle_finish_reason_def get_str_def last_delta_def no_usage_def Let_def)

text \<open>The translator after text and reasoning: at most one block is open, and no call has started.\<close>

definition talked :: "bool \<Rightarrow> bool \<Rightarrow> oai_translator \<Rightarrow> bool" where
  "talked thought spoken s \<longleftrightarrow> between s \<and> ot_tools s = [] \<and> ot_in_thinking s = (thought \<and> \<not> spoken) \<and> ot_text_started s = spoken \<and>
     ot_content_index s = (if spoken then ot_text_index s + 1 else 0) \<and> (spoken \<longrightarrow> ot_text_index s = (if thought then 1 else 0))"

definition last_stop :: "bool \<Rightarrow> bool \<Rightarrow> api_stream_event list" where
  "last_stop thought spoken = (if spoken then [ContentBlockStop (if thought then 1 else 0)] else if thought then [ContentBlockStop 0] else [])"

lemma talk_phase:
  assumes "list_all (\<lambda>t. t \<noteq> []) rs" "list_all (\<lambda>t. t \<noteq> []) ts" "talked False False s"
  shows "\<exists>s' evs. each handle_chunk (map (\<lambda>t. delta_chunk [(''reasoning_content'', JString t)]) rs @
        map (\<lambda>t. delta_chunk [(''content'', JString t)]) ts) s = (evs, s') \<and> talked (rs \<noteq> []) (ts \<noteq> []) s' \<and>
     evs @ last_stop (rs \<noteq> []) (ts \<noteq> []) = closed 0 (Thinking x) rs @ closed (if rs \<noteq> [] then 1 else 0) (Text y) ts"
proof -
  let ?s1 = "if rs = [] then s else s\<lparr>ot_in_thinking := True\<rparr>"
  have s: "ot_sent_start s" "\<not> ot_in_thinking s" "\<not> ot_text_started s" "ot_tools s = []" "ot_content_index s = 0" "\<not> ot_finished s"
    using assms(3) by (simp_all add: talked_def between_def)
  have r: "each handle_chunk (map (\<lambda>t. delta_chunk [(''reasoning_content'', JString t)]) rs) s =
      (if rs = [] then [] else opened 0 (Thinking x) rs, ?s1)"
    using reasoning_phase [OF s(1,2) assms(1), of x] by simp
  show ?thesis
  proof (cases "ts = []")
    case True
    with r s show ?thesis by (auto simp: talked_def between_def last_stop_def closed_def)
  next
    case False
    with text_phase [of ?s1 ts y] assms(2) s have t: "each handle_chunk (map (\<lambda>t. delta_chunk [(''content'', JString t)]) ts) ?s1 =
        ((if rs \<noteq> [] then [ContentBlockStop 0] else []) @ opened (if rs \<noteq> [] then 1 else 0) (Text y) ts,
         ?s1\<lparr>ot_in_thinking := False, ot_text_started := True, ot_text_index := (if rs \<noteq> [] then 1 else 0),
           ot_content_index := (if rs \<noteq> [] then 1 else 0) + 1\<rparr>)"
      by simp
    show ?thesis
    proof (intro exI conjI)
      show "each handle_chunk (map (\<lambda>t. delta_chunk [(''reasoning_content'', JString t)]) rs @
          map (\<lambda>t. delta_chunk [(''content'', JString t)]) ts) s =
        ((if rs = [] then [] else opened 0 (Thinking x) rs) @
           (if rs \<noteq> [] then [ContentBlockStop 0] else []) @ opened (if rs \<noteq> [] then 1 else 0) (Text y) ts,
         ?s1\<lparr>ot_in_thinking := False, ot_text_started := True, ot_text_index := (if rs \<noteq> [] then 1 else 0),
           ot_content_index := (if rs \<noteq> [] then 1 else 0) + 1\<rparr>)"
        by (rule each_join [OF r t])
    qed (use False s in \<open>auto simp: talked_def between_def last_stop_def closed_def\<close>)
  qed
qed

lemma before_call_talked: "talked thought spoken s \<Longrightarrow> before_call s = last_stop thought spoken"
  by (auto simp: talked_def before_call_def last_stop_def)

lemma answer_translation:
  assumes "list_all (\<lambda>t. t \<noteq> []) rs" "list_all (\<lambda>t. t \<noteq> []) ts" "length cs < 2 ^ 64"
  shows "\<exists>m j k s'. each handle_chunk (answer_chunks rs ts cs reason) oai_translator_new =
     ([MessageStart m] @ closed 0 (Thinking x) rs @ closed (if rs \<noteq> [] then 1 else 0) (Text y) ts @ opened_calls k cs @ [last_delta reason], s') \<and>
     take 1 (fst (handle_done s')) = [if cs = [] then MessageStop else ContentBlockStop j] \<and> \<not> ot_finished s'"
proof -
  let ?s0 = "oai_translator_new\<lparr>ot_sent_start := True\<rparr>"
  let ?finish = "JObject [(''choices'', JArray [JObject [(''delta'', JObject []), (''finish_reason'', JString reason)]])]"
  have "talked False False ?s0" by (simp add: talked_def between_def oai_translator_new_def)
  from talk_phase [OF assms(1,2) this, of x y] obtain s1 evs where talk:
    "each handle_chunk (map (\<lambda>t. delta_chunk [(''reasoning_content'', JString t)]) rs @
        map (\<lambda>t. delta_chunk [(''content'', JString t)]) ts) ?s0 = (evs, s1)"
    "talked (rs \<noteq> []) (ts \<noteq> []) s1"
    "evs @ last_stop (rs \<noteq> []) (ts \<noteq> []) = closed 0 (Thinking x) rs @ closed (if rs \<noteq> [] then 1 else 0) (Text y) ts"
    by blast
  have s1: "between s1" "ot_tools s1 = []" using talk(2) by (simp_all add: talked_def)
  obtain m where m: "handle_chunk (delta_chunk [(''content'', JString []), (''role'', JString ''assistant'')]) oai_translator_new =
      ([MessageStart m], ?s0)"
    by (simp add: handle_chunk_def delta_chunk_def handle_message_start_def oai_translator_new_def handle_choice_def json_index_def
        and_then_def delta_simps handle_finish_reason_def)
  have tail: "\<exists>j k s'. each handle_chunk (calls_chunks 0 cs @ [?finish]) s1 =
      (last_stop (rs \<noteq> []) (ts \<noteq> []) @ opened_calls k cs @ [last_delta reason], s') \<and>
      take 1 (fst (handle_done s')) = [if cs = [] then MessageStop else ContentBlockStop j] \<and> \<not> ot_finished s'"
  proof (cases "cs = []")
    case True
    have "handle_chunk ?finish s1 = (last_stop (rs \<noteq> []) (ts \<noteq> []) @ [last_delta reason], s1\<lparr>ot_in_thinking := False\<rparr>)"
      using talk(2) s1 by (subst finish_chunk) (auto simp: between_def talked_def last_stop_def)
    with True s1 show ?thesis by (simp add: handle_done_def between_def and_then_def)
  next
    case False
    from calls_phase [OF s1 False assms(3)] obtain s2 where s2:
      "each handle_chunk (calls_chunks 0 cs) s1 = (last_stop (rs \<noteq> []) (ts \<noteq> []) @ opened_calls (ot_content_index s1) cs, s2)"
      "between s2" "ot_tools s2 \<noteq> []"
      using before_call_talked [OF talk(2)] by auto
    have "each handle_chunk [?finish] s2 = ([last_delta reason], s2\<lparr>ot_in_thinking := False\<rparr>)"
      using s2(2,3) by (simp add: finish_chunk between_def and_then_def)
    from each_join [OF s2(1) this] s2(2,3) False show ?thesis
      by (cases "ot_tools s2") (auto simp: handle_done_def between_def)
  qed
  then obtain j k s' where "each handle_chunk (calls_chunks 0 cs @ [?finish]) s1 =
      (last_stop (rs \<noteq> []) (ts \<noteq> []) @ opened_calls k cs @ [last_delta reason], s')"
    and s': "take 1 (fst (handle_done s')) = [if cs = [] then MessageStop else ContentBlockStop j] \<and> \<not> ot_finished s'"
    by blast
  from each_Cons [OF m each_join [OF talk(1) this(1)]] talk(3)
  have "each handle_chunk (answer_chunks rs ts cs reason) oai_translator_new =
     ([MessageStart m] @ closed 0 (Thinking x) rs @ closed (if rs \<noteq> [] then 1 else 0) (Text y) ts @ opened_calls k cs @ [last_delta reason], s')"
    by (simp add: answer_chunks_def del: each.simps)
  with s' show ?thesis by blast
qed


subsection \<open>What the query loop makes of it\<close>

fun stream_item_of :: "sse_item \<Rightarrow> stream_item" where
  "stream_item_of (Inl e) = Broken e"
| "stream_item_of (Inr ev) = Event ev"

lemma ingest_opened:
  "ingest_stream_events ep model sid turns t (map Event (opened i b cs) @ rest) ms g =
   ingest_stream_events ep model sid turns t rest ms (add_chunks b cs (block_start (ep_render ep) (block_header b) g))"
  using ingest_chunks [of ep model sid turns t i b cs rest ms] by (simp add: opened_def o_def)

lemma ingest_closed:
  assumes "list_all (\<lambda>t. t \<noteq> []) cs" "b = Text (concat cs) \<or> b = Thinking (concat cs)"
  shows "\<exists>g'. ingest_stream_events ep model sid turns t (map Event (closed i b cs) @ rest) ms g =
      ingest_stream_events ep model sid turns t rest ms g' \<and>
    ig_blocks g' = ig_blocks g @ (if cs = [] then [] else [b])"
proof (cases "cs = []")
  case False
  then have full: "concat cs \<noteq> []" using assms(1) by (cases cs) auto
  let ?g' = "block_stop (ep_parse ep) (add_chunks b cs (block_start (ep_render ep) (block_header b) g))"
  have "ingest_stream_events ep model sid turns t (map Event (closed i b cs) @ rest) ms g =
      ingest_stream_events ep model sid turns t rest ms ?g'"
    using False by (simp add: closed_def ingest_opened)
  moreover have "ig_blocks ?g' = ig_blocks g @ [b]"
  proof -
    obtain t where t: "concat cs = t" "t \<noteq> []" using full by blast
    from assms(2) show ?thesis unfolding t(1)
      by (rule disjE) (simp_all add: block_start_def block_stop_def str_or_empty_def get_str_def t)
  qed
  ultimately show ?thesis using False by auto
qed (auto simp: closed_def)

text \<open>A call that is opened and not closed is forgotten when the next one is opened.\<close>

lemma concat_nonempty: "concat (filter (\<lambda>a. a \<noteq> []) as) = concat as"
  by (induction as) auto

lemma ingest_call:
  "\<exists>g'. ingest_stream_events ep model sid turns t (map Event (opened_call k c) @ rest) ms g =
      ingest_stream_events ep model sid turns t rest ms g' \<and> ig_blocks g' = ig_blocks g \<and>
    ig_block_type g' = ''tool_use'' \<and> c = (ig_tool_id g', ig_tool_name g', snd (snd c)) \<and> ig_tool_input g' = concat (snd (snd c))"
  by (cases c) (auto simp: opened_call_def ingest_opened block_start_def str_or_empty_def get_str_def seeded_input_def
      concat_nonempty Let_def)

lemma ingest_calls:
  "cs \<noteq> [] \<Longrightarrow> \<exists>g'. ingest_stream_events ep model sid turns t (map Event (opened_calls k cs) @ rest) ms g =
      ingest_stream_events ep model sid turns t rest ms g' \<and> ig_blocks g' = ig_blocks g \<and>
    ig_block_type g' = ''tool_use'' \<and> last cs = (ig_tool_id g', ig_tool_name g', snd (snd (last cs))) \<and>
    ig_tool_input g' = concat (snd (snd (last cs)))"
proof (induction cs arbitrary: k g)
  case (Cons c cs)
  from ingest_call [of ep model sid turns t k c "map Event (opened_calls (k + 1) cs) @ rest" ms g] obtain g1 where
    g1: "ingest_stream_events ep model sid turns t (map Event (opened_calls k (c # cs)) @ rest) ms g =
        ingest_stream_events ep model sid turns t (map Event (opened_calls (k + 1) cs) @ rest) ms g1" "ig_blocks g1 = ig_blocks g"
      "ig_block_type g1 = ''tool_use''" "c = (ig_tool_id g1, ig_tool_name g1, snd (snd c))" "ig_tool_input g1 = concat (snd (snd c))"
    by auto
  show ?case
  proof (cases "cs = []")
    case True
    with g1 show ?thesis by auto
  next
    case False
    from Cons.IH [OF this, of "k + 1" g1] g1(1,2) False show ?thesis by auto
  qed
qed simp

definition ingested_call :: "(string \<Rightarrow> json option) \<Rightarrow> oai_call \<Rightarrow> content_block" where
  "ingested_call parse c = (case c of (cid, cname, pieces) \<Rightarrow>
     ToolUse cid cname (case parse (concat pieces) of Some v \<Rightarrow> v | None \<Rightarrow> JObject []))"


lemma translate_all_chunks:
  assumes "list_all2 (\<lambda>d v. plain_data d \<and> d \<noteq> ''[DONE]'' \<and> jp_parse p d = Some v) ds vs" "\<not> ot_finished s"
    "each handle_chunk vs s = (evs, s')"
  shows "translate_all p (ds @ [''[DONE]'']) s = map Inr (evs @ take 1 (fst (handle_done s')))"
  using assms
proof (induction ds vs arbitrary: s evs rule: list_all2_induct)
  case Nil
  have "translate_chunk p ''[DONE]'' s' = (map Inr (fst (handle_done s')), s'\<lparr>ot_finished := True\<rparr>)"
    by (simp add: translate_chunk_def handle_done_def)
  with Nil show ?case by (simp add: take_map)
next
  case (Cons d ds v vs)
  obtain e1 s1 where h: "handle_chunk v s = (e1, s1)" by fastforce
  then obtain e2 where e2: "each handle_chunk vs s1 = (e2, s')" "evs = e1 @ e2"
    using Cons.prems(2) by (auto simp: and_then_def split: prod.splits)
  have "\<not> ot_finished s1" using Cons.prems(1) h handle_chunk_finished [of v s] by simp
  from Cons.IH [OF this e2(1)] Cons.hyps(1) h e2(2) this show ?case by (simp add: translate_chunk_def)
qed

lemma ingest_answer:
  assumes "list_all (\<lambda>t. t \<noteq> []) rs" "list_all (\<lambda>t. t \<noteq> []) ts"
  shows "\<exists>ms' g'. ingest_stream_events ep model sid turns t
      (map Event ([MessageStart m] @ closed i (Thinking (concat rs)) rs @ closed j (Text (concat ts)) ts @ opened_calls k cs @
         [last_delta reason] @ [if cs = [] then MessageStop else ContentBlockStop l])) ms (ingest_start us c tc b) =
     (IngestContinue ((if rs = [] then [] else [Thinking (concat rs)]) @ (if ts = [] then [] else [Text (concat ts)]) @
        (if cs = [] then [] else [ingested_call (ep_parse ep) (last cs)])) (Some (stop_reason_of reason)), ms', g')"
proof -
  let ?finale = "map Event [last_delta reason, if cs = [] then MessageStop else ContentBlockStop l]"
  let ?g0 = "message_start (ep_fp ep) model sid (length ms) m (ingest_start us c tc b)"
  obtain g1 where g1: "ingest_stream_events ep model sid turns t (map Event (closed i (Thinking (concat rs)) rs) @
        map Event (closed j (Text (concat ts)) ts) @ map Event (opened_calls k cs) @ ?finale) ms ?g0 =
      ingest_stream_events ep model sid turns t (map Event (closed j (Text (concat ts)) ts) @ map Event (opened_calls k cs) @ ?finale) ms g1"
    "ig_blocks g1 = ig_blocks ?g0 @ (if rs = [] then [] else [Thinking (concat rs)])"
    using ingest_closed [OF assms(1)] by metis
  obtain g2 where g2: "ingest_stream_events ep model sid turns t (map Event (closed j (Text (concat ts)) ts) @ map Event (opened_calls k cs) @ ?finale) ms g1 =
      ingest_stream_events ep model sid turns t (map Event (opened_calls k cs) @ ?finale) ms g2"
    "ig_blocks g2 = ig_blocks g1 @ (if ts = [] then [] else [Text (concat ts)])"
    using ingest_closed [OF assms(2)] by metis
  have g0: "ig_blocks ?g0 = []"
    by (simp add: message_start_def ingest_start_def spend_def Let_def split: option.splits)
  have "\<exists>ms' g'. ingest_stream_events ep model sid turns t (map Event (opened_calls k cs) @ ?finale) ms g2 =
      (IngestContinue (ig_blocks g2 @ (if cs = [] then [] else [ingested_call (ep_parse ep) (last cs)])) (Some (stop_reason_of reason)), ms', g')"
  proof (cases "cs = []")
    case True
    then show ?thesis by (simp add: last_delta_def message_delta_def spend_def get_str_def)
  next
    case False
    from ingest_calls [OF this, of ep model sid turns t k ?finale ms g2] obtain g3 where g3:
      "ingest_stream_events ep model sid turns t (map Event (opened_calls k cs) @ ?finale) ms g2 =
        ingest_stream_events ep model sid turns t ?finale ms g3" "ig_blocks g3 = ig_blocks g2" "ig_block_type g3 = ''tool_use''"
      "last cs = (ig_tool_id g3, ig_tool_name g3, snd (snd (last cs)))" "ig_tool_input g3 = concat (snd (snd (last cs)))"
      by blast
    have "ingested_call (ep_parse ep) (last cs) = ToolUse (ig_tool_id g3) (ig_tool_name g3)
        (case ep_parse ep (ig_tool_input g3) of Some v \<Rightarrow> v | None \<Rightarrow> JObject [])"
      by (subst g3(4)) (simp add: ingested_call_def g3(5))
    with False g3 show ?thesis
      by (simp add: last_delta_def message_delta_def spend_def get_str_def block_stop_def Let_def)
  qed
  with g0 g1 g2 show ?thesis by simp
qed

text \<open>
  C31. An answer in the OpenAI format, with its reasoning, text and calls cut into pieces in any way and its bytes cut
  between any two characters, comes out of decoding, translation and ingestion as one block of its reasoning, one block
  of its text and its stop reason in the other service's words. A single tool call comes out too, but of several calls
  only the last one: the start of a call does not close the one before it, and the stops at the end are cut off by the
  sentinel. Every chunk must be valid UTF-8: a cut inside a character garbles it (\<open>openai_cut_garbles\<close>).
\<close>

theorem openai_answer:
  assumes "list_all (\<lambda>t. t \<noteq> []) (rs @ ts)" "length tools < 2 ^ 64"
    and "list_all2 (\<lambda>d v. plain_data d \<and> d \<noteq> ''[DONE]'' \<and> jp_parse p d = Some v) ds (answer_chunks rs ts tools reason)"
    and "list_all valid_utf8 cs" "concat cs = frames (map data_block (ds @ [''[DONE]'']))"
  shows "fst (ingest_stream_events ep model sid turns t (map stream_item_of (oai_items p (map Chunk cs) oai_stream_new)) ms
      (ingest_start us c tc b)) =
    IngestContinue ((if rs = [] then [] else [Thinking (concat rs)]) @ (if ts = [] then [] else [Text (concat ts)]) @
      (if tools = [] then [] else [ingested_call (ep_parse ep) (last tools)])) (Some (stop_reason_of reason))"
proof -
  have pieces: "list_all (\<lambda>t. t \<noteq> []) rs" "list_all (\<lambda>t. t \<noteq> []) ts" using assms(1) by simp_all
  from answer_translation [OF pieces assms(2), of reason "concat rs" "concat ts"] obtain m j k s' where tr:
    "each handle_chunk (answer_chunks rs ts tools reason) oai_translator_new = ([MessageStart m] @ closed 0 (Thinking (concat rs)) rs @
       closed (if rs \<noteq> [] then 1 else 0) (Text (concat ts)) ts @ opened_calls k tools @ [last_delta reason], s')"
    "take 1 (fst (handle_done s')) = [if tools = [] then MessageStop else ContentBlockStop j]"
    by blast
  have "list_all plain_data (ds @ [''[DONE]''])"
    using assms(3) by (auto simp: list_all2_conv_all_nth list_all_length plain_data_def graphic_def byte_def nth_append)
  then have "oai_items p (map Chunk cs) oai_stream_new = translate_all p (ds @ [''[DONE]'']) oai_translator_new"
    using oai_items_cut [OF _ assms(4), of _ oai_translator_new "[]" p] assms(5)
    by (simp add: oai_stream_new_def oai_translator_new_def)
  also have "\<dots> = map Inr (([MessageStart m] @ closed 0 (Thinking (concat rs)) rs @
       closed (if rs \<noteq> [] then 1 else 0) (Text (concat ts)) ts @ opened_calls k tools @ [last_delta reason]) @
       [if tools = [] then MessageStop else ContentBlockStop j])"
    by (subst translate_all_chunks [OF assms(3) _ tr(1)]) (simp_all only: tr(2), simp add: oai_translator_new_def)
  finally have "map stream_item_of (oai_items p (map Chunk cs) oai_stream_new) = map Event ([MessageStart m] @
      closed 0 (Thinking (concat rs)) rs @ closed (if rs \<noteq> [] then 1 else 0) (Text (concat ts)) ts @ opened_calls k tools @
      [last_delta reason] @ [if tools = [] then MessageStop else ContentBlockStop j])"
    by (simp add: o_def)
  with ingest_answer [OF pieces, of ep model sid turns t m 0 _ k tools reason j ms us c tc b] show ?thesis by (metis fst_conv)
qed


text \<open>An answer with reasoning, text and two calls, whose chunks are written as one letter each.\<close>

definition two_calls :: "json list" where
  "two_calls = answer_chunks [''hm''] [''Hi'', ''!''] [(''1'', ''Read'', [''{'', ''}'']), (''2'', ''Bash'', [''{}''])] ''tool_calls''"

definition letter_parser :: json_parser where
  "letter_parser = \<lparr>jp_parse = map_of (zip (map (\<lambda>c. [c]) ''abcdefghij'') two_calls), jp_error = (\<lambda>s. s)\<rparr>"

definition letter_bytes :: string where
  "letter_bytes = frames (map data_block (map (\<lambda>c. [c]) ''abcdefghij'' @ [''[DONE]'']))"

theorem openai_answer_witness:
  "\<forall>ep model sid turns t ms us c tc b. fst (ingest_stream_events ep model sid turns t
      (map stream_item_of (oai_items letter_parser (map Chunk [take 3 letter_bytes, drop 3 letter_bytes]) oai_stream_new)) ms
      (ingest_start us c tc b)) =
    IngestContinue [Thinking ''hm'', Text ''Hi!'', ToolUse ''2'' ''Bash'' (case ep_parse ep ''{}'' of Some v \<Rightarrow> v | None \<Rightarrow> JObject [])]
      (Some ''tool_use'')"
proof (intro allI)
  fix ep model sid turns t ms us c tc b
  let ?ds = "map (\<lambda>c. [c]) ''abcdefghij''"
  have "length two_calls = 10" by (simp add: two_calls_def answer_chunks_def call_chunks_def)
  then obtain v0 v1 v2 v3 v4 v5 v6 v7 v8 v9 where vs: "two_calls = [v0, v1, v2, v3, v4, v5, v6, v7, v8, v9]"
    by (auto simp: length_Suc_conv eval_nat_numeral)
  have parsed: "list_all2 (\<lambda>d v. plain_data d \<and> d \<noteq> ''[DONE]'' \<and> jp_parse letter_parser d = Some v) ?ds two_calls"
    by (simp add: letter_parser_def vs plain_data_def graphic_def byte_def)
  have ascii: "list_all valid_utf8 [take 3 letter_bytes, drop 3 letter_bytes]"
    by (simp add: letter_bytes_def data_block_def newlines_def valid_utf8_ascii byte_def)
  have bytes: "concat [take 3 letter_bytes, drop 3 letter_bytes] = frames (map data_block (?ds @ [''[DONE]'']))"
    by (simp only: concat.simps append_Nil2 append_take_drop_id letter_bytes_def)
  have "fst (ingest_stream_events ep model sid turns t
      (map stream_item_of (oai_items letter_parser (map Chunk [take 3 letter_bytes, drop 3 letter_bytes]) oai_stream_new)) ms
      (ingest_start us c tc b)) =
    IngestContinue ((if [''hm''] = [] then [] else [Thinking (concat [''hm''])]) @ (if [''Hi'', ''!''] = [] then [] else [Text (concat [''Hi'', ''!''])]) @
      (if [(''1'', ''Read'', [''{'', ''}'']), (''2'', ''Bash'', [''{}''])] = [] then []
       else [ingested_call (ep_parse ep) (last [(''1'', ''Read'', [''{'', ''}'']), (''2'', ''Bash'', [''{}''])])])) (Some (stop_reason_of ''tool_calls''))"
    by (rule openai_answer [OF _ _ parsed [unfolded two_calls_def] ascii bytes]) simp_all
  then show "fst (ingest_stream_events ep model sid turns t
      (map stream_item_of (oai_items letter_parser (map Chunk [take 3 letter_bytes, drop 3 letter_bytes]) oai_stream_new)) ms
      (ingest_start us c tc b)) =
    IngestContinue [Thinking ''hm'', Text ''Hi!'', ToolUse ''2'' ''Bash'' (case ep_parse ep ''{}'' of Some v \<Rightarrow> v | None \<Rightarrow> JObject [])]
      (Some ''tool_use'')"
    by (simp add: ingested_call_def stop_reason_of_def)
qed

text \<open>
  The bytes of an answer are decoded chunk by chunk, so a character that the network cuts in two does not arrive:
  the same bytes give the text in one chunk and replacement characters in two.
\<close>

lemma openai_cut_garbles:
  assumes "byte c \<in> {0xC2..0xDF}" "byte d \<in> {0x80..0xBF}"
  shows "from_utf8_lossy [c, d] = [c, d] \<and>
    from_utf8_lossy [c] @ from_utf8_lossy [d] = [CHR 0xEF, CHR 0xBF, CHR 0xBD, CHR 0xEF, CHR 0xBF, CHR 0xBD]"
proof
  show "from_utf8_lossy [c, d] = [c, d]"
    using valid_utf8_two [OF assms, of "[]"] by (simp add: from_utf8_lossy_valid)
  have "utf8_split [c] = ([], [c], None)" "utf8_split [d] = ([], [d], Some 1)"
    using assms by (auto simp: utf8_split.simps following_def)
  then have "from_utf8_lossy [c] = [CHR 0xEF, CHR 0xBF, CHR 0xBD]" "from_utf8_lossy [d] = [CHR 0xEF, CHR 0xBF, CHR 0xBD]"
    by (subst from_utf8_lossy.simps, simp add: from_utf8_lossy_valid)+
  then show "from_utf8_lossy [c] @ from_utf8_lossy [d] = [CHR 0xEF, CHR 0xBF, CHR 0xBD, CHR 0xEF, CHR 0xBF, CHR 0xBD]" by simp
qed

end
