(* ===== verification/Bao_OpenAiPairing.thy ===== *)
theory Bao_OpenAiPairing
  imports Bao_OpenAi Bao_QueryPairing
begin

text \<open>
  The conversion of requests in \<open>api/openai_client.rs\<close> and the pairing of calls and results that the query loop
  maintains: what is legal in one format stays legal in the other.
\<close>

section \<open>Calls and results in the other format\<close>

definition oai_calls :: "json \<Rightarrow> string set" where
  "oai_calls m = (case json_get m ''tool_calls'' of Some (JArray cs) \<Rightarrow> {i. \<exists>c\<in>set cs. get_str c ''id'' = Some i} | _ \<Rightarrow> {})"

definition is_tool_message :: "json \<Rightarrow> bool" where
  "is_tool_message m \<longleftrightarrow> get_str m ''role'' = Some ''tool''"

text \<open>The results that follow at once, and that every call of a message is among them.\<close>

definition leading_results :: "json list \<Rightarrow> string set" where
  "leading_results ms = {i. \<exists>m\<in>set (takeWhile is_tool_message ms). get_str m ''tool_call_id'' = Some i}"

fun oai_answered :: "json list \<Rightarrow> bool" where
  "oai_answered [] \<longleftrightarrow> True"
| "oai_answered (m # ms) \<longleftrightarrow> oai_calls m \<subseteq> leading_results ms \<and> oai_answered ms"

definition convertible :: "json \<Rightarrow> bool" where
  "convertible w \<longleftrightarrow> get_str w ''role'' \<in> {Some ''user'', Some ''assistant''} \<and>
     (case json_get w ''content'' of
        Some (JArray bs) \<Rightarrow> \<not> list_ex is_tool_result (dropWhile is_tool_result bs) \<and>
          list_all (\<lambda>b. get_str b ''type'' = Some ''tool_use'' \<longrightarrow> get_str b ''id'' \<noteq> None) bs
      | _ \<Rightarrow> True)"

lemma oai_answered_append: "list_all (\<lambda>m. oai_calls m = {}) xs \<Longrightarrow> oai_answered (xs @ ys) = oai_answered ys"
  by (induction xs) simp_all

lemma leading_append: "leading_results xs \<subseteq> leading_results (xs @ ys)"
proof -
  have "\<exists>zs. takeWhile is_tool_message (xs @ ys) = takeWhile is_tool_message xs @ zs" by (induction xs) auto
  then show ?thesis by (auto simp: leading_results_def)
qed

lemma oai_message_no_calls [simp]: "oai_calls (oai_message role content) = {}"
  by (simp add: oai_calls_def oai_message_def)

lemma tool_message_no_calls [simp]: "oai_calls (tool_message render b) = {}" "is_tool_message (tool_message render b)"
  "get_str (tool_message render b) ''tool_call_id'' = Some (str_or_empty b ''tool_use_id'')"
  by (simp_all add: oai_calls_def tool_message_def is_tool_message_def get_str_def)

lemma user_block_no_calls:
  "list_all (\<lambda>m. oai_calls m = {}) (fst mp) \<Longrightarrow> list_all (\<lambda>m. oai_calls m = {}) (fst (user_block render b mp))"
  by (auto simp: user_block_def Let_def split: option.splits)

lemma user_blocks_no_calls:
  "list_all (\<lambda>m. oai_calls m = {}) (fst mp) \<Longrightarrow> list_all (\<lambda>m. oai_calls m = {}) (fst (fold (user_block render) bs mp))"
  by (induction bs arbitrary: mp) (simp_all add: user_block_no_calls)

lemma convert_user_no_calls: "list_all (\<lambda>m. oai_calls m = {}) (convert_user_message render content)"
  using user_blocks_no_calls [of "([], [])" render]
  by (auto simp: convert_user_message_def flush_parts_def case_prod_beta split: json.splits list.splits)

lemma user_results:
  "list_all is_tool_result rs \<Longrightarrow> fold (user_block render) rs (ms, []) = (ms @ map (tool_message render) rs, [])"
  by (induction rs arbitrary: ms) (simp_all add: user_block_def is_tool_result_def str_or_empty_def)

lemma user_block_extends: "\<exists>more_ms. fst (user_block render b mp) = fst mp @ more_ms"
  by (auto simp: user_block_def Let_def split: option.splits)

lemma user_blocks_extend: "\<exists>more_ms. fst (fold (user_block render) bs mp) = fst mp @ more_ms"
proof (induction bs arbitrary: mp)
  case (Cons b bs)
  from Cons.IH [of "user_block render b mp"] user_block_extends [of render b mp] show ?case by auto
qed simp

lemma result_ids_leading: "set (result_ids rs) \<subseteq> leading_results (map (tool_message render) rs @ ms)"
proof -
  have "set (result_ids rs) \<subseteq> leading_results (map (tool_message render) rs)"
    by (induction rs rule: result_ids.induct)
      (auto simp: leading_results_def str_or_empty_def split: option.splits)
  with leading_append show ?thesis by blast
qed

lemma result_ids_append: "result_ids (xs @ ys) = result_ids xs @ result_ids ys"
  by (induction xs) (simp_all split: option.splits)

lemma no_result_ids: "\<not> list_ex is_tool_result bs \<Longrightarrow> result_ids bs = []"
  by (induction bs rule: result_ids.induct) auto

lemma convert_leading:
  assumes "convertible w"
  shows "wire_results w \<subseteq> leading_results (convert_message render w @ ms)"
proof (cases "get_str w ''role'' = Some ''user'' \<and> (\<exists>bs. json_get w ''content'' = Some (JArray bs))")
  case True
  then obtain bs where w: "get_str w ''role'' = Some ''user''" "json_get w ''content'' = Some (JArray bs)" by blast
  let ?rs = "takeWhile is_tool_result bs" and ?os = "dropWhile is_tool_result bs"
  have "\<not> list_ex is_tool_result ?os" using assms w(2) by (simp add: convertible_def)
  then have ids: "result_ids bs = result_ids ?rs"
    using no_result_ids [of ?os] result_ids_append [of ?rs ?os] by simp
  obtain extra where "fst (fold (user_block render) ?os (map (tool_message render) ?rs, [])) = map (tool_message render) ?rs @ extra"
    using user_blocks_extend by force
  moreover have "fold (user_block render) bs ([], []) = fold (user_block render) ?os (map (tool_message render) ?rs, [])"
  proof -
    have "list_all is_tool_result ?rs" by (auto simp: list_all_iff dest: set_takeWhileD)
    then have "fold (user_block render) ?rs ([], []) = (map (tool_message render) ?rs, [])" by (simp add: user_results)
    moreover have "fold (user_block render) (?rs @ ?os) ([], []) = fold (user_block render) ?os (fold (user_block render) ?rs ([], []))"
      by (simp only: fold_append comp_apply)
    ultimately show ?thesis by (simp only: takeWhile_dropWhile_id)
  qed
  ultimately obtain extra' where "convert_message render w = map (tool_message render) ?rs @ extra'"
    using w by (auto simp: convert_message_def str_default_def json_index_def convert_user_message_def case_prod_beta Let_def)
  with w ids result_ids_leading [of ?rs render] show ?thesis by (simp add: wire_results_def)
next
  case False
  then show ?thesis by (auto simp: wire_results_def split: option.splits json.splits)
qed

lemma tool_call_id: "get_str (tool_call_json render b) ''id'' = Some (str_or_empty b ''id'')"
  by (simp add: tool_call_json_def get_str_def)

lemma tool_use_type: "str_or_empty b ''type'' = ''tool_use'' \<longleftrightarrow> get_str b ''type'' = Some ''tool_use''"
  by (simp add: str_or_empty_def split: option.splits)

lemma convert_calls:
  assumes "convertible w"
  shows "list_all (\<lambda>m. oai_calls m = {}) (convert_message render w) \<or> (\<exists>m. convert_message render w = [m] \<and> oai_calls m \<subseteq> wire_calls w)"
proof (cases "get_str w ''role'' = Some ''user''")
  case True
  then show ?thesis by (simp add: convert_message_def str_default_def convert_user_no_calls)
next
  case False
  with assms have role: "get_str w ''role'' = Some ''assistant''" by (simp add: convertible_def)
  show ?thesis
  proof (cases "\<exists>bs. json_get w ''content'' = Some (JArray bs)")
    case True
    then obtain bs where bs: "json_get w ''content'' = Some (JArray bs)" by blast
    let ?uses = "filter (\<lambda>b. get_str b ''type'' = Some ''tool_use'') bs"
    have "set (map (\<lambda>b. str_or_empty b ''id'') ?uses) \<subseteq> wire_calls w"
    proof
      fix x
      assume "x \<in> set (map (\<lambda>b. str_or_empty b ''id'') ?uses)"
      then obtain b where b: "b \<in> set bs" "get_str b ''type'' = Some ''tool_use''" "x = str_or_empty b ''id''" by auto
      with assms bs have "get_str b ''id'' = Some x" by (auto simp: convertible_def list_all_iff str_or_empty_def)
      with b role bs show "x \<in> wire_calls w" by (force simp: wire_calls_def map_filter_def)
    qed
    moreover have "oai_calls m \<subseteq> set (map (\<lambda>b. str_or_empty b ''id'') ?uses)" if "convert_message render w = [m]" for m
      using that role bs
      by (auto simp: convert_message_def str_default_def json_index_def convert_assistant_message_def Let_def oai_calls_def
          tool_call_id tool_use_type split: if_splits)
    ultimately have "oai_calls m \<subseteq> wire_calls w" if "convert_message render w = [m]" for m using that by blast
    then show ?thesis using role bs by (simp add: convert_message_def str_default_def json_index_def convert_assistant_message_def Let_def)
  next
    case False
    with role show ?thesis
      by (auto simp: convert_message_def str_default_def json_index_def convert_assistant_message_def Let_def split: option.splits json.splits)
  qed
qed

lemma answered_converted:
  "answered_by wire_calls wire_results ws \<Longrightarrow> list_all convertible ws \<Longrightarrow> oai_answered (concat (map (convert_message render) ws))"
proof (induction wire_calls wire_results ws rule: answered_by.induct)
  case (2 m)
  then show ?case using convert_calls [of m render] by (auto simp: oai_answered_append [of _ "[]", simplified])
next
  case (3 m n ms)
  let ?rest = "concat (map (convert_message render) (n # ms))"
  have rest: "oai_answered ?rest" using 3 by simp
  have "wire_calls m \<subseteq> leading_results ?rest" using 3(2,3) convert_leading [of n render] by fastforce
  with rest convert_calls [of m render] 3(3) show ?case by (auto simp: oai_answered_append)
qed simp

text \<open>
  C32. The rewriting keeps calls and results together: when the calls of a request are answered by the next message,
  with the results in front of everything else in it, then in the other format every call is answered by one of the
  tool messages that follow it at once.
\<close>

theorem convert_keeps_pairing:
  assumes "legal_messages (cm_messages req)" "list_all convertible (cm_messages req)"
  shows "\<exists>ms. json_get (convert_request render req) ''messages'' = Some (JArray ms) \<and> oai_answered ms"
proof -
  let ?system = "case cm_system req of Some bs \<Rightarrow> convert_system_message bs | None \<Rightarrow> []"
  have "list_all (\<lambda>m. oai_calls m = {}) ?system" by (simp add: convert_system_message_def Let_def split: option.splits)
  moreover have "oai_answered (concat (map (convert_message render) (cm_messages req)))"
    using assms by (intro answered_converted) (simp_all add: legal_messages_def)
  ultimately show ?thesis by (simp add: convert_request_def oai_answered_append)
qed


text \<open>A call, its result and a remark of the user.\<close>

definition call_and_result :: "json list" where
  "call_and_result =
     [JObject [(''content'', JArray [JObject [(''id'', JString ''1''), (''name'', JString ''Bash''), (''type'', JString ''tool_use'')]]),
        (''role'', JString ''assistant'')],
      JObject [(''content'', JArray [JObject [(''tool_use_id'', JString ''1''), (''type'', JString ''tool_result'')],
          JObject [(''text'', JString ''ok''), (''type'', JString ''text'')]]), (''role'', JString ''user'')]]"

theorem convert_keeps_pairing_witness:
  "\<forall>render req. \<exists>ms. json_get (convert_request render (req\<lparr>cm_messages := call_and_result\<rparr>)) ''messages'' = Some (JArray ms) \<and> oai_answered ms"
proof (intro allI)
  fix render and req :: create_message_request
  have "legal_messages call_and_result"
    by (simp add: call_and_result_def legal_messages_def wire_calls_def wire_results_def get_str_def is_tool_result_def map_filter_def)
  moreover have "list_all convertible call_and_result"
    by (simp add: call_and_result_def convertible_def get_str_def is_tool_result_def)
  ultimately show "\<exists>ms. json_get (convert_request render (req\<lparr>cm_messages := call_and_result\<rparr>)) ''messages'' = Some (JArray ms) \<and> oai_answered ms"
    by (intro convert_keeps_pairing) simp_all
qed

end
