(* ===== verification/Bao_Sessions.thy ===== *)
theory Bao_Sessions
  imports Bao_Text Bao_Messages "HOL-Library.List_Lexorder"
begin

text \<open>
  \<open>engine/session_persistence.rs\<close>: the directory in which sessions survive a restart. Each session has a snapshot
  and further artifacts named by its id, and an index lists the sessions. The file system is a map from paths below
  the directory to its nodes; which calls to the operating system succeed is decided by an oracle. The JSON printer
  and parser of the two kinds of files are arguments, and so is the age of a time stamp.
\<close>

section \<open>The disk\<close>

type_synonym fs_path = "string list"

datatype disk_node = TextFile string | LinkNode | Folder

text \<open>\<open>dk_linked\<close>: a component of the path of the directory itself is a symbolic link; the counter is the one that
  makes file names unique.\<close>

record disk =
  dk_linked :: bool
  dk_nodes :: "(fs_path, disk_node) hash_map"
  dk_counter :: nat

datatype io_call = MakeDir fs_path | ReadText fs_path | WriteText fs_path | Rename fs_path fs_path | RemoveTree fs_path | CopyFile fs_path fs_path
  | SetMode fs_path | ListDir fs_path

datatype io_error = InvalidId | BadSuffix | LinkedPath | LinkedTarget | IoFailed io_call | ArchiveExists fs_path | IndexFailed io_error

type_synonym io = "disk \<Rightarrow> io_call \<Rightarrow> bool"
type_synonym 'a disk_op = "disk \<Rightarrow> (io_error + 'a) \<times> disk"

definition node_at :: "disk \<Rightarrow> fs_path \<Rightarrow> disk_node option" where
  "node_at d p = hm_get (dk_nodes d) p"

definition and_on_disk :: "'a disk_op \<Rightarrow> ('a \<Rightarrow> 'b disk_op) \<Rightarrow> 'b disk_op" where
  "and_on_disk f g d = (case f d of (Inl e, d') \<Rightarrow> (Inl e, d') | (Inr x, d') \<Rightarrow> g x d')"

text \<open>Moving a file or a directory with everything in it; what was there before is gone.\<close>

definition move_tree :: "fs_path \<Rightarrow> fs_path \<Rightarrow> disk \<Rightarrow> disk" where
  "move_tree src dst d = d\<lparr>dk_nodes := map (\<lambda>(q, n). (if prefix src q then dst @ drop (length src) q else q, n))
     (filter (\<lambda>(q, n). prefix src q \<or> \<not> prefix dst q) (dk_nodes d))\<rparr>"

definition drop_tree :: "fs_path \<Rightarrow> disk \<Rightarrow> disk" where
  "drop_tree p d = d\<lparr>dk_nodes := filter (\<lambda>(q, n). \<not> prefix p q) (dk_nodes d)\<rparr>"

definition read_to_string :: "io \<Rightarrow> fs_path \<Rightarrow> disk \<Rightarrow> string option" where
  "read_to_string io p d = (case node_at d p of Some (TextFile c) \<Rightarrow> if io d (ReadText p) then Some c else None | _ \<Rightarrow> None)"

definition rename_call :: "io \<Rightarrow> fs_path \<Rightarrow> fs_path \<Rightarrow> unit disk_op" where
  "rename_call io src dst d = (if io d (Rename src dst) then (Inr (), move_tree src dst d) else (Inl (IoFailed (Rename src dst)), d))"

text \<open>\<open>remove_file\<close> refuses a directory, \<open>remove_dir_all\<close> does not; a removal that fails leaves everything.\<close>

definition remove_call :: "io \<Rightarrow> bool \<Rightarrow> fs_path \<Rightarrow> unit disk_op" where
  "remove_call io dirs p d =
     (if io d (RemoveTree p) \<and> (dirs \<or> node_at d p \<noteq> Some Folder) then (Inr (), drop_tree p d) else (Inl (IoFailed (RemoveTree p)), d))"

definition reject_symlinked_path_prefix :: "unit disk_op" where
  "reject_symlinked_path_prefix d = (if dk_linked d then Inl LinkedPath else Inr (), d)"

definition reject_existing_symlink :: "fs_path \<Rightarrow> unit disk_op" where
  "reject_existing_symlink p d = (if node_at d p = Some LinkNode then Inl LinkedTarget else Inr (), d)"

definition ensure_dir :: "io \<Rightarrow> fs_path \<Rightarrow> unit disk_op" where
  "ensure_dir io p = and_on_disk reject_symlinked_path_prefix (\<lambda>_. and_on_disk (reject_existing_symlink p) (\<lambda>_ d.
     if io d (MakeDir p) \<and> (p = [] \<or> node_at d p \<in> {None, Some Folder})
     then (Inr (), if p = [] then d else d\<lparr>dk_nodes := hm_insert p Folder (dk_nodes d)\<rparr>)
     else (Inl (IoFailed (MakeDir p)), d)))"

text \<open>The content goes to a new file, which then takes the place of the old one; a failure leaves the old one.\<close>

definition atomic_write :: "io \<Rightarrow> fs_path \<Rightarrow> string \<Rightarrow> unit disk_op" where
  "atomic_write io p content = and_on_disk reject_symlinked_path_prefix (\<lambda>_. and_on_disk (reject_existing_symlink p) (\<lambda>_.
     and_on_disk (ensure_dir io (butlast p)) (\<lambda>_ d.
       let d1 = d\<lparr>dk_counter := dk_counter d + 1\<rparr>
       in if io d1 (WriteText p) \<and> node_at d1 p \<noteq> Some Folder
          then (Inr (), d1\<lparr>dk_nodes := hm_insert p (TextFile content) (dk_nodes d1)\<rparr>)
          else (Inl (IoFailed (WriteText p)), d1))))"

section \<open>Names\<close>

definition is_valid_session_id :: "string \<Rightarrow> bool" where
  "is_valid_session_id i \<longleftrightarrow> i \<noteq> [] \<and> length i \<le> 128 \<and>
     list_all (\<lambda>c. is_digit c \<or> 97 \<le> byte c \<and> byte c \<le> 122 \<or> 65 \<le> byte c \<and> byte c \<le> 90 \<or> c = CHR ''-'' \<or> c = CHR ''_'') i"

definition validate_session_id :: "string \<Rightarrow> unit disk_op" where
  "validate_session_id i d = (if is_valid_session_id i then Inr () else Inl InvalidId, d)"

definition session_artifact_path :: "string \<Rightarrow> string \<Rightarrow> fs_path disk_op" where
  "session_artifact_path i ext = and_on_disk (validate_session_id i) (\<lambda>_. and_on_disk reject_symlinked_path_prefix (\<lambda>_ d.
     if ext = [] \<or> CHR ''/'' \<in> set ext \<or> CHR 0x5C \<in> set ext \<or> list_ex (\<lambda>c. byte c < 32 \<or> byte c = 127) ext
     then (Inl BadSuffix, d)
     else and_on_disk (reject_existing_symlink [i @ ''.'' @ ext]) (\<lambda>_ d. (Inr [i @ ''.'' @ ext], d)) d))"

definition session_directory_path :: "string \<Rightarrow> fs_path disk_op" where
  "session_directory_path i = and_on_disk (validate_session_id i) (\<lambda>_. and_on_disk reject_symlinked_path_prefix (\<lambda>_.
     and_on_disk (reject_existing_symlink [i]) (\<lambda>_ d. (Inr [i], d))))"

definition session_file_path :: "string \<Rightarrow> fs_path disk_op" where
  "session_file_path i = session_artifact_path i ''json''"

abbreviation registry_path :: fs_path where
  "registry_path \<equiv> [''registry.json'']"

definition registry_file_path :: "fs_path disk_op" where
  "registry_file_path = and_on_disk reject_symlinked_path_prefix (\<lambda>_. and_on_disk (reject_existing_symlink registry_path) (\<lambda>_ d.
     (Inr registry_path, d)))"

definition archive_dir :: fs_path where
  "archive_dir = [''archive'']"

section \<open>The index\<close>

record registry_entry =
  re_session_id :: string
  re_cwd :: string
  re_created_at :: string
  re_last_active :: string

type_synonym registry_index = "registry_entry list"

record persisted_session =
  ps_schema_version :: u32
  ps_session_id :: string
  ps_cwd :: string
  ps_model :: string
  ps_created_at :: string
  ps_last_active :: string
  ps_messages :: "message list"
  ps_memory_summary :: "string option"

definition current_schema_version :: u32 where
  "current_schema_version = 1"

record disk_format =
  df_state_text :: "persisted_session \<Rightarrow> string"
  df_state_of :: "string \<Rightarrow> persisted_session option"
  df_index_text :: "registry_index \<Rightarrow> string"
  df_index_of :: "string \<Rightarrow> registry_index option"

definition save_registry_unlocked :: "io \<Rightarrow> disk_format \<Rightarrow> registry_index \<Rightarrow> unit disk_op" where
  "save_registry_unlocked io df index =
     and_on_disk (ensure_dir io []) (\<lambda>_. and_on_disk registry_file_path (\<lambda>p. atomic_write io p (df_index_text df index)))"

text \<open>\<open>path.extension()\<close> and \<open>path.file_stem()\<close>: the stem of a name that ends in \<open>.json\<close>.\<close>

definition json_stem :: "string \<Rightarrow> string option" where
  "json_stem n = (case rsplit_once (CHR ''.'') n of Some (stem, ext) \<Rightarrow> if stem \<noteq> [] \<and> ext = ''json'' then Some stem else None | None \<Rightarrow> None)"

definition snapshot_at :: "io \<Rightarrow> disk_format \<Rightarrow> disk \<Rightarrow> fs_path \<Rightarrow> persisted_session option" where
  "snapshot_at io df d p =
     (case p of
        [n] \<Rightarrow>
          (case json_stem n of
             Some expected_id \<Rightarrow>
               if n = ''registry.json'' then None
               else (case Option.bind (read_to_string io p d) (df_state_of df) of
                       Some state \<Rightarrow>
                         if ps_session_id state = expected_id \<and> ps_schema_version state = current_schema_version \<and>
                           is_valid_session_id (ps_session_id state) then Some state else None
                     | None \<Rightarrow> None)
           | None \<Rightarrow> None)
      | _ \<Rightarrow> None)"

definition entry_of :: "persisted_session \<Rightarrow> registry_entry" where
  "entry_of s = \<lparr>re_session_id = ps_session_id s, re_cwd = ps_cwd s, re_created_at = ps_created_at s, re_last_active = ps_last_active s\<rparr>"

definition rebuild_registry :: "io \<Rightarrow> disk_format \<Rightarrow> disk \<Rightarrow> registry_index" where
  "rebuild_registry io df d =
     sort_key re_session_id (map entry_of (List.map_filter (snapshot_at io df d) (hm_keys (dk_nodes d))))"

text \<open>An index that does not parse is put aside and rebuilt from the snapshots.\<close>

definition corrupt_registry :: "io \<Rightarrow> disk_format \<Rightarrow> disk \<Rightarrow> registry_index \<times> disk" where
  "corrupt_registry io df d =
     (let backup = [''registry.json.corrupt.'' @ show_nat (dk_counter d)];
          d1 = d\<lparr>dk_counter := dk_counter d + 1\<rparr>
      in case rename_call io registry_path backup d1 of
           (Inr _, d2) \<Rightarrow> (let rebuilt = rebuild_registry io df d2 in (rebuilt, snd (save_registry_unlocked io df rebuilt d2)))
         | (Inl _, d2) \<Rightarrow> (rebuild_registry io df d2, d2))"

definition load_registry_unlocked :: "io \<Rightarrow> disk_format \<Rightarrow> disk \<Rightarrow> registry_index \<times> disk" where
  "load_registry_unlocked io df d =
     (case registry_file_path d of
        (Inl _, d') \<Rightarrow> ([], d')
      | (Inr p, d') \<Rightarrow>
          (case read_to_string io p d' of
             None \<Rightarrow> ([], d')
           | Some content \<Rightarrow>
               (case df_index_of df content of
                  Some index \<Rightarrow> (filter (\<lambda>e. is_valid_session_id (re_session_id e)) index, d')
                | None \<Rightarrow> corrupt_registry io df d')))"

fun update_entry :: "string \<Rightarrow> string \<Rightarrow> string \<Rightarrow> string \<Rightarrow> registry_index \<Rightarrow> registry_index" where
  "update_entry i cwd created_at last_active [] =
     [\<lparr>re_session_id = i, re_cwd = cwd, re_created_at = created_at, re_last_active = last_active\<rparr>]"
| "update_entry i cwd created_at last_active (e # es) =
     (if re_session_id e = i then e\<lparr>re_cwd := cwd, re_last_active := last_active\<rparr> # es
      else e # update_entry i cwd created_at last_active es)"

definition upsert_registry_entry_unlocked ::
  "io \<Rightarrow> disk_format \<Rightarrow> string \<Rightarrow> string \<Rightarrow> string \<Rightarrow> string \<Rightarrow> unit disk_op" where
  "upsert_registry_entry_unlocked io df i cwd created_at last_active =
     and_on_disk (ensure_dir io []) (\<lambda>_ d.
       case load_registry_unlocked io df d of
         (index, d') \<Rightarrow> save_registry_unlocked io df (update_entry i cwd created_at last_active index) d')"

section \<open>Snapshots\<close>

definition persist_session_state :: "io \<Rightarrow> disk_format \<Rightarrow> persisted_session \<Rightarrow> unit disk_op" where
  "persist_session_state io df state =
     and_on_disk (validate_session_id (ps_session_id state)) (\<lambda>_. and_on_disk (ensure_dir io []) (\<lambda>_.
       and_on_disk (session_file_path (ps_session_id state)) (\<lambda>p. and_on_disk (atomic_write io p (df_state_text df state)) (\<lambda>_ d.
         case upsert_registry_entry_unlocked io df (ps_session_id state) (ps_cwd state) (ps_created_at state) (ps_last_active state) d of
           (Inl e, d') \<Rightarrow> (Inl (IndexFailed e), d')
         | (Inr _, d') \<Rightarrow> (Inr (), d')))))"

definition load_session_state :: "io \<Rightarrow> disk_format \<Rightarrow> string \<Rightarrow> disk \<Rightarrow> persisted_session option" where
  "load_session_state io df i d =
     (if \<not> is_valid_session_id i then None
      else case session_file_path i d of
             (Inl _, _) \<Rightarrow> None
           | (Inr p, d') \<Rightarrow>
               (case Option.bind (read_to_string io p d') (df_state_of df) of
                  Some state \<Rightarrow> if ps_session_id state = i then Some state else None
                | None \<Rightarrow> None))"

definition reset_transcript :: "io \<Rightarrow> string \<Rightarrow> unit disk_op" where
  "reset_transcript io i =
     and_on_disk (validate_session_id i) (\<lambda>_. and_on_disk (session_artifact_path i ''jsonl'') (\<lambda>p d.
       if io d (WriteText p) \<and> node_at d p \<noteq> Some Folder then (Inr (), d\<lparr>dk_nodes := hm_insert p (TextFile []) (dk_nodes d)\<rparr>)
       else (Inl (IoFailed (WriteText p)), d)))"


section \<open>Archive and deletion\<close>

definition artifact_suffixes :: "string list" where
  "artifact_suffixes = [''jsonl'', ''memory.md'', ''baseline.json'']"

text \<open>\<open>.map(...).collect::<io::Result<Vec<_>>>()?\<close>\<close>

fun each_on_disk :: "('a \<Rightarrow> 'b disk_op) \<Rightarrow> 'a list \<Rightarrow> 'b list disk_op" where
  "each_on_disk f [] d = (Inr [], d)"
| "each_on_disk f (x # xs) d = and_on_disk (f x) (\<lambda>y. and_on_disk (each_on_disk f xs) (\<lambda>ys d. (Inr (y # ys), d))) d"

definition rollback_moved_artifacts :: "io \<Rightarrow> (fs_path \<times> fs_path) list \<Rightarrow> disk \<Rightarrow> disk" where
  "rollback_moved_artifacts io moved d = fold (\<lambda>(src, dst) d. snd (rename_call io dst src d)) (rev moved) d"

fun move_artifacts :: "io \<Rightarrow> (fs_path \<times> fs_path) list \<Rightarrow> (fs_path \<times> fs_path) list \<Rightarrow> (fs_path \<times> fs_path) list disk_op" where
  "move_artifacts io [] moved d = (Inr moved, d)"
| "move_artifacts io ((src, dst) # rest) moved d =
     (case reject_existing_symlink dst d of
        (Inl e, d) \<Rightarrow> (Inl e, d)
      | (Inr _, d) \<Rightarrow>
          if node_at d src = None then move_artifacts io rest moved d
          else if node_at d dst \<noteq> None then (Inl (ArchiveExists dst), rollback_moved_artifacts io moved d)
          else (case rename_call io src dst d of
                  (Inl e, d') \<Rightarrow> (Inl e, rollback_moved_artifacts io moved d')
                | (Inr _, d') \<Rightarrow> move_artifacts io rest (moved @ [(src, dst)]) d'))"

definition archive_session_artifacts :: "io \<Rightarrow> string \<Rightarrow> (fs_path \<times> fs_path) list disk_op" where
  "archive_session_artifacts io i =
     and_on_disk (ensure_dir io archive_dir) (\<lambda>_. and_on_disk (session_file_path i) (\<lambda>p.
       and_on_disk (each_on_disk (session_artifact_path i) artifact_suffixes) (\<lambda>ps. and_on_disk (session_directory_path i) (\<lambda>tool_results d.
         move_artifacts io (map (\<lambda>q. (q, archive_dir @ q)) (p # ps @ (if node_at d tool_results \<noteq> None then [tool_results] else []))) [] d))))"

text \<open>One entry of the index; \<open>age\<close> answers the whole days since a time stamp, unless it does not parse.\<close>

definition archive_entry ::
  "io \<Rightarrow> (string \<Rightarrow> int option) \<Rightarrow> u64 \<Rightarrow> registry_entry \<Rightarrow> string list \<times> (fs_path \<times> fs_path) list \<times> disk \<Rightarrow>
     string list \<times> (fs_path \<times> fs_path) list \<times> disk" where
  "archive_entry io age max_age_days e st =
     (case st of (archived, moved, d) \<Rightarrow>
        if \<not> is_valid_session_id (re_session_id e) then st
        else (case age (re_last_active e) of
                None \<Rightarrow> st
              | Some days \<Rightarrow>
                  if days > sint max_age_days then
                    (case session_file_path (re_session_id e) d of
                       (Inl _, _) \<Rightarrow> st
                     | (Inr src, _) \<Rightarrow>
                         if node_at d src = None then st
                         else (case archive_session_artifacts io (re_session_id e) d of
                                 (Inr ms, d') \<Rightarrow> (archived @ [re_session_id e], moved @ ms, d')
                               | (Inl _, d') \<Rightarrow> (archived, moved, d')))
                  else st))"

definition archive_stale_sessions :: "io \<Rightarrow> disk_format \<Rightarrow> (string \<Rightarrow> int option) \<Rightarrow> u64 \<Rightarrow> string list disk_op" where
  "archive_stale_sessions io df age max_age_days d =
     (case load_registry_unlocked io df d of
        (index, d1) \<Rightarrow>
          (case fold (archive_entry io age max_age_days) index ([], [], d1) of
             (archived, moved, d2) \<Rightarrow>
               if archived = [] then (Inr [], d2)
               else (case save_registry_unlocked io df (filter (\<lambda>e. re_session_id e \<notin> set archived) index) d2 of
                       (Inl e, d3) \<Rightarrow> (Inl e, rollback_moved_artifacts io moved d3)
                     | (Inr _, d3) \<Rightarrow> (Inr archived, d3))))"

text \<open>A removal whose first failure is kept; a path that does not exist is no failure.\<close>

definition remove_noted :: "io \<Rightarrow> bool \<Rightarrow> fs_path \<Rightarrow> io_error option \<times> disk \<Rightarrow> io_error option \<times> disk" where
  "remove_noted io dirs p st =
     (case st of (failed, d) \<Rightarrow>
        if node_at d p = None then st
        else (case remove_call io dirs p d of
                (Inr _, d') \<Rightarrow> (failed, d')
              | (Inl e, d') \<Rightarrow> (case failed of None \<Rightarrow> Some e | Some e' \<Rightarrow> Some e', d')))"

fun remove_related :: "io \<Rightarrow> string \<Rightarrow> string list \<Rightarrow> io_error option \<Rightarrow> io_error option disk_op" where
  "remove_related io i [] failed d = (Inr failed, d)"
| "remove_related io i (ext # exts) failed d =
     and_on_disk (session_artifact_path i ext) (\<lambda>p d.
       case remove_noted io False p (failed, d) of (failed', d') \<Rightarrow> remove_related io i exts failed' d') d"

definition delete_session :: "io \<Rightarrow> disk_format \<Rightarrow> string \<Rightarrow> unit disk_op" where
  "delete_session io df i =
     and_on_disk (validate_session_id i) (\<lambda>_. and_on_disk (session_file_path i) (\<lambda>p d.
       case remove_noted io False p (None, d) of
         (failed, d1) \<Rightarrow>
           and_on_disk (remove_related io i artifact_suffixes failed) (\<lambda>failed. and_on_disk (session_directory_path i) (\<lambda>tool_results d2.
             case remove_noted io True tool_results (failed, d2) of
               (Some e, d3) \<Rightarrow> (Inl e, d3)
             | (None, d3) \<Rightarrow>
                 (case load_registry_unlocked io df d3 of
                    (index, d4) \<Rightarrow> save_registry_unlocked io df (filter (\<lambda>e. re_session_id e \<noteq> i) index) d4))) d1))"

section \<open>What an operation touches\<close>

text \<open>Operations only change nodes whose path begins with certain names, and never whether the directory is linked.\<close>

definition touches :: "string set \<Rightarrow> (disk \<Rightarrow> disk) \<Rightarrow> bool" where
  "touches N f \<longleftrightarrow> (\<forall>d. dk_linked (f d) = dk_linked d \<and> (\<forall>n q. n \<notin> N \<longrightarrow> node_at (f d) (n # q) = node_at d (n # q)))"

abbreviation touching :: "string set \<Rightarrow> 'a disk_op \<Rightarrow> bool" where
  "touching N f \<equiv> touches N (\<lambda>d. snd (f d))"

lemma touchesI:
  assumes "\<And>d. dk_linked (f d) = dk_linked d" "\<And>d n q. n \<notin> N \<Longrightarrow> node_at (f d) (n # q) = node_at d (n # q)"
  shows "touches N f"
  using assms by (simp add: touches_def)

lemma touches_mono: "touches M f \<Longrightarrow> M \<subseteq> N \<Longrightarrow> touches N f"
  by (auto simp: touches_def)

lemma touches_comp: "touches N f \<Longrightarrow> touches N g \<Longrightarrow> touches N (\<lambda>d. g (f d))"
  by (simp add: touches_def)

lemma touches_id [simp]: "touches N (\<lambda>d. d)"
  by (simp add: touches_def)

lemma touching_bind:
  assumes "touching N f" "\<And>d x d'. f d = (Inr x, d') \<Longrightarrow> touching N (g x)"
  shows "touching N (and_on_disk f g)"
proof (rule touchesI)
  fix d
  obtain r d1 where f: "f d = (r, d1)" by fastforce
  with assms(1) have d1: "dk_linked d1 = dk_linked d" "\<And>n q. n \<notin> N \<Longrightarrow> node_at d1 (n # q) = node_at d (n # q)"
    by (auto simp: touches_def) (metis snd_conv)+
  show "dk_linked (snd (and_on_disk f g d)) = dk_linked d"
    using f d1 assms(2) by (cases r) (auto simp: and_on_disk_def touches_def)
  fix n q assume "n \<notin> N"
  then show "node_at (snd (and_on_disk f g d)) (n # q) = node_at d (n # q)"
    using f d1 assms(2) by (cases r) (auto simp: and_on_disk_def touches_def)
qed

lemma touching_read: "(\<And>d. snd (f d) = d) \<Longrightarrow> touching N f"
  by (simp add: touches_def)


lemma touching_checks [intro]:
  "touching N reject_symlinked_path_prefix" "touching N (reject_existing_symlink p)" "touching N (validate_session_id i)"
  by (simp_all add: touching_read reject_symlinked_path_prefix_def reject_existing_symlink_def validate_session_id_def)

lemma touching_return: "touching N (\<lambda>d. (x, d))"
  by (simp add: touches_def)

lemma reading_bind: "(\<And>d. snd (f d) = d) \<Longrightarrow> (\<And>x d. snd (g x d) = d) \<Longrightarrow> snd (and_on_disk f g d) = d"
  by (auto simp: and_on_disk_def split: prod.splits sum.splits) (metis snd_conv)+

lemma checks_read [simp]:
  "snd (reject_symlinked_path_prefix d) = d" "snd (reject_existing_symlink p d) = d" "snd (validate_session_id i d) = d"
  by (simp_all add: reject_symlinked_path_prefix_def reject_existing_symlink_def validate_session_id_def)

lemma paths_read [simp]:
  "snd (session_artifact_path i ext d) = d" "snd (session_directory_path i d) = d" "snd (session_file_path i d) = d"
  "snd (registry_file_path d) = d"
proof -
  show artifact: "snd (session_artifact_path i ext d) = d" for i ext d
    unfolding session_artifact_path_def by (intro reading_bind) (simp_all add: reading_bind)
  show "snd (session_directory_path i d) = d" unfolding session_directory_path_def by (intro reading_bind) simp_all
  show "snd (session_file_path i d) = d" unfolding session_file_path_def by (rule artifact)
  show "snd (registry_file_path d) = d" unfolding registry_file_path_def by (intro reading_bind) simp_all
qed

lemma node_at_insert: "node_at (d\<lparr>dk_nodes := hm_insert p v (dk_nodes d)\<rparr>) q = (if q = p then Some v else node_at d q)"
  by (simp add: node_at_def hm_get_insert)

lemma map_of_moved:
  assumes "\<not> prefix src q" "\<not> prefix dst q"
  shows "map_of (map (\<lambda>(r, n). (if prefix src r then dst @ drop (length src) r else r, n))
     (filter (\<lambda>(r, n). prefix src r \<or> \<not> prefix dst r) xs)) q = map_of xs q"
  using assms by (induction xs) (auto split: if_splits)

lemma node_at_move_other: "\<not> prefix src q \<Longrightarrow> \<not> prefix dst q \<Longrightarrow> node_at (move_tree src dst d) q = node_at d q"
  unfolding node_at_def move_tree_def by (simp add: map_of_moved)

lemma node_at_drop: "node_at (drop_tree p d) q = (if prefix p q then None else node_at d q)"
proof -
  have "map_of (filter (\<lambda>(q, n). \<not> prefix p q) xs) q = (if prefix p q then None else map_of xs q)" for xs :: "(fs_path \<times> disk_node) list"
    by (induction xs) auto
  then show ?thesis by (simp add: node_at_def drop_tree_def)
qed

lemma linked_drop: "dk_linked (drop_tree p d) = dk_linked d"
  by (simp add: drop_tree_def)

lemma touching_ensure_dir: "(\<And>n q. p = n # q \<Longrightarrow> n \<in> N) \<Longrightarrow> touching N (ensure_dir io p)"
  unfolding ensure_dir_def
  by (intro touching_bind touching_checks) (auto simp: touches_def node_at_insert split: if_splits)

lemma touching_atomic_write:
  assumes "hd p \<in> N"
  shows "touching N (atomic_write io p content)"
proof -
  have parent: "hd p = n" if "butlast p = n # q" for n q using that by (cases p) (auto split: if_splits)
  have "touching N (\<lambda>d. let d1 = d\<lparr>dk_counter := dk_counter d + 1\<rparr>
       in if io d1 (WriteText p) \<and> node_at d1 p \<noteq> Some Folder
          then (Inr (), d1\<lparr>dk_nodes := hm_insert p (TextFile content) (dk_nodes d1)\<rparr>)
          else (Inl (IoFailed (WriteText p)), d1))"
    using assms by (auto simp: touches_def node_at_def hm_get_insert Let_def)
  then show ?thesis
    unfolding atomic_write_def by (intro touching_bind touching_checks touching_ensure_dir) (use assms parent in auto)
qed

lemma touching_rename: "hd src \<in> N \<Longrightarrow> hd dst \<in> N \<Longrightarrow> src \<noteq> [] \<Longrightarrow> dst \<noteq> [] \<Longrightarrow> touching N (rename_call io src dst)"
proof (rule touchesI)
  fix d show "dk_linked (snd (rename_call io src dst d)) = dk_linked d" by (simp add: rename_call_def move_tree_def)
next
  fix d n q assume a: "hd src \<in> N" "hd dst \<in> N" "src \<noteq> []" "dst \<noteq> []" "n \<notin> N"
  then have "\<not> prefix src (n # q)" "\<not> prefix dst (n # q)" by (auto simp: prefix_Cons)
  then show "node_at (snd (rename_call io src dst d)) (n # q) = node_at d (n # q)" by (simp add: rename_call_def node_at_move_other)
qed

lemma touching_remove: "hd p \<in> N \<Longrightarrow> p \<noteq> [] \<Longrightarrow> touching N (remove_call io dirs p)"
  by (rule touchesI) (auto simp: remove_call_def linked_drop node_at_drop prefix_Cons)

definition index_names :: "string set" where
  "index_names = insert ''registry.json'' (range (\<lambda>n. ''registry.json.corrupt.'' @ show_nat n))"

lemma index_names_intro [simp, intro]: "''registry.json'' \<in> index_names" "''registry.json.corrupt.'' @ show_nat n \<in> index_names"
  by (auto simp: index_names_def)

lemma path_results:
  "session_artifact_path i ext d = (Inr p, d') \<Longrightarrow> p = [i @ ''.'' @ ext] \<and> is_valid_session_id i \<and> \<not> dk_linked d \<and> d' = d"
  "session_directory_path i d = (Inr q, d') \<Longrightarrow> q = [i] \<and> is_valid_session_id i \<and> \<not> dk_linked d \<and> d' = d"
  "session_file_path i d = (Inr r, d') \<Longrightarrow> r = [i @ ''.json''] \<and> is_valid_session_id i \<and> \<not> dk_linked d \<and> d' = d"
  "registry_file_path d = (Inr s, d') \<Longrightarrow> s = registry_path \<and> \<not> dk_linked d \<and> d' = d"
proof -
  show *: "session_artifact_path i ext d = (Inr p, d') \<Longrightarrow> p = [i @ ''.'' @ ext] \<and> is_valid_session_id i \<and> \<not> dk_linked d \<and> d' = d" for i ext d p d'
    by (auto simp: session_artifact_path_def and_on_disk_def validate_session_id_def reject_symlinked_path_prefix_def
        reject_existing_symlink_def split: if_splits)
  show "session_directory_path i d = (Inr q, d') \<Longrightarrow> q = [i] \<and> is_valid_session_id i \<and> \<not> dk_linked d \<and> d' = d"
    by (auto simp: session_directory_path_def and_on_disk_def validate_session_id_def reject_symlinked_path_prefix_def
        reject_existing_symlink_def split: if_splits)
  show "session_file_path i d = (Inr r, d') \<Longrightarrow> r = [i @ ''.json''] \<and> is_valid_session_id i \<and> \<not> dk_linked d \<and> d' = d"
    unfolding session_file_path_def using * by fastforce
  show "registry_file_path d = (Inr s, d') \<Longrightarrow> s = registry_path \<and> \<not> dk_linked d \<and> d' = d"
    by (auto simp: registry_file_path_def and_on_disk_def reject_symlinked_path_prefix_def reject_existing_symlink_def split: if_splits)
qed

lemma touching_save_registry: "touching index_names (save_registry_unlocked io df index)"
  unfolding save_registry_unlocked_def
  by (intro touching_bind touching_ensure_dir touching_atomic_write) (auto dest: path_results)

lemma touching_corrupt: "touches index_names (\<lambda>d. snd (corrupt_registry io df d))"
proof (rule touchesI)
  fix d :: disk
  let ?backup = "[''registry.json.corrupt.'' @ show_nat (dk_counter d)]" and ?d1 = "d\<lparr>dk_counter := dk_counter d + 1\<rparr>"
  obtain r d2 where r: "rename_call io registry_path ?backup ?d1 = (r, d2)" by fastforce
  have "touching index_names (rename_call io registry_path ?backup)" by (intro touching_rename) (simp_all add: index_names_intro [simplified])
  then have "dk_linked d2 = dk_linked ?d1 \<and> (\<forall>n q. n \<notin> index_names \<longrightarrow> node_at d2 (n # q) = node_at ?d1 (n # q))"
    using r by (auto simp: touches_def dest: spec [of _ ?d1])
  then have d2: "dk_linked d2 = dk_linked d" "\<And>n q. n \<notin> index_names \<Longrightarrow> node_at d2 (n # q) = node_at d (n # q)"
    by (auto simp: node_at_def)
  have save: "touching index_names (save_registry_unlocked io df (rebuild_registry io df d2))" by (rule touching_save_registry)
  show "dk_linked (snd (corrupt_registry io df d)) = dk_linked d"
    using r d2 save by (cases r) (auto simp: corrupt_registry_def Let_def touches_def)
  fix n q assume "n \<notin> index_names"
  then show "node_at (snd (corrupt_registry io df d)) (n # q) = node_at d (n # q)"
    using r d2 save by (cases r) (auto simp: corrupt_registry_def Let_def touches_def)
qed

lemma touching_load_registry: "touches index_names (\<lambda>d. snd (load_registry_unlocked io df d))"
proof (rule touchesI)
  fix d
  obtain r where r: "registry_file_path d = (r, d)" using paths_read(4) [of d] by (metis surj_pair snd_conv)
  have c: "touches index_names (\<lambda>d. snd (corrupt_registry io df d))" by (rule touching_corrupt)
  show "dk_linked (snd (load_registry_unlocked io df d)) = dk_linked d"
    using r c by (auto simp: load_registry_unlocked_def touches_def split: sum.splits option.splits)
  fix n q assume "n \<notin> index_names"
  then show "node_at (snd (load_registry_unlocked io df d)) (n # q) = node_at d (n # q)"
    using r c by (auto simp: load_registry_unlocked_def touches_def split: sum.splits option.splits)
qed

lemma touching_after_load: "(\<And>index. touching (insert n index_names) (f index)) \<Longrightarrow>
   touching (insert n index_names) (\<lambda>d. case load_registry_unlocked io df d of (index, d') \<Rightarrow> f index d')"
proof (rule touchesI, goal_cases)
  case (1 d)
  with touching_load_registry [of io df] show ?case by (auto simp: touches_def split: prod.splits) (metis snd_conv)
next
  case (2 d m q)
  have "node_at (snd (load_registry_unlocked io df d)) (m # q) = node_at d (m # q)"
    using touching_load_registry [of io df] 2(2) by (auto simp: touches_def)
  with 2 show ?case by (auto simp: touches_def split: prod.splits)
qed

lemma touching_upsert: "touching index_names (upsert_registry_entry_unlocked io df i cwd created_at last_active)"
  using touching_after_load [of "''registry.json''" "\<lambda>index. save_registry_unlocked io df (update_entry i cwd created_at last_active index)"]
    touching_save_registry
  unfolding upsert_registry_entry_unlocked_def
  by (intro touching_bind touching_ensure_dir) (auto simp: insert_absorb)

lemma touching_persist: "touching (insert (ps_session_id s @ ''.json'') index_names) (persist_session_state io df s)"
proof -
  let ?N = "insert (ps_session_id s @ ''.json'') index_names"
  have "touching ?N (upsert_registry_entry_unlocked io df i cwd created_at last_active)" for i cwd created_at last_active
    by (rule touches_mono [OF touching_upsert]) auto
  then have "touching ?N (\<lambda>d. case upsert_registry_entry_unlocked io df i cwd created_at last_active d of
           (Inl e, d') \<Rightarrow> (Inl (IndexFailed e), d') | (Inr _, d') \<Rightarrow> (Inr (), d'))" for i cwd created_at last_active
    by (auto simp: touches_def split: prod.splits sum.splits) (metis snd_conv)+
  then show ?thesis
    unfolding persist_session_state_def
    by (intro touching_bind touching_ensure_dir touching_atomic_write touching_checks) (auto dest: path_results)
qed


definition own_names :: "string \<Rightarrow> string set" where
  "own_names i = insert i ((\<lambda>ext. i @ ''.'' @ ext) ` insert ''json'' (set artifact_suffixes))"

lemma own_names_intro [simp]: "i \<in> own_names i" "i @ ''.json'' \<in> own_names i" "ext \<in> set artifact_suffixes \<Longrightarrow> i @ ''.'' @ ext \<in> own_names i"
  by (auto simp: own_names_def)

lemma own_names_ext [simp]: "ext \<in> set artifact_suffixes \<Longrightarrow> i @ CHR ''.'' # ext \<in> own_names i"
  using own_names_intro(3) [of ext i] by simp

lemma touching_reset: "touching (own_names i) (reset_transcript io i)"
proof -
  have "touching (own_names i) (\<lambda>d. if io d (WriteText p) \<and> node_at d p \<noteq> Some Folder
      then (Inr (), d\<lparr>dk_nodes := hm_insert p (TextFile []) (dk_nodes d)\<rparr>) else (Inl (IoFailed (WriteText p)), d))"
    if "hd p \<in> own_names i" for p
    using that by (auto simp: touches_def node_at_insert)
  moreover have "hd p \<in> own_names i" if "session_artifact_path i ''jsonl'' d = (Inr p, d')" for p d d'
    using path_results(1) [OF that] by (simp add: own_names_def artifact_suffixes_def)
  ultimately show ?thesis unfolding reset_transcript_def by (intro touching_bind touching_checks) (simp_all add: touching_read)
qed

lemma touching_noted:
  assumes "hd p \<in> N" "p \<noteq> []" "\<And>failed. touching N (g failed)"
  shows "touching N (\<lambda>d. case remove_noted io dirs p (failed, d) of (failed', d') \<Rightarrow> g failed' d')"
proof (rule touchesI)
  fix d
  obtain failed' d' where r: "remove_noted io dirs p (failed, d) = (failed', d')" by fastforce
  have d': "dk_linked d' = dk_linked d" "n \<notin> N \<Longrightarrow> node_at d' (n # q) = node_at d (n # q)" for n q
    using r assms(1,2) by (auto simp: remove_noted_def remove_call_def linked_drop node_at_drop prefix_Cons split: if_splits)
  show "dk_linked (snd (case remove_noted io dirs p (failed, d) of (failed', d') \<Rightarrow> g failed' d')) = dk_linked d"
    using r d' assms(3) [of failed'] by (simp add: touches_def)
  fix n q assume "n \<notin> N"
  then show "node_at (snd (case remove_noted io dirs p (failed, d) of (failed', d') \<Rightarrow> g failed' d')) (n # q) = node_at d (n # q)"
    using r d' assms(3) [of failed'] by (simp add: touches_def)
qed

lemma touching_related: "(\<lambda>ext. i @ ''.'' @ ext) ` set exts \<subseteq> N \<Longrightarrow> touching N (remove_related io i exts failed)"
proof (induction exts arbitrary: failed)
  case (Cons ext exts)
  have "touching N (\<lambda>d. case remove_noted io False p (failed, d) of (failed', d') \<Rightarrow> remove_related io i exts failed' d')"
    if "session_artifact_path i ext d = (Inr p, d')" for p d d'
    using path_results(1) [OF that] Cons by (intro touching_noted) auto
  then have "touching N (and_on_disk (session_artifact_path i ext) (\<lambda>p d.
       case remove_noted io False p (failed, d) of (failed', d') \<Rightarrow> remove_related io i exts failed' d'))"
    by (intro touching_bind) (simp_all add: touching_read)
  then show ?case by (simp add: touches_def)
qed simp

lemma touching_delete: "touching (own_names i \<union> index_names) (delete_session io df i)"
proof -
  let ?N = "own_names i \<union> index_names"
  let ?index = "\<lambda>d. case load_registry_unlocked io df d of
      (index, d') \<Rightarrow> save_registry_unlocked io df (filter (\<lambda>e. re_session_id e \<noteq> i) index) d'"
  have index: "touching ?N ?index"
    by (rule touches_mono [OF touching_after_load [of "''registry.json''" "\<lambda>index. save_registry_unlocked io df (filter (\<lambda>e. re_session_id e \<noteq> i) index)"]])
      (auto simp: insert_absorb touching_save_registry)
  have choice: "touching ?N (\<lambda>d. case failed of Some e \<Rightarrow> (Inl e, d) | None \<Rightarrow> ?index d)" for failed
    using index by (cases failed) (simp_all add: touches_def)
  have dir: "touching ?N (\<lambda>d. case remove_noted io True p (failed, d) of (Some e, d') \<Rightarrow> (Inl e, d') | (None, d') \<Rightarrow> ?index d')"
    if "session_directory_path i d = (Inr p, d')" for failed p d d'
    using path_results(2) [OF that] by (intro touching_noted choice) simp_all
  have related: "touching ?N (remove_related io i artifact_suffixes failed)" for failed
    by (rule touching_related) auto
  have rest: "touching ?N (and_on_disk (remove_related io i artifact_suffixes failed) (\<lambda>failed. and_on_disk (session_directory_path i) (\<lambda>p d.
      case remove_noted io True p (failed, d) of (Some e, d') \<Rightarrow> (Inl e, d') | (None, d') \<Rightarrow> ?index d')))" for failed
    by (intro touching_bind related dir) (simp_all add: touching_read)
  have "touching ?N (\<lambda>d. case remove_noted io False p (None, d) of (failed, d1) \<Rightarrow>
        and_on_disk (remove_related io i artifact_suffixes failed) (\<lambda>failed. and_on_disk (session_directory_path i) (\<lambda>p d.
          case remove_noted io True p (failed, d) of (Some e, d') \<Rightarrow> (Inl e, d') | (None, d') \<Rightarrow> ?index d')) d1)"
    if "session_file_path i d = (Inr p, d')" for p d d'
    using path_results(3) [OF that] by (intro touching_noted rest) simp_all
  then show ?thesis
    unfolding delete_session_def by (intro touching_bind touching_checks) (simp_all add: touching_read)
qed


section \<open>Snapshots survive\<close>

definition readable :: "io \<Rightarrow> bool" where
  "readable io \<longleftrightarrow> (\<forall>d p. io d (ReadText p))"

lemma load_session_eq:
  assumes "readable io"
  shows "load_session_state io df i d =
    (if is_valid_session_id i \<and> \<not> dk_linked d then
       (case node_at d [i @ ''.json''] of
          Some (TextFile c) \<Rightarrow>
            (case df_state_of df c of Some s \<Rightarrow> if ps_session_id s = i then Some s else None | None \<Rightarrow> None)
        | _ \<Rightarrow> None)
     else None)"
  using assms
  by (auto simp: load_session_state_def session_file_path_def session_artifact_path_def and_on_disk_def validate_session_id_def
      reject_symlinked_path_prefix_def reject_existing_symlink_def read_to_string_def readable_def byte_def
      split: option.splits disk_node.splits)

lemma valid_no_dot: "is_valid_session_id i \<Longrightarrow> takeWhile (\<lambda>c. c \<noteq> CHR ''.'') (i @ CHR ''.'' # x) = i"
proof -
  assume "is_valid_session_id i"
  then have "\<forall>c\<in>set i. c \<noteq> CHR ''.''" by (auto simp: is_valid_session_id_def list_all_iff is_digit_def byte_def)
  then show ?thesis by (simp add: takeWhile_append)
qed

lemma valid_dot_free: "is_valid_session_id i \<Longrightarrow> i \<noteq> j @ CHR ''.'' # x"
  by (auto simp: is_valid_session_id_def is_digit_def byte_def)

lemma name_of_one:
  assumes "is_valid_session_id i" "is_valid_session_id j" "i @ CHR ''.'' # x = j @ CHR ''.'' # y"
  shows "i = j"
  using valid_no_dot [OF assms(1), of x] valid_no_dot [OF assms(2), of y] assms(3) by simp

lemma other_names:
  assumes "is_valid_session_id i" "is_valid_session_id j" "i \<noteq> j" "j \<noteq> ''registry''"
  shows "j @ ''.json'' \<notin> own_names i \<union> index_names"
proof -
  have "is_valid_session_id ''registry''" by (simp add: is_valid_session_id_def is_digit_def byte_def)
  from name_of_one [OF assms(2) this] assms(4) have "j @ ''.json'' \<noteq> ''registry'' @ CHR ''.'' # x" for x by auto
  from this [of "''json''"] this [of "''json.corrupt.'' @ show_nat n" for n]
  have "j @ ''.json'' \<notin> index_names" by (auto simp: index_names_def)
  moreover have "j @ ''.json'' \<notin> own_names i"
    using name_of_one [OF assms(2,1), of "''json''"] valid_dot_free [OF assms(1), of j "''json''"] assms(3)
    by (auto simp: own_names_def)
  ultimately show ?thesis by simp
qed

lemma load_untouched:
  assumes "readable io" "touching N f" "j @ ''.json'' \<notin> N"
  shows "load_session_state io df j (snd (f d)) = load_session_state io df j d"
  using assms by (simp add: load_session_eq touches_def)

text \<open>
  C33. What is done to one session, whether it succeeds or fails half-way, leaves the snapshots of all others as they
  were: persisting, deleting and resetting a session never change what loading another one yields, not even when the
  index has to be rebuilt. Hypotheses: the files can be read, both ids are valid, and the other session is not called
  registry.
\<close>

theorem sessions_independent:
  assumes "readable io" "is_valid_session_id i" "is_valid_session_id j" "i \<noteq> j" "j \<noteq> ''registry''" "ps_session_id s = i"
  shows "load_session_state io df j (snd (persist_session_state io df s d)) = load_session_state io df j d \<and>
    load_session_state io df j (snd (delete_session io df i d)) = load_session_state io df j d \<and>
    load_session_state io df j (snd (reset_transcript io i d)) = load_session_state io df j d"
proof (intro conjI)
  have names: "j @ ''.json'' \<notin> own_names i \<union> index_names" by (rule other_names [OF assms(2-5)])
  have "touching (own_names i \<union> index_names) (persist_session_state io df s)"
    using assms(6) by (intro touches_mono [OF touching_persist]) (auto simp: own_names_def)
  then show "load_session_state io df j (snd (persist_session_state io df s d)) = load_session_state io df j d"
    using names by (rule load_untouched [OF assms(1)])
  show "load_session_state io df j (snd (delete_session io df i d)) = load_session_state io df j d"
    using touching_delete names by (rule load_untouched [OF assms(1)])
  have "touching (own_names i \<union> index_names) (reset_transcript io i)" by (rule touches_mono [OF touching_reset]) simp
  then show "load_session_state io df j (snd (reset_transcript io i d)) = load_session_state io df j d"
    using names by (rule load_untouched [OF assms(1)])
qed

text \<open>A small directory for the witnesses: its files hold a letter and, for a snapshot, the id.\<close>

definition small_session :: "string \<Rightarrow> persisted_session" where
  "small_session i = \<lparr>ps_schema_version = 1, ps_session_id = i, ps_cwd = ''/w'', ps_model = ''m'', ps_created_at = ''t0'',
     ps_last_active = ''t1'', ps_messages = [], ps_memory_summary = None\<rparr>"

definition small_format :: disk_format where
  "small_format = \<lparr>df_state_text = (\<lambda>s. CHR ''S'' # ps_session_id s),
     df_state_of = (\<lambda>t. case t of c # i \<Rightarrow> if c = CHR ''S'' then Some (small_session i) else None | [] \<Rightarrow> None),
     df_index_text = (\<lambda>_. ''I''), df_index_of = (\<lambda>t. if t = ''I'' then Some [] else None)\<rparr>"

definition small_disk :: disk where
  "small_disk = \<lparr>dk_linked = False, dk_nodes = [([''alpha.json''], TextFile ''Salpha''), ([''beta.json''], TextFile ''Sbeta'')],
     dk_counter = 1\<rparr>"

abbreviation all_succeed :: io where
  "all_succeed \<equiv> \<lambda>_ _. True"

lemma small_ids [simp]:
  "is_valid_session_id ''alpha''" "is_valid_session_id ''beta''" "is_valid_session_id ''registry''" "is_valid_session_id ''archive''"
  by (simp_all add: is_valid_session_id_def is_digit_def byte_def)

lemma small_readable [simp]: "readable all_succeed"
  by (simp add: readable_def)

lemma small_beta: "load_session_state all_succeed small_format ''beta'' small_disk = Some (small_session ''beta'')"
  by (simp add: load_session_eq small_format_def small_disk_def small_session_def node_at_def)

theorem sessions_independent_witness:
  "load_session_state all_succeed small_format ''beta'' (snd (delete_session all_succeed small_format ''alpha'' small_disk)) =
     Some (small_session ''beta'')"
  using sessions_independent [of all_succeed "''alpha''" "''beta''" "small_session ''alpha''" small_format small_disk]
  by (simp add: small_beta) (simp add: small_session_def)

lemma bind_success:
  assumes "and_on_disk f g d = (Inr y, d')"
  obtains x d1 where "f d = (Inr x, d1)" "g x d1 = (Inr y, d')"
  using assms by (auto simp: and_on_disk_def split: prod.splits sum.splits)

lemma write_success: "atomic_write io p c d = (Inr (), d') \<Longrightarrow> node_at d' p = Some (TextFile c)"
  unfolding atomic_write_def
  by (elim bind_success) (auto simp: Let_def node_at_def hm_get_insert split: if_splits)

lemma persist_success:
  assumes "persist_session_state io df s d = (Inr (), d')"
  obtains d1 d2 where "atomic_write io [ps_session_id s @ ''.json''] (df_state_text df s) d1 = (Inr (), d2)"
    "upsert_registry_entry_unlocked io df (ps_session_id s) (ps_cwd s) (ps_created_at s) (ps_last_active s) d2 = (Inr (), d')"
    "is_valid_session_id (ps_session_id s)" "\<not> dk_linked d1"
proof -
  from assms obtain d0 p d1 d2 where *: "session_file_path (ps_session_id s) d0 = (Inr p, d1)"
    "atomic_write io p (df_state_text df s) d1 = (Inr (), d2)"
    "(case upsert_registry_entry_unlocked io df (ps_session_id s) (ps_cwd s) (ps_created_at s) (ps_last_active s) d2 of
        (Inl e, d') \<Rightarrow> (Inl (IndexFailed e), d') | (Inr _, d') \<Rightarrow> (Inr (), d')) = (Inr (), d')"
    unfolding persist_session_state_def by (elim bind_success) auto
  from *(3) have "upsert_registry_entry_unlocked io df (ps_session_id s) (ps_cwd s) (ps_created_at s) (ps_last_active s) d2 = (Inr (), d')"
    by (auto split: prod.splits sum.splits)
  with *(1,2) path_results(3) [OF *(1)] that show thesis by auto
qed

lemma touching_result:
  assumes "touching N f" "f d = (r, d')"
  shows "dk_linked d' = dk_linked d" "n \<notin> N \<Longrightarrow> node_at d' (n # q) = node_at d (n # q)"
proof -
  have "dk_linked (snd (f d)) = dk_linked d" "n \<notin> N \<Longrightarrow> node_at (snd (f d)) (n # q) = node_at d (n # q)"
    using assms(1) by (simp_all add: touches_def)
  with assms(2) show "dk_linked d' = dk_linked d" "n \<notin> N \<Longrightarrow> node_at d' (n # q) = node_at d (n # q)" by simp_all
qed

lemma persisted_loads:
  assumes "readable io" "df_state_of df (df_state_text df s) = Some s" "ps_session_id s \<noteq> ''registry''"
    and "persist_session_state io df s d = (Inr (), d')"
  shows "load_session_state io df (ps_session_id s) d' = Some s"
proof -
  let ?i = "ps_session_id s"
  from persist_success [OF assms(4)] obtain d1 d2 where p:
    "atomic_write io [?i @ ''.json''] (df_state_text df s) d1 = (Inr (), d2)"
    "upsert_registry_entry_unlocked io df ?i (ps_cwd s) (ps_created_at s) (ps_last_active s) d2 = (Inr (), d')"
    "is_valid_session_id ?i" "\<not> dk_linked d1"
    by blast
  have "is_valid_session_id ''registry''" by (simp add: is_valid_session_id_def is_digit_def byte_def)
  from name_of_one [OF p(3) this] assms(3) have "?i @ ''.json'' \<noteq> ''registry'' @ CHR ''.'' # x" for x by auto
  from this [of "''json''"] this [of "''json.corrupt.'' @ show_nat n" for n] have "?i @ ''.json'' \<notin> index_names"
    by (auto simp: index_names_def)
  with touching_result [OF touching_upsert p(2)]
  have "node_at d' [?i @ ''.json''] = node_at d2 [?i @ ''.json'']" "dk_linked d' = dk_linked d2" by blast+
  with write_success [OF p(1)] touching_result(1) [OF touching_atomic_write [of _ UNIV] p(1)] p(3,4) assms(1,2) show ?thesis
    by (simp add: load_session_eq)
qed

lemma delete_clears:
  assumes "delete_session io df i d = (Inr (), d')" "node_at d [i] \<noteq> None"
  shows "node_at d' (i # q) = None"
proof -
  from assms(1) obtain p d0 where p: "session_file_path i d0 = (Inr p, d0)" "d0 = d" and d': "(case remove_noted io False p (None, d) of
         (failed, d1) \<Rightarrow>
           and_on_disk (remove_related io i artifact_suffixes failed) (\<lambda>failed. and_on_disk (session_directory_path i) (\<lambda>tool_results d2.
             case remove_noted io True tool_results (failed, d2) of
               (Some e, d3) \<Rightarrow> (Inl e, d3)
             | (None, d3) \<Rightarrow>
                 (case load_registry_unlocked io df d3 of
                    (index, d4) \<Rightarrow> save_registry_unlocked io df (filter (\<lambda>e. re_session_id e \<noteq> i) index) d4))) d1) = (Inr (), d')"
    unfolding delete_session_def
    apply (elim bind_success)
    apply (frule path_results(3))
    apply (simp only: validate_session_id_def prod.inject)
    done
  obtain failed d1 where r1: "remove_noted io False p (None, d) = (failed, d1)" by fastforce
  from p path_results(3) [of i d p d] have pi: "p = [i @ ''.json'']" and i: "is_valid_session_id i" by auto
  have d1: "node_at d1 [i] = node_at d [i]"
    using r1 unfolding pi by (auto simp: remove_noted_def remove_call_def node_at_drop split: if_splits)
  from d' [unfolded r1 prod.case] obtain failed2 t d2 d3 where r2: "remove_related io i artifact_suffixes failed d1 = (Inr failed2, d2)"
    and t: "session_directory_path i d2 = (Inr t, d3)"
    and rest: "(case remove_noted io True t (failed2, d3) of
               (Some e, d3) \<Rightarrow> (Inl e, d3)
             | (None, d3) \<Rightarrow>
                 (case load_registry_unlocked io df d3 of
                    (index, d4) \<Rightarrow> save_registry_unlocked io df (filter (\<lambda>e. re_session_id e \<noteq> i) index) d4)) = (Inr (), d')"
    by (elim bind_success)
  from path_results(2) [OF t] rest obtain d4 where r3: "remove_noted io True [i] (failed2, d2) = (None, d4)"
      "(case load_registry_unlocked io df d4 of
                    (index, d4) \<Rightarrow> save_registry_unlocked io df (filter (\<lambda>e. re_session_id e \<noteq> i) index) d4) = (Inr (), d')"
    by (cases "remove_noted io True [i] (failed2, d2)"; cases "fst (remove_noted io True [i] (failed2, d2))") simp_all
  have d2: "node_at d2 [i] = node_at d1 [i]"
    using touching_result(2) [OF touching_related [of i artifact_suffixes, OF subset_refl] r2, of i "[]"] by auto
  with d1 assms(2) r3(1) have d4: "node_at d4 (i # q) = None"
    by (auto simp: remove_noted_def remove_call_def node_at_drop split: if_splits sum.splits option.splits)
  have "i \<notin> index_names" using valid_dot_free [OF i, of "''registry''"] by (auto simp: index_names_def)
  moreover have "touching index_names (\<lambda>d. case load_registry_unlocked io df d of (index, d') \<Rightarrow>
      save_registry_unlocked io df (filter (\<lambda>e. re_session_id e \<noteq> i) index) d')"
    using touching_after_load [of "''registry.json''" "\<lambda>index. save_registry_unlocked io df (filter (\<lambda>e. re_session_id e \<noteq> i) index)"]
    by (simp add: insert_absorb touching_save_registry)
  ultimately have "node_at (snd (case load_registry_unlocked io df d4 of (index, d') \<Rightarrow>
      save_registry_unlocked io df (filter (\<lambda>e. re_session_id e \<noteq> i) index) d')) (i # q) = node_at d4 (i # q)"
    unfolding touches_def by blast
  with d4 show ?thesis unfolding r3(2) by simp
qed

lemma saved_index:
  assumes "save_registry_unlocked io df index d = (Inr (), d')"
  shows "node_at d' registry_path = Some (TextFile (df_index_text df index))"
proof -
  from assms obtain d0 p d1 where "registry_file_path d0 = (Inr p, d1)" "atomic_write io p (df_index_text df index) d1 = (Inr (), d')"
    unfolding save_registry_unlocked_def by (elim bind_success) auto
  with path_results(4) [of d0 p d1] write_success show ?thesis by blast
qed

text \<open>
  C35. The ids registry and archive pass the check of ids but name the directory's own files. Persisting a session
  called registry reports success, yet its snapshot has been overwritten by the index and does not load; deleting a
  session called archive removes every archived session. Hypothesis: an index does not parse as a snapshot, there
  is an archive, and the two operations reported success.
\<close>

theorem reserved_ids_collide:
  assumes "\<And>index. df_state_of df (df_index_text df index) = None" "ps_session_id s = ''registry''"
    and "persist_session_state io df s d = (Inr (), d')" "node_at d2 archive_dir \<noteq> None" "delete_session io df ''archive'' d2 = (Inr (), d3)"
  shows "is_valid_session_id ''registry'' \<and> load_session_state io df ''registry'' d' = None \<and>
    is_valid_session_id ''archive'' \<and> node_at d3 (archive_dir @ q) = None"
proof (intro conjI)
  show "node_at d3 (archive_dir @ q) = None" using delete_clears [OF assms(5)] assms(4) by (simp add: archive_dir_def)
next
  from persist_success [OF assms(3)] obtain d1 where
    "upsert_registry_entry_unlocked io df ''registry'' (ps_cwd s) (ps_created_at s) (ps_last_active s) d1 = (Inr (), d')"
    using assms(2) by auto
  then obtain index d0 where "save_registry_unlocked io df index d0 = (Inr (), d')"
    unfolding upsert_registry_entry_unlocked_def by (elim bind_success) (auto split: prod.splits)
  from saved_index [OF this] assms(1) show "load_session_state io df ''registry'' d' = None"
    by (auto simp: load_session_state_def session_file_path_def session_artifact_path_def and_on_disk_def validate_session_id_def
        reject_symlinked_path_prefix_def reject_existing_symlink_def read_to_string_def split: if_splits)
qed simp_all

definition archived_disk :: disk where
  "archived_disk = \<lparr>dk_linked = False,
     dk_nodes = [(archive_dir, Folder), (archive_dir @ [''gamma.json''], TextFile ''Sgamma''), ([''alpha.json''], TextFile ''Salpha'')],
     dk_counter = 1\<rparr>"

lemma small_persist: "fst (persist_session_state all_succeed small_format (small_session ''registry'') small_disk) = Inr ()"
  by code_simp

lemma small_delete: "fst (delete_session all_succeed small_format ''archive'' archived_disk) = Inr ()"
  by code_simp

theorem reserved_ids_collide_witness:
  "load_session_state all_succeed small_format ''registry''
     (snd (persist_session_state all_succeed small_format (small_session ''registry'') small_disk)) = None \<and>
   node_at archived_disk (archive_dir @ [''gamma.json'']) \<noteq> None \<and>
   node_at (snd (delete_session all_succeed small_format ''archive'' archived_disk)) (archive_dir @ [''gamma.json'']) = None"
proof -
  have "(Inr (), snd (persist_session_state all_succeed small_format (small_session ''registry'') small_disk)) =
      persist_session_state all_succeed small_format (small_session ''registry'') small_disk"
    using small_persist by (metis prod.collapse)
  moreover have "(Inr (), snd (delete_session all_succeed small_format ''archive'' archived_disk)) =
      delete_session all_succeed small_format ''archive'' archived_disk"
    using small_delete by (metis prod.collapse)
  moreover have "df_state_of small_format (df_index_text small_format index) = None" for index by (simp add: small_format_def)
  moreover have "node_at archived_disk archive_dir \<noteq> None" "node_at archived_disk (archive_dir @ [''gamma.json'']) \<noteq> None"
    by (simp_all add: archived_disk_def archive_dir_def node_at_def)
  moreover have "ps_session_id (small_session ''registry'') = ''registry''" by (simp add: small_session_def)
  ultimately show ?thesis using reserved_ids_collide [of small_format "small_session ''registry''" all_succeed small_disk] by metis
qed


section \<open>Archiving is all or nothing\<close>
























end
