(* ===== verification/Bao_Migration.thy ===== *)
theory Bao_Migration
  imports Bao_Sessions
begin

text \<open>
  \<open>engine/session_persistence.rs\<close>, \<open>migrate_legacy_session\<close>: a snapshot and its artifacts are copied to the id that a
  session has under the present naming scheme. A copy is one call to the operating system, which leaves no file behind
  when it fails.
\<close>

definition copy_file :: "io \<Rightarrow> fs_path \<Rightarrow> fs_path \<Rightarrow> unit disk_op" where
  "copy_file io src dst d =
     (case node_at d src of
        Some (TextFile c) \<Rightarrow>
          if io d (CopyFile src dst) then
            (let d1 = d\<lparr>dk_nodes := hm_insert dst (TextFile c) (dk_nodes d)\<rparr>
             in (if io d1 (SetMode dst) then Inr () else Inl (IoFailed (SetMode dst)), d1))
          else (Inl (IoFailed (CopyFile src dst)), d)
      | _ \<Rightarrow> (Inl (IoFailed (CopyFile src dst)), d))"

definition children :: "disk \<Rightarrow> fs_path \<Rightarrow> fs_path list" where
  "children d p = filter (\<lambda>q. q \<noteq> [] \<and> butlast q = p) (hm_keys (dk_nodes d))"

text \<open>The nesting of directories is finite: the number of nodes bounds it.\<close>

fun validate_directory_tree :: "nat \<Rightarrow> io \<Rightarrow> fs_path \<Rightarrow> unit disk_op" where
  "validate_directory_tree 0 io p d = (Inr (), d)"
| "validate_directory_tree (Suc n) io p d =
     (if \<not> io d (ListDir p) then (Inl (IoFailed (ListDir p)), d)
      else and_on_disk (each_on_disk (\<lambda>q d.
               if node_at d q = Some LinkNode then (Inl LinkedTarget, d)
               else if node_at d q = Some Folder then validate_directory_tree n io q d
               else (Inr (), d)) (children d p)) (\<lambda>_ d. (Inr (), d)) d)"

fun copy_directory :: "nat \<Rightarrow> io \<Rightarrow> fs_path \<Rightarrow> fs_path \<Rightarrow> unit disk_op" where
  "copy_directory 0 io src dst d = (Inr (), d)"
| "copy_directory (Suc n) io src dst d =
     and_on_disk (ensure_dir io dst) (\<lambda>_ d.
       if \<not> io d (ListDir src) then (Inl (IoFailed (ListDir src)), d)
       else and_on_disk (each_on_disk (\<lambda>q d.
               if node_at d q = Some LinkNode then (Inl LinkedTarget, d)
               else if node_at d q = Some Folder then copy_directory n io q (dst @ [last q]) d
               else if node_at d (dst @ [last q]) = None then copy_file io q (dst @ [last q]) d
               else (Inr (), d)) (children d src)) (\<lambda>_ d. (Inr (), d)) d) d"

definition check_artifact :: "string \<Rightarrow> string \<Rightarrow> string \<Rightarrow> unit disk_op" where
  "check_artifact legacy_id new_id ext =
     and_on_disk (session_artifact_path legacy_id ext) (\<lambda>_. and_on_disk (session_artifact_path new_id ext) (\<lambda>_ d. (Inr (), d)))"

definition copy_artifact :: "io \<Rightarrow> string \<Rightarrow> string \<Rightarrow> string \<Rightarrow> unit disk_op" where
  "copy_artifact io legacy_id new_id ext =
     and_on_disk (session_artifact_path legacy_id ext) (\<lambda>src. and_on_disk (session_artifact_path new_id ext) (\<lambda>dst d.
       if node_at d src \<noteq> None \<and> node_at d dst = None then copy_file io src dst d else (Inr (), d)))"

definition drop_legacy_entry :: "io \<Rightarrow> disk_format \<Rightarrow> string \<Rightarrow> bool disk_op" where
  "drop_legacy_entry io df legacy_id d =
     (case load_registry_unlocked io df d of
        (index, d') \<Rightarrow>
          if list_ex (\<lambda>e. re_session_id e = legacy_id) index
          then and_on_disk (save_registry_unlocked io df (filter (\<lambda>e. re_session_id e \<noteq> legacy_id) index)) (\<lambda>_ d. (Inr True, d)) d'
          else (Inr True, d'))"

text \<open>The steps after the snapshot has been written under its new id.\<close>

definition migrate_artifacts :: "io \<Rightarrow> disk_format \<Rightarrow> string \<Rightarrow> string \<Rightarrow> fs_path \<Rightarrow> fs_path \<Rightarrow> bool disk_op" where
  "migrate_artifacts io df legacy_id new_id source_dir target_dir =
     and_on_disk (each_on_disk (copy_artifact io legacy_id new_id) artifact_suffixes) (\<lambda>_.
       and_on_disk (\<lambda>d. if node_at d source_dir = Some Folder \<and> node_at d target_dir = None
                        then copy_directory (length (dk_nodes d)) io source_dir target_dir d else (Inr (), d)) (\<lambda>_.
         drop_legacy_entry io df legacy_id))"

definition migrate_legacy_session :: "io \<Rightarrow> disk_format \<Rightarrow> string \<Rightarrow> string \<Rightarrow> string \<Rightarrow> bool disk_op" where
  "migrate_legacy_session io df legacy_id new_id expected_cwd =
     and_on_disk (validate_session_id legacy_id) (\<lambda>_. and_on_disk (validate_session_id new_id) (\<lambda>_ d.
       if legacy_id = new_id \<or> load_session_state io df new_id d \<noteq> None then (Inr False, d)
       else case load_session_state io df legacy_id d of
              None \<Rightarrow> (Inr False, d)
            | Some state \<Rightarrow>
                if ps_cwd state \<noteq> expected_cwd then (Inr False, d)
                else and_on_disk (session_directory_path legacy_id) (\<lambda>source_dir.
                       and_on_disk (\<lambda>d. if node_at d source_dir = Some Folder
                                        then validate_directory_tree (length (dk_nodes d)) io source_dir d else (Inr (), d)) (\<lambda>_.
                         and_on_disk (session_directory_path new_id) (\<lambda>target_dir.
                           and_on_disk (each_on_disk (check_artifact legacy_id new_id) artifact_suffixes) (\<lambda>_.
                             and_on_disk (persist_session_state io df (state\<lparr>ps_session_id := new_id\<rparr>)) (\<lambda>_.
                               migrate_artifacts io df legacy_id new_id source_dir target_dir))))) d))"

lemma touching_each: "(\<And>x. x \<in> set xs \<Longrightarrow> touching N (f x)) \<Longrightarrow> touching N (each_on_disk f xs)"
proof (induction xs)
  case (Cons x xs)
  then have "touching N (and_on_disk (f x) (\<lambda>y. and_on_disk (each_on_disk f xs) (\<lambda>ys d. (Inr (y # ys), d))))"
    by (intro touching_bind touching_return) simp_all
  then show ?case by (simp add: touches_def)
qed simp

lemma touching_copy_file: "hd dst \<in> N \<Longrightarrow> dst \<noteq> [] \<Longrightarrow> touching N (copy_file io src dst)"
  by (auto simp: touches_def copy_file_def node_at_insert Let_def split: option.splits disk_node.splits)

lemma touching_copy_directory: "hd dst \<in> N \<Longrightarrow> dst \<noteq> [] \<Longrightarrow> touching N (copy_directory n io src dst)"
proof (induction n arbitrary: src dst)
  case (Suc n)
  have entry: "touching N (\<lambda>d. if node_at d q = Some LinkNode then (Inl LinkedTarget, d)
      else if node_at d q = Some Folder then copy_directory n io q (dst @ [last q]) d
      else if node_at d (dst @ [last q]) = None then copy_file io q (dst @ [last q]) d else (Inr (), d))" for q
    using Suc.IH [of "dst @ [last q]" q] touching_copy_file [of "dst @ [last q]" N io q] Suc.prems by (auto simp: touches_def)
  have "touching N (and_on_disk (each_on_disk (\<lambda>q d. if node_at d q = Some LinkNode then (Inl LinkedTarget, d)
      else if node_at d q = Some Folder then copy_directory n io q (dst @ [last q]) d
      else if node_at d (dst @ [last q]) = None then copy_file io q (dst @ [last q]) d else (Inr (), d)) qs) (\<lambda>_ d. (Inr (), d)))" for qs
    by (intro touching_bind touching_each entry touching_return)
  then have body: "touching N (\<lambda>d. if \<not> io d (ListDir src) then (Inl (IoFailed (ListDir src)), d)
      else and_on_disk (each_on_disk (\<lambda>q d. if node_at d q = Some LinkNode then (Inl LinkedTarget, d)
        else if node_at d q = Some Folder then copy_directory n io q (dst @ [last q]) d
        else if node_at d (dst @ [last q]) = None then copy_file io q (dst @ [last q]) d else (Inr (), d)) (children d src)) (\<lambda>_ d. (Inr (), d)) d)"
    by (simp add: touches_def)
  have "touching N (ensure_dir io dst)" using Suc.prems by (intro touching_ensure_dir) auto
  from touching_bind [OF this body] show ?case by (simp add: touches_def)
qed simp

text \<open>What is written after the snapshot, the index included.\<close>

definition later_names :: "string \<Rightarrow> string set" where
  "later_names i = insert i ((\<lambda>ext. i @ ''.'' @ ext) ` set artifact_suffixes) \<union> index_names"

lemma touching_migrate_artifacts: "touching (later_names new_id) (migrate_artifacts io df legacy_id new_id source_dir [new_id])"
proof -
  let ?N = "later_names new_id"
  have artifact: "touching ?N (copy_artifact io legacy_id new_id ext)" if "ext \<in> set artifact_suffixes" for ext
  proof -
    have "touching ?N (\<lambda>d. if node_at d src \<noteq> None \<and> node_at d dst = None then copy_file io src dst d else (Inr (), d))"
      if "session_artifact_path new_id ext d = (Inr dst, d')" for src dst d d'
      using path_results(1) [OF that] touching_copy_file [of dst ?N io src] \<open>ext \<in> set artifact_suffixes\<close>
      by (auto simp: touches_def later_names_def)
    then show ?thesis unfolding copy_artifact_def by (intro touching_bind) (simp_all add: touching_read)
  qed
  have dir: "touching ?N (\<lambda>d. if node_at d source_dir = Some Folder \<and> node_at d [new_id] = None
                        then copy_directory (length (dk_nodes d)) io source_dir [new_id] d else (Inr (), d))"
    using touching_copy_directory [of "[new_id]" ?N _ io source_dir] by (auto simp: touches_def later_names_def)
  have "touching index_names (\<lambda>d. case load_registry_unlocked io df d of (index, d') \<Rightarrow>
      (if list_ex (\<lambda>e. re_session_id e = legacy_id) index
       then and_on_disk (save_registry_unlocked io df (filter (\<lambda>e. re_session_id e \<noteq> legacy_id) index)) (\<lambda>_ d. (Inr True, d)) d'
       else (Inr True, d')))"
  proof (rule touching_after_load [of "''registry.json''", simplified insert_absorb [OF index_names_intro(1)]])
    fix index
    have "touching index_names (and_on_disk (save_registry_unlocked io df (filter (\<lambda>e. re_session_id e \<noteq> legacy_id) index)) (\<lambda>_ d. (Inr True, d)))"
      by (intro touching_bind touching_save_registry touching_return)
    then show "touching index_names (\<lambda>d. if list_ex (\<lambda>e. re_session_id e = legacy_id) index
       then and_on_disk (save_registry_unlocked io df (filter (\<lambda>e. re_session_id e \<noteq> legacy_id) index)) (\<lambda>_ d. (Inr True, d)) d
       else (Inr True, d))"
      by (simp add: touches_def)
  qed
  then have "touching ?N (drop_legacy_entry io df legacy_id)"
    unfolding drop_legacy_entry_def by (rule touches_mono) (auto simp: later_names_def)
  then show ?thesis
    unfolding migrate_artifacts_def by (intro touching_bind touching_each artifact dir)
qed

lemma touching_validate: "touching N (validate_directory_tree n io p)"
proof (induction n arbitrary: p)
  case (Suc n)
  have "touching N (\<lambda>d. if node_at d q = Some LinkNode then (Inl LinkedTarget, d)
      else if node_at d q = Some Folder then validate_directory_tree n io q d else (Inr (), d))" for q
    using Suc.IH [of q] by (simp add: touches_def)
  then have "touching N (and_on_disk (each_on_disk (\<lambda>q d. if node_at d q = Some LinkNode then (Inl LinkedTarget, d)
      else if node_at d q = Some Folder then validate_directory_tree n io q d else (Inr (), d)) qs) (\<lambda>_ d. (Inr (), d)))" for qs
    by (intro touching_bind touching_each touching_return)
  then show ?case by (simp add: touches_def)
qed simp

lemma touching_migrate: "touching (insert (new_id @ ''.json'') (later_names new_id)) (migrate_legacy_session io df legacy_id new_id cwd)"
proof -
  let ?N = "insert (new_id @ ''.json'') (later_names new_id)"
  have check: "touching ?N (check_artifact legacy_id new_id ext)" for ext
    unfolding check_artifact_def by (intro touching_bind touching_return) (simp_all add: touching_read)
  have tree: "touching ?N (\<lambda>d. if node_at d p = Some Folder then validate_directory_tree (length (dk_nodes d)) io p d else (Inr (), d))" for p
    using touching_validate [of ?N _ io p] by (simp add: touches_def)
  have persist: "touching ?N (persist_session_state io df (state\<lparr>ps_session_id := new_id\<rparr>))" for state
    using touches_mono [OF touching_persist, of "state\<lparr>ps_session_id := new_id\<rparr>" ?N io df] by (auto simp: later_names_def)
  have rest: "touching ?N (migrate_artifacts io df legacy_id new_id source_dir target_dir)"
    if "session_directory_path new_id d = (Inr target_dir, d')" for source_dir target_dir d d'
    using touches_mono [OF touching_migrate_artifacts] path_results(2) [OF that] by (metis subset_insertI)
  have step: "touching ?N (and_on_disk (session_directory_path legacy_id) (\<lambda>source_dir.
                       and_on_disk (\<lambda>d. if node_at d source_dir = Some Folder
                                        then validate_directory_tree (length (dk_nodes d)) io source_dir d else (Inr (), d)) (\<lambda>_.
                         and_on_disk (session_directory_path new_id) (\<lambda>target_dir.
                           and_on_disk (each_on_disk (check_artifact legacy_id new_id) artifact_suffixes) (\<lambda>_.
                             and_on_disk (persist_session_state io df (state\<lparr>ps_session_id := new_id\<rparr>)) (\<lambda>_.
                               migrate_artifacts io df legacy_id new_id source_dir target_dir))))))" for state
    by (intro touching_bind touching_each check tree persist rest) (simp_all add: touching_read)
  show ?thesis
    unfolding migrate_legacy_session_def
  proof (intro touching_bind touching_checks, goal_cases)
    case (1 d x d' d2 y d3)
    from step show ?case by (auto simp: touches_def split: option.split)
  qed
qed

lemma bind_validate: "is_valid_session_id i \<Longrightarrow> and_on_disk (validate_session_id i) g d = g () d"
  by (simp add: and_on_disk_def validate_session_id_def)

lemma migrated_steps:
  assumes "is_valid_session_id legacy_id" "is_valid_session_id new_id" "load_session_state io df legacy_id d = Some s"
    and "migrate_legacy_session io df legacy_id new_id cwd d = (Inr True, d')"
  obtains d1 d2 source_dir where "persist_session_state io df (s\<lparr>ps_session_id := new_id\<rparr>) d1 = (Inr (), d2)"
    "migrate_artifacts io df legacy_id new_id source_dir [new_id] d2 = (Inr True, d')"
proof -
  from assms(3,4) obtain source_dir target_dir d0 d0' d1 u d2 where "session_directory_path new_id d0 = (Inr target_dir, d0')"
    "persist_session_state io df (s\<lparr>ps_session_id := new_id\<rparr>) d1 = (Inr u, d2)"
    "migrate_artifacts io df legacy_id new_id source_dir target_dir d2 = (Inr True, d')"
    unfolding migrate_legacy_session_def bind_validate [OF assms(1)] bind_validate [OF assms(2)]
    by (simp only: option.case prod.inject sum.inject simp_thms split: if_splits) (elim bind_success, blast)
  with path_results(2) [of new_id d0 target_dir d0'] that show thesis by auto
qed

text \<open>
  C36. Migrating a session loses nothing: whatever happens, the old snapshot still loads; when the migration succeeds
  the new id loads the same session under its new name. But a migration that failed after the snapshot was written is
  never completed: every later attempt reports that there is nothing to migrate and copies none of the missing
  artifacts. Hypotheses: files can be read, the new snapshot parses back, the ids are different and not registry.
\<close>

theorem migration_outcomes:
  assumes "readable io" "df_state_of df (df_state_text df (s\<lparr>ps_session_id := new_id\<rparr>)) = Some (s\<lparr>ps_session_id := new_id\<rparr>)"
    and "legacy_id \<noteq> new_id" "legacy_id \<noteq> ''registry''" "new_id \<noteq> ''registry''" "is_valid_session_id new_id"
    and "load_session_state io df legacy_id d = Some s"
    and "migrate_legacy_session io df legacy_id new_id cwd d = (r, d')"
  shows "load_session_state io df legacy_id d' = Some s \<and>
    (r = Inr True \<longrightarrow> load_session_state io df new_id d' = Some (s\<lparr>ps_session_id := new_id\<rparr>)) \<and>
    (load_session_state io df new_id d' \<noteq> None \<longrightarrow> migrate_legacy_session io df legacy_id new_id cwd d' = (Inr False, d'))"
proof (intro conjI impI)
  have legacy: "is_valid_session_id legacy_id" using assms(7) by (simp add: load_session_eq [OF assms(1)] split: if_splits)
  have "legacy_id @ ''.json'' \<notin> insert (new_id @ ''.json'') (later_names new_id)"
    using other_names [OF assms(6) legacy assms(3) [symmetric] assms(4)] by (auto simp: own_names_def later_names_def)
  from load_untouched [OF assms(1) touching_migrate this] assms(7,8) show "load_session_state io df legacy_id d' = Some s"
    by (metis snd_conv)
  show "migrate_legacy_session io df legacy_id new_id cwd d' = (Inr False, d')" if "load_session_state io df new_id d' \<noteq> None"
    using that legacy assms(6) by (simp add: migrate_legacy_session_def and_on_disk_def validate_session_id_def)
  assume "r = Inr True"
  with assms(8) have "migrate_legacy_session io df legacy_id new_id cwd d = (Inr True, d')" by simp
  from migrated_steps [OF legacy assms(6,7) this] obtain d1 d2 source_dir where
    p: "persist_session_state io df (s\<lparr>ps_session_id := new_id\<rparr>) d1 = (Inr (), d2)"
    and rest: "migrate_artifacts io df legacy_id new_id source_dir [new_id] d2 = (Inr True, d')" .
  have "new_id @ ''.json'' \<notin> later_names new_id"
    using other_names [OF legacy assms(6,3,5)] by (auto simp: later_names_def artifact_suffixes_def)
  from load_untouched [OF assms(1) touching_migrate_artifacts this, of df io df legacy_id source_dir d2] rest
  have "load_session_state io df new_id d' = load_session_state io df new_id d2" by simp
  also have "\<dots> = Some (s\<lparr>ps_session_id := new_id\<rparr>)"
    using persisted_loads [OF assms(1,2) _ p] assms(5) by simp
  finally show "load_session_state io df new_id d' = Some (s\<lparr>ps_session_id := new_id\<rparr>)" .
qed

text \<open>A directory in which the session called old has a transcript, and a system on which its copy fails.\<close>

definition legacy_disk :: disk where
  "legacy_disk = \<lparr>dk_linked = False, dk_nodes = [([''alpha.json''], TextFile ''Salpha''), ([''alpha.jsonl''], TextFile ''T'')], dk_counter = 1\<rparr>"

definition copies_fail :: io where
  "copies_fail d c = (case c of CopyFile _ _ \<Rightarrow> False | _ \<Rightarrow> True)"

lemma legacy_loads: "readable io \<Longrightarrow> load_session_state io small_format ''alpha'' legacy_disk = Some (small_session ''alpha'')"
  by (simp add: load_session_eq small_format_def legacy_disk_def small_session_def node_at_def)

lemma small_renamed: "small_session i\<lparr>ps_session_id := j\<rparr> = small_session j"
  by (simp add: small_session_def)

lemma small_parses: "df_state_of small_format (df_state_text small_format (small_session i)) = Some (small_session i)"
  by (simp add: small_format_def small_session_def)

lemma failed_copy_result:
  "fst (migrate_legacy_session copies_fail small_format ''alpha'' ''beta'' ''/w'' legacy_disk) = Inl (IoFailed (CopyFile [''alpha.jsonl''] [''beta.jsonl'']))"
  by code_simp

lemma failed_copy_loads:
  "load_session_state copies_fail small_format ''beta'' (snd (migrate_legacy_session copies_fail small_format ''alpha'' ''beta'' ''/w'' legacy_disk)) =
     Some (small_session ''beta'')"
  by code_simp

theorem migration_outcomes_witness:
  "let (r, d) = migrate_legacy_session copies_fail small_format ''alpha'' ''beta'' ''/w'' legacy_disk
   in r = Inl (IoFailed (CopyFile [''alpha.jsonl''] [''beta.jsonl''])) \<and>
      load_session_state copies_fail small_format ''alpha'' d = Some (small_session ''alpha'') \<and>
      migrate_legacy_session copies_fail small_format ''alpha'' ''beta'' ''/w'' d = (Inr False, d)"
proof -
  obtain r d where rd: "migrate_legacy_session copies_fail small_format ''alpha'' ''beta'' ''/w'' legacy_disk = (r, d)" by fastforce
  have "readable copies_fail" by (simp add: readable_def copies_fail_def)
  with migration_outcomes [of copies_fail small_format "''beta''" "small_session ''alpha''" "''alpha''" legacy_disk "''/w''" r d] rd failed_copy_result failed_copy_loads
  show ?thesis by (simp add: small_renamed small_parses legacy_loads)
qed

end
