(* ===== verification/Bao_SharedSession.thy ===== *)
theory Bao_SharedSession
  imports Bao_Migration Bao_SessionMemory
begin

text \<open>
  \<open>engine/shared_session.rs\<close>: the sessions that several clients share, the registry that holds them, and how they
  are restored from disk. A session is an object of a heap, because the registry compares sessions by identity. The
  engine of a session is the part of \<open>QueryEngine\<close> that these operations read and write. Time stamps come from
  outside; whether one parses is an argument.
\<close>

section \<open>A shared session\<close>

record live_engine =
  en_cwd :: string
  en_model :: string
  en_messages :: "message list"
  en_memory :: "session_memory option"

record shared_session =
  sh_engine :: live_engine
  sh_submitter :: "u64 option"
  sh_handoff :: "u64 option"
  sh_clients :: "u64 list"
  sh_next_client :: u64
  sh_created_at :: string
  sh_last_active :: string

definition with_created_at :: "string \<Rightarrow> live_engine \<Rightarrow> string \<Rightarrow> shared_session" where
  "with_created_at now engine created_at =
     \<lparr>sh_engine = engine, sh_submitter = None, sh_handoff = None, sh_clients = [], sh_next_client = 1,
      sh_created_at = created_at, sh_last_active = now\<rparr>"

definition add_client :: "shared_session \<Rightarrow> u64 \<times> shared_session" where
  "add_client s = (sh_next_client s, s\<lparr>sh_next_client := sh_next_client s + 1, sh_clients := List.insert (sh_next_client s) (sh_clients s)\<rparr>)"

definition detach_client :: "u64 \<Rightarrow> shared_session \<Rightarrow> bool option \<times> shared_session" where
  "detach_client c s =
     (if c \<notin> set (sh_clients s) then (None, s)
      else let s1 = s\<lparr>sh_clients := removeAll c (sh_clients s)\<rparr>;
               s2 = (if sh_submitter s1 = Some c then s1\<lparr>sh_submitter := None\<rparr> else s1);
               s3 = (if sh_handoff s2 = Some c then s2\<lparr>sh_handoff := None\<rparr> else s2)
           in (Some (sh_clients s3 = []), s3))"

definition remove_client :: "u64 \<Rightarrow> shared_session \<Rightarrow> bool \<times> shared_session" where
  "remove_client c s = (case detach_client c s of (None, s') \<Rightarrow> (True, s') | (Some b, s') \<Rightarrow> (b, s'))"

definition try_acquire_submitter :: "u64 \<Rightarrow> shared_session \<Rightarrow> bool \<times> shared_session" where
  "try_acquire_submitter c s = (if sh_submitter s = None then (True, s\<lparr>sh_submitter := Some c\<rparr>) else (False, s))"

definition release_submitter :: "u64 \<Rightarrow> shared_session \<Rightarrow> shared_session" where
  "release_submitter c s = (if sh_submitter s = Some c then s\<lparr>sh_submitter := None\<rparr> else s)"

definition arm_terminal_handoff :: "u64 \<Rightarrow> shared_session \<Rightarrow> shared_session" where
  "arm_terminal_handoff c s = s\<lparr>sh_handoff := Some c\<rparr>"

definition take_terminal_handoff :: "u64 \<Rightarrow> shared_session \<Rightarrow> bool \<times> shared_session" where
  "take_terminal_handoff c s = (if sh_handoff s = Some c then (True, s\<lparr>sh_handoff := None\<rparr>) else (False, s))"

definition has_active_submitter :: "shared_session \<Rightarrow> bool" where
  "has_active_submitter s \<longleftrightarrow> sh_submitter s \<noteq> None"

definition is_active_submitter :: "u64 \<Rightarrow> shared_session \<Rightarrow> bool" where
  "is_active_submitter c s \<longleftrightarrow> sh_submitter s = Some c"

section \<open>Restoring a snapshot\<close>

definition set_engine_messages :: "message list \<Rightarrow> live_engine \<Rightarrow> live_engine" where
  "set_engine_messages ms e = e\<lparr>en_messages := ms\<rparr>"

definition seed_session_memory :: "bool \<Rightarrow> string \<Rightarrow> live_engine \<Rightarrow> live_engine" where
  "seed_session_memory written summary e =
     (case en_memory e of
        None \<Rightarrow> e
      | Some sm \<Rightarrow> if summary \<noteq> [] then e\<lparr>en_memory := Some (sm_update written summary sm)\<rparr> else e)"

definition restore_persisted_state ::
  "(string \<Rightarrow> bool) \<Rightarrow> bool \<Rightarrow> string \<Rightarrow> persisted_session \<Rightarrow> live_engine \<Rightarrow> bool \<times> live_engine" where
  "restore_persisted_state parses written i persisted e =
     (if ps_schema_version persisted \<noteq> current_schema_version \<or> ps_session_id persisted \<noteq> i \<or>
         \<not> parses (ps_created_at persisted) \<or> \<not> parses (ps_last_active persisted) then (False, e)
      else if ps_cwd persisted \<noteq> en_cwd e then (False, e)
      else let has_messages = ps_messages persisted \<noteq> [];
               summary = (case ps_memory_summary persisted of Some s \<Rightarrow> if str_trim s \<noteq> [] then Some s else None | None \<Rightarrow> None);
               e1 = (if has_messages then set_engine_messages (ps_messages persisted) e else e);
               e2 = (case summary of
                       None \<Rightarrow> e1
                     | Some s \<Rightarrow>
                         if (case en_memory e1 of None \<Rightarrow> True | Some sm \<Rightarrow> str_trim (sm_content sm) = [])
                         then seed_session_memory written s e1 else e1)
           in (has_messages \<or> summary \<noteq> None, e2))"

section \<open>The registry\<close>

record session_registry =
  rg_sessions :: "(string, nat) hash_map"
  rg_heap :: "shared_session list"

definition no_sessions :: session_registry where
  "no_sessions = \<lparr>rg_sessions = [], rg_heap = []\<rparr>"

text \<open>What the operations get from outside: the system calls, the file format, time stamps and whether the summary file
  could be written.\<close>

record outside =
  ot_io :: io
  ot_format :: disk_format
  ot_now :: string
  ot_parses :: "string \<Rightarrow> bool"
  ot_written :: bool

definition entry_for :: "string \<Rightarrow> registry_index \<Rightarrow> string option" where
  "entry_for i index = map_option re_created_at (find (\<lambda>e. re_session_id e = i) index)"

definition get_or_create_unlocked ::
  "outside \<Rightarrow> string \<Rightarrow> live_engine \<Rightarrow> session_registry \<Rightarrow> disk \<Rightarrow> (nat \<times> bool \<times> bool) \<times> session_registry \<times> disk" where
  "get_or_create_unlocked w i engine rg d =
     (case hm_get (rg_sessions rg) i of
        Some a \<Rightarrow> ((a, False, False), rg, d)
      | None \<Rightarrow>
          (case load_registry_unlocked (ot_io w) (ot_format w) d of
             (index, d1) \<Rightarrow>
               (let (resumed, engine') =
                      (case load_session_state (ot_io w) (ot_format w) i d1 of
                         Some persisted \<Rightarrow> restore_persisted_state (ot_parses w) (ot_written w) i persisted engine
                       | None \<Rightarrow> (False, engine));
                    session = with_created_at (ot_now w) engine' (case entry_for i index of Some created \<Rightarrow> created | None \<Rightarrow> ot_now w);
                    a = length (rg_heap rg)
                in ((a, True, resumed), rg\<lparr>rg_sessions := hm_insert i a (rg_sessions rg), rg_heap := rg_heap rg @ [session]\<rparr>, d1))))"

datatype session_error =
    NotInRegistry string
  | NotPersisted string io_error
  | TargetActive
  | SessionBusy
  | NoLongerAttached
  | WrongDirectory
  | ClientGone
  | TranscriptNotReset string io_error

definition session_snapshot :: "outside \<Rightarrow> string \<Rightarrow> live_engine \<Rightarrow> string \<Rightarrow> persisted_session" where
  "session_snapshot w i engine created =
     \<lparr>ps_schema_version = current_schema_version, ps_session_id = i, ps_cwd = en_cwd engine, ps_model = en_model engine,
      ps_created_at = created, ps_last_active = ot_now w, ps_messages = en_messages engine,
      ps_memory_summary = map_option sm_content (en_memory engine)\<rparr>"

definition persist_session :: "outside \<Rightarrow> string \<Rightarrow> session_registry \<Rightarrow> disk \<Rightarrow> (session_error + unit) \<times> disk" where
  "persist_session w i rg d =
     (case hm_get (rg_sessions rg) i of
        None \<Rightarrow> (Inl (NotInRegistry i), d)
      | Some a \<Rightarrow>
          (let engine = sh_engine (rg_heap rg ! a)
           in case load_registry_unlocked (ot_io w) (ot_format w) d of
                (index, d1) \<Rightarrow>
                  (let state = session_snapshot w i engine (case entry_for i index of Some created \<Rightarrow> created | None \<Rightarrow> ot_now w)
                   in case persist_session_state (ot_io w) (ot_format w) state d1 of
                        (Inl e, d2) \<Rightarrow> (Inl (NotPersisted i e), d2)
                      | (Inr _, d2) \<Rightarrow> (Inr (), d2))))"

definition at_session :: "nat \<Rightarrow> (shared_session \<Rightarrow> 'a \<times> shared_session) \<Rightarrow> session_registry \<Rightarrow> 'a \<times> session_registry" where
  "at_session a f rg = (case f (rg_heap rg ! a) of (x, s) \<Rightarrow> (x, rg\<lparr>rg_heap := (rg_heap rg)[a := s]\<rparr>))"

definition forget_session :: "string \<Rightarrow> session_registry \<Rightarrow> session_registry" where
  "forget_session i rg = rg\<lparr>rg_sessions := hm_remove i (rg_sessions rg)\<rparr>"

text \<open>\<open>switch_client\<close>: \<open>current\<close> is the session object that the connection holds; on success the answer is the
  object and the id under which the client goes on.\<close>

definition switch_client ::
  "outside \<Rightarrow> string \<Rightarrow> nat \<Rightarrow> u64 \<Rightarrow> string \<Rightarrow> string \<Rightarrow> live_engine \<Rightarrow> session_registry \<Rightarrow> disk \<Rightarrow>
     (session_error + nat \<times> u64) \<times> session_registry \<times> disk" where
  "switch_client w current_id current c target_id target_cwd engine rg d =
     (if current_id = target_id then (Inl TargetActive, rg, d)
      else if has_active_submitter (rg_heap rg ! current) then (Inl SessionBusy, rg, d)
      else if hm_get (rg_sessions rg) current_id \<noteq> Some current then (Inl NoLongerAttached, rg, d)
      else case get_or_create_unlocked w target_id engine rg d of
             ((target, is_new, _), rg1, d1) \<Rightarrow>
               (let undo = (if is_new then forget_session target_id rg1 else rg1)
                in if en_cwd (sh_engine (rg_heap rg1 ! target)) \<noteq> target_cwd then (Inl WrongDirectory, undo, d1)
                   else case persist_session w current_id rg1 d1 of
                          (Inl e, d2) \<Rightarrow> (Inl e, undo, d2)
                        | (Inr _, d2) \<Rightarrow>
                            (case at_session current (detach_client c) rg1 of
                               (None, _) \<Rightarrow> (Inl ClientGone, undo, d2)
                             | (Some no_clients, rg2) \<Rightarrow>
                                 (case at_session target add_client (if no_clients then forget_session current_id rg2 else rg2) of
                                    (new_id, rg3) \<Rightarrow> (Inr (target, new_id), rg3, d2)))))"

text \<open>\<open>acquire_last_client_cleanup\<close> and what \<open>lc_session_close\<close> does with the session under its guard: the session leaves the registry
  only when it has no client, is still the registered one, and has been persisted.\<close>

definition acquire_last_client_cleanup :: "string \<Rightarrow> nat \<Rightarrow> session_registry \<Rightarrow> bool" where
  "acquire_last_client_cleanup i a rg \<longleftrightarrow> sh_clients (rg_heap rg ! a) = [] \<and> hm_get (rg_sessions rg) i = Some a"

definition lc_session_close :: "outside \<Rightarrow> u64 \<Rightarrow> string \<Rightarrow> nat \<Rightarrow> session_registry \<Rightarrow> disk \<Rightarrow> session_registry \<times> disk" where
  "lc_session_close w c i a rg d =
     (case at_session a (remove_client c) rg of
        (is_last, rg1) \<Rightarrow>
          if is_last \<and> acquire_last_client_cleanup i a rg1 then
            (case persist_session w i rg1 d of
               (Inr _, d1) \<Rightarrow> (forget_session i rg1, d1)
             | (Inl _, d1) \<Rightarrow> (rg1, d1))
          else (rg1, d))"

definition clear_conversation :: "outside \<Rightarrow> string \<Rightarrow> session_registry \<Rightarrow> disk \<Rightarrow> (session_error + nat) \<times> session_registry \<times> disk" where
  "clear_conversation w i rg d =
     (case hm_get (rg_sessions rg) i of
        None \<Rightarrow> (Inl (NotInRegistry i), rg, d)
      | Some a \<Rightarrow>
          (case at_session a (\<lambda>s. (length (en_messages (sh_engine s)), s\<lparr>sh_engine := set_engine_messages [] (sh_engine s)\<rparr>)) rg of
             (removed, rg1) \<Rightarrow>
               (case reset_transcript (ot_io w) i d of
                  (Inl e, d1) \<Rightarrow> (Inl (TranscriptNotReset i e), rg1, d1)
                | (Inr _, d1) \<Rightarrow>
                    (case persist_session w i rg1 d1 of
                       (Inl e, d2) \<Rightarrow> (Inl e, rg1, d2)
                     | (Inr _, d2) \<Rightarrow> (Inr removed, rg1, d2)))))"

definition restore_session_messages :: "outside \<Rightarrow> string \<Rightarrow> session_registry \<Rightarrow> disk \<Rightarrow> bool \<times> session_registry" where
  "restore_session_messages w i rg d =
     (case load_session_state (ot_io w) (ot_format w) i d of
        None \<Rightarrow> (False, rg)
      | Some persisted \<Rightarrow>
          (case hm_get (rg_sessions rg) i of
             None \<Rightarrow> (False, rg)
           | Some a \<Rightarrow>
               at_session a (\<lambda>s. case restore_persisted_state (ot_parses w) (ot_written w) i persisted (sh_engine s) of
                 (restored, engine) \<Rightarrow> (restored, s\<lparr>sh_engine := engine\<rparr>)) rg))"

definition persist_all :: "outside \<Rightarrow> session_registry \<Rightarrow> disk \<Rightarrow> disk" where
  "persist_all w rg d = fold (\<lambda>i d. snd (persist_session w i rg d)) (hm_keys (rg_sessions rg)) d"

section \<open>Nothing is lost\<close>

text \<open>What a format has to do for the snapshots of one session: parse back what it printed.\<close>

definition prints_session :: "outside \<Rightarrow> string \<Rightarrow> live_engine \<Rightarrow> bool" where
  "prints_session w i engine \<longleftrightarrow> (\<forall>created. df_state_of (ot_format w) (df_state_text (ot_format w) (session_snapshot w i engine created)) =
     Some (session_snapshot w i engine created))"

lemma persisted_on_disk:
  assumes "readable (ot_io w)" "prints_session w i (sh_engine (rg_heap rg ! a))" "i \<noteq> ''registry''" "hm_get (rg_sessions rg) i = Some a"
    and "persist_session w i rg d = (Inr (), d')"
  obtains created where "load_session_state (ot_io w) (ot_format w) i d' = Some (session_snapshot w i (sh_engine (rg_heap rg ! a)) created)"
    "created = (case entry_for i (fst (load_registry_unlocked (ot_io w) (ot_format w) d)) of Some t \<Rightarrow> t | None \<Rightarrow> ot_now w)"
proof -
  obtain index d1 where l: "load_registry_unlocked (ot_io w) (ot_format w) d = (index, d1)" by fastforce
  let ?c = "case entry_for i index of Some created \<Rightarrow> created | None \<Rightarrow> ot_now w"
  let ?s = "session_snapshot w i (sh_engine (rg_heap rg ! a)) ?c"
  have "persist_session_state (ot_io w) (ot_format w) ?s d1 = (Inr (), d')"
    using assms(4,5) by (simp add: persist_session_def l Let_def split: prod.splits sum.splits)
  with persisted_loads [OF assms(1), of "ot_format w" ?s d1 d'] assms(2,3)
  have "load_session_state (ot_io w) (ot_format w) i d' = Some ?s"
    by (simp add: prints_session_def session_snapshot_def)
  with that l show thesis by simp
qed

lemma load_after_registry:
  assumes "readable io" "i \<noteq> ''registry''" "load_session_state io df i d \<noteq> None"
  shows "load_session_state io df i (snd (load_registry_unlocked io df d)) = load_session_state io df i d"
proof -
  have i: "is_valid_session_id i" using assms(3) by (simp add: load_session_eq [OF assms(1)] split: if_splits)
  obtain j where "is_valid_session_id j" "j \<noteq> i"
    using small_ids(1,2) by (cases "i = ''beta''") (blast, metis)
  with other_names [OF _ i] assms(2) have "i @ ''.json'' \<notin> index_names" by blast
  moreover have "dk_linked (snd (load_registry_unlocked io df d)) = dk_linked d"
    "n \<notin> index_names \<Longrightarrow> node_at (snd (load_registry_unlocked io df d)) (n # q) = node_at d (n # q)" for n q
    using touching_load_registry [of io df] by (simp_all add: touches_def)
  ultimately show ?thesis by (simp add: load_session_eq [OF assms(1)])
qed

lemma seeding [simp]:
  "en_messages (seed_session_memory written x e) = en_messages e" "en_cwd (seed_session_memory written x e) = en_cwd e"
  by (simp_all add: seed_session_memory_def split: option.split)

definition summary_text :: "live_engine \<Rightarrow> string" where
  "summary_text e = (case en_memory e of None \<Rightarrow> [] | Some sm \<Rightarrow> sm_content sm)"

lemma restore_exact:
  fixes e :: live_engine and written :: bool
  assumes "ps_schema_version p = current_schema_version" "ps_session_id p = i" "parses (ps_created_at p)" "parses (ps_last_active p)"
  defines "r \<equiv> restore_persisted_state parses written i p e"
  shows "ps_cwd p \<noteq> en_cwd e \<Longrightarrow> r = (False, e)"
    "ps_cwd p = en_cwd e \<Longrightarrow> fst r \<longleftrightarrow> ps_messages p \<noteq> [] \<or> (\<exists>s. ps_memory_summary p = Some s \<and> str_trim s \<noteq> [])"
    "ps_cwd p = en_cwd e \<Longrightarrow> en_messages (snd r) = (if ps_messages p = [] then en_messages e else ps_messages p)"
    "ps_cwd p = en_cwd e \<Longrightarrow> str_trim (summary_text e) \<noteq> [] \<Longrightarrow> en_memory (snd r) = en_memory e"
  using assms
  by (auto simp: restore_persisted_state_def Let_def set_engine_messages_def seed_session_memory_def summary_text_def split: option.splits)

text \<open>
  C37. What a new daemon makes of a persisted session, exactly: when the state of a session has been written and the
  daemon starts again with an empty registry, the first client that asks for the session gets a new session object.
  In the same working directory its conversation is the one written, unless that was empty, when the conversation of
  the new engine stays; it is reported as resumed just when a message or a summary was written, and a summary that
  the new process already has is kept. In another directory the snapshot is rejected and the new engine is as it was
  built. Hypotheses: files can be read, the snapshot parses back and so do its time stamps, and the session is not
  called registry.
\<close>

theorem crash_recovery:
  assumes "readable (ot_io w)" "prints_session w i (sh_engine (rg_heap rg ! a))" "i \<noteq> ''registry''" "hm_get (rg_sessions rg) i = Some a"
    and "persist_session w i rg d = (Inr (), d')"
    and "\<And>t. entry_for i (fst (load_registry_unlocked (ot_io w) (ot_format w) d)) = Some t \<Longrightarrow> ot_parses w' t" "ot_parses w' (ot_now w)"
    and "ot_io w' = ot_io w" "ot_format w' = ot_format w"
    and "get_or_create_unlocked w' i engine no_sessions d' = ((a', is_new, resumed), rg', d'')"
  defines "old \<equiv> sh_engine (rg_heap rg ! a)" and "new \<equiv> sh_engine (rg_heap rg' ! a')"
  shows "is_new \<and> hm_get (rg_sessions rg') i = Some a' \<and>
    (if en_cwd engine = en_cwd old
     then en_messages new = (if en_messages old = [] then en_messages engine else en_messages old) \<and>
       (resumed \<longleftrightarrow> en_messages old \<noteq> [] \<or> str_trim (summary_text old) \<noteq> []) \<and>
       (str_trim (summary_text engine) \<noteq> [] \<longrightarrow> en_memory new = en_memory engine)
     else \<not> resumed \<and> new = engine)"
proof -
  from persisted_on_disk [OF assms(1-5)] obtain created where
    loaded: "load_session_state (ot_io w) (ot_format w) i d' = Some (session_snapshot w i old created)"
    and created: "created = (case entry_for i (fst (load_registry_unlocked (ot_io w) (ot_format w) d)) of Some t \<Rightarrow> t | None \<Rightarrow> ot_now w)"
    unfolding old_def .
  let ?s = "session_snapshot w i old created"
  obtain index d1 where l: "load_registry_unlocked (ot_io w) (ot_format w) d' = (index, d1)" by fastforce
  with load_after_registry [OF assms(1,3), of "ot_format w" d'] loaded
  have loaded1: "load_session_state (ot_io w') (ot_format w') i d1 = Some ?s" by (simp add: assms(8,9))
  obtain r engine' where r: "restore_persisted_state (ot_parses w') (ot_written w') i ?s engine = (r, engine')" by fastforce
  have "ot_parses w' created" using created assms(6,7) by (auto split: option.splits)
  note exact = restore_exact [of ?s i "ot_parses w'" engine "ot_written w'", unfolded r]
  have "is_new \<and> hm_get (rg_sessions rg') i = Some a' \<and> resumed = r \<and> new = engine'"
    using assms(10) l loaded1 r
    by (auto simp: get_or_create_unlocked_def no_sessions_def assms(8,9) Let_def with_created_at_def new_def)
  moreover have "str_trim [] = []" by code_simp
  ultimately show ?thesis
    using exact \<open>ot_parses w' created\<close> assms(7)
    by (auto simp: session_snapshot_def summary_text_def split: option.splits)
qed

text \<open>A session with one message, for the witnesses; its snapshot prints its creation time only.\<close>

definition talk_engine :: live_engine where
  "talk_engine = \<lparr>en_cwd = ''/w'', en_model = ''m'',
     en_messages = [\<lparr>msg_uuid = ''u'', msg_timestamp = ''t'', msg_content = Progress ''p'' JNull\<rparr>], en_memory = None\<rparr>"

definition talk_format :: disk_format where
  "talk_format = \<lparr>df_state_text = (\<lambda>s. CHR ''S'' # ps_created_at s),
     df_state_of = (\<lambda>t. case t of [] \<Rightarrow> None | c # created \<Rightarrow>
        if c = CHR ''S'' then Some \<lparr>ps_schema_version = current_schema_version, ps_session_id = ''alpha'', ps_cwd = ''/w'', ps_model = ''m'',
            ps_created_at = created, ps_last_active = ''now'', ps_messages = en_messages talk_engine, ps_memory_summary = None\<rparr> else None),
     df_index_text = (\<lambda>_. ''I''), df_index_of = (\<lambda>t. if t = ''I'' then Some [] else None)\<rparr>"

definition talk_world :: outside where
  "talk_world = \<lparr>ot_io = all_succeed, ot_format = talk_format, ot_now = ''now'', ot_parses = (\<lambda>_. True), ot_written = True\<rparr>"

definition talk_registry :: session_registry where
  "talk_registry = \<lparr>rg_sessions = [(''alpha'', 0)], rg_heap = [with_created_at ''t'' talk_engine ''t'']\<rparr>"

definition empty_disk :: disk where
  "empty_disk = \<lparr>dk_linked = False, dk_nodes = [], dk_counter = 1\<rparr>"

lemma talk_simps [simp]:
  "ot_io talk_world = all_succeed" "ot_format talk_world = talk_format" "ot_parses talk_world = (\<lambda>_. True)"
  "rg_heap talk_registry ! 0 = with_created_at ''t'' talk_engine ''t''" "hm_get (rg_sessions talk_registry) ''alpha'' = Some 0"
  "sh_engine (with_created_at t e t') = e"
  by (simp_all add: talk_world_def talk_registry_def with_created_at_def)

lemma talk_prints: "prints_session talk_world ''alpha'' talk_engine"
  by (simp add: prints_session_def session_snapshot_def talk_format_def talk_world_def talk_engine_def)

lemma talk_persists: "fst (persist_session talk_world ''alpha'' talk_registry empty_disk) = Inr ()"
  by code_simp

theorem crash_recovery_witness:
  "let (_, d) = persist_session talk_world ''alpha'' talk_registry empty_disk;
       ((a, _, resumed), rg, _) = get_or_create_unlocked talk_world ''alpha'' (talk_engine\<lparr>en_messages := []\<rparr>) no_sessions d
   in resumed \<and> en_messages (sh_engine (rg_heap rg ! a)) = en_messages talk_engine"
proof -
  obtain d where d: "persist_session talk_world ''alpha'' talk_registry empty_disk = (Inr (), d)"
    using talk_persists by (metis prod.collapse)
  obtain a is_new resumed rg d' where
    r: "get_or_create_unlocked talk_world ''alpha'' (talk_engine\<lparr>en_messages := []\<rparr>) no_sessions d = ((a, is_new, resumed), rg, d')"
    by (metis surj_pair)
  have "en_messages talk_engine \<noteq> []" "en_cwd (talk_engine\<lparr>en_messages := []\<rparr>) = en_cwd talk_engine" by (simp_all add: talk_engine_def)
  with crash_recovery [of talk_world "''alpha''" talk_registry 0 empty_disk d talk_world "talk_engine\<lparr>en_messages := []\<rparr>" a is_new resumed rg d']
    talk_prints d r
  show ?thesis by simp
qed

section \<open>Switching\<close>

definition registry_ok :: "session_registry \<Rightarrow> bool" where
  "registry_ok rg \<longleftrightarrow> (\<forall>i a. hm_get (rg_sessions rg) i = Some a \<longrightarrow> a < length (rg_heap rg)) \<and>
     (\<forall>i j a. hm_get (rg_sessions rg) i = Some a \<and> hm_get (rg_sessions rg) j = Some a \<longrightarrow> i = j)"

lemma created_shape:
  assumes "get_or_create_unlocked w i engine rg d = ((a, is_new, resumed), rg', d')"
  shows "hm_get (rg_sessions rg) i = Some a \<and> \<not> is_new \<and> rg' = rg \<or>
    hm_get (rg_sessions rg) i = None \<and> is_new \<and> a = length (rg_heap rg) \<and>
      (\<exists>s. rg' = rg\<lparr>rg_sessions := hm_insert i a (rg_sessions rg), rg_heap := rg_heap rg @ [s]\<rparr>)"
  using assms by (auto simp: get_or_create_unlocked_def Let_def split: option.splits prod.splits)

lemma registry_ok_create:
  assumes "registry_ok rg" "get_or_create_unlocked w i engine rg d = ((a, is_new, resumed), rg', d')"
  shows "registry_ok rg'"
  using created_shape [OF assms(2)]
proof (elim disjE conjE exE)
  fix s
  assume new: "a = length (rg_heap rg)" "rg' = rg\<lparr>rg_sessions := hm_insert i a (rg_sessions rg), rg_heap := rg_heap rg @ [s]\<rparr>"
  have "hm_get (rg_sessions rg') j = (if j = i then Some a else hm_get (rg_sessions rg) j)" for j
    by (simp add: new hm_get_insert)
  with assms(1) new show ?thesis
    unfolding registry_ok_def by (auto simp: less_Suc_eq split: if_splits)
qed (use assms(1) in simp)

lemma registry_ok_forget: "registry_ok rg \<Longrightarrow> registry_ok (forget_session i rg)"
  by (auto simp: registry_ok_def forget_session_def hm_get_remove)

text \<open>
  C38. Switching a client to another session is all or nothing. When it is refused, for whatever reason, every
  connection finds the same sessions registered, and no session has changed; when it succeeds, the client has left
  the old session, which holds no lock of it and stays registered just when others are attached, and is attached to
  the target, which is registered and works in the requested directory. Hypothesis: the registry is well formed.
\<close>

theorem switch_moves_or_stays:
  assumes "registry_ok rg" "current < length (rg_heap rg)"
  shows "case switch_client w current_id current c target_id target_cwd engine rg d of
     (Inl _, rg', _) \<Rightarrow> (\<forall>i. hm_get (rg_sessions rg') i = hm_get (rg_sessions rg) i) \<and> take (length (rg_heap rg)) (rg_heap rg') = rg_heap rg
   | (Inr (target, c'), rg', _) \<Rightarrow>
       c \<in> set (sh_clients (rg_heap rg ! current)) \<and> c \<notin> set (sh_clients (rg_heap rg' ! current)) \<and>
       sh_submitter (rg_heap rg' ! current) = None \<and>
       (hm_get (rg_sessions rg') current_id = None \<longleftrightarrow> sh_clients (rg_heap rg' ! current) = []) \<and>
       hm_get (rg_sessions rg') target_id = Some target \<and> c' \<in> set (sh_clients (rg_heap rg' ! target)) \<and>
       en_cwd (sh_engine (rg_heap rg' ! target)) = target_cwd"
proof -
  obtain target is_new resumed rg1 d1 where g: "get_or_create_unlocked w target_id engine rg d = ((target, is_new, resumed), rg1, d1)"
    by (metis surj_pair)
  obtain p d2 where p: "persist_session w current_id rg1 d1 = (p, d2)" by fastforce
  let ?undo = "if is_new then forget_session target_id rg1 else rg1"
  note shape = created_shape [OF g]
  have undo: "hm_get (rg_sessions ?undo) i = hm_get (rg_sessions rg) i" "take (length (rg_heap rg)) (rg_heap ?undo) = rg_heap rg" for i
    using shape by (auto simp: forget_session_def hm_get_remove hm_get_insert)
  show ?thesis
  proof (cases "current_id = target_id \<or> has_active_submitter (rg_heap rg ! current) \<or> hm_get (rg_sessions rg) current_id \<noteq> Some current \<or>
      en_cwd (sh_engine (rg_heap rg1 ! target)) \<noteq> target_cwd \<or> (\<exists>e. p = Inl e) \<or> c \<notin> set (sh_clients (rg_heap rg1 ! current))")
    case True
    then show ?thesis
      using undo g p by (cases p) (auto simp: switch_client_def Let_def at_session_def detach_client_def)
  next
    case False
    then have ok: "current_id \<noteq> target_id" "sh_submitter (rg_heap rg ! current) = None" "hm_get (rg_sessions rg) current_id = Some current"
      "en_cwd (sh_engine (rg_heap rg1 ! target)) = target_cwd" "p = Inr ()" "c \<in> set (sh_clients (rg_heap rg1 ! current))"
      by (auto simp: has_active_submitter_def) (metis old.unit.exhaust sumE)
    have heap: "rg_heap rg1 ! current = rg_heap rg ! current" "current < length (rg_heap rg1)" using shape assms(2) by (auto simp: nth_append)
    have target: "target \<noteq> current" "target < length (rg_heap rg1)" "hm_get (rg_sessions rg1) target_id = Some target"
      "hm_get (rg_sessions rg1) current_id = Some current"
      using shape assms ok(1,3) by (auto simp: registry_ok_def hm_get_insert)
    show ?thesis
      using False g p ok heap target
      by (simp add: switch_client_def Let_def at_session_def detach_client_def add_client_def forget_session_def hm_get_remove)
  qed
qed

definition two_sessions :: session_registry where
  "two_sessions = \<lparr>rg_sessions = [(''alpha'', 0)], rg_heap = [snd (add_client (snd (add_client (with_created_at ''t'' talk_engine ''t''))))]\<rparr>"

lemma small_switch: "fst (switch_client talk_world ''alpha'' 0 1 ''beta'' ''/w'' talk_engine two_sessions empty_disk) = Inr (1, 1)"
  by code_simp

theorem switch_moves_or_stays_witness:
  "\<exists>rg' d'. switch_client talk_world ''alpha'' 0 1 ''beta'' ''/w'' talk_engine two_sessions empty_disk = (Inr (1, 1), rg', d') \<and>
     1 \<notin> set (sh_clients (rg_heap rg' ! 0)) \<and> hm_get (rg_sessions rg') ''beta'' = Some 1 \<and> 1 \<in> set (sh_clients (rg_heap rg' ! 1))"
proof -
  obtain rg' d' where s: "switch_client talk_world ''alpha'' 0 1 ''beta'' ''/w'' talk_engine two_sessions empty_disk = (Inr (1, 1), rg', d')"
    using small_switch by (metis surj_pair fst_conv)
  have "registry_ok two_sessions" "0 < length (rg_heap two_sessions)" by (simp_all add: registry_ok_def two_sessions_def)
  from switch_moves_or_stays [OF this, where w = talk_world and current_id = "''alpha''" and c = 1 and target_id = "''beta''"
      and target_cwd = "''/w''" and engine = talk_engine and d = empty_disk] s
  show ?thesis by simp
qed

section \<open>Closing\<close>

text \<open>A session leaves the registry only when nobody is attached to it and its snapshot is on disk.\<close>

lemma close_loses_nothing:
  assumes "readable (ot_io w)" "prints_session w i (sh_engine (rg_heap rg ! a))" "i \<noteq> ''registry''" "hm_get (rg_sessions rg) i = Some a"
    and "a < length (rg_heap rg)" "lc_session_close w c i a rg d = (rg', d')"
  shows "hm_get (rg_sessions rg') i = Some a \<or>
    sh_clients (rg_heap rg' ! a) = [] \<and>
      (\<exists>created. load_session_state (ot_io w) (ot_format w) i d' = Some (session_snapshot w i (sh_engine (rg_heap rg ! a)) created))"
proof -
  obtain b s where r: "remove_client c (rg_heap rg ! a) = (b, s)" by fastforce
  have engine: "sh_engine s = sh_engine (rg_heap rg ! a)"
    using r by (auto simp: remove_client_def detach_client_def Let_def split: if_splits)
  let ?rg = "rg\<lparr>rg_heap := (rg_heap rg)[a := s]\<rparr>"
  obtain p d1 where p: "persist_session w i ?rg d = (p, d1)" by fastforce
  have same: "rg_heap ?rg ! a = s" using assms(5) by simp
  show ?thesis
  proof (cases "b \<and> acquire_last_client_cleanup i a ?rg \<and> p = Inr ()")
    case True
    with p have "persist_session w i ?rg d = (Inr (), d1)" by simp
    moreover have "hm_get (rg_sessions ?rg) i = Some a" using assms(4) by simp
    moreover have "prints_session w i (sh_engine (rg_heap ?rg ! a))" using assms(2) unfolding same engine .
    ultimately obtain created where
      "load_session_state (ot_io w) (ot_format w) i d1 = Some (session_snapshot w i (sh_engine (rg_heap ?rg ! a)) created)"
      using persisted_on_disk [OF assms(1) _ assms(3), of ?rg a d d1] by blast
    then have "load_session_state (ot_io w) (ot_format w) i d1 = Some (session_snapshot w i (sh_engine (rg_heap rg ! a)) created)"
      unfolding same engine .
    with True assms(6) r p show ?thesis
      by (auto simp: lc_session_close_def at_session_def forget_session_def acquire_last_client_cleanup_def)
  next
    case False
    with assms(4,6) r p show ?thesis by (cases p) (auto simp: lc_session_close_def at_session_def split: if_splits)
  qed
qed

end
