(* ===== verification/Bao_Delivery.thy ===== *)
theory Bao_Delivery
  imports Bao_SharedSession
begin

text \<open>
  How the events of a turn reach the clients of a shared session: the task that drains a turn (\<open>scm_submit_message\<close> in
  \<open>shared_client/session.rs\<close>) writes them to the connection that submitted and broadcasts them, and one task per
  connection (\<open>spawn_shared_broadcast\<close> in \<open>main.rs\<close>) forwards what it receives unless the client is the submitter. A
  step is what one task does between two \<open>.await\<close>s, and any interleaving of steps is a run. A drain that panics is at its
  end, where the guard of the submitter releases it.
\<close>

section \<open>The steps\<close>

text \<open>\<open>Final t\<close> is the \<open>Result\<close> or \<open>Error\<close> event of turn \<open>t\<close>; every other event of the turn is a \<open>Delta\<close>.\<close>

datatype wire_event = Delta nat nat | Final nat

fun ends_turn :: "wire_event \<Rightarrow> bool" where
  "ends_turn (Final t) = True"
| "ends_turn (Delta t k) = False"

datatype drain_state = NoDrain | Receiving u64 | Armed u64 wire_event | Broadcasted u64 wire_event | Finished u64

text \<open>\<open>dv_checked c\<close>: the task of \<open>c\<close> has asked for the hand-off and not yet for the submitter. Two entries only record
  the run: who submitted each turn, and whether the end of a turn has met a hand-off that was still armed or a
  submitter whose task had not handled the end of an earlier turn.\<close>

record delivery =
  dv_session :: shared_session
  dv_drain :: drain_state
  dv_queue :: "u64 \<Rightarrow> wire_event list"
  dv_checked :: "u64 \<Rightarrow> bool"
  dv_sent :: "(u64 \<times> wire_event) list"
  dv_owners :: "u64 list"
  dv_behind :: bool

datatype label = Attach | Detach u64 | Submit u64 | EmitDelta nat | EmitFinal | Broadcast | Write bool | CloseEvents | Release
  | Crash | Check u64 | Forward u64 | Lag u64

definition broadcast_capacity :: nat where
  "broadcast_capacity = 256"

definition this_turn :: "delivery \<Rightarrow> nat" where
  "this_turn s = length (dv_owners s) - 1"

definition any_ending :: "wire_event list \<Rightarrow> bool" where
  "any_ending es \<longleftrightarrow> list_ex ends_turn es"

text \<open>The two steps in which the task of a connection handles the event at the head of its queue.\<close>

definition check_event :: "u64 \<Rightarrow> delivery \<Rightarrow> delivery option" where
  "check_event c s =
     (case dv_queue s c of
        [] \<Rightarrow> None
      | e # es \<Rightarrow>
          if dv_checked s c then None
          else if ends_turn e then
            (case take_terminal_handoff c (dv_session s) of
               (True, sess) \<Rightarrow> Some (s\<lparr>dv_session := sess, dv_queue := (dv_queue s)(c := es)\<rparr>)
             | (False, _) \<Rightarrow> Some (s\<lparr>dv_checked := (dv_checked s)(c := True)\<rparr>))
          else Some (s\<lparr>dv_checked := (dv_checked s)(c := True)\<rparr>))"

definition forward_event :: "u64 \<Rightarrow> delivery \<Rightarrow> delivery option" where
  "forward_event c s =
     (case dv_queue s c of
        [] \<Rightarrow> None
      | e # es \<Rightarrow>
          if \<not> dv_checked s c then None
          else let s' = s\<lparr>dv_queue := (dv_queue s)(c := es), dv_checked := (dv_checked s)(c := False)\<rparr>
               in Some (if is_active_submitter c (dv_session s) then s' else s'\<lparr>dv_sent := dv_sent s @ [(c, e)]\<rparr>))"

declare check_event_def [simp] forward_event_def [simp]

fun deliver_step :: "label \<Rightarrow> delivery \<Rightarrow> delivery option" where
  "deliver_step Attach s =
     (case add_client (dv_session s) of
        (c, sess) \<Rightarrow> Some (s\<lparr>dv_session := sess, dv_queue := (dv_queue s)(c := []), dv_checked := (dv_checked s)(c := False)\<rparr>))"
| "deliver_step (Detach c) s =
     (if is_active_submitter c (dv_session s) then None
      else case detach_client c (dv_session s) of
             (None, _) \<Rightarrow> None
           | (Some _, sess) \<Rightarrow> Some (s\<lparr>dv_session := sess, dv_queue := (dv_queue s)(c := []), dv_checked := (dv_checked s)(c := False)\<rparr>))"
| "deliver_step (Submit c) s =
     (if c \<notin> set (sh_clients (dv_session s)) \<or> dv_drain s \<noteq> NoDrain then None
      else case try_acquire_submitter c (dv_session s) of
             (False, _) \<Rightarrow> None
           | (True, sess) \<Rightarrow> Some (s\<lparr>dv_session := sess, dv_drain := Receiving c, dv_owners := dv_owners s @ [c]\<rparr>))"
| "deliver_step (EmitDelta k) s =
     (case dv_drain s of Receiving c \<Rightarrow> Some (s\<lparr>dv_drain := Armed c (Delta (this_turn s) k)\<rparr>) | _ \<Rightarrow> None)"
| "deliver_step EmitFinal s =
     (case dv_drain s of
        Receiving c \<Rightarrow>
          Some (s\<lparr>dv_drain := Armed c (Final (this_turn s)), dv_session := arm_terminal_handoff c (dv_session s),
            dv_behind := (dv_behind s \<or> sh_handoff (dv_session s) \<noteq> None \<or> any_ending (dv_queue s c))\<rparr>)
      | _ \<Rightarrow> None)"
| "deliver_step Broadcast s =
     (case dv_drain s of
        Armed c e \<Rightarrow>
          Some (s\<lparr>dv_drain := Broadcasted c e,
            dv_queue := (\<lambda>c'. if c' \<in> set (sh_clients (dv_session s)) then dv_queue s c' @ [e] else dv_queue s c')\<rparr>)
      | _ \<Rightarrow> None)"
| "deliver_step (Write ok) s =
     (case dv_drain s of
        Broadcasted c e \<Rightarrow>
          Some (if ok then s\<lparr>dv_sent := dv_sent s @ [(c, e)], dv_drain := (if ends_turn e then Finished c else Receiving c)\<rparr>
                else s\<lparr>dv_drain := Finished c\<rparr>)
      | _ \<Rightarrow> None)"
| "deliver_step CloseEvents s = (case dv_drain s of Receiving c \<Rightarrow> Some (s\<lparr>dv_drain := Finished c\<rparr>) | _ \<Rightarrow> None)"
| "deliver_step Release s = (case dv_drain s of Finished c \<Rightarrow> Some (s\<lparr>dv_session := release_submitter c (dv_session s), dv_drain := NoDrain\<rparr>) | _ \<Rightarrow> None)"
| "deliver_step Crash s =
     (case dv_drain s of
        Receiving c \<Rightarrow> Some (s\<lparr>dv_drain := Finished c\<rparr>)
      | Armed c e \<Rightarrow> Some (s\<lparr>dv_drain := Finished c\<rparr>)
      | Broadcasted c e \<Rightarrow> Some (s\<lparr>dv_drain := Finished c\<rparr>)
      | _ \<Rightarrow> None)"
| "deliver_step (Check c) s = check_event c s"
| "deliver_step (Forward c) s = forward_event c s"
| "deliver_step (Lag c) s =
     (if dv_checked s c \<or> length (dv_queue s c) \<le> broadcast_capacity then None
      else Some (s\<lparr>dv_queue := (dv_queue s)(c := tl (dv_queue s c))\<rparr>))"

fun deliver_run :: "label list \<Rightarrow> delivery \<Rightarrow> delivery option" where
  "deliver_run [] s = Some s"
| "deliver_run (l # ls) s = (case deliver_step l s of None \<Rightarrow> None | Some s' \<Rightarrow> deliver_run ls s')"

definition new_delivery :: "shared_session \<Rightarrow> delivery" where
  "new_delivery sess = \<lparr>dv_session = sess, dv_drain = NoDrain, dv_queue = (\<lambda>_. []), dv_checked = (\<lambda>_. False), dv_sent = [],
     dv_owners = [], dv_behind = False\<rparr>"

inductive delivered :: "shared_session \<Rightarrow> delivery \<Rightarrow> bool" for sess where
  start: "delivered sess (new_delivery (sess\<lparr>sh_submitter := None, sh_handoff := None, sh_clients := []\<rparr>))"
| step: "delivered sess s \<Longrightarrow> deliver_step l s = Some s' \<Longrightarrow> delivered sess s'"

section \<open>The end of a turn arrives once\<close>

type_synonym queues = "u64 \<Rightarrow> wire_event list"
type_synonym written = "(u64 \<times> wire_event) list"

fun drain_client :: "drain_state \<Rightarrow> u64 option" where
  "drain_client NoDrain = None"
| "drain_client (Receiving c) = Some c"
| "drain_client (Armed c e) = Some c"
| "drain_client (Broadcasted c e) = Some c"
| "drain_client (Finished c) = Some c"

definition nowhere :: "nat \<Rightarrow> queues \<Rightarrow> written \<Rightarrow> bool" where
  "nowhere t qs ws \<longleftrightarrow> (\<forall>c. Final t \<notin> set (qs c) \<and> (c, Final t) \<notin> set ws)"

definition known_turns :: "u64 list \<Rightarrow> queues \<Rightarrow> written \<Rightarrow> bool" where
  "known_turns own qs ws \<longleftrightarrow> (\<forall>c t. Final t \<in> set (qs c) \<or> (c, Final t) \<in> set ws \<longrightarrow> t < length own)"

definition drain_ok :: "drain_state \<Rightarrow> u64 list \<Rightarrow> u64 option \<Rightarrow> bool" where
  "drain_ok dr own sub \<longleftrightarrow> (\<forall>c. drain_client dr = Some c \<longrightarrow> own \<noteq> [] \<and> last own = c \<and> sub = Some c)"

definition turn_open :: "drain_state \<Rightarrow> nat \<Rightarrow> queues \<Rightarrow> written \<Rightarrow> bool" where
  "turn_open dr t qs ws \<longleftrightarrow>
     ((\<exists>c. dr = Receiving c \<or> (\<exists>e. dr = Armed c e) \<or> (\<exists>t k. dr = Broadcasted c (Delta t k))) \<longrightarrow> nowhere t qs ws) \<and>
     (\<forall>c t'. dr = Broadcasted c (Final t') \<longrightarrow> t' = t \<and> (c, Final t) \<notin> set ws)"

definition arm_ok :: "drain_state \<Rightarrow> nat \<Rightarrow> u64 option \<Rightarrow> queues \<Rightarrow> bool" where
  "arm_ok dr t armed qs \<longleftrightarrow> (\<forall>c t'. dr = Armed c (Final t') \<longrightarrow> t' = t \<and> armed = Some c \<and> \<not> any_ending (qs c))"

definition once_each :: "u64 list \<Rightarrow> queues \<Rightarrow> written \<Rightarrow> bool" where
  "once_each own qs ws \<longleftrightarrow> (\<forall>c t. t < length own \<longrightarrow>
     count_list ws (c, Final t) + (if own ! t = c then 0 else count_list (qs c) (Final t)) \<le> 1)"

definition own_armed :: "u64 list \<Rightarrow> u64 option \<Rightarrow> queues \<Rightarrow> bool" where
  "own_armed own armed qs \<longleftrightarrow> (\<forall>c t. Final t \<in> set (qs c) \<and> own ! t = c \<longrightarrow> armed = Some c \<and> filter ends_turn (qs c) = [Final t])"

definition armed_own :: "u64 list \<Rightarrow> u64 option \<Rightarrow> queues \<Rightarrow> bool" where
  "armed_own own armed qs \<longleftrightarrow> (\<forall>c t. armed = Some c \<and> Final t \<in> set (qs c) \<longrightarrow> own ! t = c)"

definition checked_ok :: "u64 list \<Rightarrow> queues \<Rightarrow> (u64 \<Rightarrow> bool) \<Rightarrow> bool" where
  "checked_ok own qs ck \<longleftrightarrow> (\<forall>c. ck c \<longrightarrow> qs c \<noteq> [] \<and> (\<forall>t. hd (qs c) = Final t \<longrightarrow> own ! t \<noteq> c))"

definition delivery_ok :: "delivery \<Rightarrow> bool" where
  "delivery_ok s \<longleftrightarrow>
     known_turns (dv_owners s) (dv_queue s) (dv_sent s) \<and>
     drain_ok (dv_drain s) (dv_owners s) (sh_submitter (dv_session s)) \<and>
     turn_open (dv_drain s) (this_turn s) (dv_queue s) (dv_sent s) \<and>
     arm_ok (dv_drain s) (this_turn s) (sh_handoff (dv_session s)) (dv_queue s) \<and>
     once_each (dv_owners s) (dv_queue s) (dv_sent s) \<and>
     own_armed (dv_owners s) (sh_handoff (dv_session s)) (dv_queue s) \<and>
     armed_own (dv_owners s) (sh_handoff (dv_session s)) (dv_queue s) \<and>
     checked_ok (dv_owners s) (dv_queue s) (dv_checked s)"

lemma delivery_okD:
  assumes "delivery_ok s"
  shows "known_turns (dv_owners s) (dv_queue s) (dv_sent s)" "drain_ok (dv_drain s) (dv_owners s) (sh_submitter (dv_session s))"
    "turn_open (dv_drain s) (this_turn s) (dv_queue s) (dv_sent s)"
    "arm_ok (dv_drain s) (this_turn s) (sh_handoff (dv_session s)) (dv_queue s)" "once_each (dv_owners s) (dv_queue s) (dv_sent s)"
    "own_armed (dv_owners s) (sh_handoff (dv_session s)) (dv_queue s)" "armed_own (dv_owners s) (sh_handoff (dv_session s)) (dv_queue s)"
    "checked_ok (dv_owners s) (dv_queue s) (dv_checked s)"
  using assms by (simp_all add: delivery_ok_def)

lemma ends_turn_iff: "ends_turn e \<longleftrightarrow> (\<exists>t. e = Final t)"
  by (cases e) auto

lemma any_ending_iff: "any_ending es \<longleftrightarrow> (\<exists>t. Final t \<in> set es)"
  by (auto simp: any_ending_def list_ex_iff ends_turn_iff)

lemma handoff_simps [simp]:
  "sh_handoff (release_submitter c x) = sh_handoff x" "sh_handoff (arm_terminal_handoff c x) = Some c"
  "sh_submitter (arm_terminal_handoff c x) = sh_submitter x"
  by (simp_all add: release_submitter_def arm_terminal_handoff_def)

lemma this_turn_simps [simp]:
  "this_turn (s\<lparr>dv_session := x\<rparr>) = this_turn s" "this_turn (s\<lparr>dv_drain := dr\<rparr>) = this_turn s" "this_turn (s\<lparr>dv_queue := qs\<rparr>) = this_turn s"
  "this_turn (s\<lparr>dv_sent := ws\<rparr>) = this_turn s" "this_turn (s\<lparr>dv_checked := ck\<rparr>) = this_turn s" "this_turn (s\<lparr>dv_behind := b\<rparr>) = this_turn s"
  by (simp_all add: this_turn_def)

text \<open>Steps of the drain that neither queue nor write an event.\<close>

lemma drain_step_ok:
  assumes "delivery_ok s" "deliver_step l s = Some s'" "l \<in> {CloseEvents, Release, Crash, Write False} \<union> range EmitDelta"
  shows "delivery_ok s'"
proof -
  note ok = delivery_okD [OF assms(1)]
  have "drain_ok (dv_drain s') (dv_owners s') (sh_submitter (dv_session s')) \<and> turn_open (dv_drain s') (this_turn s') (dv_queue s') (dv_sent s') \<and>
      arm_ok (dv_drain s') (this_turn s') (sh_handoff (dv_session s')) (dv_queue s')"
    using ok(2-4) assms(2,3) by (cases "dv_drain s") (auto simp: drain_ok_def turn_open_def arm_ok_def)
  moreover have "dv_queue s' = dv_queue s \<and> dv_sent s' = dv_sent s \<and> dv_owners s' = dv_owners s \<and> dv_checked s' = dv_checked s \<and>
      sh_handoff (dv_session s') = sh_handoff (dv_session s)"
    using assms(2,3) by (cases "dv_drain s") auto
  ultimately show ?thesis using ok(1,5-8) by (simp add: delivery_ok_def)
qed

text \<open>A task or the end of a connection takes events from a queue.\<close>

lemma tail_count: "q \<in> {[], tl es} \<Longrightarrow> count_list q x \<le> count_list es x"
  by (cases es) auto

lemma tail_set: "q \<in> {[], tl es} \<Longrightarrow> x \<in> set q \<Longrightarrow> x \<in> set es"
  by (cases es) auto

lemma tail_final:
  assumes "q \<in> {[], tl es}" "Final t \<in> set q" "filter ends_turn es = [Final t]"
  shows "filter ends_turn q = [Final t]"
proof (cases es)
  case (Cons e es')
  with assms have "q = es'" "ends_turn e \<Longrightarrow> filter ends_turn es' = []" by (auto split: if_splits)
  with assms(2,3) Cons show ?thesis by (auto simp: filter_empty_conv split: if_splits)
qed (use assms in auto)

lemma shrink_ok:
  assumes "delivery_ok s" "q \<in> {[], tl (dv_queue s c)}" "sh_submitter sess = sh_submitter (dv_session s)"
    and "sh_handoff sess = sh_handoff (dv_session s) \<or>
      sh_handoff sess = None \<and> sh_handoff (dv_session s) = Some c \<and> \<not> any_ending q \<and> (\<forall>e. dv_drain s = Armed c e \<longrightarrow> \<not> ends_turn e)"
  shows "delivery_ok (s\<lparr>dv_session := sess, dv_queue := (dv_queue s)(c := q), dv_checked := (dv_checked s)(c := False)\<rparr>)"
proof -
  let ?qs = "(dv_queue s)(c := q)" and ?h = "sh_handoff sess"
  note ok = delivery_okD [OF assms(1)]
  have sub: "x \<in> set (?qs c') \<Longrightarrow> x \<in> set (dv_queue s c')" for x c'
    using tail_set [OF assms(2)] by (simp split: if_splits)
  have "known_turns (dv_owners s) ?qs (dv_sent s)" using ok(1) sub unfolding known_turns_def by blast
  moreover have "turn_open (dv_drain s) (this_turn s) ?qs (dv_sent s)" using ok(3) sub unfolding turn_open_def nowhere_def by metis
  moreover have "arm_ok (dv_drain s) (this_turn s) ?h ?qs"
    unfolding arm_ok_def
  proof (intro allI impI)
    fix c' t' assume armed: "dv_drain s = Armed c' (Final t')"
    with ok(4) have *: "t' = this_turn s" "sh_handoff (dv_session s) = Some c'" "\<not> any_ending (dv_queue s c')" by (simp_all add: arm_ok_def)
    from * armed assms(4) have "?h = Some c'" by auto
    with * sub show "t' = this_turn s \<and> ?h = Some c' \<and> \<not> any_ending (?qs c')" unfolding any_ending_iff by blast
  qed
  moreover have "once_each (dv_owners s) ?qs (dv_sent s)"
    unfolding once_each_def
  proof (intro allI impI)
    fix c' t assume "t < length (dv_owners s)"
    with ok(5) have "count_list (dv_sent s) (c', Final t) + (if dv_owners s ! t = c' then 0 else count_list (dv_queue s c') (Final t)) \<le> 1"
      unfolding once_each_def by blast
    moreover have "count_list (?qs c') (Final t) \<le> count_list (dv_queue s c') (Final t)" using tail_count [OF assms(2)] by simp
    ultimately show "count_list (dv_sent s) (c', Final t) + (if dv_owners s ! t = c' then 0 else count_list (?qs c') (Final t)) \<le> 1"
      by (cases "dv_owners s ! t = c'") (simp_all del: fun_upd_apply)
  qed
  moreover have "own_armed (dv_owners s) ?h ?qs"
    unfolding own_armed_def
  proof (intro allI impI)
    fix c' t assume t: "Final t \<in> set (?qs c') \<and> dv_owners s ! t = c'"
    with sub ok(6) have *: "sh_handoff (dv_session s) = Some c'" "filter ends_turn (dv_queue s c') = [Final t]"
      unfolding own_armed_def by blast+
    with t assms(4) have "?h = Some c'" by (auto simp: any_ending_iff)
    moreover have "filter ends_turn (?qs c') = [Final t]" using *(2) t tail_final [OF assms(2)] by (simp split: if_splits)
    ultimately show "?h = Some c' \<and> filter ends_turn (?qs c') = [Final t]" by simp
  qed
  moreover have "armed_own (dv_owners s) ?h ?qs" using ok(7) sub assms(4) unfolding armed_own_def by (metis option.distinct(1))
  moreover have "checked_ok (dv_owners s) ?qs ((dv_checked s)(c := False))" using ok(8) by (simp add: checked_ok_def)
  ultimately show ?thesis using ok(2) assms(3) by (simp add: delivery_ok_def)
qed

lemma attach_ok:
  assumes "delivery_ok s" "deliver_step Attach s = Some s'"
  shows "delivery_ok s'"
  using assms(2) shrink_ok [OF assms(1), of "[]" "fst (add_client (dv_session s))" "snd (add_client (dv_session s))"]
  by (auto simp: add_client_def)

lemma detach_ok:
  assumes "delivery_ok s" "deliver_step (Detach c) s = Some s'"
  shows "delivery_ok s'"
proof -
  from assms(2) obtain b sess where d: "detach_client c (dv_session s) = (Some b, sess)" "\<not> is_active_submitter c (dv_session s)"
    and s': "s' = s\<lparr>dv_session := sess, dv_queue := (dv_queue s)(c := []), dv_checked := (dv_checked s)(c := False)\<rparr>"
    by (auto split: if_splits prod.splits option.splits)
  have sess: "sh_submitter sess = sh_submitter (dv_session s)"
    "sh_handoff sess = (if sh_handoff (dv_session s) = Some c then None else sh_handoff (dv_session s))"
    using d by (auto simp: detach_client_def is_active_submitter_def Let_def split: if_splits)
  have "dv_drain s \<noteq> Armed c e" for e
    using delivery_okD(2) [OF assms(1)] d(2) by (auto simp: drain_ok_def is_active_submitter_def)
  with shrink_ok [OF assms(1), of "[]" c sess] sess show ?thesis by (simp add: s' any_ending_def)
qed

lemma lag_ok:
  assumes "delivery_ok s" "deliver_step (Lag c) s = Some s'"
  shows "delivery_ok s'"
proof -
  from assms(2) have "\<not> dv_checked s c" and s': "s' = s\<lparr>dv_queue := (dv_queue s)(c := tl (dv_queue s c))\<rparr>" by (auto split: if_splits)
  then have "s' = s\<lparr>dv_session := dv_session s, dv_queue := (dv_queue s)(c := tl (dv_queue s c)), dv_checked := (dv_checked s)(c := False)\<rparr>"
    by (simp add: fun_upd_idem)
  with shrink_ok [OF assms(1), of "tl (dv_queue s c)" c "dv_session s"] show ?thesis by simp
qed

lemma check_ok:
  assumes "delivery_ok s" "deliver_step (Check c) s = Some s'"
  shows "delivery_ok s'"
proof -
  note ok = delivery_okD [OF assms(1)]
  from assms(2) obtain e es where q: "dv_queue s c = e # es" "\<not> dv_checked s c" by (auto split: list.splits if_splits)
  show ?thesis
  proof (cases "ends_turn e \<and> sh_handoff (dv_session s) = Some c")
    case True
    then obtain t where e: "e = Final t" by (auto simp: ends_turn_iff)
    with True q ok(7) have own: "dv_owners s ! t = c" by (auto simp: armed_own_def)
    then have "filter ends_turn (dv_queue s c) = [Final t]" using ok(6) q(1) e unfolding own_armed_def by (metis list.set_intros(1))
    with q(1) e have "filter ends_turn es = []" by simp
    then have none: "\<not> any_ending es" by (simp add: any_ending_def list_ex_iff filter_empty_conv)
    have drain: "\<forall>e'. dv_drain s = Armed c e' \<longrightarrow> \<not> ends_turn e'"
      using ok(4) q e by (auto simp: arm_ok_def ends_turn_iff any_ending_iff)
    have "s' = s\<lparr>dv_session := (dv_session s)\<lparr>sh_handoff := None\<rparr>, dv_queue := (dv_queue s)(c := es), dv_checked := (dv_checked s)(c := False)\<rparr>"
      using assms(2) True q by (auto simp: take_terminal_handoff_def fun_upd_idem)
    with shrink_ok [OF assms(1), of es c "(dv_session s)\<lparr>sh_handoff := None\<rparr>"] q True none drain show ?thesis by simp
  next
    case False
    then have s': "s' = s\<lparr>dv_checked := (dv_checked s)(c := True)\<rparr>"
      using assms(2) q by (auto simp: take_terminal_handoff_def split: if_splits)
    have "checked_ok (dv_owners s) (dv_queue s) ((dv_checked s)(c := True))"
      using ok(6,8) False q by (auto simp: checked_ok_def own_armed_def)
    with ok show ?thesis by (simp add: s' delivery_ok_def)
  qed
qed

lemma write_delta [simp]:
  "known_turns own qs (ws @ [(c, Delta t k)]) = known_turns own qs ws"
  "turn_open dr n qs (ws @ [(c, Delta t k)]) = turn_open dr n qs ws"
  "once_each own qs (ws @ [(c, Delta t k)]) = once_each own qs ws"
  by (simp_all add: known_turns_def turn_open_def nowhere_def once_each_def)

lemma owner_last: "own \<noteq> [] \<Longrightarrow> last own = own ! (length own - 1)"
  by (rule last_conv_nth)

lemma forward_ok:
  assumes "delivery_ok s" "deliver_step (Forward c) s = Some s'"
  shows "delivery_ok s'"
proof -
  note ok = delivery_okD [OF assms(1)]
  from assms(2) obtain e es where q: "dv_queue s c = e # es" "dv_checked s c" by (auto split: list.splits if_splits)
  let ?s1 = "s\<lparr>dv_queue := (dv_queue s)(c := es), dv_checked := (dv_checked s)(c := False)\<rparr>"
  have s1: "delivery_ok ?s1"
    using shrink_ok [OF assms(1), of es c "dv_session s"] q by simp
  note ok1 = delivery_okD [OF s1]
  show ?thesis
  proof (cases "is_active_submitter c (dv_session s)")
    case True
    with assms(2) q s1 show ?thesis by (simp add: Let_def)
  next
    case False
    with assms(2) q have s': "s' = ?s1\<lparr>dv_sent := dv_sent s @ [(c, e)]\<rparr>" by (simp add: Let_def)
    show ?thesis
    proof (cases e)
      case (Delta t k)
      with ok1 show ?thesis unfolding s' delivery_ok_def by simp
    next
      case (Final t)
      then have "Final t \<in> set (dv_queue s c)" using q(1) by simp
      with ok(1) have "t < length (dv_owners s)" unfolding known_turns_def by blast
      moreover have "dv_owners s ! t \<noteq> c" using q Final ok(8) unfolding checked_ok_def by (metis list.sel(1))
      ultimately have t: "t < length (dv_owners s)" "dv_owners s ! t \<noteq> c" by simp_all
      have "known_turns (dv_owners s) ((dv_queue s)(c := es)) (dv_sent s @ [(c, e)])"
        using ok1(1) t(1) Final by (auto simp: known_turns_def)
      moreover have "once_each (dv_owners s) ((dv_queue s)(c := es)) (dv_sent s @ [(c, e)])"
        unfolding once_each_def
      proof (intro allI impI)
        fix c' t' assume "t' < length (dv_owners s)"
        with ok(5) have "count_list (dv_sent s) (c', Final t') + (if dv_owners s ! t' = c' then 0 else count_list (dv_queue s c') (Final t')) \<le> 1"
          unfolding once_each_def by blast
        with q t Final show "count_list (dv_sent s @ [(c, e)]) (c', Final t') +
            (if dv_owners s ! t' = c' then 0 else count_list (((dv_queue s)(c := es)) c') (Final t')) \<le> 1"
          by (cases "c' = c"; cases "t' = t") (auto split: if_splits)
      qed
      moreover have "turn_open (dv_drain s) (this_turn s) ((dv_queue s)(c := es)) (dv_sent s @ [(c, e)])"
        unfolding turn_open_def
      proof (intro conjI impI allI)
        assume "\<exists>c. dv_drain s = Receiving c \<or> (\<exists>e. dv_drain s = Armed c e) \<or> (\<exists>t k. dv_drain s = Broadcasted c (Delta t k))"
        with ok(3) have *: "nowhere (this_turn s) (dv_queue s) (dv_sent s)" by (simp add: turn_open_def)
        moreover have "Final t \<in> set (dv_queue s c)" using q(1) Final by simp
        ultimately have "t \<noteq> this_turn s" unfolding nowhere_def by blast
        moreover have "set (((dv_queue s)(c := es)) c') \<subseteq> set (dv_queue s c')" for c' using q(1) by auto
        ultimately show "nowhere (this_turn s) ((dv_queue s)(c := es)) (dv_sent s @ [(c, e)])"
          using * Final unfolding nowhere_def by (auto simp del: fun_upd_apply)
      next
        fix c' t' assume b: "dv_drain s = Broadcasted c' (Final t')"
        with ok(3) show "t' = this_turn s" by (simp add: turn_open_def)
        from b ok(2) have "dv_owners s ! this_turn s = c'"
          using owner_last [of "dv_owners s"] by (simp add: drain_ok_def this_turn_def)
        with b ok(3) t(2) Final show "(c', Final (this_turn s)) \<notin> set (dv_sent s @ [(c, e)])" by (auto simp: turn_open_def)
      qed
      ultimately show ?thesis using ok1 by (simp add: s' delivery_ok_def)
    qed
  qed
qed

lemma submit_ok:
  assumes "delivery_ok s" "deliver_step (Submit c) s = Some s'"
  shows "delivery_ok s'"
proof -
  note ok = delivery_okD [OF assms(1)]
  from assms(2) have s': "s' = s\<lparr>dv_session := (dv_session s)\<lparr>sh_submitter := Some c\<rparr>, dv_drain := Receiving c, dv_owners := dv_owners s @ [c]\<rparr>"
    by (auto simp: try_acquire_submitter_def split: if_splits)
  let ?own = "dv_owners s @ [c]"
  have known: "t < length (dv_owners s)" if "Final t \<in> set (dv_queue s c') \<or> (c', Final t) \<in> set (dv_sent s)" for c' t
    using that ok(1) unfolding known_turns_def by blast
  have same: "?own ! t = dv_owners s ! t" if "Final t \<in> set (dv_queue s c')" for c' t
    using known [of t c'] that by (simp add: nth_append)
  have fresh: "nowhere (length (dv_owners s)) (dv_queue s) (dv_sent s)" using known by (auto simp: nowhere_def)
  have "known_turns ?own (dv_queue s) (dv_sent s)" using known by (auto simp: known_turns_def intro: less_SucI)
  moreover have "turn_open (Receiving c) (length (dv_owners s)) (dv_queue s) (dv_sent s)" using fresh by (simp add: turn_open_def)
  moreover have "once_each ?own (dv_queue s) (dv_sent s)"
    unfolding once_each_def
  proof (intro allI impI)
    fix c' t assume t: "t < length ?own"
    show "count_list (dv_sent s) (c', Final t) + (if ?own ! t = c' then 0 else count_list (dv_queue s c') (Final t)) \<le> 1"
    proof (cases "t = length (dv_owners s)")
      case True
      with fresh show ?thesis by (simp add: nowhere_def count_notin)
    next
      case False
      with t ok(5) show ?thesis by (simp add: once_each_def nth_append)
    qed
  qed
  moreover have "own_armed ?own (sh_handoff (dv_session s)) (dv_queue s)" using ok(6) same unfolding own_armed_def by metis
  moreover have "armed_own ?own (sh_handoff (dv_session s)) (dv_queue s)" using ok(7) same unfolding armed_own_def by metis
  moreover have "checked_ok ?own (dv_queue s) (dv_checked s)"
    using ok(8) same unfolding checked_ok_def by (metis list.set_sel(1))
  ultimately show ?thesis
    by (simp add: s' delivery_ok_def this_turn_def drain_ok_def arm_ok_def)
qed

lemma emit_final_ok:
  assumes "delivery_ok s" "deliver_step EmitFinal s = Some s'" "\<not> dv_behind s'"
  shows "delivery_ok s'"
proof -
  note ok = delivery_okD [OF assms(1)]
  from assms(2,3) obtain c where r: "dv_drain s = Receiving c" "sh_handoff (dv_session s) = None" "\<not> any_ending (dv_queue s c)"
    and s': "s' = s\<lparr>dv_drain := Armed c (Final (this_turn s)), dv_session := arm_terminal_handoff c (dv_session s), dv_behind := dv_behind s'\<rparr>"
    by (auto split: drain_state.splits)
  have none: "\<not> (Final t \<in> set (dv_queue s c') \<and> dv_owners s ! t = c')" for c' t
    using ok(6) r(2) unfolding own_armed_def by (metis option.distinct(1))
  have "own_armed (dv_owners s) (Some c) (dv_queue s)" unfolding own_armed_def using none by blast
  moreover have "armed_own (dv_owners s) (Some c) (dv_queue s)" using r(3) by (auto simp: armed_own_def any_ending_iff)
  moreover have "turn_open (Armed c (Final (this_turn s))) (this_turn s) (dv_queue s) (dv_sent s)" using ok(3) r(1) by (simp add: turn_open_def)
  moreover have "drain_ok (Armed c (Final (this_turn s))) (dv_owners s) (sh_submitter (dv_session s))" using ok(2) r(1) by (simp add: drain_ok_def)
  moreover have "arm_ok (Armed c (Final (this_turn s))) (this_turn s) (Some c) (dv_queue s)" using r(3) by (simp add: arm_ok_def)
  ultimately show ?thesis
    using ok(1,5,8) by (subst s') (simp add: delivery_ok_def)
qed

lemma broadcast_ok:
  assumes "delivery_ok s" "deliver_step Broadcast s = Some s'"
  shows "delivery_ok s'"
proof -
  note ok = delivery_okD [OF assms(1)]
  from assms(2) obtain c e where r: "dv_drain s = Armed c e"
    and s': "s' = s\<lparr>dv_drain := Broadcasted c e,
            dv_queue := (\<lambda>c'. if c' \<in> set (sh_clients (dv_session s)) then dv_queue s c' @ [e] else dv_queue s c')\<rparr>"
    by (auto split: drain_state.splits)
  let ?qs = "\<lambda>c'. if c' \<in> set (sh_clients (dv_session s)) then dv_queue s c' @ [e] else dv_queue s c'" and ?n = "this_turn s"
  have fresh: "nowhere ?n (dv_queue s) (dv_sent s)" using ok(3) r by (simp add: turn_open_def)
  have c: "dv_owners s \<noteq> []" "dv_owners s ! ?n = c"
    using ok(2) r owner_last [of "dv_owners s"] by (simp_all add: drain_ok_def this_turn_def)
  have n: "?n < length (dv_owners s)" using c(1) by (simp add: this_turn_def)
  have e: "e = Final t \<Longrightarrow> t = ?n \<and> sh_handoff (dv_session s) = Some c \<and> \<not> any_ending (dv_queue s c)" for t
    using ok(4) r by (simp add: arm_ok_def)
  have member: "Final t \<in> set (?qs c') \<Longrightarrow> Final t \<in> set (dv_queue s c') \<or> e = Final t" for t c' by (auto split: if_splits)
  have "known_turns (dv_owners s) ?qs (dv_sent s)"
    using ok(1) member e n unfolding known_turns_def by metis
  moreover have "drain_ok (Broadcasted c e) (dv_owners s) (sh_submitter (dv_session s))" using ok(2) r by (simp add: drain_ok_def)
  moreover have "turn_open (Broadcasted c e) ?n ?qs (dv_sent s)"
    using fresh e member unfolding turn_open_def nowhere_def by (auto split: if_splits)
  moreover have "once_each (dv_owners s) ?qs (dv_sent s)"
    unfolding once_each_def
  proof (intro allI impI)
    fix c' t assume t: "t < length (dv_owners s)"
    with ok(5) have old: "count_list (dv_sent s) (c', Final t) + (if dv_owners s ! t = c' then 0 else count_list (dv_queue s c') (Final t)) \<le> 1"
      unfolding once_each_def by blast
    have "count_list (dv_sent s) (c', Final t) + count_list (dv_queue s c') (Final t) = 0" if "e = Final t"
      using fresh e [OF that] by (simp add: nowhere_def count_notin)
    with old show "count_list (dv_sent s) (c', Final t) + (if dv_owners s ! t = c' then 0 else count_list (?qs c') (Final t)) \<le> 1"
      by (cases "e = Final t") auto
  qed
  moreover have "own_armed (dv_owners s) (sh_handoff (dv_session s)) ?qs"
    unfolding own_armed_def
  proof (intro allI impI)
    fix c' t assume t: "Final t \<in> set (?qs c') \<and> dv_owners s ! t = c'"
    show "sh_handoff (dv_session s) = Some c' \<and> filter ends_turn (?qs c') = [Final t]"
    proof (cases "ends_turn e")
      case True
      then obtain t' where "e = Final t'" by (auto simp: ends_turn_iff)
      with e have e': "e = Final ?n" "sh_handoff (dv_session s) = Some c" "\<not> any_ending (dv_queue s c)" by auto
      have "c' = c" using t e'(2) member [of t c'] e'(1) c(2) ok(6) unfolding own_armed_def by (metis option.inject wire_event.inject(2))
      moreover have "filter ends_turn (dv_queue s c) = []" using e'(3) by (simp add: any_ending_def list_ex_iff filter_empty_conv)
      moreover have "t = ?n" using t e' \<open>c' = c\<close> member [of t c'] by (auto simp: any_ending_iff)
      ultimately show ?thesis using t e' by (auto simp: any_ending_iff split: if_splits)
    next
      case False
      with t member [of t c'] have "Final t \<in> set (dv_queue s c')" by auto
      with t ok(6) False show ?thesis unfolding own_armed_def by auto
    qed
  qed
  moreover have "armed_own (dv_owners s) (sh_handoff (dv_session s)) ?qs"
    using ok(7) member e c(2) unfolding armed_own_def by (metis option.inject)
  moreover have "checked_ok (dv_owners s) ?qs (dv_checked s)" using ok(8) by (auto simp: checked_ok_def)
  ultimately show ?thesis by (simp add: s' delivery_ok_def arm_ok_def)
qed

lemma write_ok:
  assumes "delivery_ok s" "deliver_step (Write True) s = Some s'"
  shows "delivery_ok s'"
proof -
  note ok = delivery_okD [OF assms(1)]
  from assms(2) obtain c e where r: "dv_drain s = Broadcasted c e"
    and s': "s' = s\<lparr>dv_sent := dv_sent s @ [(c, e)], dv_drain := (if ends_turn e then Finished c else Receiving c)\<rparr>"
    by (auto split: drain_state.splits)
  show ?thesis
  proof (cases e)
    case (Delta t k)
    then have "drain_ok (Receiving c) (dv_owners s) (sh_submitter (dv_session s))" "turn_open (Receiving c) (this_turn s) (dv_queue s) (dv_sent s)"
      using ok(2,3) r by (auto simp: drain_ok_def turn_open_def)
    with Delta ok show ?thesis by (simp add: s' delivery_ok_def arm_ok_def)
  next
    case (Final t)
    with ok(3) r have t: "t = this_turn s" "(c, Final t) \<notin> set (dv_sent s)" by (auto simp: turn_open_def)
    have c: "dv_owners s \<noteq> []" "dv_owners s ! t = c"
      using ok(2) r owner_last [of "dv_owners s"] t(1) by (simp_all add: drain_ok_def this_turn_def)
    have "known_turns (dv_owners s) (dv_queue s) (dv_sent s @ [(c, e)])" using ok(1) Final t(1) c(1) by (auto simp: known_turns_def this_turn_def)
    moreover have "once_each (dv_owners s) (dv_queue s) (dv_sent s @ [(c, e)])"
      unfolding once_each_def
    proof (intro allI impI)
      fix c' t' assume "t' < length (dv_owners s)"
      with ok(5) have "count_list (dv_sent s) (c', Final t') + (if dv_owners s ! t' = c' then 0 else count_list (dv_queue s c') (Final t')) \<le> 1"
        unfolding once_each_def by blast
      with Final t(2) c(2) show "count_list (dv_sent s @ [(c, e)]) (c', Final t') +
          (if dv_owners s ! t' = c' then 0 else count_list (dv_queue s c') (Final t')) \<le> 1"
        by (cases "c' = c \<and> t' = t") (auto simp: count_notin split: if_splits)
    qed
    moreover have "drain_ok (Finished c) (dv_owners s) (sh_submitter (dv_session s))" using ok(2) r by (simp add: drain_ok_def)
    ultimately show ?thesis using ok Final by (simp add: s' delivery_ok_def arm_ok_def turn_open_def)
  qed
qed

lemma behind_stays: "deliver_step l s = Some s' \<Longrightarrow> dv_behind s \<Longrightarrow> dv_behind s'"
proof (induction l s rule: deliver_step.induct)
  case (2 c s)
  then show ?case by (auto split: if_splits option.splits prod.splits)
next
  case (3 c s)
  then show ?case by (auto split: if_splits bool.splits prod.splits)
next
  case (11 c s)
  then show ?case by (auto split: list.splits if_splits bool.splits prod.splits)
next
  case (12 c s)
  then show ?case by (auto simp: Let_def split: list.splits if_splits)
qed (auto split: drain_state.splits if_splits prod.splits)

lemma step_ok:
  assumes "delivery_ok s" "deliver_step l s = Some s'" "\<not> dv_behind s'"
  shows "delivery_ok s'"
proof (cases l)
  case Attach
  from assms(2) show ?thesis unfolding Attach by (rule attach_ok [OF assms(1)])
next
  case (Detach c)
  from assms(2) show ?thesis unfolding Detach by (rule detach_ok [OF assms(1)])
next
  case (Submit c)
  from assms(2) show ?thesis unfolding Submit by (rule submit_ok [OF assms(1)])
next
  case Broadcast
  from assms(2) show ?thesis unfolding Broadcast by (rule broadcast_ok [OF assms(1)])
next
  case (Check c)
  from assms(2) show ?thesis unfolding Check by (rule check_ok [OF assms(1)])
next
  case (Forward c)
  from assms(2) show ?thesis unfolding Forward by (rule forward_ok [OF assms(1)])
next
  case (Lag c)
  from assms(2) show ?thesis unfolding Lag by (rule lag_ok [OF assms(1)])
next
  case EmitFinal
  from assms(2) show ?thesis unfolding EmitFinal by (rule emit_final_ok [OF assms(1) _ assms(3)])
next
  case (Write b)
  show ?thesis
  proof (cases b)
    case True
    from assms(2) have "deliver_step (Write True) s = Some s'" by (simp only: Write True)
    with assms(1) show ?thesis by (rule write_ok)
  next
    case False
    from drain_step_ok [OF assms(1,2)] show ?thesis by (simp add: Write False)
  qed
qed (use drain_step_ok [OF assms(1,2)] in simp_all)

lemma delivered_ok: "delivered sess s \<Longrightarrow> \<not> dv_behind s \<Longrightarrow> delivery_ok s"
proof (induction rule: delivered.induct)
  case start
  then show ?case
    by (simp add: new_delivery_def delivery_ok_def known_turns_def drain_ok_def turn_open_def arm_ok_def once_each_def own_armed_def
        armed_own_def checked_ok_def)
next
  case (step s l s')
  then have "delivery_ok s" using behind_stays by blast
  then show ?case using step_ok step.hyps(2) step.prems by blast
qed

text \<open>
  C39. The end of a turn is not delivered twice: whatever the interleaving of the drain and the connections' tasks, of
  clients coming, going, lagging and submitting, no connection is written the same Result or Error twice, provided
  that at the end of each turn the slot of the hand-off was free and the queue of the client that submitted it held
  no end of an earlier turn: nobody's task was that far behind.
\<close>

theorem final_at_most_once:
  assumes "delivered sess s" "\<not> dv_behind s"
  shows "count_list (dv_sent s) (c, Final t) \<le> 1"
proof -
  note ok = delivery_okD [OF delivered_ok [OF assms]]
  show ?thesis
  proof (cases "t < length (dv_owners s)")
    case True
    with ok(5) show ?thesis unfolding once_each_def by (metis add_leE)
  next
    case False
    with ok(1) have "(c, Final t) \<notin> set (dv_sent s)" unfolding known_turns_def by blast
    then show ?thesis by (simp add: count_notin)
  qed
qed

text \<open>Two clients, each of which has submitted or watched one turn.\<close>

definition race_session :: shared_session where
  "race_session = with_created_at ''t'' \<lparr>en_cwd = [], en_model = [], en_messages = [], en_memory = None\<rparr> ''t''"

lemma run_delivered: "delivered sess s \<Longrightarrow> deliver_run ls s = Some s' \<Longrightarrow> delivered sess s'"
  by (induction ls arbitrary: s) (auto intro: delivered.step split: option.splits)

text \<open>Two clients, 1 and 2; each label list is one run.\<close>

definition after_run :: "label list \<Rightarrow> delivery option" where
  "after_run ls = deliver_run ls (new_delivery race_session)"

lemma after_run_delivered: "after_run ls = Some s \<Longrightarrow> delivered race_session s"
  using run_delivered [OF delivered.start [of race_session]] by (simp add: after_run_def race_session_def with_created_at_def)

definition in_order :: "label list" where
  "in_order = [Attach, Attach, Submit 1, EmitFinal, Broadcast, Write True, Check 1, Check 2, Forward 2, Release]"

lemma in_order_run: "map_option (\<lambda>s. (dv_behind s, dv_sent s)) (after_run in_order) = Some (False, [(1, Final 0), (2, Final 0)])"
  by code_simp

theorem final_at_most_once_witness:
  "\<exists>s. after_run in_order = Some s \<and> (1, Final 0) \<in> set (dv_sent s) \<and> count_list (dv_sent s) (1, Final 0) \<le> 1"
proof -
  from in_order_run obtain s where s: "after_run in_order = Some s" "\<not> dv_behind s" "dv_sent s = [(1, Final 0), (2, Final 0)]"
    by (cases "after_run in_order") auto
  from final_at_most_once [OF after_run_delivered [OF s(1)] s(2), of 1 0] s show ?thesis by auto
qed

text \<open>The three schedules, from a state in which a turn of client \<open>c\<close> is running.\<close>

definition late_delta :: "u64 \<Rightarrow> label list" where
  "late_delta c = [EmitDelta 0, Broadcast, Write True, EmitFinal, Broadcast, Write True, Release, Check c, Forward c]"

definition overtaken :: "u64 \<Rightarrow> u64 \<Rightarrow> label list" where
  "overtaken c c' = [EmitFinal, Broadcast, Write True, Release, Submit c', EmitFinal, Check c, Forward c]"

definition early_submit :: "u64 \<Rightarrow> u64 \<Rightarrow> label list" where
  "early_submit c c' = [EmitFinal, Broadcast, Write True, Release, Submit c', Check c', Forward c']"

definition watched_turn :: "u64 \<Rightarrow> u64 \<Rightarrow> delivery \<Rightarrow> bool" where
  "watched_turn c c' s \<longleftrightarrow> dv_drain s = Receiving c \<and> c \<noteq> c' \<and> (\<forall>x\<in>{c, c'}. x \<in> set (sh_clients (dv_session s)) \<and>
     dv_queue s x = [] \<and> \<not> dv_checked s x)"

lemmas session_ops = arm_terminal_handoff_def release_submitter_def try_acquire_submitter_def take_terminal_handoff_def
  is_active_submitter_def

text \<open>
  C40. The hand-off does not make the delivery deterministic, as its comments say: no turn that another client watches
  is safe from the scheduler. However orderly everything went before, from any state in which a turn is running and
  neither its submitter nor the other client has anything waiting, the steps can go on so that the submitter is
  written an event of its turn twice, because only the end of a turn is handed off and its task looks at the event
  after the release; so that it is written the end of its turn twice, because another turn has armed the one slot
  before its task gets to it; and so that the other client submits and never gets the end of this turn, because its
  task skips what it finds while it is the submitter.
\<close>

theorem delivery_races:
  assumes "delivered sess s" "\<not> dv_behind s" "watched_turn c c' s"
  defines "t \<equiv> this_turn s"
  shows "(\<exists>s'. deliver_run (late_delta c) s = Some s' \<and>
      count_list (dv_sent s') (c, Delta t 0) = count_list (dv_sent s) (c, Delta t 0) + 2) \<and>
    (\<exists>s'. deliver_run (overtaken c c') s = Some s' \<and> count_list (dv_sent s') (c, Final t) = 2) \<and>
    (\<exists>s'. deliver_run (early_submit c c') s = Some s' \<and> t < length (dv_owners s') - 1 \<and>
      (c', Final t) \<notin> set (dv_sent s') \<and> Final t \<notin> set (dv_queue s' c'))"
proof -
  note ok = delivery_okD [OF delivered_ok [OF assms(1,2)]]
  from assms(3) have r: "dv_drain s = Receiving c" "c \<noteq> c'" "c \<in> set (sh_clients (dv_session s))" "c' \<in> set (sh_clients (dv_session s))"
    "dv_queue s c = []" "dv_queue s c' = []" "\<not> dv_checked s c" "\<not> dv_checked s c'"
    by (simp_all add: watched_turn_def)
  have sub: "sh_submitter (dv_session s) = Some c" "dv_owners s \<noteq> []" using ok(2) r(1) by (simp_all add: drain_ok_def)
  have fresh: "(x, Final t) \<notin> set (dv_sent s)" for x using ok(3) r(1) by (auto simp: turn_open_def nowhere_def t_def)
  have "\<exists>s'. deliver_run (late_delta c) s = Some s' \<and>
      count_list (dv_sent s') (c, Delta t 0) = count_list (dv_sent s) (c, Delta t 0) + 2"
    using r sub by (simp add: late_delta_def session_ops t_def this_turn_def)
  moreover have "\<exists>s'. deliver_run (overtaken c c') s = Some s' \<and> count_list (dv_sent s') (c, Final t) = 2"
    using r sub fresh by (simp add: overtaken_def session_ops t_def this_turn_def count_notin any_ending_def)
  moreover have "\<exists>s'. deliver_run (early_submit c c') s = Some s' \<and> t < length (dv_owners s') - 1 \<and>
      (c', Final t) \<notin> set (dv_sent s') \<and> Final t \<notin> set (dv_queue s' c')"
    using r sub fresh by (simp add: early_submit_def session_ops t_def this_turn_def)
  ultimately show ?thesis by blast
qed

lemma running_turn:
  "map_option (\<lambda>s. (dv_behind s, dv_drain s, sh_clients (dv_session s), map (dv_queue s) [1, 2], map (dv_checked s) [1, 2], dv_owners s))
     (after_run [Attach, Attach, Submit 1]) = Some (False, Receiving 1, [2, 1], [[], []], [False, False], [1])"
  by code_simp

theorem delivery_races_witness:
  "\<exists>s s'. after_run [Attach, Attach, Submit 1] = Some s \<and> deliver_run (overtaken 1 2) s = Some s' \<and>
     count_list (dv_sent s') (1, Final 0) = 2"
proof -
  from running_turn obtain s where s: "after_run [Attach, Attach, Submit 1] = Some s" "\<not> dv_behind s" "dv_drain s = Receiving 1"
    "sh_clients (dv_session s) = [2, 1]" "dv_queue s 1 = []" "dv_queue s 2 = []" "\<not> dv_checked s 1" "\<not> dv_checked s 2" "dv_owners s = [1]"
    by (cases "after_run [Attach, Attach, Submit 1]") auto
  then have "watched_turn 1 2 s" by (simp add: watched_turn_def)
  from delivery_races [OF after_run_delivered [OF s(1)] s(2) this] s(1,9) show ?thesis by (auto simp: this_turn_def)
qed

end
