(* ===== verification/Spec2Isabelle.thy ===== *)
theory Spec2Isabelle
  imports Bao_Fallback Bao_Compaction Bao_Permissions Bao_RuleGate Bao_Executor Bao_ToolExecutor Bao_Protocol
    Bao_FileCache Bao_Cron Bao_QueryPairing Bao_QueryLimits Bao_Tasks Bao_ModelRouter Bao_OpenAiPairing
    Bao_Delivery
begin

text \<open>
  Verification of the core of BaoClaw, the Rust daemon under \<open>src/baoclaw-core\<close>. The daemon runs
  conversations with a language model: a query loop keeps a message history, calls the model with
  retries and fallback models, executes the tool calls of the answers after a permission check,
  compacts the history when it grows, and can run teams of sub-agents. This development models the
  components that carry this logic and leaves the network, process and file effects around them out.

  \<^bold>\<open>Layout.\<close> Every theory opens with what it holds.

  \<^item> \<open>Bao_Prelude\<close>: Rust integers as words, \<open>HashMap\<close> as an association list in iteration order, byte
    strings with their UTF-8 boundaries, and the interfaces shared by the components: the locale
    \<open>keyed_store\<close> (lookup after store and discard), \<open>machine\<close> (operations that keep an invariant) and
    \<open>guarded_machine\<close> (the same for operations that satisfy a guard). Each is interpreted on the model:
    hash maps and the team's shared state are keyed stores; the fallback controller, permission
    contexts, the rule gate and result collections are machines; deny rules and cached grants are
    kept by guarded machines.
  \<^item> \<open>Bao_Fallback\<close> (\<open>api/retry.rs\<close>, \<open>api/fallback.rs\<close>): exponential backoff with saturating \<open>u64\<close>
    arithmetic and the chain of models; the course of a query under rate limits and server errors.
  \<^item> \<open>Bao_Messages\<close> (\<open>models/message.rs\<close>): JSON values, the message types, validation.
  \<^item> \<open>Bao_ToolPairing\<close> (\<open>engine/tool_loop.rs\<close>, \<open>engine/tool_repair.rs\<close>, \<open>engine/abort_helpers.rs\<close>): which
    tool calls and results a history carries, the repair before it is sent, the cleanup after an abort.
  \<^item> \<open>Bao_Compaction\<close> (\<open>engine/compact/strategies.rs\<close>, the estimate of \<open>engine/query_engine.rs\<close>): the split
    point, micro-, session-memory and reactive compaction, and cutting text at character boundaries.
  \<^item> \<open>Bao_Permissions\<close> (\<open>permissions/manager.rs\<close>, \<open>permissions/gate.rs\<close>): rule context, glob matcher,
    decisions, rule maintenance, and the pending interactive prompts.
  \<^item> \<open>Bao_RuleGate\<close> (\<open>engine/permission_gate\<close>): the rule-based gate, its default safety rules, the cache
    of grants with expiry, and the parser of interactive answers.
  \<^item> \<open>Bao_Team\<close>, \<open>Bao_Policy\<close>, \<open>Bao_Scheduler\<close>, \<open>Bao_Executor\<close> (\<open>engine/team/types.rs\<close>, \<open>policy.rs\<close>,
    \<open>scheduler.rs\<close>, \<open>executor.rs\<close>): team data, policies and results, the dependency scheduler, and the
    parallel, sequence and DAG execution modes.

  \<^item> \<open>Bao_Paths\<close> (\<open>tools/builtins/path_utils.rs\<close>): Unix paths, normalisation, and the validation of the
    paths the file tools touch.
  \<^item> \<open>Bao_ToolHealth\<close> (\<open>engine/tool_health.rs\<close>): the counters that degrade and disable failing tools.
  \<^item> \<open>Bao_ToolExecutor\<close> (\<open>tools/executor.rs\<close>, \<open>tools/trait_def.rs\<close>, \<open>infra/tool_result_store.rs\<close>): validation,
    permission check, prompt, grant and call of a tool, batches of calls, and the bounding of outputs.
    The locale \<open>granted_list\<close> states how one-shot and permanent directory grants share a list; it is
    interpreted on the search and on the write directories.
  \<^item> \<open>Bao_Text\<close>: the string functions of Rust's library that parsing rests on. \<open>Bao_Security\<close>
    (\<open>engine/security.rs\<close>): dangerous commands, private addresses, texts unfit for memory.
    \<open>Bao_SessionMemory\<close> (\<open>engine/session_memory.rs\<close>): the rolling summary. \<open>Bao_Tools\<close>: the data of tools.
  \<^item> \<open>Bao_Request\<close> (\<open>engine/api_builder.rs\<close>): what goes into one request to the model. \<open>Bao_Budget\<close>
    (\<open>engine/cost_tracker.rs\<close>, \<open>engine/token_counter.rs\<close>): cost and tokens. \<open>Bao_Stream\<close>
    (\<open>engine/stream_ingest.rs\<close>, \<open>engine/tool_loop.rs\<close>): from server-sent events to an answer. \<open>Bao_Failover\<close>
    (\<open>engine/compact/mod.rs\<close>, \<open>engine/failover.rs\<close>): the state of a query, compaction through the model, one
    call with retries and fallback. \<open>Bao_QueryLoop\<close> (\<open>engine/query_loop.rs\<close>): one iteration (\<open>loop_turn\<close>) and
    the whole query (\<open>run_query_loop\<close>). \<open>Bao_QuerySafety\<close>, \<open>Bao_QueryPairing\<close>, \<open>Bao_QueryLimits\<close>: what
    holds of every query, of the requests it sends, and where it fails to stop.
  \<^item> \<open>Bao_Sse\<close> (\<open>api/client.rs\<close>): the bytes of an answer to its events. \<open>Bao_OpenAi\<close>, \<open>Bao_OpenAiPairing\<close>
    (\<open>api/openai_client.rs\<close>): the conversion of requests to the other format and of its answers back.
    \<open>Bao_ModelRouter\<close> (\<open>engine/model_router\<close>): routing rules and spending budgets. \<open>Bao_Tasks\<close>
    (\<open>engine/task_manager.rs\<close>): background queries, as interleavings of their accesses to the tables.
  \<^item> \<open>Bao_Sessions\<close>, \<open>Bao_Migration\<close> (\<open>engine/session_persistence.rs\<close>): the directory of snapshots, its index,
    archiving, deletion and migration, over a disk that maps paths to nodes. \<open>Bao_SharedSession\<close>
    (\<open>engine/shared_session.rs\<close>, \<open>main.rs\<close>): sessions with several clients and their registry. \<open>Bao_Delivery\<close>
    (\<open>shared_client/session.rs\<close>, \<open>main.rs\<close>): how the events of a turn reach the clients, as a step relation.
  \<^item> \<open>Bao_Protocol\<close> (\<open>ipc/protocol.rs\<close>, \<open>ipc/server.rs\<close>): JSON-RPC messages and their framing.
  \<^item> \<open>Bao_FileCache\<close> (\<open>infra/file_cache.rs\<close>): the cache of read files and its abstract specification.
  \<^item> \<open>Bao_Cron\<close> (\<open>engine/cron.rs\<close>): schedules, the job table and the ticks of the scheduler.

  \<^bold>\<open>Conventions.\<close> A component's state is a record that its operations take and return; locks are
  elided, since every operation holds the lock for its whole body. Errors are \<open>Inl\<close> values or \<open>None\<close>;
  a panic is \<open>None\<close> where a definition says so. The clock, fresh identifiers, the JSON
  printer and parser, the file system, the tools themselves, the \<open>glob\<close> crate, one-shot channels and
  IEEE addition, and which system calls succeed are arguments; what a theorem needs of them is a hypothesis of it. Where operations
  interleave (permission prompts, tool executions), a history is a list of labels, one per atomic step,
  and the theorems hold for every list. Counters keep their width where the
  code relies on it; \<open>usize\<close> values are naturals with the wrap-around of a decrement written out. Loops
  whose end is not structural are \<open>partial_function (option)\<close> (\<open>topo_loop\<close>, \<open>wave_loop\<close>) and proved to
  return, \<open>function\<close>s with a termination proof (\<open>has_cycle_any\<close>, \<open>skip_loop\<close>, \<open>next_boundary\<close>), or driven by
  the list of events of the environment (\<open>dag_loop\<close>: one event per iteration). The query loop takes a
  list of surroundings, one \<open>turn_env\<close> per iteration: clock, abort signal, replies of the API, tools, and is
  still \<open>Looping\<close> when that list ends first; \<open>query_terminates\<close> says how long a list is enough. A double is
  its bit pattern and its arithmetic the record \<open>ieee\<close>; what else the engine asks of its platform is the
  record \<open>engine_platform\<close>. The two loops that strip images from results take fuel, and a lemma shows that
  the size of the value is enough.

  \<^bold>\<open>What is shown.\<close>

  \<^item> Permissions: deny rules dominate every later change that does not delete them; the matcher
    computes the meaning of a pattern; grants and removals are exact; a prompt is answered by the first
    response meant for it. Rule gate: the exact default policy for shell commands, the exact life time of
    a session grant, and the invariant of every history of the gate.
  \<^item> Histories: the repaired history is paired under a condition on mixed turns, and what it leaves unpaired
    otherwise is exact, the abort cleanup restores pairing, compaction does not separate calls from results.
  \<^item> Scheduler: \<open>build\<close> accepts exactly the acyclic graphs with existing dependencies; the topological
    order and the waves are total, complete and respect dependencies and priorities; skipping after a
    failure reaches exactly the right nodes. Executor: sequence mode settles every agent, parallel mode
    does not depend on completion order, and DAG mode, as written, never starts an agent because the
    scheduler it builds has a parallelism of 0.
  \<^item> Tool executor: under every interleaving each call was approved or answered by the user, one-shot
    grants last exactly as long as the execution that holds them, a batch answers every request in order,
    and without a bridge only allowed calls run. Validated paths stay below an allowed directory, except
    that new files escape the symlink check. Health counters add up and follow the thresholds.
  \<^item> Query loop: a query never panics and ends with exactly one result, announced by an error event
    exactly when it failed; with a turn limit it ends within a bound, if the model is polite. A streamed answer is
    reassembled exactly; the calls and results of a request for a turn match, except after a call that times out; the
    cached prefix of the tool list is stable and ends with the only breakpoint. The summary of a compaction through the
    model is in no later request for a turn. The summarising requests of compaction and session memory are modelled
    too, but they carry the history as it is, so the pairing is not claimed for them.
  \<^item> Clients: the events of an answer whose blocks all carry data do not depend on how its bytes are cut, but a
    keep-alive block delays and can lose events; an OpenAI answer cut between characters comes out as its reasoning,
    its text and its last call, one cut inside a character is garbled; converted requests keep pairs.
    Routing picks a best rule. A background task that has settled never changes again.
  \<^item> Sessions: operations on one session leave all others alone, archiving is all or nothing unless a symbolic link
    is in the way, two ids collide with the directory's own files, a failed migration is never completed. A crash loses
    no persisted conversation that is asked for in its directory; a client that switches ends up in exactly one
    session; the end of a turn is written at most once to each connection while the hand-off keeps up, and from any
    watched turn the scheduler can make it fall behind.
  \<^item> Protocol: a stream of messages arrives as it was sent. File cache: it implements a list ordered by
    last use. Cron: durations are exact at \<open>u64\<close>, and a daily job fires once a day as long as the
    intervals of all jobs fit the clock.
  \<^item> Fallback: no history of events makes the controller panic, and the answers to rate limits follow
    the configured retries and chain. Policies restrict tools, results aggregate faithfully, totals and
    budgets are exact.

  \<^bold>\<open>Not modelled.\<close> The team's versioned shared state, the transcript file, the long-term memory store, the
  scheduler's critical path and statistics, and the JSON-RPC handlers that only call the components above. Out of
  scope because they are effects or heuristics: sending HTTP requests, MCP and socket transport, SQLite, telemetry,
  git wrappers, permission bits of files, and the TypeScript front ends.
\<close>

end
